(* ===== verification/Prelude.thy ===== *)
theory Prelude
  imports Main "HOL-Library.Word"
begin

text \<open>
  Shared ground of the development: names for the machine integer types of the C++ code,
  the loop with early exit that every lane loop of the execution units is, the growing
  vector write of the register files, decimal and hexadecimal rendering, and the generic
  lemmas on them.  The collections \<open>mask_simps\<close> (lane masks), \<open>warp_simps\<close> (fields an
  operation leaves alone) and \<open>step_defs\<close> (one definition per micro-operation) are filled
  by the component theories.
\<close>

unbundle bit_operations_syntax

section \<open>Machine integers\<close>

type_synonym u8 = "8 word"
type_synonym u32 = "32 word"
type_synonym u64 = "64 word"

named_theorems mask_simps "pointwise reading of lane masks"
named_theorems warp_simps "fields of the warp state that an operation keeps"
named_theorems step_defs "the definitions of the micro-operations"

lemma bit_u32_bound: "bit (w :: u32) n \<Longrightarrow> n < 32"
  by (drule bit_imp_le_length) simp

lemma u32_eq_zero_iff: "(w :: u32) = 0 \<longleftrightarrow> (\<forall>n < 32. \<not> bit w n)"
  by (auto simp: bit_eq_iff bit_u32_bound)

lemma unat_of_nat_u64: "n < 2 ^ 64 \<Longrightarrow> unat (of_nat n :: u64) = n"
  by (simp add: unat_of_nat)

lemma unat_of_nat_u32: "n < 2 ^ 32 \<Longrightarrow> unat (of_nat n :: u32) = n"
  by (simp add: unat_of_nat)

lemma unat_u64_less: "unat (w :: u64) < 2 ^ 64"
  using unsigned_less [of w] by simp

lemma unat_u32_less: "unat (w :: u32) < 2 ^ 32"
  using unsigned_less [of w] by simp

lemma unat_ucast_32_64 [simp]: "unat (ucast (w :: u32) :: u64) = unat w"
  using unat_u32_less [of w] by (simp add: unsigned_ucast_eq take_bit_nat_eq_self_iff)

lemma unat_add_u64: "unat x + unat y < 2 ^ 64 \<Longrightarrow> unat (x + y :: u64) = unat x + unat y"
  using unat_add_lem [of x y] by simp

section \<open>Loops with early exit\<close>

text \<open>
  \<open>loop_e f xs s\<close> runs the body \<open>f\<close> over the elements of \<open>xs\<close>, threading the state; a
  body that returns an error ends the loop at once, with the state it has built so far, as
  the \<open>return\<close> inside a C++ \<open>for\<close> does.
\<close>

fun loop_e :: "('a \<Rightarrow> 's \<Rightarrow> 's \<times> 'e option) \<Rightarrow> 'a list \<Rightarrow> 's \<Rightarrow> 's \<times> 'e option" where
  "loop_e f [] s = (s, None)"
| "loop_e f (x # xs) s =
     (case f x s of
        (s', Some e) \<Rightarrow> (s', Some e)
      | (s', None) \<Rightarrow> loop_e f xs s')"

lemma loop_e_append:
  "loop_e f (xs @ ys) s =
     (case loop_e f xs s of
        (s', Some e) \<Rightarrow> (s', Some e)
      | (s', None) \<Rightarrow> loop_e f ys s')"
  by (induction xs arbitrary: s) (auto split: prod.splits option.splits)

text \<open>The invariant rule: what every body keeps, the loop keeps, errors included.\<close>

lemma loop_e_invariant:
  assumes "P s"
    and "\<And>x s. x \<in> set xs \<Longrightarrow> P s \<Longrightarrow> P (fst (f x s))"
  shows "P (fst (loop_e f xs s))"
  using assms
proof (induction xs arbitrary: s)
  case Nil
  then show ?case by simp
next
  case (Cons x xs)
  have step: "P (fst (f x s))" using Cons.prems by simp
  have rec: "P (fst (loop_e f xs s'))" if "P s'" for s'
    by (rule Cons.IH [OF that]) (simp add: Cons.prems(2))
  show ?case
    using step rec by (auto split: prod.splits option.splits)
qed

lemma loop_e_keeps:
  assumes "\<And>x s. x \<in> set xs \<Longrightarrow> g (fst (f x s)) = g s"
  shows "g (fst (loop_e f xs s)) = g s"
  by (rule loop_e_invariant [where P = "\<lambda>s'. g s' = g s"]) (simp_all add: assms)

lemma loop_e_no_error:
  assumes "\<And>x s. x \<in> set xs \<Longrightarrow> snd (f x s) = None"
  shows "loop_e f xs s = (fold (\<lambda>x s. fst (f x s)) xs s, None)"
  using assms
proof (induction xs arbitrary: s)
  case Nil
  then show ?case by simp
next
  case (Cons x xs)
  have "snd (f x s) = None" using Cons.prems by simp
  then obtain s' where "f x s = (s', None)" by (cases "f x s") simp
  then show ?case using Cons by simp
qed

lemma loop_e_cong:
  "(\<And>x s. x \<in> set xs \<Longrightarrow> f x s = g x s) \<Longrightarrow> loop_e f xs s = loop_e g xs s"
  by (induction xs arbitrary: s) (auto split: prod.splits option.splits)

section \<open>Growing vectors\<close>

text \<open>
  \<open>if (idx >= v.size()) v.resize(idx + 1); v[idx] = x;\<close>: the new cells in between are
  value-initialised, here with \<open>0\<close>.  A read past the end gives \<open>0\<close> in the code, so the
  growth cannot be seen by a reader.
\<close>

definition vec_put :: "'a::zero list \<Rightarrow> nat \<Rightarrow> 'a \<Rightarrow> 'a list" where
  "vec_put v i x =
     (if i < length v then v[i := x] else v @ replicate (i - length v) 0 @ [x])"

definition vec_get :: "'a::zero list \<Rightarrow> nat \<Rightarrow> 'a" where
  "vec_get v i = (if i < length v then v ! i else 0)"

lemma vec_get_put: "vec_get (vec_put v i x) j = (if j = i then x else vec_get v j)"
  by (auto simp: vec_get_def vec_put_def nth_append not_less less_Suc_eq)

lemma vec_put_length: "length (vec_put v i x) = max (length v) (Suc i)"
  by (auto simp: vec_put_def)

lemma vec_put_same_length: "i < length v \<Longrightarrow> length (vec_put v i x) = length v"
  by (simp add: vec_put_def)

section \<open>Errors as values\<close>

text \<open>Sequencing of fallible computations and the fallible map over a list.\<close>

fun e_bind :: "'e + 'a \<Rightarrow> ('a \<Rightarrow> 'e + 'b) \<Rightarrow> 'e + 'b" where
  "e_bind (Inl e) f = Inl e"
| "e_bind (Inr x) f = f x"

fun map_e :: "('a \<Rightarrow> 'e + 'b) \<Rightarrow> 'a list \<Rightarrow> 'e + 'b list" where
  "map_e f [] = Inr []"
| "map_e f (x # xs) = e_bind (f x) (\<lambda>y. e_bind (map_e f xs) (\<lambda>ys. Inr (y # ys)))"

lemma e_bind_Inr_iff: "e_bind m f = Inr y \<longleftrightarrow> (\<exists>x. m = Inr x \<and> f x = Inr y)"
  by (cases m) auto

lemma e_bind_Inl_iff: "e_bind m f = Inl e \<longleftrightarrow> m = Inl e \<or> (\<exists>x. m = Inr x \<and> f x = Inl e)"
  by (cases m) auto

lemma map_e_Inr_iff: "map_e f xs = Inr ys \<longleftrightarrow> map f xs = map Inr ys"
  by (induction xs arbitrary: ys) (auto simp: e_bind_Inr_iff Cons_eq_map_conv)

lemma e_bind_cong [fundef_cong]:
  "m = m' \<Longrightarrow> (\<And>x. m' = Inr x \<Longrightarrow> f x = g x) \<Longrightarrow> e_bind m f = e_bind m' g"
  by (cases m') auto

section \<open>Numbers as text\<close>

text \<open>\<open>std::to_string\<close> on an unsigned value.\<close>

fun dec_string :: "nat \<Rightarrow> string" where
  "dec_string n =
     (if n < 10 then [char_of (48 + n)]
      else dec_string (n div 10) @ [char_of (48 + n mod 10)])"

declare dec_string.simps [simp del]

definition dec_string_int :: "int \<Rightarrow> string" where
  "dec_string_int i = (if i < 0 then CHR ''-'' # dec_string (nat (- i)) else dec_string (nat i))"

definition hex_digit :: "nat \<Rightarrow> char" where
  "hex_digit d = (if d < 10 then char_of (48 + d) else char_of (87 + d))"

fun hex_digits :: "nat \<Rightarrow> nat \<Rightarrow> string" where
  "hex_digits 0 n = []"
| "hex_digits (Suc k) n = hex_digits k (n div 16) @ [hex_digit (n mod 16)]"

lemma hex_digits_length: "length (hex_digits k n) = k"
  by (induction k arbitrary: n) auto

lemma hex_digit_inj:
  assumes "a < 16" and "b < 16" and "hex_digit a = hex_digit b"
  shows "a = b"
proof -
  have "of_char (hex_digit n) = (if n < 10 then 48 + n else 87 + n)" if "n < 16" for n :: nat
    using that by (simp add: hex_digit_def of_char_of)
  moreover have "of_char (hex_digit a) = (of_char (hex_digit b) :: nat)" using assms(3) by simp
  ultimately show ?thesis using assms(1,2) by (simp split: if_splits)
qed

end
