(* ===== verification/Contracts.thy ===== *)
theory Contracts
  imports Prelude
begin

text \<open>
  The types that every module shares (\<open>include/gpusim/contracts.h\<close>, \<open>abi.h\<close>) and the
  functions on them (\<open>src/common/contracts.cpp\<close>).  A 64-bit signed field (a PC, a register
  id, an immediate) is an \<open>int\<close>: the code compares such fields and adds 1 to a PC that is
  smaller than a vector's size, and where it converts one to an unsigned type the model
  applies \<open>of_int\<close>, which wraps as the C++ conversion does.
\<close>

section \<open>Enumerations and records\<close>

type_synonym pc_t = int

datatype addr_space = Global | Shared | Local | Const | Param

datatype value_type = U32 | S32 | U64 | S64 | F32

record lane_mask =
  lm_width :: u32
  lm_bits :: u32

record dim3 =
  dim_x :: u32
  dim_y :: u32
  dim_z :: u32

record launch_config =
  grid_dim :: dim3
  block_dim :: dim3
  launch_warp_size :: u32

record source_location =
  loc_file :: string
  loc_line :: int
  loc_column :: int

record diagnostic =
  d_module :: string
  d_code :: string
  d_message :: string
  d_location :: "source_location option"
  d_function :: "string option"
  d_inst_index :: "int option"

datatype operand_kind = KReg | KPred | KImm | KAddr | KSymbol | KSpecial

record operand =
  o_kind :: operand_kind
  o_type :: value_type
  o_reg_id :: int
  o_pred_id :: int
  o_imm :: int
  o_symbol :: string
  o_special :: string

definition operand_default :: operand where
  "operand_default =
     \<lparr>o_kind = KImm, o_type = U32, o_reg_id = -1, o_pred_id = -1, o_imm = 0,
      o_symbol = [], o_special = []\<rparr>"

record pred_guard =
  pg_pred_id :: int
  pg_negated :: bool

record inst_mods =
  m_type_mod :: string
  m_space :: string
  m_flags :: "string list"

record inst_record =
  i_opcode :: string
  i_mods :: inst_mods
  i_pred :: "pred_guard option"
  i_operands :: "operand list"
  i_dbg :: "source_location option"

datatype micro_op_kind = Exec | Control | Mem

datatype micro_op_op =
  Mov | Cvt | Add | Mul | Shl | Shfl | Fma | WarpReduceAdd | Setp | Ld | St | Bra | Ret

record micro_op_attrs =
  a_type :: value_type
  a_space :: addr_space
  a_flags :: "string list"

record micro_op =
  u_kind :: micro_op_kind
  u_op :: micro_op_op
  u_inputs :: "operand list"
  u_outputs :: "operand list"
  u_attrs :: micro_op_attrs
  u_guard :: lane_mask

datatype blocked_reason = NotBlocked | BlockedBarrier | BlockedMem | BlockedDependency | BlockedError

record step_result =
  r_progressed :: bool
  r_warp_done :: bool
  r_blocked :: blocked_reason
  r_diag :: "diagnostic option"
  r_next_pc :: "pc_t option"

definition step_result_default :: step_result where
  "step_result_default =
     \<lparr>r_progressed = False, r_warp_done = False, r_blocked = NotBlocked, r_diag = None,
      r_next_pc = None\<rparr>"

definition mk_diag :: "string \<Rightarrow> string \<Rightarrow> string \<Rightarrow> diagnostic" where
  "mk_diag m c msg =
     \<lparr>d_module = m, d_code = c, d_message = msg, d_location = None, d_function = None,
      d_inst_index = None\<rparr>"

text \<open>The three shapes a unit returns: an error, an idle step, and a finished one.\<close>

definition step_error :: "diagnostic \<Rightarrow> step_result" where
  "step_error d = step_result_default\<lparr>r_blocked := BlockedError, r_diag := Some d\<rparr>"

definition step_ok :: step_result where
  "step_ok = step_result_default\<lparr>r_progressed := True\<rparr>"

lemma step_error_sel [simp]:
  "r_diag (step_error d) = Some d" "r_next_pc (step_error d) = None"
  "r_progressed (step_error d) = False" "r_blocked (step_error d) = BlockedError"
  "r_warp_done (step_error d) = False"
  by (simp_all add: step_error_def step_result_default_def)

lemma step_ok_sel [simp]:
  "r_diag step_ok = None" "r_next_pc step_ok = None" "r_progressed step_ok = True"
  "r_warp_done step_ok = False"
  by (simp_all add: step_ok_def step_result_default_def)

section \<open>Lane masks\<close>

definition lane_mask_all :: "u32 \<Rightarrow> lane_mask" where
  "lane_mask_all warp_size =
     \<lparr>lm_width = warp_size,
      lm_bits =
        (if warp_size \<ge> 32 then 0xFFFFFFFF
         else if warp_size = 0 then 0 else push_bit (unat warp_size) 1 - 1)\<rparr>"

definition lane_mask_and :: "lane_mask \<Rightarrow> lane_mask \<Rightarrow> lane_mask" where
  "lane_mask_and a b = \<lparr>lm_width = lm_width a, lm_bits = lm_bits a AND lm_bits b\<rparr>"

definition lane_mask_test :: "lane_mask \<Rightarrow> nat \<Rightarrow> bool" where
  "lane_mask_test m lane =
     (if lane \<ge> unat (lm_width m) then False
      else if lane \<ge> 32 then False
      else drop_bit lane (lm_bits m) AND 1 \<noteq> 0)"

definition lane_mask_to_hex :: "lane_mask \<Rightarrow> string" where
  "lane_mask_to_hex m = ''0x'' @ hex_digits 8 (unat (lm_bits m))"

text \<open>The lanes of a mask as a set: its bits, all below 32.\<close>

definition lanes_of :: "lane_mask \<Rightarrow> nat set" where
  "lanes_of m = {l. bit (lm_bits m) l}"

definition mask_wf :: "lane_mask \<Rightarrow> bool" where
  "mask_wf m \<longleftrightarrow> (\<forall>l. bit (lm_bits m) l \<longrightarrow> l < unat (lm_width m))"

text \<open>The body of every lane loop runs for these lanes, in this order.\<close>

definition active_lanes :: "lane_mask \<Rightarrow> nat list" where
  "active_lanes m = filter (lane_mask_test m) [0..<min (unat (lm_width m)) 32]"

lemma lane_mask_test_iff [mask_simps]:
  "lane_mask_test m l \<longleftrightarrow> l < unat (lm_width m) \<and> l < 32 \<and> bit (lm_bits m) l"
  by (auto simp: lane_mask_test_def bit_iff_odd_drop_bit and_one_eq odd_iff_mod_2_eq_one)

lemma lane_mask_and_sel [simp]:
  "lm_width (lane_mask_and a b) = lm_width a"
  "lm_bits (lane_mask_and a b) = lm_bits a AND lm_bits b"
  by (simp_all add: lane_mask_and_def)

lemma lanes_of_and [mask_simps]: "lanes_of (lane_mask_and a b) = lanes_of a \<inter> lanes_of b"
  by (auto simp: lanes_of_def bit_and_iff)

lemma lanes_of_empty_iff: "lanes_of m = {} \<longleftrightarrow> lm_bits m = 0"
  by (auto simp: lanes_of_def u32_eq_zero_iff dest: bit_u32_bound)

lemma lanes_of_bound: "l \<in> lanes_of m \<Longrightarrow> l < 32"
  by (simp add: lanes_of_def bit_u32_bound)

lemma finite_lanes_of [simp]: "finite (lanes_of m)"
  by (rule finite_subset [of _ "{..<32}"]) (auto dest: lanes_of_bound)

lemma lane_mask_test_wf: "mask_wf m \<Longrightarrow> lane_mask_test m l \<longleftrightarrow> l \<in> lanes_of m"
  by (auto simp: lane_mask_test_iff mask_wf_def lanes_of_def bit_u32_bound)

lemma set_active_lanes: "set (active_lanes m) = {l. lane_mask_test m l}"
  by (auto simp: active_lanes_def lane_mask_test_iff)

lemma distinct_active_lanes [simp]: "distinct (active_lanes m)"
  by (simp add: active_lanes_def)

lemma sorted_active_lanes: "sorted_wrt (<) (active_lanes m)"
  unfolding active_lanes_def by (rule sorted_wrt_filter) (simp add: strict_sorted_iff)

lemma bit_low_ones: "bit (push_bit n 1 - 1 :: u32) l \<longleftrightarrow> l < n \<and> l < 32"
proof -
  have "push_bit n 1 - 1 = (mask n :: u32)" by (simp add: mask_eq_decr_exp push_bit_eq_mult)
  then show ?thesis by (auto simp: bit_mask_iff)
qed

lemma bit_all_ones: "bit (0xFFFFFFFF :: u32) l \<longleftrightarrow> l < 32"
proof -
  have "(0xFFFFFFFF :: u32) = - 1" by simp
  then show ?thesis by (simp only: bit_minus_1_iff) simp
qed

lemma lanes_of_all [mask_simps]: "lanes_of (lane_mask_all ws) = {l. l < unat ws \<and> l < 32}"
proof -
  consider "ws \<ge> 32" | "ws = 0" | "ws < 32" "ws \<noteq> 0" by fastforce
  then show ?thesis
  proof cases
    case 1
    then have le: "32 \<le> unat ws" by (simp add: word_le_nat_alt)
    have ones: "lm_bits (lane_mask_all ws) = 0xFFFFFFFF"
      using 1 by (simp add: lane_mask_all_def)
    have eq: "lanes_of (lane_mask_all ws) = {l. l < 32}"
      unfolding lanes_of_def ones by (rule Collect_cong) (rule bit_all_ones)
    have "l < unat ws \<and> l < 32 \<longleftrightarrow> l < 32" for l using le by linarith
    then show ?thesis unfolding eq by blast
  next
    case 2
    then show ?thesis by (simp add: lanes_of_def lane_mask_all_def)
  next
    case 3
    then have bits: "lm_bits (lane_mask_all ws) = push_bit (unat ws) 1 - 1"
      by (simp only: lane_mask_all_def lane_mask.select_convs not_le [symmetric] if_False)
    show ?thesis unfolding lanes_of_def bits by (rule Collect_cong) (rule bit_low_ones)
  qed
qed

section \<open>Names of types and categories\<close>

definition parse_value_type :: "string \<Rightarrow> value_type" where
  "parse_value_type type_mod =
     (if type_mod = ''u32'' then U32
      else if type_mod = ''s32'' then S32
      else if type_mod = ''b32'' then U32
      else if type_mod = ''u64'' then U64
      else if type_mod = ''s64'' then S64
      else if type_mod = ''b64'' then U64
      else if type_mod = ''f32'' then F32
      else U32)"

datatype event_category = EvStream | EvCopy | EvFetch | EvExec | EvCtrl | EvMem | EvCommit

fun category_to_string :: "event_category \<Rightarrow> string" where
  "category_to_string EvStream = ''STREAM''"
| "category_to_string EvCopy = ''COPY''"
| "category_to_string EvFetch = ''FETCH''"
| "category_to_string EvExec = ''EXEC''"
| "category_to_string EvCtrl = ''CTRL''"
| "category_to_string EvMem = ''MEM''"
| "category_to_string EvCommit = ''COMMIT''"

fun is_wide :: "value_type \<Rightarrow> bool" where
  "is_wide U64 = True"
| "is_wide S64 = True"
| "is_wide _ = False"

end
