(* ===== verification/Bytes.thy ===== *)
theory Bytes
  imports Contracts
begin

text \<open>
  Little-endian packing of register values (\<open>pack_le\<close>, \<open>unpack_le\<close>, \<open>type_size\<close> of
  \<open>src/units/mem_unit.cpp\<close>) and byte-addressed memories: the interface that the load/store
  unit and the copy operations of the runtime rely on, with the facts they need proved once.
\<close>

section \<open>Little-endian values\<close>

definition pack_le :: "u64 \<Rightarrow> nat \<Rightarrow> u8 list" where
  "pack_le v sz = map (\<lambda>i. ucast (drop_bit (8 * i) v AND 0xFF)) [0..<sz]"

definition unpack_le :: "u8 list \<Rightarrow> u64" where
  "unpack_le bytes =
     fold (\<lambda>i v. v OR push_bit (8 * i) (ucast (bytes ! i))) [0..<min (length bytes) 8] 0"

fun type_size :: "value_type \<Rightarrow> u64" where
  "type_size U32 = 4"
| "type_size S32 = 4"
| "type_size F32 = 4"
| "type_size U64 = 8"
| "type_size S64 = 8"

lemma length_pack_le [simp]: "length (pack_le v n) = n"
  by (simp add: pack_le_def)

lemma type_size_cases: "unat (type_size t) = 4 \<or> unat (type_size t) = 8"
  by (cases t) simp_all

lemma bit_pack_le:
  assumes "i < n"
  shows "bit (pack_le v n ! i) k \<longleftrightarrow> k < 8 \<and> bit v (8 * i + k)"
proof -
  have m: "(0xFF :: u64) = mask 8" by (simp add: mask_eq_exp_minus_1)
  show ?thesis using assms
    unfolding pack_le_def m
    by (auto simp: bit_simps nth_append simp flip: mask_eq_exp_minus_1 dest: bit_imp_le_length)
qed

lemma bit_unpack_le_upto:
  assumes "n \<le> 8"
  shows "bit (fold (\<lambda>i v. v OR push_bit (8 * i) (ucast (bs ! i))) [0..<n] (0 :: u64)) k
     \<longleftrightarrow> k div 8 < n \<and> bit (bs ! (k div 8) :: u8) (k mod 8)"
  using assms
proof (induction n)
  case 0
  then show ?case by simp
next
  case (Suc n)
  have "bit (push_bit (8 * n) (ucast (bs ! n :: u8)) :: u64) k
      \<longleftrightarrow> k div 8 = n \<and> bit (bs ! n) (k mod 8)"
  proof -
    have "bit (push_bit (8 * n) (ucast (bs ! n :: u8)) :: u64) k
        \<longleftrightarrow> 8 * n \<le> k \<and> k < 64 \<and> bit (bs ! n) (k - 8 * n)"
      by (auto simp: bit_simps)
    also have "\<dots> \<longleftrightarrow> 8 * n \<le> k \<and> k - 8 * n < 8 \<and> bit (bs ! n) (k - 8 * n)"
      using Suc.prems bit_imp_le_length [of "bs ! n" "k - 8 * n"] by auto
    also have "\<dots> \<longleftrightarrow> k div 8 = n \<and> bit (bs ! n) (k mod 8)"
    proof (cases "k div 8 = n")
      case True
      then have "k = 8 * n + k mod 8" by (metis mult_div_mod_eq)
      then have "k - 8 * n = k mod 8" "8 * n \<le> k" by linarith+
      with True show ?thesis by simp
    next
      case False
      have "\<not> (8 * n \<le> k \<and> k - 8 * n < 8)"
      proof
        assume "8 * n \<le> k \<and> k - 8 * n < 8"
        then have "k div 8 = n" by (intro div_nat_eqI) auto
        with False show False by simp
      qed
      with False show ?thesis by blast
    qed
    finally show ?thesis .
  qed
  with Suc show ?case by (auto simp: bit_or_iff less_Suc_eq)
qed

lemma bit_unpack_le:
  "bit (unpack_le bs) k \<longleftrightarrow> k div 8 < min (length bs) 8 \<and> bit (bs ! (k div 8)) (k mod 8)"
  unfolding unpack_le_def by (rule bit_unpack_le_upto) simp

lemma unpack_pack_le:
  assumes "n \<le> 8"
  shows "unpack_le (pack_le v n) = take_bit (8 * n) v"
proof (rule bit_eqI)
  fix k :: nat
  have eq: "8 * (k div 8) + k mod 8 = k" by simp
  have "bit (unpack_le (pack_le v n)) k \<longleftrightarrow> k div 8 < n \<and> bit v k"
    using assms by (auto simp: bit_unpack_le bit_pack_le eq)
  also have "\<dots> \<longleftrightarrow> k < 8 * n \<and> bit v k"
    by (auto simp: div_less_iff_less_mult mult.commute)
  finally show "bit (unpack_le (pack_le v n)) k = bit (take_bit (8 * n) v) k"
    by (simp add: bit_take_bit_iff)
qed

section \<open>Byte-addressed memories\<close>

text \<open>
  The addresses of a range of \<open>n\<close> bytes at \<open>a\<close>, with the wrap-around of 64-bit addresses,
  and the byte loop that stores a list.
\<close>

definition addr_range :: "u64 \<Rightarrow> nat \<Rightarrow> u64 set" where
  "addr_range a n = (\<lambda>i. a + of_nat i) ` {..<n}"

fun store_bytes :: "(u64 \<rightharpoonup> u8) \<Rightarrow> u64 \<Rightarrow> u8 list \<Rightarrow> (u64 \<rightharpoonup> u8)" where
  "store_bytes m a [] = m"
| "store_bytes m a (b # bs) = store_bytes (m(a \<mapsto> b)) (a + 1) bs"

definition load_bytes :: "(u64 \<rightharpoonup> u8) \<Rightarrow> u64 \<Rightarrow> nat \<Rightarrow> u8 list" where
  "load_bytes m a n =
     map (\<lambda>i. case m (a + of_nat i) of None \<Rightarrow> 0 | Some b \<Rightarrow> b) [0..<n]"

lemma length_load_bytes [simp]: "length (load_bytes m a n) = n"
  by (simp add: load_bytes_def)

lemma addr_range_Suc: "addr_range a (Suc n) = insert a (addr_range (a + 1) n)"
  unfolding addr_range_def lessThan_Suc_eq_insert_0
  by (simp add: image_image add.assoc)

lemma addr_range_0 [simp]: "addr_range a 0 = {}"
  by (simp add: addr_range_def)

lemma addr_notin_next:
  assumes "n < 2 ^ 64"
  shows "a \<notin> addr_range (a + 1) n"
proof
  assume "a \<in> addr_range (a + 1) n"
  then obtain i where i: "i < n" "a = a + 1 + of_nat i" by (auto simp: addr_range_def)
  then have "(of_nat (Suc i) :: u64) = 0" by (simp add: add.assoc)
  then have "2 ^ 64 dvd Suc i" by (simp only: word_of_nat_eq_0_iff) simp
  with i assms show False by (auto dest: dvd_imp_le)
qed

lemma store_bytes_other: "x \<notin> addr_range a (length bs) \<Longrightarrow> store_bytes m a bs x = m x"
proof (induction bs arbitrary: m a)
  case Nil
  then show ?case by simp
next
  case (Cons b bs)
  then show ?case by (simp add: addr_range_Suc)
qed

lemma store_bytes_nth:
  assumes "length bs \<le> 2 ^ 64" and "i < length bs"
  shows "store_bytes m a bs (a + of_nat i) = Some (bs ! i)"
  using assms
proof (induction bs arbitrary: m a i)
  case Nil
  then show ?case by simp
next
  case (Cons b bs)
  show ?case
  proof (cases i)
    case 0
    have "a \<notin> addr_range (a + 1) (length bs)" by (rule addr_notin_next) (use Cons.prems in simp)
    then show ?thesis using 0 by (simp add: store_bytes_other)
  next
    case (Suc j)
    have "store_bytes (m(a \<mapsto> b)) (a + 1) bs (a + 1 + of_nat j) = Some (bs ! j)"
      by (rule Cons.IH) (use Cons.prems Suc in simp_all)
    then show ?thesis using Suc by (simp add: add.assoc)
  qed
qed

lemma load_store_same:
  "length bs \<le> 2 ^ 64 \<Longrightarrow> load_bytes (store_bytes m a bs) a (length bs) = bs"
  by (rule nth_equalityI) (simp_all add: load_bytes_def store_bytes_nth)

lemma load_store_other:
  assumes "addr_range a (length bs) \<inter> addr_range b n = {}"
  shows "load_bytes (store_bytes m a bs) b n = load_bytes m b n"
proof -
  have "store_bytes m a bs (b + of_nat i) = m (b + of_nat i)" if "i < n" for i
  proof (rule store_bytes_other)
    have "b + of_nat i \<in> addr_range b n" using that by (auto simp: addr_range_def)
    with assms show "b + of_nat i \<notin> addr_range a (length bs)" by blast
  qed
  then show ?thesis by (simp add: load_bytes_def)
qed

section \<open>The interface of a byte memory\<close>

text \<open>
  What the load/store unit and the copies rely on: a write that succeeds is read back,
  leaves every disjoint range alone and keeps what can be read; a read gives as many bytes
  as were asked for.  The global memory of the memory model and the sparse local memory of
  the load/store unit both provide it.
\<close>

locale byte_memory =
  fixes wr :: "'m \<Rightarrow> u64 \<Rightarrow> u8 list \<Rightarrow> 'm \<times> bool"
    and rd :: "'m \<Rightarrow> u64 \<Rightarrow> u64 \<Rightarrow> u8 list option"
  assumes rd_length: "rd m a n = Some bs \<Longrightarrow> length bs = unat n"
    and wr_same: "wr m a bs = (m', True) \<Longrightarrow> length bs < 2 ^ 64 \<Longrightarrow>
      rd m' a (of_nat (length bs)) = Some bs"
    and wr_other: "wr m a bs = (m', True) \<Longrightarrow>
      addr_range a (length bs) \<inter> addr_range b (unat n) = {} \<Longrightarrow> rd m' b n = rd m b n"
    and wr_fail: "wr m a bs = (m', False) \<Longrightarrow> m' = m"
    and wr_ok_iff: "length bs < 2 ^ 64 \<Longrightarrow>
      snd (wr m a bs) \<longleftrightarrow> rd m a (of_nat (length bs)) \<noteq> None"
begin

text \<open>Storing a value in \<open>n\<close> bytes and loading it back truncates it to those bytes.\<close>

lemma store_load_le:
  assumes "wr m a (pack_le v n) = (m', True)" and "n \<le> 8"
  shows "map_option unpack_le (rd m' a (of_nat n)) = Some (take_bit (8 * n) v)"
proof -
  have "rd m' a (of_nat (length (pack_le v n))) = Some (pack_le v n)"
    by (rule wr_same [OF assms(1)]) (use assms(2) in simp)
  then show ?thesis using assms(2) by (simp add: unpack_pack_le)
qed

text \<open>A copy makes the destination read as the source did, and keeps every range it does not touch.\<close>

lemma copy_reads_source:
  assumes "rd m src n = Some bs" and "wr m dst bs = (m', True)"
  shows "rd m' dst n = rd m src n"
    and "addr_range dst (unat n) \<inter> addr_range b (unat k) = {} \<Longrightarrow> rd m' b k = rd m b k"
proof -
  have len: "length bs = unat n" by (rule rd_length [OF assms(1)])
  moreover have "unat n < 2 ^ 64" by (rule unat_u64_less)
  ultimately have "rd m' dst (of_nat (length bs)) = Some bs"
    by (intro wr_same [OF assms(2)]) simp
  then show "rd m' dst n = rd m src n" using len assms(1) by simp
  show "addr_range dst (unat n) \<inter> addr_range b (unat k) = {} \<Longrightarrow> rd m' b k = rd m b k"
    using wr_other [OF assms(2), of b k] len by simp
qed

text \<open>A write that is refused says that the range cannot be read either.\<close>

lemma refused_write:
  assumes "wr m a bs = (m', False)" and "length bs < 2 ^ 64"
  shows "m' = m \<and> rd m a (of_nat (length bs)) = None"
  using wr_fail [OF assms(1)] wr_ok_iff [OF assms(2), of m a] assms(1) by simp

end

end
