(* ===== verification/Memory.thy ===== *)
theory Memory
  imports Bytes
begin

text \<open>
  The memory model \<open>AddrSpaceManager\<close> (\<open>src/memory/memory.cpp\<close>, \<open>include/gpusim/memory.h\<close>)
  with the parameter descriptions of \<open>include/gpusim/abi.h\<close>.  The mutex makes every operation
  atomic, so an operation is a function on the state; \<open>std::unordered_map\<close> is a map.
\<close>

datatype param_type = ParamU32 | ParamU64

record param_desc =
  pd_name :: string
  pd_type :: param_type
  pd_size :: u32
  pd_align :: u32
  pd_offset :: u32

record kernel_args =
  ka_layout :: "param_desc list"
  ka_blob :: "u8 list"

record allocation =
  al_base :: u64
  al_size :: u64

record addr_space_manager =
  next_global_addr :: u64
  allocs :: "allocation list"
  global_bytes :: "u64 \<rightharpoonup> u8"
  param_layout :: "string \<rightharpoonup> param_desc"
  param_blob :: "u8 list"

definition manager_init :: addr_space_manager where
  "manager_init =
     \<lparr>next_global_addr = 0x1000, allocs = [], global_bytes = Map.empty,
      param_layout = Map.empty, param_blob = []\<rparr>"

definition align_up :: "u64 \<Rightarrow> u64 \<Rightarrow> u64" where
  "align_up v a =
     (if a = 0 then v
      else let r = v mod a in if r = 0 then v else v + (a - r))"

definition alloc_covers :: "allocation \<Rightarrow> u64 \<Rightarrow> u64 \<Rightarrow> bool" where
  "alloc_covers a addr end_addr =
     (let a_end = al_base a + al_size a
      in if a_end < al_base a then False else addr \<ge> al_base a \<and> end_addr \<le> a_end)"

definition global_range_allocated :: "addr_space_manager \<Rightarrow> u64 \<Rightarrow> u64 \<Rightarrow> bool" where
  "global_range_allocated m addr sz =
     (if sz = 0 then True
      else let end_addr = addr + sz
           in if end_addr < addr then False
              else list_ex (\<lambda>a. alloc_covers a addr end_addr) (allocs m))"

definition alloc_global :: "addr_space_manager \<Rightarrow> u64 \<Rightarrow> u64 \<Rightarrow> addr_space_manager \<times> u64" where
  "alloc_global m bytes align0 =
     (let align = (if align0 = 0 then 1 else align0);
          base = align_up (next_global_addr m) align
      in (m\<lparr>next_global_addr := base + max bytes 1,
            allocs := allocs m @ [\<lparr>al_base = base, al_size = bytes\<rparr>]\<rparr>, base))"

definition write_global :: "addr_space_manager \<Rightarrow> u64 \<Rightarrow> u8 list \<Rightarrow> addr_space_manager \<times> bool" where
  "write_global m addr bytes =
     (if \<not> global_range_allocated m addr (of_nat (length bytes)) then (m, False)
      else (m\<lparr>global_bytes := store_bytes (global_bytes m) addr bytes\<rparr>, True))"

definition read_global :: "addr_space_manager \<Rightarrow> u64 \<Rightarrow> u64 \<Rightarrow> u8 list option" where
  "read_global m addr sz =
     (if \<not> global_range_allocated m addr sz then None
      else Some (load_bytes (global_bytes m) addr (unat sz)))"

text \<open>\<open>emplace\<close> keeps the first description of a name.\<close>

definition set_param_layout :: "addr_space_manager \<Rightarrow> param_desc list \<Rightarrow> addr_space_manager" where
  "set_param_layout m layout =
     m\<lparr>param_layout :=
         fold (\<lambda>p l. if pd_name p \<in> dom l then l else l(pd_name p \<mapsto> p)) layout Map.empty\<rparr>"

definition set_param_blob :: "addr_space_manager \<Rightarrow> u8 list \<Rightarrow> addr_space_manager" where
  "set_param_blob m blob = m\<lparr>param_blob := blob\<rparr>"

text \<open>
  The bound is compared after a 64-bit addition.  The offset is a 32-bit value, so the sum
  wraps only for sizes of almost \<open>2 ^ 64\<close>; the load unit asks for 4 or 8 bytes.
\<close>

definition read_param_symbol :: "addr_space_manager \<Rightarrow> string \<Rightarrow> u64 \<Rightarrow> u8 list option" where
  "read_param_symbol m name sz =
     (case param_layout m name of
        None \<Rightarrow> None
      | Some p \<Rightarrow>
          let off = (ucast (pd_offset p) :: u64)
          in if unat (off + sz) > length (param_blob m) then None
             else Some (map (\<lambda>i. param_blob m ! unat (off + of_nat i)) [0..<unat sz]))"

section \<open>Global memory as a byte memory\<close>

lemma write_global_frame:
  "next_global_addr (fst (write_global m a bs)) = next_global_addr m"
  "allocs (fst (write_global m a bs)) = allocs m"
  "param_layout (fst (write_global m a bs)) = param_layout m"
  "param_blob (fst (write_global m a bs)) = param_blob m"
  by (simp_all add: write_global_def)

lemma global_range_allocated_allocs:
  "allocs m' = allocs m \<Longrightarrow> global_range_allocated m' a n = global_range_allocated m a n"
  by (simp add: global_range_allocated_def)

interpretation glob: byte_memory write_global read_global
proof (unfold_locales, goal_cases)
  case (1 m a n bs)
  then show ?case by (auto simp: read_global_def split: if_splits)
next
  case (2 m a bs m')
  then have al: "global_range_allocated m a (of_nat (length bs))"
    and m': "m' = m\<lparr>global_bytes := store_bytes (global_bytes m) a bs\<rparr>"
    by (auto simp: write_global_def split: if_splits)
  have len: "unat (of_nat (length bs) :: u64) = length bs"
    by (rule unat_of_nat_u64) (use 2 in simp)
  have "global_range_allocated m' a (of_nat (length bs))"
    using al global_range_allocated_allocs [of m' m] by (simp add: m')
  then show ?case using 2 by (simp add: read_global_def len load_store_same m')
next
  case (3 m a bs m' b n)
  then have m': "m' = m\<lparr>global_bytes := store_bytes (global_bytes m) a bs\<rparr>"
    by (auto simp: write_global_def split: if_splits)
  have "global_range_allocated m' b n = global_range_allocated m b n"
    by (simp add: m' global_range_allocated_def)
  with 3 show ?case by (simp add: read_global_def m' load_store_other)
next
  case (4 m a bs m')
  then show ?case by (auto simp: write_global_def split: if_splits)
next
  case (5 bs m a)
  then show ?case by (simp add: write_global_def read_global_def)
qed

section \<open>Allocation\<close>

text \<open>
  The well-formedness of the allocator: every allocation lies below the next free address,
  the allocations follow each other without overlap, and no byte was ever stored at or above
  the next free address.  The ends are sums of natural numbers, so nothing wraps.
\<close>

definition alloc_end :: "allocation \<Rightarrow> nat" where
  "alloc_end a = unat (al_base a) + max (unat (al_size a)) 1"

definition alloc_wf :: "addr_space_manager \<Rightarrow> bool" where
  "alloc_wf m \<longleftrightarrow>
     (\<forall>a \<in> set (allocs m). alloc_end a \<le> unat (next_global_addr m)) \<and>
     sorted_wrt (\<lambda>a b. alloc_end a \<le> unat (al_base b)) (allocs m) \<and>
     (\<forall>x \<in> dom (global_bytes m). unat x < unat (next_global_addr m))"

text \<open>There is room for an allocation when aligning and adding it does not leave 64 bits.\<close>

definition alloc_room :: "addr_space_manager \<Rightarrow> u64 \<Rightarrow> u64 \<Rightarrow> bool" where
  "alloc_room m bytes align0 \<longleftrightarrow>
     unat (next_global_addr m) + unat align0 + max (unat bytes) 1 < 2 ^ 64"

lemma unat_max: "unat (max a b :: u64) = max (unat a) (unat b)"
  by (simp add: max_def word_le_nat_alt)

lemma align_up_room:
  assumes "a \<noteq> 0" and "unat v + unat a < 2 ^ 64"
  shows "unat v \<le> unat (align_up v a)" and "unat (align_up v a) < unat v + unat a"
    and "align_up v a mod a = 0"
proof -
  have apos: "0 < unat a" using assms(1) by (simp add: unat_gt_0)
  have r: "unat (v mod a) = unat v mod unat a" by (simp add: unat_mod)
  have rlt: "unat v mod unat a < unat a" using apos by simp
  have sub: "unat (a - v mod a) = unat a - unat v mod unat a"
    using rlt r by (simp add: unat_sub word_le_nat_alt less_imp_le)
  have val: "unat (align_up v a) =
      (if unat v mod unat a = 0 then unat v else unat v + (unat a - unat v mod unat a))"
  proof (cases "v mod a = 0")
    case True
    then show ?thesis using assms(1) r by (simp add: align_up_def Let_def)
  next
    case False
    then have "unat v mod unat a \<noteq> 0" using r by (metis unat_eq_zero)
    moreover have "unat (v + (a - v mod a)) = unat v + unat (a - v mod a)"
      by (rule unat_add_lem [THEN iffD1]) (use assms(2) sub in simp)
    ultimately show ?thesis using False assms(1) sub by (simp add: align_up_def Let_def)
  qed
  show "unat v \<le> unat (align_up v a)" by (simp add: val)
  show "unat (align_up v a) < unat v + unat a" using apos by (auto simp: val)
  have "unat (align_up v a) mod unat a = 0"
  proof (cases "unat v mod unat a = 0")
    case True
    then show ?thesis by (simp add: val)
  next
    case False
    have "unat v + (unat a - unat v mod unat a) = unat v div unat a * unat a + unat a"
      using rlt div_mult_mod_eq [of "unat v" "unat a"] by linarith
    then show ?thesis using False by (simp add: val)
  qed
  then have "unat (align_up v a mod a) = 0" by (simp add: unat_mod)
  then show "align_up v a mod a = 0" by (simp add: unat_eq_zero)
qed

lemma alloc_global_facts:
  assumes "alloc_room m bytes align0" and "alloc_global m bytes align0 = (m', base)"
  shows "unat (next_global_addr m) \<le> unat base"
    and "unat (next_global_addr m') = unat base + max (unat bytes) 1"
    and "base mod (if align0 = 0 then 1 else align0) = 0"
    and "allocs m' = allocs m @ [\<lparr>al_base = base, al_size = bytes\<rparr>]"
    and "global_bytes m' = global_bytes m"
proof -
  define al where "al = (if align0 = 0 then 1 else align0)"
  have al0: "al \<noteq> 0" and alle: "unat al \<le> max (unat align0) 1" by (simp_all add: al_def)
  have room: "unat (next_global_addr m) + unat al < 2 ^ 64"
  proof (cases "align0 = 0")
    case True
    then show ?thesis using assms(1) by (simp add: al_def alloc_room_def)
  next
    case False
    then show ?thesis using assms(1) by (simp add: al_def alloc_room_def)
  qed
  have base: "base = align_up (next_global_addr m) al"
    and m': "m' = m\<lparr>next_global_addr := base + max bytes 1,
        allocs := allocs m @ [\<lparr>al_base = base, al_size = bytes\<rparr>]\<rparr>"
    using assms(2) by (auto simp: alloc_global_def al_def Let_def)
  note up = align_up_room [OF al0 room]
  show "unat (next_global_addr m) \<le> unat base" using up(1) by (simp add: base)
  have "unat base + max (unat bytes) 1 < 2 ^ 64"
    using up(2) assms(1) alle by (auto simp: base alloc_room_def al_def split: if_splits)
  then have "unat (base + max bytes 1) = unat base + unat (max bytes 1)"
    by (intro unat_add_lem [THEN iffD1]) (simp add: unat_max)
  then show "unat (next_global_addr m') = unat base + max (unat bytes) 1"
    by (simp add: m' unat_max)
  show "base mod (if align0 = 0 then 1 else align0) = 0" using up(3) by (simp add: base al_def)
  show "allocs m' = allocs m @ [\<lparr>al_base = base, al_size = bytes\<rparr>]"
    and "global_bytes m' = global_bytes m" by (simp_all add: m')
qed

lemma alloc_wf_init: "alloc_wf manager_init"
  by (simp add: alloc_wf_def manager_init_def)

lemma alloc_wf_alloc:
  assumes "alloc_wf m" and "alloc_room m bytes align0" and "alloc_global m bytes align0 = (m', base)"
  shows "alloc_wf m'"
  unfolding alloc_wf_def
proof (intro conjI)
  note facts = alloc_global_facts [OF assms(2,3)]
  have old: "alloc_end a \<le> unat (next_global_addr m)" if "a \<in> set (allocs m)" for a
    using assms(1) that by (simp add: alloc_wf_def)
  have new: "alloc_end \<lparr>al_base = base, al_size = bytes\<rparr> = unat (next_global_addr m')"
    using facts(2) by (simp add: alloc_end_def)
  have grow: "unat (next_global_addr m) \<le> unat (next_global_addr m')"
    using facts(1,2) by linarith
  show "\<forall>a\<in>set (allocs m'). alloc_end a \<le> unat (next_global_addr m')"
    unfolding facts(4) using old new grow by (auto intro: order_trans)
  have "sorted_wrt (\<lambda>a b. alloc_end a \<le> unat (al_base b)) (allocs m)"
    using assms(1) by (simp add: alloc_wf_def)
  then show "sorted_wrt (\<lambda>a b. alloc_end a \<le> unat (al_base b)) (allocs m')"
    unfolding facts(4) using old facts(1) by (auto simp: sorted_wrt_append intro: order_trans)
  show "\<forall>x\<in>dom (global_bytes m'). unat x < unat (next_global_addr m')"
  proof
    fix x assume "x \<in> dom (global_bytes m')"
    then have "unat x < unat (next_global_addr m)"
      using assms(1) by (simp add: alloc_wf_def facts(5))
    with grow show "unat x < unat (next_global_addr m')" by simp
  qed
qed

text \<open>Writing keeps the allocator well formed: only allocated bytes are stored.\<close>

lemma alloc_covers_range:
  assumes "alloc_covers a addr (addr + sz)" and "addr \<le> addr + sz" and "x \<in> addr_range addr (unat sz)"
  shows "al_base a \<le> x" and "unat x < unat (al_base a) + unat (al_size a)"
proof -
  obtain i where i: "i < unat sz" and x: "x = addr + of_nat i"
    using assms(3) by (auto simp: addr_range_def)
  have sum: "unat (addr + sz) = unat addr + unat sz"
    using assms(2) by (simp only: unat_plus_simple)
  have ui: "unat (of_nat i :: u64) = i"
    by (rule unat_of_nat_u64) (use i unat_u64_less [of sz] in linarith)
  have ux: "unat x = unat addr + i"
    unfolding x by (subst unat_add_u64) (use ui i sum unat_u64_less [of "addr + sz"] in simp_all)
  show "al_base a \<le> x" using assms(1) ux
    by (auto simp: alloc_covers_def Let_def word_le_nat_alt split: if_splits)
  have "\<not> al_base a + al_size a < al_base a" and "addr + sz \<le> al_base a + al_size a"
    using assms(1) by (auto simp: alloc_covers_def Let_def split: if_splits)
  then have "unat (al_base a + al_size a) = unat (al_base a) + unat (al_size a)"
    by (simp only: not_less unat_plus_simple)
  then show "unat x < unat (al_base a) + unat (al_size a)"
    using ux i sum \<open>addr + sz \<le> _\<close> by (simp add: word_le_nat_alt)
qed

lemma alloc_wf_write:
  assumes "alloc_wf m" and "length bs < 2 ^ 64"
  shows "alloc_wf (fst (write_global m a bs))"
proof (cases "global_range_allocated m a (of_nat (length bs)) \<and> bs \<noteq> []")
  case False
  then show ?thesis using assms(1) by (auto simp: write_global_def)
next
  case True
  let ?sz = "of_nat (length bs) :: u64"
  have len: "unat ?sz = length bs" by (rule unat_of_nat_u64 [OF assms(2)])
  with True have "?sz \<noteq> 0" by (metis length_0_conv unat_0)
  with True obtain al where al: "al \<in> set (allocs m)" "alloc_covers al a (a + ?sz)" "a \<le> a + ?sz"
    by (auto simp: global_range_allocated_def Let_def list_ex_iff not_less split: if_splits)
  have "unat x < unat (next_global_addr m)" if "x \<in> addr_range a (length bs)" for x
  proof -
    have "unat x < unat (al_base al) + unat (al_size al)"
      by (rule alloc_covers_range(2) [OF al(2,3)]) (use that len in simp)
    also have "\<dots> \<le> alloc_end al" by (simp add: alloc_end_def)
    also have "\<dots> \<le> unat (next_global_addr m)" using assms(1) al(1) by (simp add: alloc_wf_def)
    finally show ?thesis .
  qed
  moreover have "unat x < unat (next_global_addr m)" if "x \<in> dom (global_bytes m)" for x
    using assms(1) that by (simp add: alloc_wf_def)
  ultimately have "unat x < unat (next_global_addr m)"
    if "x \<in> dom (store_bytes (global_bytes m) a bs)" for x
    using that store_bytes_other [of x a bs "global_bytes m"]
    by (cases "x \<in> addr_range a (length bs)") (simp_all add: dom_def)
  with assms(1) True show ?thesis by (simp add: alloc_wf_def write_global_def)
qed

lemma alloc_fresh_zero:
  assumes "alloc_wf m" and "alloc_room m bytes align0" and "alloc_global m bytes align0 = (m', base)"
  shows "read_global m' base bytes = Some (replicate (unat bytes) 0)"
proof -
  note facts = alloc_global_facts [OF assms(2,3)]
  have nowrap: "unat base + unat bytes < 2 ^ 64"
    using facts(2) unat_u64_less [of "next_global_addr m'"] by linarith
  then have "unat (base + bytes) = unat base + unat bytes" by (rule unat_add_u64)
  then have "base \<le> base + bytes" by (simp add: word_le_nat_alt)
  then have "global_range_allocated m' base bytes"
    by (auto simp: global_range_allocated_def alloc_covers_def facts(4) Let_def not_less)
  moreover have "global_bytes m' (base + of_nat i) = None" if "i < unat bytes" for i
  proof (rule ccontr)
    have "unat (of_nat i :: u64) = i"
      by (rule unat_of_nat_u64) (use that unat_u64_less [of bytes] in linarith)
    then have "unat (base + of_nat i) = unat base + i"
      by (subst unat_add_u64) (use that nowrap in simp_all)
    moreover assume "global_bytes m' (base + of_nat i) \<noteq> None"
    then have "unat (base + of_nat i) < unat (next_global_addr m)"
      using assms(1) by (auto simp: alloc_wf_def facts(5))
    ultimately show False using facts(1) by simp
  qed
  ultimately show ?thesis
    by (simp add: read_global_def load_bytes_def list_eq_iff_nth_eq)
qed

lemma alloc_keeps_reads:
  assumes "read_global m a n = Some bs" and "alloc_global m bytes align0 = (m', base)"
  shows "read_global m' a n = Some bs"
proof -
  have m': "allocs m' = allocs m @ [\<lparr>al_base = base, al_size = bytes\<rparr>]"
    "global_bytes m' = global_bytes m"
    using assms(2) by (auto simp: alloc_global_def Let_def)
  then have "global_range_allocated m a n \<Longrightarrow> global_range_allocated m' a n"
    by (auto simp: global_range_allocated_def Let_def split: if_splits)
  with assms(1) show ?thesis by (auto simp: read_global_def m' split: if_splits)
qed

section \<open>Properties\<close>

text \<open>
  C16. Device allocation: on a well-formed allocator with room left, an allocation returns an
  address that satisfies the requested alignment and lies above every allocation made before,
  keeps the allocator well formed and everything that could be read before, and the new range
  reads as zeros.
\<close>

theorem alloc_global_correct:
  assumes "alloc_wf m" and "alloc_room m bytes align0" and "alloc_global m bytes align0 = (m', base)"
  shows "alloc_wf m'
    \<and> base mod (if align0 = 0 then 1 else align0) = 0
    \<and> (\<forall>al. al \<in> set (allocs m) \<longrightarrow> alloc_end al \<le> unat base)
    \<and> read_global m' base bytes = Some (replicate (unat bytes) 0)
    \<and> (\<forall>a n bs. read_global m a n = Some bs \<longrightarrow> read_global m' a n = Some bs)"
proof (intro conjI allI impI)
  show "alloc_wf m'" by (rule alloc_wf_alloc [OF assms])
  show "base mod (if align0 = 0 then 1 else align0) = 0"
    by (rule alloc_global_facts(3) [OF assms(2,3)])
  show "read_global m' base bytes = Some (replicate (unat bytes) 0)"
    by (rule alloc_fresh_zero [OF assms])
  show "alloc_end al \<le> unat base" if "al \<in> set (allocs m)" for al
    using that assms(1) alloc_global_facts(1) [OF assms(2,3)]
    by (auto simp: alloc_wf_def intro: order_trans)
  show "read_global m' a n = Some bs" if "read_global m a n = Some bs" for a n bs
    by (rule alloc_keeps_reads [OF that assms(3)])
qed

theorem alloc_global_correct_witness:
  "alloc_wf (fst (alloc_global manager_init 3 16))
    \<and> read_global (fst (alloc_global manager_init 3 16)) 4096 3 = Some [0, 0, 0]"
proof -
  have al: "alloc_global manager_init 3 16 = (fst (alloc_global manager_init 3 16), 4096)"
    by (simp add: alloc_global_def align_up_def manager_init_def)
  have "alloc_room manager_init 3 16" by (simp add: alloc_room_def manager_init_def)
  from alloc_global_correct [OF alloc_wf_init this al]
  have "alloc_wf (fst (alloc_global manager_init 3 16))"
    and rd: "read_global (fst (alloc_global manager_init 3 16)) 4096 3
      = Some (replicate (unat (3 :: u64)) 0)" by blast+
  moreover have "replicate (unat (3 :: u64)) 0 = [0, 0, 0 :: u8]" by code_simp
  ultimately show ?thesis by (simp only: rd)
qed

text \<open>
  C17. Global memory: a write that succeeds is read back byte for byte, leaves every read of a
  disjoint range alone, and keeps the allocator well formed; a write that is refused leaves
  the memory as it was, and the same range cannot be read.
\<close>

theorem global_write_read:
  assumes "write_global m a bs = (m', ok)" and "length bs < 2 ^ 64"
  shows "if ok
    then read_global m' a (of_nat (length bs)) = Some bs
      \<and> (\<forall>b n. addr_range a (length bs) \<inter> addr_range b (unat n) = {} \<longrightarrow>
               read_global m' b n = read_global m b n)
      \<and> (alloc_wf m \<longrightarrow> alloc_wf m')
    else m' = m \<and> read_global m a (of_nat (length bs)) = None"
proof (cases ok)
  case True
  with assms(1) have w: "write_global m a bs = (m', True)" by simp
  have "alloc_wf m'" if "alloc_wf m" using alloc_wf_write [OF that assms(2), of a] w by simp
  then show ?thesis
    using True glob.wr_same [OF w assms(2)] glob.wr_other [OF w] by simp
next
  case False
  with assms(1) have "write_global m a bs = (m', False)" by simp
  from glob.refused_write [OF this assms(2)] show ?thesis using False by simp
qed

theorem global_write_read_witness:
  "let m = fst (alloc_global manager_init 4 16); m' = fst (write_global m 4096 [1, 2])
   in write_global m 4096 [1, 2] = (m', True) \<and> read_global m' 4096 2 = Some [1, 2]"
proof -
  define m where "m = fst (alloc_global manager_init 4 16)"
  define m' where "m' = fst (write_global m 4096 [1, 2])"
  have "write_global m 4096 [1, 2] = (m', True)"
    by (simp add: m'_def m_def write_global_def global_range_allocated_def alloc_covers_def
        alloc_global_def align_up_def manager_init_def)
  moreover from global_write_read [OF this] have "read_global m' 4096 2 = Some [1, 2]" by simp
  ultimately show ?thesis by (simp add: m_def [symmetric] m'_def [symmetric] Let_def)
qed

end
