(* ===== verification/Json.thy ===== *)
theory Json
  imports Contracts "HOL-Library.Char_ord" "HOL-Library.List_Lexorder"
begin

text \<open>
  JSON values (\<open>include/gpusim/json.h\<close>).  The code's numbers are \<open>double\<close>; they are the type
  parameter \<open>'n\<close> here.  An object is a \<open>std::map\<close>, a list of pairs sorted by key with each
  key once; \<open>obj_emplace\<close> inserts like \<open>std::map::emplace\<close>, which keeps an entry that is
  already there.
\<close>

datatype 'n json =
    JNull
  | JBool bool
  | JNum 'n
  | JStr string
  | JArr "'n json list"
  | JObj "(string \<times> 'n json) list"

fun obj_emplace :: "string \<Rightarrow> 'v \<Rightarrow> (string \<times> 'v) list \<Rightarrow> (string \<times> 'v) list" where
  "obj_emplace k v [] = [(k, v)]"
| "obj_emplace k v ((k', v') # kvs) =
     (if k = k' then (k', v') # kvs
      else if k < k' then (k, v) # (k', v') # kvs
      else (k', v') # obj_emplace k v kvs)"

definition obj_of :: "(string \<times> 'v) list \<Rightarrow> (string \<times> 'v) list" where
  "obj_of kvs = fold (\<lambda>(k, v). obj_emplace k v) kvs []"

definition obj_wf :: "(string \<times> 'v) list \<Rightarrow> bool" where
  "obj_wf kvs \<longleftrightarrow> sorted_wrt (<) (map fst kvs)"

lemma keys_obj_emplace: "fst ` set (obj_emplace k v kvs) = insert k (fst ` set kvs)"
proof (induction kvs)
  case Nil
  then show ?case by simp
next
  case (Cons kv kvs)
  then show ?case by (cases kv) (simp add: insert_commute)
qed

lemma obj_emplace_wf: "obj_wf kvs \<Longrightarrow> obj_wf (obj_emplace k v kvs)"
proof (induction kvs)
  case Nil
  then show ?case by (simp add: obj_wf_def)
next
  case (Cons kv kvs)
  obtain k' v' where kv: "kv = (k', v')" by fastforce
  have "fst ` set (obj_emplace k v kvs) = insert k (fst ` set kvs)" by (rule keys_obj_emplace)
  then show ?case using Cons by (fastforce simp: obj_wf_def kv)
qed

lemma obj_emplace_lookup:
  assumes "obj_wf kvs"
  shows "map_of (obj_emplace k v kvs) =
    (if k \<in> fst ` set kvs then map_of kvs else (map_of kvs)(k \<mapsto> v))"
  using assms
proof (induction kvs)
  case Nil
  then show ?case by (simp add: fun_eq_iff)
next
  case (Cons kv kvs)
  obtain k' v' where kv: "kv = (k', v')" by fastforce
  have above: "k' < x" if "x \<in> fst ` set kvs" for x
    using Cons.prems that by (auto simp: obj_wf_def kv)
  have "obj_wf kvs" using Cons.prems by (simp add: obj_wf_def)
  note IH = Cons.IH [OF this]
  have "k \<notin> fst ` set kvs" if "k < k'" using above that by (meson less_asym)
  then show ?case using IH by (auto simp: kv fun_eq_iff)
qed

section \<open>Accessors\<close>

text \<open>
  What the library throws: a runtime error with the accessor's message, a parse error, or the
  \<open>std::out_of_range\<close> of \<open>std::map::at\<close>.
\<close>

datatype json_exn = RuntimeError string | ParseError string | OutOfRange

fun as_bool :: "'n json \<Rightarrow> json_exn + bool" where
  "as_bool (JBool b) = Inr b"
| "as_bool _ = Inl (RuntimeError ''json: not a bool'')"

fun as_number :: "'n json \<Rightarrow> json_exn + 'n" where
  "as_number (JNum n) = Inr n"
| "as_number _ = Inl (RuntimeError ''json: not a number'')"

fun as_string :: "'n json \<Rightarrow> json_exn + string" where
  "as_string (JStr s) = Inr s"
| "as_string _ = Inl (RuntimeError ''json: not a string'')"

fun as_array :: "'n json \<Rightarrow> json_exn + 'n json list" where
  "as_array (JArr a) = Inr a"
| "as_array _ = Inl (RuntimeError ''json: not an array'')"

fun as_object :: "'n json \<Rightarrow> json_exn + (string \<times> 'n json) list" where
  "as_object (JObj kvs) = Inr kvs"
| "as_object _ = Inl (RuntimeError ''json: not an object'')"

fun json_get :: "'n json \<Rightarrow> string \<Rightarrow> 'n json option" where
  "json_get (JObj kvs) key = map_of kvs key"
| "json_get _ key = None"

definition json_at :: "'n json \<Rightarrow> string \<Rightarrow> json_exn + 'n json" where
  "json_at v key =
     (case json_get v key of
        None \<Rightarrow> Inl (RuntimeError (''json: missing key: '' @ key))
      | Some x \<Rightarrow> Inr x)"

definition of_option :: "'e \<Rightarrow> 'a option \<Rightarrow> 'e + 'a" where
  "of_option e x = (case x of None \<Rightarrow> Inl e | Some y \<Rightarrow> Inr y)"

definition obj_at :: "(string \<times> 'v) list \<Rightarrow> string \<Rightarrow> json_exn + 'v" where
  "obj_at kvs key = of_option OutOfRange (map_of kvs key)"

text \<open>The handler of the descriptor loader, which puts the place before the message.\<close>

definition exn_what :: "json_exn \<Rightarrow> string" where
  "exn_what e = (case e of RuntimeError m \<Rightarrow> m | ParseError m \<Rightarrow> m | OutOfRange \<Rightarrow> ''map::at'')"

definition prefix_error :: "string \<Rightarrow> json_exn + 'a \<Rightarrow> json_exn + 'a" where
  "prefix_error place r =
     (case r of
        Inl e \<Rightarrow> Inl (RuntimeError (''DescriptorRegistry: '' @ place @ '': '' @ exn_what e))
      | Inr x \<Rightarrow> Inr x)"

end
