(* ===== verification/Observability.thy ===== *)
theory Observability
  imports Json
begin

text \<open>
  Trace events, the bounded trace ring and the counters
  (\<open>src/observability/observability.cpp\<close>, \<open>include/gpusim/observability.h\<close>).  The extra
  payload of an event is kept as the JSON object that the code renders with \<open>stringify\<close>; the
  text of events and counters is the subject of theory TraceText.
\<close>

section \<open>Events\<close>

record event =
  ev_ts :: u64
  ev_category :: event_category
  ev_action :: string
  ev_kernel_id :: "u64 option"
  ev_cta_id :: "u64 option"
  ev_warp_id :: "u64 option"
  ev_thread_id :: "u64 option"
  ev_sm_id :: "u64 option"
  ev_stream_id :: "u64 option"
  ev_cmd_id :: "u64 option"
  ev_event_id :: "u64 option"
  ev_pc :: "pc_t option"
  ev_lane_mask :: "lane_mask option"
  ev_opcode_or_uop :: "string option"
  ev_addr :: "u64 option"
  ev_size :: "u64 option"
  ev_extra :: "int json option"

definition event_default :: event where
  "event_default =
     \<lparr>ev_ts = 0, ev_category = EvStream, ev_action = [], ev_kernel_id = None,
      ev_cta_id = None, ev_warp_id = None, ev_thread_id = None, ev_sm_id = None,
      ev_stream_id = None, ev_cmd_id = None, ev_event_id = None, ev_pc = None,
      ev_lane_mask = None, ev_opcode_or_uop = None, ev_addr = None, ev_size = None,
      ev_extra = None\<rparr>"

section \<open>The trace ring\<close>

record 'e trace_buffer =
  tb_capacity :: u64
  tb_ring :: "'e list"
  tb_head :: u64
  tb_size :: u64

definition trace_buffer_init :: "u64 \<Rightarrow> 'e trace_buffer" where
  "trace_buffer_init capacity =
     \<lparr>tb_capacity = capacity, tb_ring = [], tb_head = 0, tb_size = 0\<rparr>"

definition trace_push :: "'e \<Rightarrow> 'e trace_buffer \<Rightarrow> 'e trace_buffer" where
  "trace_push e t =
     (if tb_capacity t = 0 then t
      else if length (tb_ring t) < unat (tb_capacity t)
      then t\<lparr>tb_ring := tb_ring t @ [e], tb_size := of_nat (length (tb_ring t @ [e])), tb_head := 0\<rparr>
      else t\<lparr>tb_ring := (tb_ring t)[unat (tb_head t) := e],
             tb_head := (tb_head t + 1) mod tb_capacity t,
             tb_size := tb_capacity t\<rparr>)"

definition trace_snapshot :: "'e trace_buffer \<Rightarrow> 'e list" where
  "trace_snapshot t =
     (if tb_ring t = [] then []
      else if length (tb_ring t) < unat (tb_capacity t) then tb_ring t
      else map (\<lambda>k. tb_ring t ! unat ((tb_head t + of_nat k) mod tb_capacity t))
             [0..<unat (tb_size t)])"

section \<open>The counters\<close>

type_synonym counters = "(string \<times> u64) list"

fun counters_inc :: "string \<Rightarrow> u64 \<Rightarrow> counters \<Rightarrow> counters" where
  "counters_inc key delta [] = [(key, delta)]"
| "counters_inc key delta ((k, v) # items) =
     (if k = key then (k, v + delta) # items else (k, v) # counters_inc key delta items)"

section \<open>The observability control\<close>

record obs_control =
  obs_enabled :: bool
  obs_trace :: "event trace_buffer"
  obs_counters :: counters

definition obs_init :: "bool \<Rightarrow> u64 \<Rightarrow> obs_control" where
  "obs_init enabled capacity =
     \<lparr>obs_enabled = enabled, obs_trace = trace_buffer_init capacity, obs_counters = []\<rparr>"

definition obs_emit :: "event \<Rightarrow> obs_control \<Rightarrow> obs_control" where
  "obs_emit e c = (if \<not> obs_enabled c then c else c\<lparr>obs_trace := trace_push e (obs_trace c)\<rparr>)"

definition obs_counter :: "string \<Rightarrow> obs_control \<Rightarrow> obs_control" where
  "obs_counter key c =
     (if \<not> obs_enabled c then c else c\<lparr>obs_counters := counters_inc key 1 (obs_counters c)\<rparr>)"

definition obs_trace_snapshot :: "obs_control \<Rightarrow> event list" where
  "obs_trace_snapshot c = trace_snapshot (obs_trace c)"

definition counter_value :: "counters \<Rightarrow> string \<Rightarrow> u64" where
  "counter_value items key = (case map_of items key of None \<Rightarrow> 0 | Some v \<Rightarrow> v)"

section \<open>The ring keeps the most recent events\<close>

text \<open>The last \<open>n\<close> elements of a list.\<close>

definition last_n :: "nat \<Rightarrow> 'a list \<Rightarrow> 'a list" where
  "last_n n xs = drop (length xs - n) xs"

lemma last_n_append: "last_n n (last_n n xs @ ys) = last_n n (xs @ ys)"
proof (cases "length xs \<le> n")
  case True
  then show ?thesis by (simp add: last_n_def)
next
  case False
  have "last_n n (xs @ ys) = drop (length ys + (length xs - n)) (xs @ ys)"
    using False by (simp add: last_n_def add.commute)
  also have "\<dots> = drop (length ys) (drop (length xs - n) (xs @ ys))" by (simp only: drop_drop)
  also have "\<dots> = drop (length ys) (last_n n xs @ ys)" by (simp add: last_n_def)
  also have "\<dots> = last_n n (last_n n xs @ ys)" using False by (simp add: last_n_def)
  finally show ?thesis by simp
qed

lemma last_n_id: "length xs \<le> n \<Longrightarrow> last_n n xs = xs"
  by (simp add: last_n_def)

text \<open>
  What a bounded log promises its clients: the view after a push is the last \<open>cap\<close> entries
  of the old view with the new entry.
\<close>

locale bounded_log =
  fixes push :: "'e \<Rightarrow> 'l \<Rightarrow> 'l"
    and view :: "'l \<Rightarrow> 'e list"
    and cap :: "'l \<Rightarrow> nat"
    and log_ok :: "'l \<Rightarrow> bool"
  assumes push_ok: "log_ok l \<Longrightarrow> log_ok (push e l)"
    and push_cap: "cap (push e l) = cap l"
    and push_view: "log_ok l \<Longrightarrow> view (push e l) = last_n (cap l) (view l @ [e])"
begin

lemma fold_push:
  assumes "log_ok l" and "0 < cap l" and "length (view l) \<le> cap l"
  shows "view (fold push es l) = last_n (cap l) (view l @ es) \<and> log_ok (fold push es l)"
  using assms
proof (induction es arbitrary: l)
  case Nil
  then show ?case by (simp add: last_n_def)
next
  case (Cons e es)
  have v: "view (push e l) = last_n (cap l) (view l @ [e])"
    by (rule push_view [OF Cons.prems(1)])
  have "view (fold push es (push e l)) = last_n (cap l) (view (push e l) @ es)
      \<and> log_ok (fold push es (push e l))"
    using Cons.IH [of "push e l"] Cons.prems push_ok push_cap v by (simp add: last_n_def)
  moreover have "last_n (cap l) (last_n (cap l) (view l @ [e]) @ es) = last_n (cap l) (view l @ e # es)"
    by (simp add: last_n_append)
  ultimately show ?case by (simp add: v)
qed

end

text \<open>
  The ring is well formed when it is not yet full and starts at 0, or full with its head
  inside; capacities stay below \<open>2 ^ 63\<close>, so that \<open>head + k\<close> does not wrap.
\<close>

definition ring_ok :: "'e trace_buffer \<Rightarrow> bool" where
  "ring_ok t \<longleftrightarrow>
     0 < tb_capacity t \<and> unat (tb_capacity t) < 2 ^ 63 \<and>
     tb_head t < tb_capacity t \<and> unat (tb_size t) = length (tb_ring t) \<and>
     length (tb_ring t) \<le> unat (tb_capacity t) \<and>
     (length (tb_ring t) < unat (tb_capacity t) \<longrightarrow> tb_head t = 0)"

lemma rotate_update:
  assumes "h < length xs"
  shows "rotate (Suc h) (xs[h := e]) = tl (rotate h xs) @ [e]"
proof (cases "Suc h = length xs")
  case True
  then have "xs[h := e] = take h xs @ [e]" using assms by (simp add: upd_conv_take_nth_drop)
  moreover have "rotate (Suc h) (xs[h := e]) = xs[h := e]" using True by (metis length_list_update rotate_length01 rotate_conv_mod mod_self rotate0 id_apply)
  moreover have "rotate h xs = drop h xs @ take h xs" using assms by (simp add: rotate_drop_take)
  ultimately show ?thesis using True by (simp add: Cons_nth_drop_Suc [symmetric, OF assms])
next
  case False
  then have "Suc h < length xs" using assms by simp
  then show ?thesis
    by (simp add: rotate_drop_take Cons_nth_drop_Suc [symmetric, OF assms] take_Suc_conv_app_nth
        drop_update_cancel)
qed

lemma snapshot_full:
  assumes "ring_ok t" and "length (tb_ring t) = unat (tb_capacity t)"
  shows "trace_snapshot t = rotate (unat (tb_head t)) (tb_ring t)"
proof -
  let ?n = "length (tb_ring t)"
  have n0: "0 < ?n" using assms by (auto simp: ring_ok_def word_less_nat_alt)
  have idx: "unat ((tb_head t + of_nat k) mod tb_capacity t) = (unat (tb_head t) + k) mod ?n"
    if "k < ?n" for k
  proof -
    have k: "unat (of_nat k :: u64) = k"
      by (rule unat_of_nat_u64) (use that assms in \<open>simp add: ring_ok_def\<close>)
    have "unat (tb_head t) < ?n" using assms by (simp add: ring_ok_def word_less_nat_alt)
    then have "unat (tb_head t + of_nat k) = unat (tb_head t) + k"
      by (subst unat_add_u64) (use k that assms in \<open>simp_all add: ring_ok_def\<close>)
    then show ?thesis by (simp add: unat_mod assms(2))
  qed
  have "trace_snapshot t = map (\<lambda>k. tb_ring t ! ((unat (tb_head t) + k) mod ?n)) [0..<?n]"
    using n0 assms idx by (auto simp: trace_snapshot_def ring_ok_def)
  also have "\<dots> = rotate (unat (tb_head t)) (tb_ring t)"
    by (rule nth_equalityI) (simp_all add: nth_rotate add.commute)
  finally show ?thesis .
qed

lemma snapshot_partial: "ring_ok t \<Longrightarrow> length (tb_ring t) < unat (tb_capacity t) \<Longrightarrow>
  trace_snapshot t = tb_ring t"
  by (simp add: trace_snapshot_def)

lemma length_snapshot: "ring_ok t \<Longrightarrow> length (trace_snapshot t) = length (tb_ring t)"
  by (cases "length (tb_ring t) < unat (tb_capacity t)")
    (simp_all add: snapshot_partial snapshot_full ring_ok_def)

lemma ring_ok_push:
  assumes "ring_ok t"
  shows "ring_ok (trace_push e t)"
proof -
  have "(tb_head t + 1) mod tb_capacity t < tb_capacity t"
    using assms by (simp add: ring_ok_def word_mod_less_divisor)
  moreover have "unat (of_nat (length (tb_ring t @ [e])) :: u64) = length (tb_ring t @ [e])"
    if "length (tb_ring t) < unat (tb_capacity t)"
    by (rule unat_of_nat_u64) (use that assms in \<open>simp add: ring_ok_def\<close>)
  ultimately show ?thesis using assms by (auto simp: ring_ok_def trace_push_def)
qed

lemma ring_push_partial:
  assumes "ring_ok t" and "length (tb_ring t) < unat (tb_capacity t)"
  shows "trace_snapshot (trace_push e t) = tb_ring t @ [e]"
proof -
  have ring: "tb_ring (trace_push e t) = tb_ring t @ [e]" "tb_head (trace_push e t) = 0"
    "tb_capacity (trace_push e t) = tb_capacity t"
    using assms by (auto simp: trace_push_def ring_ok_def)
  show ?thesis
  proof (cases "Suc (length (tb_ring t)) < unat (tb_capacity t)")
    case True
    then show ?thesis using snapshot_partial [OF ring_ok_push [OF assms(1)], of e] ring by simp
  next
    case False
    then have "length (tb_ring (trace_push e t)) = unat (tb_capacity (trace_push e t))"
      using assms(2) ring by simp
    from snapshot_full [OF ring_ok_push [OF assms(1)] this] show ?thesis using ring by simp
  qed
qed

lemma ring_push_full:
  assumes "ring_ok t" and "length (tb_ring t) = unat (tb_capacity t)"
  shows "trace_snapshot (trace_push e t) = tl (trace_snapshot t) @ [e]"
proof -
  let ?h = "unat (tb_head t)"
  have h: "?h < length (tb_ring t)" using assms by (simp add: ring_ok_def word_less_nat_alt)
  have ring: "tb_ring (trace_push e t) = (tb_ring t)[?h := e]"
    "tb_head (trace_push e t) = (tb_head t + 1) mod tb_capacity t"
    "tb_capacity (trace_push e t) = tb_capacity t"
    using assms by (auto simp: trace_push_def ring_ok_def)
  have "unat (tb_head t + 1) = Suc ?h"
    by (subst unat_add_u64) (use h assms in \<open>simp_all add: ring_ok_def\<close>)
  then have head: "unat (tb_head (trace_push e t)) = Suc ?h mod length (tb_ring t)"
    by (simp add: ring unat_mod assms(2))
  have "trace_snapshot (trace_push e t) = rotate (Suc ?h mod length (tb_ring t)) ((tb_ring t)[?h := e])"
    by (subst snapshot_full [OF ring_ok_push [OF assms(1)]]) (use assms(2) ring head in simp_all)
  also have "\<dots> = rotate (Suc ?h) ((tb_ring t)[?h := e])"
    by (metis length_list_update rotate_conv_mod)
  also have "\<dots> = tl (rotate ?h (tb_ring t)) @ [e]" by (rule rotate_update [OF h])
  finally show ?thesis by (simp add: snapshot_full [OF assms])
qed

interpretation ring: bounded_log trace_push trace_snapshot "\<lambda>t. unat (tb_capacity t)" ring_ok
proof (unfold_locales, goal_cases)
  case (1 t e)
  then show ?case by (rule ring_ok_push)
next
  case (2 e t)
  then show ?case by (simp add: trace_push_def)
next
  case (3 t e)
  have len: "length (trace_snapshot t) = length (tb_ring t)" by (rule length_snapshot [OF 3])
  show ?case
  proof (cases "length (tb_ring t) < unat (tb_capacity t)")
    case True
    then show ?thesis
      by (simp add: ring_push_partial [OF 3 True] snapshot_partial [OF 3] last_n_id)
  next
    case False
    then have full: "length (tb_ring t) = unat (tb_capacity t)" using 3 by (simp add: ring_ok_def)
    moreover have "0 < unat (tb_capacity t)" using 3 by (simp add: ring_ok_def word_less_nat_alt)
    ultimately show ?thesis
      using len by (simp add: ring_push_full [OF 3 full] last_n_def drop_Suc)
  qed
qed

section \<open>Properties\<close>

text \<open>
  C18. The trace ring: after any sequence of pushes into a fresh buffer of capacity \<open>c\<close>, the
  snapshot is the last \<open>c\<close> events in the order in which they were pushed.
\<close>

theorem trace_keeps_last_events:
  assumes "0 < c" and "unat c < 2 ^ 63"
  shows "trace_snapshot (fold trace_push es (trace_buffer_init c)) = last_n (unat c) es"
proof -
  have ok: "ring_ok (trace_buffer_init c)"
    using assms by (simp add: ring_ok_def trace_buffer_init_def)
  have empty: "trace_snapshot (trace_buffer_init c) = []"
    and cap: "tb_capacity (trace_buffer_init c) = c"
    by (simp_all add: trace_snapshot_def trace_buffer_init_def)
  show ?thesis
    using ring.fold_push [OF ok, of es] assms(1) by (simp add: empty cap word_less_nat_alt)
qed

theorem trace_keeps_last_events_witness:
  "trace_snapshot (fold trace_push [1, 2, 3, 4, 5 :: nat] (trace_buffer_init 3)) = [3, 4, 5]"
  using trace_keeps_last_events [of 3 "[1, 2, 3, 4, 5 :: nat]"] by (simp add: last_n_def)

text \<open>
  The counters: an increment adds to its own key only, and the keys stay distinct, in the
  order in which they were first counted.
\<close>

lemma counters_inc_value:
  "counter_value (counters_inc key d items) k =
     (if k = key then counter_value items k + d else counter_value items k)"
  by (induction items) (auto simp: counter_value_def)

lemma counters_inc_keys:
  "map fst (counters_inc key d items) =
     (if key \<in> set (map fst items) then map fst items else map fst items @ [key])"
  by (induction items) force+

lemma counter_value_obs:
  "counter_value (obs_counters (obs_counter key c)) k =
     (if obs_enabled c \<and> k = key then counter_value (obs_counters c) k + 1
      else counter_value (obs_counters c) k)"
  by (simp add: obs_counter_def counters_inc_value)

lemma obs_emit_frame [simp]:
  "obs_counters (obs_emit e c) = obs_counters c" "obs_enabled (obs_emit e c) = obs_enabled c"
  by (simp_all add: obs_emit_def)

lemma obs_counter_frame [simp]:
  "obs_trace (obs_counter k c) = obs_trace c" "obs_enabled (obs_counter k c) = obs_enabled c"
  by (simp_all add: obs_counter_def)

end
