(* ===== verification/Warp.thy ===== *)
theory Warp
  imports Observability
begin

text \<open>
  The state of a warp (\<open>WarpState\<close>, \<open>SimtFrame\<close> of \<open>include/gpusim/units.h\<close>) and the
  per-lane reads and writes that the execution units share (the static functions at the top
  of \<open>src/units/exec_core.cpp\<close>; \<open>src/units/mem_unit.cpp\<close> repeats them).

  The SIMT stack is a list whose head is the back of the C++ vector, the top of the stack.
  A lane index is a \<open>nat\<close>: every lane loop stops at 32.  A register cell is addressed by
  \<open>reg * warp_size + lane\<close> in 64-bit arithmetic, as \<open>std::size_t\<close> computes it.
\<close>

record simt_frame =
  fr_pc :: pc_t
  fr_active :: lane_mask
  fr_reconv_pc :: pc_t
  fr_is_join :: bool

record warp_state =
  w_launch :: launch_config
  w_ctaid :: dim3
  w_warpid :: u32
  w_lane_base :: u32
  w_pc :: pc_t
  w_done :: bool
  w_active :: lane_mask
  w_exited :: lane_mask
  w_stack :: "simt_frame list"
  w_r32 :: "u32 list"
  w_r64 :: "u64 list"
  w_p :: "u8 list"

section \<open>Registers\<close>

definition reg_lane_index :: "u64 \<Rightarrow> nat \<Rightarrow> u32 \<Rightarrow> u64" where
  "reg_lane_index reg lane warp_size = reg * ucast warp_size + of_nat lane"

definition operand_reg :: "operand \<Rightarrow> u64" where
  "operand_reg opr = (if o_reg_id opr < 0 then 0 else of_int (o_reg_id opr))"

definition read_reg_lane :: "operand \<Rightarrow> warp_state \<Rightarrow> nat \<Rightarrow> u64" where
  "read_reg_lane opr w lane =
     (if o_kind opr \<noteq> KReg then 0
      else let warp_size = lm_width (w_active w)
           in if warp_size = 0 then 0
              else if lane \<ge> unat warp_size then 0
              else let idx = unat (reg_lane_index (operand_reg opr) lane warp_size)
                   in if o_type opr = U64 \<or> o_type opr = S64
                      then (if idx < length (w_r64 w) then w_r64 w ! idx else 0)
                      else (if idx < length (w_r32 w) then ucast (w_r32 w ! idx) else 0))"

definition write_reg_lane :: "operand \<Rightarrow> warp_state \<Rightarrow> nat \<Rightarrow> u64 \<Rightarrow> warp_state" where
  "write_reg_lane opr w lane v =
     (if o_kind opr \<noteq> KReg then w
      else let warp_size = lm_width (w_active w)
           in if warp_size = 0 then w
              else if lane \<ge> unat warp_size then w
              else let idx = unat (reg_lane_index (operand_reg opr) lane warp_size)
                   in if o_type opr = U64 \<or> o_type opr = S64
                      then w\<lparr>w_r64 := vec_put (w_r64 w) idx v\<rparr>
                      else w\<lparr>w_r32 := vec_put (w_r32 w) idx (ucast v)\<rparr>)"

section \<open>Built-in values\<close>

definition thread_linear :: "warp_state \<Rightarrow> nat \<Rightarrow> u64" where
  "thread_linear w lane = ucast (w_lane_base w) + of_nat lane"

definition tid_of :: "warp_state \<Rightarrow> nat \<Rightarrow> dim3" where
  "tid_of w lane =
     (let bx = (ucast (dim_x (block_dim (w_launch w))) :: u64);
          by' = (ucast (dim_y (block_dim (w_launch w))) :: u64);
          bxy = bx * by';
          t = thread_linear w lane
      in \<lparr>dim_x = ucast (t mod bx), dim_y = ucast ((t div bx) mod by'),
          dim_z = ucast (t div (if bxy = 0 then 1 else bxy))\<rparr>)"

definition read_special_u32 :: "string \<Rightarrow> warp_state \<Rightarrow> nat \<Rightarrow> u64 option" where
  "read_special_u32 name w lane =
     (let bd = block_dim (w_launch w); gd = grid_dim (w_launch w); tid = tid_of w lane
      in if dim_x bd = 0 \<or> dim_y bd = 0 \<or> dim_z bd = 0 then Some 0
         else if name = ''tid.x'' then Some (ucast (dim_x tid))
         else if name = ''tid.y'' then Some (ucast (dim_y tid))
         else if name = ''tid.z'' then Some (ucast (dim_z tid))
         else if name = ''ntid.x'' then Some (ucast (dim_x bd))
         else if name = ''ntid.y'' then Some (ucast (dim_y bd))
         else if name = ''ntid.z'' then Some (ucast (dim_z bd))
         else if name = ''ctaid.x'' then Some (ucast (dim_x (w_ctaid w)))
         else if name = ''ctaid.y'' then Some (ucast (dim_y (w_ctaid w)))
         else if name = ''ctaid.z'' then Some (ucast (dim_z (w_ctaid w)))
         else if name = ''nctaid.x'' then Some (ucast (dim_x gd))
         else if name = ''nctaid.y'' then Some (ucast (dim_y gd))
         else if name = ''nctaid.z'' then Some (ucast (dim_z gd))
         else if name = ''laneid'' then Some (of_nat lane)
         else if name = ''warpid'' then Some (ucast (w_warpid w))
         else None)"

definition read_operand_lane :: "operand \<Rightarrow> warp_state \<Rightarrow> nat \<Rightarrow> u64 option" where
  "read_operand_lane opr w lane =
     (if o_kind opr = KImm then Some (of_int (o_imm opr))
      else if o_kind opr = KReg then Some (read_reg_lane opr w lane)
      else if o_kind opr = KSpecial then read_special_u32 (o_special opr) w lane
      else Some 0)"

section \<open>What a register write keeps\<close>

text \<open>
  \<open>same_context w w'\<close>: the two states differ in registers and predicates only.  Everything
  the schedulers and the SIMT stack look at is the same.
\<close>

definition same_context :: "warp_state \<Rightarrow> warp_state \<Rightarrow> bool" where
  "same_context w w' \<longleftrightarrow>
     w' = w\<lparr>w_r32 := w_r32 w', w_r64 := w_r64 w', w_p := w_p w'\<rparr>"

lemma same_context_refl [simp, intro]: "same_context w w"
  by (simp add: same_context_def)

lemma same_context_trans: "same_context w w' \<Longrightarrow> same_context w' w'' \<Longrightarrow> same_context w w''"
  by (cases w; cases w'; cases w'') (simp add: same_context_def)

lemma same_context_fields [warp_simps]:
  assumes "same_context w w'"
  shows "w_launch w' = w_launch w" "w_ctaid w' = w_ctaid w" "w_warpid w' = w_warpid w"
    "w_lane_base w' = w_lane_base w" "w_pc w' = w_pc w" "w_done w' = w_done w"
    "w_active w' = w_active w" "w_exited w' = w_exited w" "w_stack w' = w_stack w"
  using assms by (cases w; cases w'; simp add: same_context_def)+

lemma same_context_write_reg: "same_context w (write_reg_lane opr w lane v)"
  by (simp add: same_context_def write_reg_lane_def Let_def)

lemma same_context_pred [simp]: "same_context w (w\<lparr>w_p := ps\<rparr>)"
  by (simp add: same_context_def)

lemma write_reg_lane_p [simp]: "w_p (write_reg_lane opr w lane v) = w_p w"
  by (simp add: write_reg_lane_def Let_def)

section \<open>The registers of one lane\<close>

text \<open>
  The register file seen from a lane: cell \<open>r * warp_size + l\<close> of the 32-bit or the 64-bit
  file, with natural-number arithmetic.  For register numbers below \<open>2 ^ 58\<close> the code's
  64-bit index does not wrap and is this cell; the parser's largest biased id is far below.
\<close>

definition lane_reg :: "bool \<Rightarrow> warp_state \<Rightarrow> nat \<Rightarrow> nat \<Rightarrow> u64" where
  "lane_reg wide w l r =
     (let idx = r * unat (lm_width (w_active w)) + l
      in if wide then vec_get (w_r64 w) idx else ucast (vec_get (w_r32 w) idx))"

definition reg_no :: "operand \<Rightarrow> nat" where
  "reg_no opr = nat (o_reg_id opr)"

definition reg_ok :: "operand \<Rightarrow> bool" where
  "reg_ok opr \<longleftrightarrow> reg_no opr < 2 ^ 58"

definition width_ok :: "warp_state \<Rightarrow> bool" where
  "width_ok w \<longleftrightarrow> 0 < unat (lm_width (w_active w)) \<and> unat (lm_width (w_active w)) \<le> 32"

lemma operand_reg_no: "reg_ok opr \<Longrightarrow> unat (operand_reg opr) = reg_no opr"
proof -
  assume ok: "reg_ok opr"
  have "operand_reg opr = of_nat (reg_no opr)" by (simp add: operand_reg_def reg_no_def)
  moreover have "reg_no opr < 2 ^ 64" using ok by (simp add: reg_ok_def)
  ultimately show ?thesis by (simp add: unat_of_nat_u64)
qed

lemma reg_lane_index_nat:
  assumes "reg_ok opr" and "unat ws \<le> 32" and "l < 32"
  shows "unat (reg_lane_index (operand_reg opr) l ws) = reg_no opr * unat ws + l"
proof -
  have "reg_no opr * unat ws \<le> reg_no opr * 32" by (rule mult_le_mono2 [OF assms(2)])
  moreover have "reg_no opr < 288230376151711744" using assms(1) by (simp add: reg_ok_def)
  ultimately have "reg_no opr * unat ws + l < 18446744073709551616" using assms(3) by linarith
  then have b: "reg_no opr * unat ws + l < 2 ^ 64" by simp
  have "unat (operand_reg opr * ucast ws) = reg_no opr * unat ws"
    using b by (subst unat_mult_lem [THEN iffD1]) (simp_all add: operand_reg_no [OF assms(1)])
  moreover have "unat (of_nat l :: u64) = l" using assms(3) by (intro unat_of_nat_u64) simp
  ultimately show ?thesis
    unfolding reg_lane_index_def using b by (subst unat_add_u64) simp_all
qed

lemma read_reg_lane_eq:
  assumes "o_kind opr = KReg" and "reg_ok opr" and "width_ok w" and "l < unat (lm_width (w_active w))"
  shows "read_reg_lane opr w l = lane_reg (is_wide (o_type opr)) w l (reg_no opr)"
proof -
  have l: "l < 32" and ws: "unat (lm_width (w_active w)) \<le> 32" and nz: "lm_width (w_active w) \<noteq> 0"
    using assms(3,4) by (auto simp: width_ok_def)
  show ?thesis
    using assms(1,4) nz
    by (cases "o_type opr")
      (simp_all add: read_reg_lane_def lane_reg_def Let_def vec_get_def
        reg_lane_index_nat [OF assms(2) ws l])
qed

lemma cell_inj:
  fixes n :: nat
  assumes "l < n" and "l' < n" and "r * n + l = r' * n + l'"
  shows "r = r' \<and> l = l'"
proof -
  have "r = (r * n + l) div n" and "l = (r * n + l) mod n" using assms(1) by simp_all
  moreover have "r' = (r' * n + l') div n" and "l' = (r' * n + l') mod n" using assms(2) by simp_all
  ultimately show ?thesis using assms(3) by metis
qed

text \<open>A write changes one register of one lane; a 32-bit register keeps the low half.\<close>

lemma lane_reg_write:
  assumes "o_kind opr = KReg" and "reg_ok opr" and "width_ok w"
    and "l < unat (lm_width (w_active w))" and "l' < unat (lm_width (w_active w))"
  shows "lane_reg wide (write_reg_lane opr w l v) l' r =
    (if l' = l \<and> r = reg_no opr \<and> wide = is_wide (o_type opr)
     then (if wide then v else ucast (ucast v :: u32)) else lane_reg wide w l' r)"
proof -
  let ?n = "unat (lm_width (w_active w))"
  have l: "l < 32" and ws: "?n \<le> 32" and nz: "lm_width (w_active w) \<noteq> 0"
    using assms(3,4) by (auto simp: width_ok_def)
  have inj: "reg_no opr * ?n + l = r * ?n + l' \<longleftrightarrow> l' = l \<and> r = reg_no opr"
    using cell_inj [OF assms(4,5), of "reg_no opr" r] by auto
  have idx: "r * ?n + l' = reg_no opr * ?n + l \<longleftrightarrow> l' = l \<and> r = reg_no opr"
    using inj by metis
  have wr: "write_reg_lane opr w l v =
    (if is_wide (o_type opr) then w\<lparr>w_r64 := vec_put (w_r64 w) (reg_no opr * ?n + l) v\<rparr>
     else w\<lparr>w_r32 := vec_put (w_r32 w) (reg_no opr * ?n + l) (ucast v)\<rparr>)"
    using assms(1,4) nz
    by (cases "o_type opr")
      (simp_all add: write_reg_lane_def Let_def reg_lane_index_nat [OF assms(2) ws l])
  show ?thesis by (auto simp: lane_reg_def wr vec_get_put idx Let_def)
qed

end
