(* ===== verification/ExecCore.thy ===== *)
theory ExecCore
  imports Warp
begin

text \<open>
  The arithmetic unit, \<open>ExecCore::step\<close> (\<open>src/units/exec_core.cpp\<close>): one definition per
  micro-operation and the dispatcher.  Each returns the warp, the observability state and the
  step result.  A lane loop that meets an unknown special register returns at once; the lanes
  before it have been written, as in the code.

  Single-precision arithmetic is the machine's: a record of functions on the 32-bit patterns
  (\<open>a + b\<close>, \<open>a * b\<close>, \<open>std::fma\<close>, the conversion from \<open>uint32_t\<close>), a parameter of the model.
\<close>

record f32_ops =
  f32_add :: "u32 \<Rightarrow> u32 \<Rightarrow> u32"
  f32_mul :: "u32 \<Rightarrow> u32 \<Rightarrow> u32"
  f32_fma :: "u32 \<Rightarrow> u32 \<Rightarrow> u32 \<Rightarrow> u32"
  f32_of_u32 :: "u32 \<Rightarrow> u32"

type_synonym unit_result = "warp_state \<times> obs_control \<times> step_result"

section \<open>Lane loops\<close>

definition exec_mask_of :: "warp_state \<Rightarrow> micro_op \<Rightarrow> lane_mask" where
  "exec_mask_of w u = lane_mask_and (w_active w) (u_guard u)"

definition exec_error :: "string \<Rightarrow> string \<Rightarrow> diagnostic" where
  "exec_error code msg = mk_diag ''units.exec'' code msg"

definition unknown_special :: diagnostic where
  "unknown_special = exec_error ''E_SPECIAL_UNKNOWN'' ''unknown special operand''"

text \<open>The end of a unit: the error of the lane loop, or the counter and a finished step.\<close>

definition finish :: "string \<Rightarrow> obs_control \<Rightarrow> warp_state \<times> diagnostic option \<Rightarrow> unit_result" where
  "finish name obs res =
     (case res of
        (w, Some d) \<Rightarrow> (w, obs, step_error d)
      | (w, None) \<Rightarrow> (w, obs_counter name obs, step_ok))"

text \<open>
  The loop that six operations share: read the operands of a lane, compute, write the output
  register of the lane.  \<open>f\<close> is \<open>None\<close> when an operand is an unknown special register.
\<close>

definition lane_map ::
  "diagnostic \<Rightarrow> micro_op \<Rightarrow> (warp_state \<Rightarrow> nat \<Rightarrow> u64 option) \<Rightarrow> warp_state \<Rightarrow> warp_state \<times> diagnostic option" where
  "lane_map d u f w =
     loop_e (\<lambda>lane w.
         case f w lane of
           None \<Rightarrow> (w, Some d)
         | Some v \<Rightarrow> (write_reg_lane (u_outputs u ! 0) w lane v, None))
       (active_lanes (exec_mask_of w u)) w"

definition in_lane :: "micro_op \<Rightarrow> nat \<Rightarrow> warp_state \<Rightarrow> nat \<Rightarrow> u64 option" where
  "in_lane u k w lane = read_operand_lane (u_inputs u ! k) w lane"

definition map2_option :: "('a \<Rightarrow> 'b \<Rightarrow> 'c) \<Rightarrow> 'a option \<Rightarrow> 'b option \<Rightarrow> 'c option" where
  "map2_option f a b = (case (a, b) of (Some x, Some y) \<Rightarrow> Some (f x y) | _ \<Rightarrow> None)"

definition arity_is :: "micro_op \<Rightarrow> nat \<Rightarrow> bool" where
  "arity_is u n \<longleftrightarrow> length (u_outputs u) = 1 \<and> length (u_inputs u) = n"

definition out_type :: "micro_op \<Rightarrow> value_type" where
  "out_type u = o_type (u_outputs u ! 0)"

section \<open>Moves, conversion, arithmetic\<close>

definition exec_mov :: "micro_op \<Rightarrow> warp_state \<Rightarrow> obs_control \<Rightarrow> unit_result" where
  "exec_mov u w obs =
     (if \<not> arity_is u 1
      then (w, obs, step_error (exec_error ''E_UOP_ARITY'' ''MOV expects 1 in, 1 out''))
      else finish ''uop.exec.mov'' obs
        (lane_map (exec_error ''E_SPECIAL_UNKNOWN''
                     (''unknown special operand: '' @ o_special (u_inputs u ! 0)))
           u (in_lane u 0) w))"

definition exec_cvt :: "f32_ops \<Rightarrow> micro_op \<Rightarrow> warp_state \<Rightarrow> obs_control \<Rightarrow> unit_result" where
  "exec_cvt fp u w obs =
     (if \<not> arity_is u 1
      then (w, obs, step_error (exec_error ''E_UOP_ARITY'' ''CVT expects 1 in, 1 out''))
      else if out_type u \<noteq> F32 \<or> o_type (u_inputs u ! 0) \<noteq> U32
      then (w, obs, step_error
              (exec_error ''E_UOP_TYPE'' ''CVT only supports u32->f32 in this milestone''))
      else finish ''uop.exec.cvt.f32.u32'' obs
        (lane_map unknown_special u
           (\<lambda>w l. map_option (\<lambda>a. ucast (f32_of_u32 fp (ucast a))) (in_lane u 0 w l)) w))"

definition f32_binop :: "(u32 \<Rightarrow> u32 \<Rightarrow> u32) \<Rightarrow> u64 \<Rightarrow> u64 \<Rightarrow> u64" where
  "f32_binop f a b = ucast (f (ucast a) (ucast b))"

definition exec_add :: "f32_ops \<Rightarrow> micro_op \<Rightarrow> warp_state \<Rightarrow> obs_control \<Rightarrow> unit_result" where
  "exec_add fp u w obs =
     (if \<not> arity_is u 2
      then (w, obs, step_error (exec_error ''E_UOP_ARITY'' ''ADD expects 2 in, 1 out''))
      else if a_type (u_attrs u) = F32
      then finish ''uop.exec.add.f32'' obs
        (lane_map unknown_special u
           (\<lambda>w l. map2_option (f32_binop (f32_add fp)) (in_lane u 0 w l) (in_lane u 1 w l)) w)
      else finish ''uop.exec.add'' obs
        (lane_map unknown_special u
           (\<lambda>w l. map2_option (+) (in_lane u 0 w l) (in_lane u 1 w l)) w))"

text \<open>
  The integer product is formed from the low 32 bits of the operands, sign- or zero-extended
  to 64 bits; a 32-bit output keeps its low half.
\<close>

definition mul_value :: "value_type \<Rightarrow> value_type \<Rightarrow> u64 \<Rightarrow> u64 \<Rightarrow> u64" where
  "mul_value ty out_ty a b =
     (let prod =
        (if ty = S32 \<or> ty = S64
         then (scast (ucast a :: u32) :: u64) * scast (ucast b :: u32)
         else ucast (ucast a :: u32) * ucast (ucast b :: u32))
      in if out_ty = U64 \<or> out_ty = S64 then prod else ucast (ucast prod :: u32))"

definition exec_mul :: "f32_ops \<Rightarrow> micro_op \<Rightarrow> warp_state \<Rightarrow> obs_control \<Rightarrow> unit_result" where
  "exec_mul fp u w obs =
     (if \<not> arity_is u 2
      then (w, obs, step_error (exec_error ''E_UOP_ARITY'' ''MUL expects 2 in, 1 out''))
      else if a_type (u_attrs u) = F32
      then finish ''uop.exec.mul.f32'' obs
        (lane_map unknown_special u
           (\<lambda>w l. map2_option (f32_binop (f32_mul fp)) (in_lane u 0 w l) (in_lane u 1 w l)) w)
      else finish ''uop.exec.mul'' obs
        (lane_map unknown_special u
           (\<lambda>w l. map2_option (mul_value (a_type (u_attrs u)) (out_type u))
                    (in_lane u 0 w l) (in_lane u 1 w l)) w))"

definition shl_value :: "bool \<Rightarrow> u64 \<Rightarrow> u64 \<Rightarrow> u64" where
  "shl_value is_64 a b =
     (let sh = (ucast b :: u32) AND (if is_64 then 63 else 31)
      in if is_64 then push_bit (unat sh) a else ucast (push_bit (unat sh) (ucast a :: u32)))"

definition exec_shl :: "micro_op \<Rightarrow> warp_state \<Rightarrow> obs_control \<Rightarrow> unit_result" where
  "exec_shl u w obs =
     (if \<not> arity_is u 2
      then (w, obs, step_error (exec_error ''E_UOP_ARITY'' ''SHL expects 2 in, 1 out''))
      else finish ''uop.exec.shl'' obs
        (lane_map unknown_special u
           (\<lambda>w l. map2_option (shl_value (is_wide (a_type (u_attrs u)) \<or> is_wide (out_type u)))
                    (in_lane u 0 w l) (in_lane u 1 w l)) w))"

definition exec_fma :: "f32_ops \<Rightarrow> micro_op \<Rightarrow> warp_state \<Rightarrow> obs_control \<Rightarrow> unit_result" where
  "exec_fma fp u w obs =
     (if \<not> arity_is u 3
      then (w, obs, step_error (exec_error ''E_UOP_ARITY'' ''FMA expects 3 in, 1 out''))
      else if a_type (u_attrs u) \<noteq> F32
      then (w, obs, step_error
              (exec_error ''E_UOP_TYPE'' ''FMA only supports f32 in this milestone''))
      else finish ''uop.exec.fma.f32'' obs
        (lane_map unknown_special u
           (\<lambda>w l. map2_option (\<lambda>ab c. ucast (f32_fma fp (fst ab) (snd ab) (ucast c)))
                    (map2_option (\<lambda>a b. (ucast a, ucast b)) (in_lane u 0 w l) (in_lane u 1 w l))
                    (in_lane u 2 w l)) w))"

section \<open>Shuffles\<close>

definition has_flag :: "string list \<Rightarrow> string \<Rightarrow> bool" where
  "has_flag flags name = (name \<in> set flags)"

definition shfl_width_from_clamp :: "u32 \<Rightarrow> u32" where
  "shfl_width_from_clamp clamp =
     (let width = 32 - (drop_bit 8 clamp AND 0x1F)
      in if width = 0 \<or> width > 32 then 32 else width)"

definition shfl_src_lane :: "bool \<Rightarrow> u32 \<Rightarrow> u32 \<Rightarrow> u32 \<Rightarrow> u32" where
  "shfl_src_lane do_down lane lane_or_idx clamp =
     (let width = shfl_width_from_clamp clamp;
          seg_base = lane - (lane mod width)
      in if do_down
         then (let delta = lane_or_idx AND 0x1F; lane_in_seg = lane - seg_base
               in if lane_in_seg + delta < width then lane + delta else lane)
         else seg_base + ((lane_or_idx AND 0x1F) mod width))"

text \<open>The source value is read from the registers as the lanes before have left them.\<close>

definition shfl_lane :: "bool \<Rightarrow> micro_op \<Rightarrow> lane_mask \<Rightarrow> warp_state \<Rightarrow> nat \<Rightarrow> u64 option" where
  "shfl_lane do_down u exec_mask w lane =
     (case (in_lane u 0 w lane, in_lane u 1 w lane, in_lane u 2 w lane, in_lane u 3 w lane) of
        (Some src_self, Some lane_param, Some clamp_param, Some member_param) \<Rightarrow>
          let src_lane = shfl_src_lane do_down (of_nat lane) (ucast lane_param) (ucast clamp_param);
              member_mask = (ucast member_param :: u32);
              lane_in_member = bit member_mask lane;
              src_in_range = src_lane < lm_width exec_mask \<and> src_lane < 32;
              src_in_member = src_in_range \<and> bit member_mask (unat src_lane)
          in if lane_in_member \<and> src_in_member then in_lane u 0 w (unat src_lane)
             else Some src_self
      | _ \<Rightarrow> None)"

definition exec_shfl :: "micro_op \<Rightarrow> warp_state \<Rightarrow> obs_control \<Rightarrow> unit_result" where
  "exec_shfl u w obs =
     (if \<not> arity_is u 4
      then (w, obs, step_error (exec_error ''E_UOP_ARITY'' ''SHFL expects 4 in, 1 out''))
      else let do_down = has_flag (a_flags (u_attrs u)) ''down'';
               do_idx = has_flag (a_flags (u_attrs u)) ''idx''
           in if of_bool do_down + of_bool do_idx \<noteq> (1 :: nat)
              then (w, obs, step_error
                      (exec_error ''E_SHFL_MODE'' ''SHFL requires exactly one of .down or .idx''))
              else finish (if do_down then ''uop.exec.shfl.down'' else ''uop.exec.shfl.idx'') obs
                (lane_map unknown_special u (shfl_lane do_down u (exec_mask_of w u)) w))"

section \<open>Warp reduction\<close>

definition reduce_sum :: "f32_ops \<Rightarrow> micro_op \<Rightarrow> warp_state \<Rightarrow> u32 \<times> diagnostic option" where
  "reduce_sum fp u w =
     loop_e (\<lambda>lane acc.
         case in_lane u 0 w lane of
           None \<Rightarrow> (acc, Some unknown_special)
         | Some v \<Rightarrow> (f32_add fp acc (ucast v), None))
       (active_lanes (exec_mask_of w u)) 0"

definition exec_warp_reduce_add :: "f32_ops \<Rightarrow> micro_op \<Rightarrow> warp_state \<Rightarrow> obs_control \<Rightarrow> unit_result" where
  "exec_warp_reduce_add fp u w obs =
     (if \<not> arity_is u 1
      then (w, obs, step_error
              (exec_error ''E_UOP_ARITY'' ''WARP_REDUCE_ADD expects 1 in, 1 out''))
      else if a_type (u_attrs u) \<noteq> F32
      then (w, obs, step_error
              (exec_error ''E_UOP_TYPE'' ''WARP_REDUCE_ADD only supports f32 in this milestone''))
      else case reduce_sum fp u w of
             (_, Some d) \<Rightarrow> (w, obs, step_error d)
           | (acc, None) \<Rightarrow>
               finish ''uop.exec.warp_reduce_add.f32'' obs
                 (lane_map unknown_special u (\<lambda>_ _. Some (ucast acc)) w))"

section \<open>Comparison\<close>

datatype cmp_op = CmpLt | CmpLe | CmpGt | CmpGe | CmpEq | CmpNe

definition cmp_op_of :: "string list \<Rightarrow> cmp_op" where
  "cmp_op_of flags =
     (if has_flag flags ''le'' then CmpLe
      else if has_flag flags ''gt'' then CmpGt
      else if has_flag flags ''ge'' then CmpGe
      else if has_flag flags ''eq'' then CmpEq
      else if has_flag flags ''ne'' then CmpNe
      else CmpLt)"

definition cmp_flag_count :: "string list \<Rightarrow> nat" where
  "cmp_flag_count flags =
     length (filter (has_flag flags) [''lt'', ''le'', ''gt'', ''ge'', ''eq'', ''ne''])"

fun cmp_int :: "cmp_op \<Rightarrow> int \<Rightarrow> int \<Rightarrow> bool" where
  "cmp_int CmpLt a b = (a < b)"
| "cmp_int CmpLe a b = (a \<le> b)"
| "cmp_int CmpGt a b = (a > b)"
| "cmp_int CmpGe a b = (a \<ge> b)"
| "cmp_int CmpEq a b = (a = b)"
| "cmp_int CmpNe a b = (a \<noteq> b)"

text \<open>The operands are compared by their low 32 bits, signed for \<open>s32\<close> and \<open>s64\<close>.\<close>

definition setp_value :: "value_type \<Rightarrow> cmp_op \<Rightarrow> u64 \<Rightarrow> u64 \<Rightarrow> bool" where
  "setp_value ty c a b =
     (if ty = S32 \<or> ty = S64
      then cmp_int c (sint (ucast a :: u32)) (sint (ucast b :: u32))
      else cmp_int c (uint (ucast a :: u32)) (uint (ucast b :: u32)))"

definition exec_setp :: "micro_op \<Rightarrow> warp_state \<Rightarrow> obs_control \<Rightarrow> unit_result" where
  "exec_setp u w obs =
     (if \<not> arity_is u 2
      then (w, obs, step_error (exec_error ''E_UOP_ARITY'' ''SETP expects 2 in, 1 out''))
      else if o_kind (u_outputs u ! 0) \<noteq> KPred \<or> o_pred_id (u_outputs u ! 0) < 0
      then (w, obs, step_error (exec_error ''E_OPERAND_KIND'' ''SETP output must be a predicate''))
      else if cmp_flag_count (a_flags (u_attrs u)) > 1
      then (w, obs, step_error (exec_error ''E_SETP_FLAGS'' ''SETP has multiple compare flags''))
      else let warp_size = lm_width (w_active w);
               base = (of_int (o_pred_id (u_outputs u ! 0)) * ucast warp_size :: u64)
           in if warp_size = 0 \<or> warp_size > 32
              then (w, obs, step_error (exec_error ''E_WARP_SIZE'' ''invalid warp_size''))
              else if unat (base + ucast warp_size) > length (w_p w)
              then (w, obs, step_error (exec_error ''E_PRED_OOB'' ''predicate id out of range''))
              else finish ''uop.exec.setp'' obs
                (loop_e (\<lambda>lane w.
                     case map2_option (setp_value (a_type (u_attrs u)) (cmp_op_of (a_flags (u_attrs u))))
                            (in_lane u 0 w lane) (in_lane u 1 w lane) of
                       None \<Rightarrow> (w, Some unknown_special)
                     | Some c \<Rightarrow> (w\<lparr>w_p := (w_p w)[unat (base + of_nat lane) := if c then 1 else 0]\<rparr>, None))
                   (active_lanes (exec_mask_of w u)) w))"

section \<open>The dispatcher\<close>

definition exec_step :: "f32_ops \<Rightarrow> micro_op \<Rightarrow> warp_state \<Rightarrow> obs_control \<Rightarrow> unit_result" where
  "exec_step fp u w obs =
     (if w_done w then (w, obs, step_result_default\<lparr>r_warp_done := True\<rparr>)
      else case u_op u of
          Mov \<Rightarrow> exec_mov u w obs
        | Cvt \<Rightarrow> exec_cvt fp u w obs
        | Add \<Rightarrow> exec_add fp u w obs
        | Mul \<Rightarrow> exec_mul fp u w obs
        | Shl \<Rightarrow> exec_shl u w obs
        | Shfl \<Rightarrow> exec_shfl u w obs
        | Fma \<Rightarrow> exec_fma fp u w obs
        | WarpReduceAdd \<Rightarrow> exec_warp_reduce_add fp u w obs
        | Setp \<Rightarrow> exec_setp u w obs
        | _ \<Rightarrow> (w, obs, step_error (exec_error ''E_UOP_UNSUPPORTED'' ''unsupported exec uop'')))"

lemmas exec_defs [step_defs] =
  exec_mov_def exec_cvt_def exec_add_def exec_mul_def exec_shl_def exec_shfl_def exec_fma_def
  exec_warp_reduce_add_def exec_setp_def

section \<open>The frame of a lane loop\<close>

lemma lane_map_same_context: "same_context w (fst (lane_map d u f w))"
  unfolding lane_map_def
proof (rule loop_e_invariant)
  fix l s assume "same_context w s"
  then show "same_context w (fst (case f s l of None \<Rightarrow> (s, Some d)
        | Some v \<Rightarrow> (write_reg_lane (u_outputs u ! 0) s l v, None)))"
    by (auto split: option.split intro: same_context_trans same_context_write_reg)
qed simp

lemma finish_fst [simp]: "fst (finish name obs res) = fst res"
  by (simp add: finish_def split: prod.split option.split)

lemma finish_none [simp]: "finish name obs (w, None) = (w, obs_counter name obs, step_ok)"
  by (simp add: finish_def)

lemma setp_loop_same_context:
  "same_context w (fst (loop_e (\<lambda>lane w. case g w lane of None \<Rightarrow> (w, Some d)
      | Some c \<Rightarrow> (w\<lparr>w_p := (w_p w)[h lane := k c]\<rparr>, None)) ls w))"
proof (rule loop_e_invariant)
  fix l s assume "same_context w s"
  then show "same_context w (fst (case g s l of None \<Rightarrow> (s, Some d)
      | Some c \<Rightarrow> (s\<lparr>w_p := (w_p s)[h l := k c]\<rparr>, None)))"
    by (auto split: option.split intro: same_context_trans same_context_pred)
qed simp

lemma exec_step_same_context: "same_context w (fst (exec_step fp u w obs))"
  by (cases "u_op u")
    (simp_all add: exec_step_def exec_defs Let_def lane_map_same_context setp_loop_same_context
      split: prod.split option.split)

section \<open>Lanes do not disturb each other\<close>

text \<open>
  \<open>same_lane w w' l\<close>: the two states agree on every register of lane \<open>l\<close>.  A value that
  depends on the context and on the lane's own registers only is \<open>lane_local\<close>.
\<close>

definition same_lane :: "warp_state \<Rightarrow> warp_state \<Rightarrow> nat \<Rightarrow> bool" where
  "same_lane w w' l \<longleftrightarrow> (\<forall>wide r. lane_reg wide w' l r = lane_reg wide w l r)"

definition lane_local :: "(warp_state \<Rightarrow> nat \<Rightarrow> 'a) \<Rightarrow> warp_state \<Rightarrow> nat \<Rightarrow> bool" where
  "lane_local f w l \<longleftrightarrow> (\<forall>w'. same_context w w' \<longrightarrow> same_lane w w' l \<longrightarrow> f w' l = f w l)"

lemma width_ok_context: "same_context w w' \<Longrightarrow> width_ok w' \<longleftrightarrow> width_ok w"
  by (simp add: width_ok_def warp_simps)

lemma read_special_context:
  "same_context w w' \<Longrightarrow> read_special_u32 name w' l = read_special_u32 name w l"
  by (simp add: read_special_u32_def tid_of_def thread_linear_def warp_simps Let_def)

lemma read_operand_lane_local:
  assumes "reg_ok opr" and "width_ok w" and "l < unat (lm_width (w_active w))"
  shows "lane_local (read_operand_lane opr) w l"
  unfolding lane_local_def
proof (intro allI impI)
  fix w' assume c: "same_context w w'" and s: "same_lane w w' l"
  have wd: "width_ok w'" "l < unat (lm_width (w_active w'))"
    using assms c by (simp_all add: width_ok_context warp_simps)
  have "read_reg_lane opr w' l = read_reg_lane opr w l" if "o_kind opr = KReg"
    using s by (simp add: read_reg_lane_eq [OF that] assms wd same_lane_def)
  then show "read_operand_lane opr w' l = read_operand_lane opr w l"
    using read_special_context [OF c] by (simp add: read_operand_lane_def)
qed

lemma in_lane_local:
  assumes "reg_ok (u_inputs u ! k)" and "width_ok w" and "l < unat (lm_width (w_active w))"
  shows "lane_local (in_lane u k) w l"
  using read_operand_lane_local [OF assms] by (simp add: lane_local_def in_lane_def)

definition reg_value :: "bool \<Rightarrow> u64 \<Rightarrow> u64" where
  "reg_value wide v = (if wide then v else ucast (ucast v :: u32))"

definition lane_written :: "micro_op \<Rightarrow> nat set \<Rightarrow> (nat \<Rightarrow> u64) \<Rightarrow> warp_state \<Rightarrow> warp_state \<Rightarrow> bool" where
  "lane_written u ls v w w' \<longleftrightarrow>
     (let out = u_outputs u ! 0 in
      \<forall>wide r l. l < unat (lm_width (w_active w)) \<longrightarrow>
        lane_reg wide w' l r =
          (if l \<in> ls \<and> r = reg_no out \<and> wide = is_wide (o_type out)
           then reg_value wide (v l) else lane_reg wide w l r))"

lemma lane_written_empty: "lane_written u {} v w w"
  by (simp add: lane_written_def Let_def)

lemma lane_written_same_lane:
  "lane_written u ls v w w' \<Longrightarrow> l < unat (lm_width (w_active w)) \<Longrightarrow> l \<notin> ls \<Longrightarrow> same_lane w w' l"
  by (simp add: lane_written_def same_lane_def Let_def)

lemma lane_written_insert:
  assumes "lane_written u ls v w w'" and "same_context w w'" and "width_ok w"
    and "o_kind (u_outputs u ! 0) = KReg" and "reg_ok (u_outputs u ! 0)"
    and "l < unat (lm_width (w_active w))"
  shows "lane_written u (insert l ls) v w (write_reg_lane (u_outputs u ! 0) w' l (v l))"
proof -
  have wd: "width_ok w'" "l < unat (lm_width (w_active w'))"
    using assms by (simp_all add: width_ok_context warp_simps)
  have "lane_reg wide (write_reg_lane (u_outputs u ! 0) w' l (v l)) l' r =
      (if l' \<in> insert l ls \<and> r = reg_no (u_outputs u ! 0) \<and> wide = is_wide (o_type (u_outputs u ! 0))
       then reg_value wide (v l') else lane_reg wide w l' r)"
    if "l' < unat (lm_width (w_active w))" for wide l' r
  proof -
    have l': "l' < unat (lm_width (w_active w'))" using that assms(2) by (simp add: warp_simps)
    show ?thesis
      using assms(1) that unfolding lane_written_def Let_def
      by (auto simp: lane_reg_write [OF assms(4,5) wd l'] reg_value_def)
  qed
  then show ?thesis by (simp add: lane_written_def Let_def)
qed

text \<open>
  The loop writes \<open>v l\<close> to every lane \<open>l\<close> of its list when, in every state that agrees with
  the initial one outside the lanes already done, the body writes \<open>v l\<close>.
\<close>

lemma lane_loop_body:
  assumes "width_ok w" and "o_kind (u_outputs u ! 0) = KReg" and "reg_ok (u_outputs u ! 0)"
    and "\<And>l. l \<in> set ls \<Longrightarrow> l < unat (lm_width (w_active w))"
    and "\<And>pre l post w'. ls = pre @ l # post \<Longrightarrow> same_context w w' \<Longrightarrow>
           lane_written u (set pre) v w w' \<Longrightarrow>
           body l w' = (write_reg_lane (u_outputs u ! 0) w' l (v l), None)"
  shows "\<exists>w'. loop_e body ls w = (w', None) \<and> same_context w w' \<and> lane_written u (set ls) v w w'"
  using assms(4,5)
proof (induction ls rule: rev_induct)
  case Nil
  then show ?case by (simp add: lane_written_empty)
next
  case (snoc l ls)
  have "\<exists>w'. loop_e body ls w = (w', None) \<and> same_context w w' \<and> lane_written u (set ls) v w w'"
  proof (rule snoc.IH)
    fix pre l' post w'
    assume "ls = pre @ l' # post" "same_context w w'" "lane_written u (set pre) v w w'"
    then show "body l' w' = (write_reg_lane (u_outputs u ! 0) w' l' (v l'), None)"
      by (intro snoc.prems(2) [of pre l' "post @ [l]"]) simp_all
  qed (simp add: snoc.prems(1))
  then obtain w' where w': "loop_e body ls w = (w', None)"
    "same_context w w'" "lane_written u (set ls) v w w'" by blast
  have f: "body l w' = (write_reg_lane (u_outputs u ! 0) w' l (v l), None)"
    by (rule snoc.prems(2) [of ls l "[]"]) (simp_all add: w')
  have "lane_written u (insert l (set ls)) v w (write_reg_lane (u_outputs u ! 0) w' l (v l))"
    using snoc.prems(1) [of l] by (intro lane_written_insert assms(1-3) w') simp
  moreover have "same_context w (write_reg_lane (u_outputs u ! 0) w' l (v l))"
    by (rule same_context_trans [OF w'(2) same_context_write_reg])
  ultimately show ?case by (simp add: loop_e_append w'(1) f)
qed

lemma lane_loop_written:
  assumes "width_ok w" and "o_kind (u_outputs u ! 0) = KReg" and "reg_ok (u_outputs u ! 0)"
    and "\<And>l. l \<in> set ls \<Longrightarrow> l < unat (lm_width (w_active w))"
    and "\<And>pre l post w'. ls = pre @ l # post \<Longrightarrow> same_context w w' \<Longrightarrow>
           lane_written u (set pre) v w w' \<Longrightarrow> f w' l = Some (v l)"
  shows "\<exists>w'. loop_e (\<lambda>lane w. case f w lane of None \<Rightarrow> (w, Some d)
              | Some x \<Rightarrow> (write_reg_lane (u_outputs u ! 0) w lane x, None)) ls w = (w', None) \<and>
            same_context w w' \<and> lane_written u (set ls) v w w'"
  by (rule lane_loop_body [OF assms(1-4)]) (simp_all add: assms(5))

lemma active_lane_bound: "l \<in> set (active_lanes (exec_mask_of w u)) \<Longrightarrow> l < unat (lm_width (w_active w))"
  by (simp add: set_active_lanes lane_mask_test_iff exec_mask_of_def)

lemma lane_map_local:
  assumes "width_ok w" and "o_kind (u_outputs u ! 0) = KReg" and "reg_ok (u_outputs u ! 0)"
    and "\<And>l. l \<in> set (active_lanes (exec_mask_of w u)) \<Longrightarrow> lane_local f w l \<and> f w l = Some (v l)"
  shows "\<exists>w'. lane_map d u f w = (w', None) \<and> same_context w w' \<and>
              lane_written u (set (active_lanes (exec_mask_of w u))) v w w'"
  unfolding lane_map_def
proof (rule lane_loop_written [OF assms(1-3)])
  fix pre l post w'
  assume ls: "active_lanes (exec_mask_of w u) = pre @ l # post"
    and c: "same_context w w'" and wr: "lane_written u (set pre) v w w'"
  have mem: "l \<in> set (active_lanes (exec_mask_of w u))" by (simp add: ls)
  have "l \<notin> set pre" using distinct_active_lanes [of "exec_mask_of w u"] by (simp add: ls)
  then have "same_lane w w' l" by (rule lane_written_same_lane [OF wr active_lane_bound [OF mem]])
  then show "f w' l = Some (v l)" using assms(4) [OF mem] c by (simp add: lane_local_def)
qed (rule active_lane_bound)

section \<open>The scalar reading of the arithmetic operations\<close>

text \<open>
  What an operation computes in one lane from its operand values: the reference the vector
  code is compared with.  Products are products of integers, read with or without sign from the
  low 32 bits; shifts multiply by a power of two, with the distance taken modulo the width.
\<close>

definition int_value :: "bool \<Rightarrow> u64 \<Rightarrow> int" where
  "int_value with_sign x =
     (let n = uint x mod 2 ^ 32 in if with_sign \<and> n \<ge> 2 ^ 31 then n - 2 ^ 32 else n)"

definition product_of :: "value_type \<Rightarrow> value_type \<Rightarrow> u64 \<Rightarrow> u64 \<Rightarrow> u64" where
  "product_of ty out_ty a b =
     (let p = int_value (ty \<in> {S32, S64}) a * int_value (ty \<in> {S32, S64}) b
      in word_of_int (if out_ty \<in> {U64, S64} then p else p mod 2 ^ 32))"

definition shifted :: "nat \<Rightarrow> u64 \<Rightarrow> u64 \<Rightarrow> u64" where
  "shifted width a b = word_of_int (uint a * 2 ^ (unat b mod width) mod 2 ^ width)"

fun alu_scalar :: "f32_ops \<Rightarrow> micro_op \<Rightarrow> u64 list \<Rightarrow> u64 option" where
  "alu_scalar fp u [a] =
     (case u_op u of
        Mov \<Rightarrow> Some a
      | Cvt \<Rightarrow> (if out_type u = F32 \<and> o_type (u_inputs u ! 0) = U32
                then Some (ucast (f32_of_u32 fp (ucast a))) else None)
      | _ \<Rightarrow> None)"
| "alu_scalar fp u [a, b] =
     (case u_op u of
        Add \<Rightarrow> Some (if a_type (u_attrs u) = F32 then f32_binop (f32_add fp) a b else a + b)
      | Mul \<Rightarrow> Some (if a_type (u_attrs u) = F32 then f32_binop (f32_mul fp) a b
                    else product_of (a_type (u_attrs u)) (out_type u) a b)
      | Shl \<Rightarrow> Some (shifted (if is_wide (a_type (u_attrs u)) \<or> is_wide (out_type u) then 64 else 32) a b)
      | _ \<Rightarrow> None)"
| "alu_scalar fp u [a, b, c] =
     (if u_op u = Fma \<and> a_type (u_attrs u) = F32
      then Some (ucast (f32_fma fp (ucast a) (ucast b) (ucast c))) else None)"
| "alu_scalar fp u _ = None"

definition operand_values :: "micro_op \<Rightarrow> warp_state \<Rightarrow> nat \<Rightarrow> u64 option list" where
  "operand_values u w l = map (\<lambda>opr. read_operand_lane opr w l) (u_inputs u)"

definition regs_ok :: "micro_op \<Rightarrow> bool" where
  "regs_ok u \<longleftrightarrow> (\<forall>opr \<in> set (u_inputs u @ u_outputs u). reg_ok opr) \<and>
     length (u_outputs u) = 1 \<and> o_kind (u_outputs u ! 0) = KReg"

definition alu_value :: "f32_ops \<Rightarrow> micro_op \<Rightarrow> warp_state \<Rightarrow> nat \<Rightarrow> u64 option" where
  "alu_value fp u w l =
     (if None \<in> set (operand_values u w l) then None
      else alu_scalar fp u (map the (operand_values u w l)))"

lemma map2_option_local:
  "lane_local f w l \<Longrightarrow> lane_local g w l \<Longrightarrow> lane_local (\<lambda>w l. map2_option h (f w l) (g w l)) w l"
  by (simp add: lane_local_def)

lemma map_option_local: "lane_local f w l \<Longrightarrow> lane_local (\<lambda>w l. map_option h (f w l)) w l"
  by (simp add: lane_local_def)

lemma map2_option_Some [simp]: "map2_option f (Some a) (Some b) = Some (f a b)"
  by (simp add: map2_option_def)

lemma map2_option_none [simp]:
  "map2_option f a b = None \<longleftrightarrow> a = None \<or> b = None"
  by (simp add: map2_option_def split: option.split)

lemma none_neq: "None \<noteq> x \<longleftrightarrow> (\<exists>y. x = Some y)"
  by (cases x) auto

lemma list_length_one: "length xs = 1 \<Longrightarrow> xs = [xs ! 0]"
  by (cases xs) auto

lemma list_length_two: "length xs = 2 \<Longrightarrow> xs = [xs ! 0, xs ! 1]"
  by (cases xs; cases "tl xs") auto

lemma list_length_three: "length xs = 3 \<Longrightarrow> xs = [xs ! 0, xs ! 1, xs ! 2]"
  by (cases xs; cases "tl xs"; cases "tl (tl xs)") auto

text \<open>The body each arithmetic operation hands to the lane loop.\<close>

definition alu_body :: "f32_ops \<Rightarrow> micro_op \<Rightarrow> warp_state \<Rightarrow> nat \<Rightarrow> u64 option" where
  "alu_body fp u =
     (case u_op u of
        Mov \<Rightarrow> in_lane u 0
      | Cvt \<Rightarrow> (\<lambda>w l. map_option (\<lambda>a. ucast (f32_of_u32 fp (ucast a))) (in_lane u 0 w l))
      | Add \<Rightarrow> (\<lambda>w l. map2_option (if a_type (u_attrs u) = F32 then f32_binop (f32_add fp) else (+))
                     (in_lane u 0 w l) (in_lane u 1 w l))
      | Mul \<Rightarrow> (\<lambda>w l. map2_option (if a_type (u_attrs u) = F32 then f32_binop (f32_mul fp)
                                  else mul_value (a_type (u_attrs u)) (out_type u))
                     (in_lane u 0 w l) (in_lane u 1 w l))
      | Shl \<Rightarrow> (\<lambda>w l. map2_option (shl_value (is_wide (a_type (u_attrs u)) \<or> is_wide (out_type u)))
                     (in_lane u 0 w l) (in_lane u 1 w l))
      | _ \<Rightarrow> (\<lambda>w l. map2_option (\<lambda>ab c. ucast (f32_fma fp (fst ab) (snd ab) (ucast c)))
                    (map2_option (\<lambda>a b. (ucast a, ucast b)) (in_lane u 0 w l) (in_lane u 1 w l))
                    (in_lane u 2 w l)))"

text \<open>The values that the code computes for products and shifts are those.\<close>

lemma int_value_unsigned: "int_value False x = uint (ucast x :: u32)"
  by (simp add: int_value_def unsigned_ucast_eq take_bit_eq_mod)

lemma int_value_signed: "int_value True x = sint (ucast x :: u32)"
proof -
  define n where "n = uint (ucast x :: u32)"
  have n: "uint x mod 2 ^ 32 = n" by (simp add: n_def unsigned_ucast_eq take_bit_eq_mod)
  have b: "0 \<le> n" "n < 2 ^ 32" using unsigned_less [of "ucast x :: u32"] by (simp_all add: n_def)
  have "sint (ucast x :: u32) = (n + 2 ^ 31) mod 2 ^ 32 - 2 ^ 31"
    by (simp add: n_def sint_uint signed_take_bit_eq_take_bit_shift take_bit_eq_mod)
  also have "\<dots> = (if 2 ^ 31 \<le> n then n - 2 ^ 32 else n)"
    proof (cases "2 ^ 31 \<le> n")
    case True
    have "(n + 2 ^ 31) mod 2 ^ 32 = (n - 2 ^ 31 + 2 ^ 32) mod 2 ^ 32" by (simp add: add.commute)
    also have "\<dots> = n - 2 ^ 31" using b True by (simp only: mod_add_self2) (simp add: mod_pos_pos_trivial)
    finally show ?thesis using True by simp
  qed (use b in \<open>simp add: mod_pos_pos_trivial\<close>)
  finally show ?thesis by (simp only: int_value_def n Let_def simp_thms)
qed

lemma scast_word_of_int: "(scast (x :: u32) :: u64) = word_of_int (sint x)"
  by simp

lemma ucast_word_of_int: "(ucast (x :: u32) :: u64) = word_of_int (uint x)"
  by simp

lemma low_half: "(ucast (ucast (word_of_int p :: u64) :: u32) :: u64) = word_of_int (p mod 2 ^ 32)"
  unfolding take_bit_eq_mod [symmetric]
  by (rule bit_word_eqI) (auto simp: bit_simps bit_word_of_int_iff)

lemma mul_value_eq: "mul_value ty out_ty a b = product_of ty out_ty a b"
proof -
  have "(scast (ucast a :: u32) :: u64) * scast (ucast b :: u32) = word_of_int (int_value True a * int_value True b)"
    by (simp only: scast_word_of_int int_value_signed wi_hom_mult)
  moreover have "(ucast (ucast a :: u32) :: u64) * ucast (ucast b :: u32) =
      word_of_int (int_value False a * int_value False b)"
    by (simp only: ucast_word_of_int int_value_unsigned wi_hom_mult)
  ultimately show ?thesis
    by (cases "ty \<in> {S32, S64}"; cases "out_ty \<in> {U64, S64}")
      (simp_all only: mul_value_def product_of_def Let_def low_half insert_iff empty_iff simp_thms if_True if_False)
qed

lemma shl_value_eq: "shl_value wide a b = shifted (if wide then 64 else 32) a b"
proof -
  have m: "unat (drop_mask :: u32) = unat b mod 2 ^ k"
    if "drop_mask = take_bit k (ucast b)" "k \<le> 32" for k drop_mask
    using that by (simp add: unsigned_take_bit_eq unsigned_ucast_eq min_def flip: take_bit_eq_mod)
  have k: "(ucast b :: u32) AND 63 = take_bit 6 (ucast b)" "(ucast b :: u32) AND 31 = take_bit 5 (ucast b)"
    by (simp_all add: take_bit_eq_mask mask_eq_exp_minus_1)
  have 1: "unat ((ucast b :: u32) AND 63) = unat b mod 64" using m [OF k(1)] by simp
  have 2: "unat ((ucast b :: u32) AND 31) = unat b mod 32" using m [OF k(2)] by simp
  have 3: "push_bit n a = word_of_int (uint a * 2 ^ n mod 2 ^ 64)" for n
    unfolding take_bit_eq_mod [symmetric] push_bit_eq_mult [symmetric]
    by (rule bit_word_eqI) (auto simp: bit_simps bit_word_of_int_iff)
  have 4: "(ucast (push_bit n (ucast a :: u32)) :: u64) = word_of_int (uint a * 2 ^ n mod 2 ^ 32)" for n
    unfolding take_bit_eq_mod [symmetric] push_bit_eq_mult [symmetric]
    by (rule bit_word_eqI) (auto simp: bit_simps bit_word_of_int_iff)
  show ?thesis
    by (simp only: shl_value_def shifted_def Let_def 1 2 3 4 if_True if_False split: if_split) simp
qed

lemma alu_scalar_cases:
  assumes "alu_scalar fp u vs = Some x"
  shows "(u_op u = Mov \<and> length vs = 1) \<or>
    (u_op u = Cvt \<and> length vs = 1 \<and> out_type u = F32 \<and> o_type (u_inputs u ! 0) = U32) \<or>
    (u_op u \<in> {Add, Mul, Shl} \<and> length vs = 2) \<or>
    (u_op u = Fma \<and> length vs = 3 \<and> a_type (u_attrs u) = F32)"
  using assms
  by (cases "(fp, u, vs)" rule: alu_scalar.cases) (auto split: micro_op_op.splits if_splits)

lemma alu_value_arity:
  assumes "alu_value fp u w l = Some x"
  shows "(u_op u = Mov \<and> length (u_inputs u) = 1) \<or>
    (u_op u = Cvt \<and> length (u_inputs u) = 1 \<and> out_type u = F32 \<and> o_type (u_inputs u ! 0) = U32) \<or>
    (u_op u \<in> {Add, Mul, Shl} \<and> length (u_inputs u) = 2) \<or>
    (u_op u = Fma \<and> length (u_inputs u) = 3 \<and> a_type (u_attrs u) = F32)"
  using assms alu_scalar_cases [of fp u "map the (operand_values u w l)" x]
  by (simp add: alu_value_def operand_values_def split: if_splits)

lemma alu_body_value:
  assumes "alu_value fp u w l = Some x"
  shows "alu_body fp u w l = Some x"
proof -
  have k1: "operand_values u w l = [in_lane u 0 w l]" if "length (u_inputs u) = 1"
    using arg_cong [OF list_length_one [OF that], of "map (\<lambda>opr. read_operand_lane opr w l)"]
    by (simp only: operand_values_def in_lane_def list.map)
  have k2: "operand_values u w l = [in_lane u 0 w l, in_lane u 1 w l]" if "length (u_inputs u) = 2"
    using arg_cong [OF list_length_two [OF that], of "map (\<lambda>opr. read_operand_lane opr w l)"]
    by (simp only: operand_values_def in_lane_def list.map)
  have k3: "operand_values u w l = [in_lane u 0 w l, in_lane u 1 w l, in_lane u 2 w l]"
    if "length (u_inputs u) = 3"
    using arg_cong [OF list_length_three [OF that], of "map (\<lambda>opr. read_operand_lane opr w l)"]
    by (simp only: operand_values_def in_lane_def list.map)
  show ?thesis
    using alu_value_arity [OF assms] assms
    by (elim disjE conjE)
      (auto simp: alu_value_def alu_body_def k1 k2 k3 none_neq mul_value_eq shl_value_eq split: if_splits)
qed

lemma alu_body_local:
  assumes "alu_value fp u w l0 = Some x" and "regs_ok u" and "width_ok w"
    and "l < unat (lm_width (w_active w))"
  shows "lane_local (alu_body fp u) w l"
proof -
  have k: "lane_local (in_lane u k) w l" if "k < length (u_inputs u)" for k
    using assms that by (intro in_lane_local) (simp_all add: regs_ok_def)
  show ?thesis
    using alu_value_arity [OF assms(1)]
    by (elim disjE conjE)
      (auto simp: alu_body_def intro!: map2_option_local map_option_local k)
qed

lemma exec_step_alu:
  assumes "alu_value fp u w l = Some x" and "length (u_outputs u) = 1" and "\<not> w_done w"
  shows "\<exists>name d. exec_step fp u w obs = finish name obs (lane_map d u (alu_body fp u) w)"
  using alu_value_arity [OF assms(1)] assms(2,3)
  by (elim disjE conjE)
    (auto simp: exec_step_def exec_defs arity_is_def alu_body_def, (intro exI, rule refl)+)


text \<open>A concrete warp for the witnesses: four lanes, \<open>r0\<close> holds 10, 20, 30, 40.\<close>

definition demo_obs :: obs_control where
  "demo_obs = obs_init True 8"

definition demo_warp :: warp_state where
  "demo_warp =
     \<lparr>w_launch = \<lparr>grid_dim = \<lparr>dim_x = 1, dim_y = 1, dim_z = 1\<rparr>,
        block_dim = \<lparr>dim_x = 4, dim_y = 1, dim_z = 1\<rparr>, launch_warp_size = 4\<rparr>,
      w_ctaid = \<lparr>dim_x = 0, dim_y = 0, dim_z = 0\<rparr>, w_warpid = 0, w_lane_base = 0,
      w_pc = 0, w_done = False, w_active = lane_mask_all 4,
      w_exited = \<lparr>lm_width = 4, lm_bits = 0\<rparr>, w_stack = [],
      w_r32 = [10, 20, 30, 40, 1, 0, 3, 2], w_r64 = [], w_p = replicate 4 0\<rparr>"

definition reg32 :: "int \<Rightarrow> operand" where
  "reg32 r = operand_default\<lparr>o_kind := KReg, o_reg_id := r\<rparr>"

definition imm32 :: "int \<Rightarrow> operand" where
  "imm32 i = operand_default\<lparr>o_imm := i\<rparr>"

definition exec_uop :: "micro_op_op \<Rightarrow> value_type \<Rightarrow> string list \<Rightarrow> operand list \<Rightarrow> operand \<Rightarrow> micro_op" where
  "exec_uop op ty flags ins out =
     \<lparr>u_kind = Exec, u_op = op, u_inputs = ins, u_outputs = [out],
      u_attrs = \<lparr>a_type = ty, a_space = Global, a_flags = flags\<rparr>, u_guard = lane_mask_all 4\<rparr>"

definition f32_trivial :: f32_ops where
  "f32_trivial =
     \<lparr>f32_add = (+), f32_mul = (*), f32_fma = (\<lambda>a b c. a * b + c), f32_of_u32 = id\<rparr>"

lemma demo_active: "active_lanes (exec_mask_of demo_warp (exec_uop op ty fl ins out)) = [0, 1, 2, 3]"
proof -
  have "exec_mask_of demo_warp (exec_uop op ty fl ins out) =
      lane_mask_and (lane_mask_all 4) (lane_mask_all 4)"
    by (simp only: exec_mask_of_def demo_warp_def exec_uop_def warp_state.select_convs
        micro_op.select_convs)
  moreover have "active_lanes (lane_mask_and (lane_mask_all 4) (lane_mask_all 4)) = [0, 1, 2, 3]"
    by code_simp
  ultimately show ?thesis by simp
qed

lemma demo_ok [simp]: "width_ok demo_warp" "\<not> w_done demo_warp"
  by (simp_all add: width_ok_def demo_warp_def lane_mask_all_def)


section \<open>Shuffles read in parallel\<close>

lemma lane_written_reg:
  "lane_written u ls v w w' \<Longrightarrow> l < unat (lm_width (w_active w)) \<Longrightarrow>
   r \<noteq> reg_no (u_outputs u ! 0) \<or> wide \<noteq> is_wide (o_type (u_outputs u ! 0)) \<Longrightarrow>
   lane_reg wide w' l r = lane_reg wide w l r"
  by (auto simp: lane_written_def Let_def)

definition src_kept :: "micro_op \<Rightarrow> bool" where
  "src_kept u \<longleftrightarrow> o_kind (u_inputs u ! 0) = KReg \<longrightarrow>
     reg_no (u_inputs u ! 0) \<noteq> reg_no (u_outputs u ! 0) \<or>
     is_wide (o_type (u_inputs u ! 0)) \<noteq> is_wide (o_type (u_outputs u ! 0))"

lemma read_operand_other_reg:
  assumes "lane_written u ls v w w'" and "same_context w w'" and "width_ok w"
    and "reg_ok (u_inputs u ! 0)" and "src_kept u" and "l < unat (lm_width (w_active w))"
  shows "in_lane u 0 w' l = in_lane u 0 w l"
proof -
  have wd: "width_ok w'" "l < unat (lm_width (w_active w'))"
    using assms by (simp_all add: width_ok_context warp_simps)
  have "read_reg_lane (u_inputs u ! 0) w' l = read_reg_lane (u_inputs u ! 0) w l"
    if k: "o_kind (u_inputs u ! 0) = KReg"
    using lane_written_reg [OF assms(1,6)] assms(5)
    by (simp add: read_reg_lane_eq [OF k assms(4)] assms(3,6) wd k src_kept_def)
  then show ?thesis
    using read_special_context [OF assms(2)] by (simp add: in_lane_def read_operand_lane_def)
qed

lemma shfl_width_bounds: "0 < shfl_width_from_clamp c" "shfl_width_from_clamp c \<le> 32"
  by (auto simp: shfl_width_from_clamp_def Let_def word_gt_0 not_less)

lemma shfl_down_above:
  assumes "l < 32"
  shows "l \<le> unat (shfl_src_lane True (of_nat l) x c)"
proof -
  have l: "unat (of_nat l :: u32) = l" using assms by (intro unat_of_nat_u32) simp
  have "x AND 31 \<le> 31" by (rule word_and_le1)
  then have "unat (x AND 31) \<le> 31" by (simp add: word_le_nat_alt)
  then have "unat (of_nat l + (x AND 31)) = l + unat (x AND 31)"
    using assms by (subst unat_add_lem [THEN iffD1]) (simp_all add: l)
  then show ?thesis by (simp add: shfl_src_lane_def Let_def l)
qed

lemma shfl_lane_parallel:
  assumes "width_ok w" and "\<forall>k < 4. reg_ok (u_inputs u ! k)"
    and "same_context w w'" and "lane_written u (set pre) v w w'"
    and "l < unat (lm_width (w_active w))" and "l \<notin> set pre"
    and "(down \<and> (\<forall>p \<in> set pre. p < l)) \<or> src_kept u"
    and "lm_width m = lm_width (w_active w)"
  shows "shfl_lane down u m w' l = shfl_lane down u m w l"
proof -
  have l32: "l < 32" using assms(1,5) by (simp add: width_ok_def)
  have same: "same_lane w w' l'" if "l' < unat (lm_width (w_active w))" "l' \<notin> set pre" for l'
    by (rule lane_written_same_lane [OF assms(4) that])
  have self: "in_lane u k w' l = in_lane u k w l" if "k < 4" for k
    using in_lane_local [OF _ assms(1,5), of u k] assms(2,3) that same [OF assms(5,6)]
    by (simp add: lane_local_def)
  have other: "in_lane u 0 w' (unat s) = in_lane u 0 w (unat s)"
    if "s = shfl_src_lane down (of_nat l) x c" "s < lm_width m" for s x c
  proof -
    have sw: "unat s < unat (lm_width (w_active w))"
      using that(2) assms(8) by (simp add: word_less_nat_alt)
    show ?thesis
    proof (cases "src_kept u")
      case True
      then show ?thesis using assms by (intro read_operand_other_reg [OF assms(4,3,1)] sw) auto
    next
      case False
      then have "down" and "\<forall>p \<in> set pre. p < l" using assms(7) by auto
      moreover have "l \<le> unat s" using shfl_down_above [OF l32] that(1) \<open>down\<close> by simp
      ultimately have "unat s \<notin> set pre" by force
      then show ?thesis
        using in_lane_local [OF _ assms(1) sw, of u 0] assms(2,3) same [OF sw]
        by (simp add: lane_local_def)
    qed
  qed
  show ?thesis
    by (simp add: shfl_lane_def self Let_def other split: option.split)
qed

text \<open>Every lane gets what \<open>shfl_lane\<close> finds in the registers from before the instruction.\<close>

lemma exec_shfl_lanes:
  assumes "u_op u = Shfl" and "regs_ok u" and "length (u_inputs u) = 4" and "width_ok w"
    and "\<not> w_done w"
    and "has_flag (a_flags (u_attrs u)) ''down'' \<noteq> has_flag (a_flags (u_attrs u)) ''idx''"
    and "has_flag (a_flags (u_attrs u)) ''down'' \<or> src_kept u"
    and "\<And>l. l \<in> set (active_lanes (exec_mask_of w u)) \<Longrightarrow>
           shfl_lane (has_flag (a_flags (u_attrs u)) ''down'') u (exec_mask_of w u) w l = Some (v l)"
  shows "\<exists>w' obs'. exec_step fp u w obs = (w', obs', step_ok) \<and> same_context w w' \<and>
    lane_written u (set (active_lanes (exec_mask_of w u))) v w w'"
proof -
  let ?down = "has_flag (a_flags (u_attrs u)) ''down''"
  have out: "o_kind (u_outputs u ! 0) = KReg" "reg_ok (u_outputs u ! 0)" "length (u_outputs u) = 1"
    and ins: "\<forall>k < 4. reg_ok (u_inputs u ! k)"
    using assms(2,3) by (simp_all add: regs_ok_def)
  have "\<exists>w'. lane_map unknown_special u (shfl_lane ?down u (exec_mask_of w u)) w = (w', None) \<and>
      same_context w w' \<and> lane_written u (set (active_lanes (exec_mask_of w u))) v w w'"
    unfolding lane_map_def
  proof (rule lane_loop_written [OF assms(4) out(1,2)])
    fix pre l post w'
    assume ls: "active_lanes (exec_mask_of w u) = pre @ l # post"
      and c: "same_context w w'" and wr: "lane_written u (set pre) v w w'"
    have mem: "l \<in> set (active_lanes (exec_mask_of w u))" by (simp add: ls)
    have "\<forall>p \<in> set pre. p < l"
      using sorted_active_lanes [of "exec_mask_of w u"] by (simp add: ls sorted_wrt_append)
    then have "shfl_lane ?down u (exec_mask_of w u) w' l = shfl_lane ?down u (exec_mask_of w u) w l"
      using assms(7) active_lane_bound [OF mem]
      by (intro shfl_lane_parallel [OF assms(4) ins c wr]) (auto simp: exec_mask_of_def)
    then show "shfl_lane ?down u (exec_mask_of w u) w' l = Some (v l)"
      using assms(8) [OF mem] by simp
  qed (rule active_lane_bound)
  then obtain w' where "lane_map unknown_special u (shfl_lane ?down u (exec_mask_of w u)) w = (w', None)"
    "same_context w w'" "lane_written u (set (active_lanes (exec_mask_of w u))) v w w'" by blast
  moreover have "of_bool ?down + of_bool (has_flag (a_flags (u_attrs u)) ''idx'') = (1 :: nat)"
    using assms(6) by auto
  ultimately show ?thesis
    using assms(1,3,5) out(3) by (simp add: exec_step_def exec_shfl_def arity_is_def Let_def)
qed

text \<open>
  What a shuffle is to deliver, in natural numbers: the clamp operand has 32 less the width of a
  segment in bits 8 to 12, and the warp is cut into segments of this width.  With \<open>.down\<close> the
  source of a lane is the lane \<open>x mod 32\<close> above it if that one is in the same segment, and the
  lane itself otherwise; with \<open>.idx\<close> it is the lane of the same segment at the place
  \<open>(x mod 32) mod width\<close>.  The value of the source arrives if the source is a lane of the warp and
  both lanes are members; otherwise the lane keeps its own.
\<close>

definition segment_width :: "u64 \<Rightarrow> nat" where
  "segment_width clamp = 32 - unat clamp div 256 mod 32"

definition shfl_source :: "bool \<Rightarrow> nat \<Rightarrow> u64 \<Rightarrow> u64 \<Rightarrow> nat" where
  "shfl_source down l x clamp =
     (let W = segment_width clamp; d = unat x mod 32
      in if down then (if (l + d) div W = l div W then l + d else l) else l div W * W + d mod W)"

definition shfl_delivers ::
  "bool \<Rightarrow> nat \<Rightarrow> (nat \<Rightarrow> u64) \<Rightarrow> (nat \<Rightarrow> u64) \<Rightarrow> (nat \<Rightarrow> u64) \<Rightarrow> (nat \<Rightarrow> u64) \<Rightarrow> nat \<Rightarrow> u64"
where
  "shfl_delivers down lanes val x clamp members l =
     (let s = shfl_source down l (x l) (clamp l)
      in if s < lanes \<and> bit (members l) l \<and> bit (members l) s then val s else val l)"

lemma segment_width_bounds: "0 < segment_width c" "segment_width c \<le> 32"
  using mod_less_divisor [of 32 "unat c div 256"] by (simp_all add: segment_width_def del: mod_less_divisor)

lemma unat_and31: "unat ((y :: u32) AND 0x1F) = unat y mod 32"
proof -
  have "y AND 0x1F = take_bit 5 y" by (simp add: take_bit_eq_mask mask_eq_exp_minus_1)
  then show ?thesis by (simp add: unat_mod take_bit_eq_mod)
qed

lemma unat_low5: "unat ((ucast x :: u32) AND 0x1F) = unat (x :: u64) mod 32"
proof -
  have "unat (ucast x :: u32) = unat x mod 2 ^ 32" by (simp add: unsigned_ucast_eq take_bit_eq_mod)
  then show ?thesis by (simp add: unat_and31 mod_mod_cancel)
qed

lemma unat_shfl_width: "unat (shfl_width_from_clamp (ucast (c :: u64))) = segment_width c"
proof -
  have low: "unat (drop_bit 8 (ucast c :: u32) AND 0x1F) = unat c div 256 mod 32"
  proof -
    have "unat (drop_bit 8 (ucast c :: u32)) = unat c mod 2 ^ 32 div 256"
      by (simp add: drop_bit_eq_div unat_div unsigned_ucast_eq take_bit_eq_mod)
    moreover have "unat c mod 2 ^ 32 div 256 mod 32 = unat c div 256 mod 32"
    proof -
      have "unat c mod 2 ^ 32 div 2 ^ 8 mod 2 ^ 5 = unat c div 2 ^ 8 mod 2 ^ 5"
        by (simp only: take_bit_eq_mod [symmetric] drop_bit_eq_div [symmetric]) (simp add: drop_bit_take_bit)
      then show ?thesis by simp
    qed
    ultimately show ?thesis by (simp add: unat_and31)
  qed
  let ?d = "drop_bit 8 (ucast c :: u32) AND 0x1F"
  have le: "?d \<le> 32" using low by (simp add: word_le_nat_alt less_imp_le)
  have w: "unat (32 - ?d) = segment_width c" using le low by (simp add: unat_sub segment_width_def)
  then have "32 - ?d \<noteq> 0" "\<not> 32 - ?d > 32"
    using segment_width_bounds [of c] by (auto simp: word_less_nat_alt)
  then show ?thesis using w by (simp add: shfl_width_from_clamp_def Let_def)
qed

lemma same_segment:
  fixes l d W :: nat
  assumes "0 < W"
  shows "(l + d) div W = l div W \<longleftrightarrow> l mod W + d < W"
proof -
  have "l + d = l mod W + d + l div W * W" by simp
  then have "(l + d) div W = l div W + (l mod W + d) div W" using assms by (metis div_mult_self1 less_not_refl add.commute)
  then show ?thesis using assms by (simp add: div_eq_0_iff)
qed

lemma unat_shfl_src_lane:
  assumes "l < 32"
  shows "unat (shfl_src_lane down (of_nat l) (ucast x) (ucast c)) = shfl_source down l x c"
proof -
  let ?W = "shfl_width_from_clamp (ucast c)" and ?d = "(ucast x :: u32) AND 0x1F"
  let ?n = "segment_width c" and ?e = "unat x mod 32"
  have n: "0 < ?n" "?n \<le> 32" by (rule segment_width_bounds)+
  have l: "unat (of_nat l :: u32) = l" using assms by (intro unat_of_nat_u32) simp
  have add: "unat (a + b) = unat a + unat b" if "unat a < 64" "unat b < 64" for a b :: u32
    using that by (subst unat_add_lem [THEN iffD1]) simp_all
  have m: "unat (of_nat l mod ?W) = l mod ?n" by (simp add: unat_mod l unat_shfl_width)
  have base: "unat (of_nat l - of_nat l mod ?W) = l div ?n * ?n"
  proof -
    have "of_nat l mod ?W \<le> of_nat l" using m l by (simp add: word_le_nat_alt)
    then have "unat (of_nat l - of_nat l mod ?W) = l - l mod ?n" by (simp only: unat_sub m l)
    then show ?thesis by (simp only: minus_mod_eq_div_mult)
  qed
  have e: "?e < 32" by simp
  have seg: "unat (of_nat l - (of_nat l - of_nat l mod ?W) + ?d) = l mod ?n + ?e"
  proof -
    have "l mod ?n < 64" using n mod_less_divisor [OF n(1), of l] by linarith
    then show ?thesis using m e by (subst add) (simp_all add: unat_low5)
  qed
  have up: "unat (of_nat l + ?d) = l + ?e" using assms e l by (subst add) (simp_all add: unat_low5)
  have idx: "unat (of_nat l - of_nat l mod ?W + ?d mod ?W) = l div ?n * ?n + ?e mod ?n"
  proof -
    have "?e mod ?n < 64" using mod_less_divisor [OF n(1), of ?e] n(2) by linarith
    moreover have "l div ?n * ?n < 64" using div_times_less_eq_dividend [of l ?n] assms by linarith
    moreover have "unat (?d mod ?W) = ?e mod ?n" by (simp add: unat_mod unat_low5 unat_shfl_width)
    ultimately show ?thesis using base by (subst add) simp_all
  qed
  show ?thesis
    using seg up idx same_segment [OF n(1), of l ?e]
    by (simp add: shfl_src_lane_def shfl_source_def Let_def word_less_nat_alt unat_shfl_width l)
qed

text \<open>
  C20.  \<open>shfl\<close> delivers, to every lane of the execution mask, the value that the source lane held
  before the instruction, and changes nothing else: always for \<open>.down\<close>, also in place, because the
  lanes are visited in ascending order and a source lane is never below its reader; for \<open>.idx\<close>
  when the destination is not the source register (in place, the code loses values, see below).
  The source lane is the one of the segments that the clamp operand defines.
\<close>

theorem exec_shfl_parallel:
  assumes "u_op u = Shfl" and "regs_ok u" and "length (u_inputs u) = 4" and "width_ok w"
    and "\<not> w_done w"
    and "has_flag (a_flags (u_attrs u)) ''down'' \<noteq> has_flag (a_flags (u_attrs u)) ''idx''"
    and "has_flag (a_flags (u_attrs u)) ''down'' \<or> src_kept u"
    and "\<And>l. l < unat (lm_width (w_active w)) \<Longrightarrow> in_lane u 0 w l = Some (val l)"
    and "\<And>l. l \<in> set (active_lanes (exec_mask_of w u)) \<Longrightarrow>
           in_lane u 1 w l = Some (x l) \<and> in_lane u 2 w l = Some (clamp l) \<and> in_lane u 3 w l = Some (members l)"
  shows "\<exists>w' obs'. exec_step fp u w obs = (w', obs', step_ok) \<and> same_context w w' \<and>
    lane_written u (set (active_lanes (exec_mask_of w u)))
      (shfl_delivers (has_flag (a_flags (u_attrs u)) ''down'') (unat (lm_width (w_active w))) val x clamp members) w w'"
proof (rule exec_shfl_lanes [OF assms(1-7)])
  let ?down = "has_flag (a_flags (u_attrs u)) ''down''"
  fix l
  assume mem: "l \<in> set (active_lanes (exec_mask_of w u))"
  have l: "l < unat (lm_width (w_active w))" "l < 32"
    using active_lane_bound [OF mem] assms(4) by (auto simp: exec_mask_of_def width_ok_def)
  let ?s = "shfl_src_lane ?down (of_nat l) (ucast (x l)) (ucast (clamp l))"
  have s: "unat ?s = shfl_source ?down l (x l) (clamp l)" by (rule unat_shfl_src_lane [OF l(2)])
  let ?n = "shfl_source ?down l (x l) (clamp l)"
  have range: "?s < lm_width (exec_mask_of w u) \<longleftrightarrow> ?n < unat (lm_width (w_active w))" "?s < 32 \<longleftrightarrow> ?n < 32"
    using s by (simp_all add: word_less_nat_alt exec_mask_of_def)
  have bits: "bit (ucast (members l) :: u32) k = bit (members l) k" if "k < 32" for k
    using that by (simp add: bit_ucast_iff)
  show "shfl_lane ?down u (exec_mask_of w u) w l =
      Some (shfl_delivers ?down (unat (lm_width (w_active w))) val x clamp members l)"
    using assms(4) l assms(9) [OF mem]
    by (simp add: shfl_lane_def Let_def assms(8) range s bits shfl_delivers_def width_ok_def) (auto simp: assms(8) bits)
qed

lemma exec_shfl_parallel_witness:
  "\<exists>w' demo_obs'. exec_step f32_trivial
       (exec_uop Shfl U32 [''down''] [reg32 0, imm32 1, imm32 0x1E1F, imm32 15] (reg32 0)) demo_warp demo_obs
       = (w', demo_obs', step_ok) \<and>
     same_context demo_warp w' \<and>
     map (\<lambda>l. lane_reg False w' l 0) [0, 1, 2, 3] = [20, 20, 40, 40]"
proof -
  let ?u = "exec_uop Shfl U32 [''down''] [reg32 0, imm32 1, imm32 0x1E1F, imm32 15] (reg32 0)"
  have u: "u_op ?u = Shfl" "regs_ok ?u" "length (u_inputs ?u) = 4"
    "has_flag (a_flags (u_attrs ?u)) ''down'' \<noteq> has_flag (a_flags (u_attrs ?u)) ''idx''"
    "has_flag (a_flags (u_attrs ?u)) ''down'' \<or> src_kept ?u"
    by (simp_all add: regs_ok_def exec_uop_def reg32_def imm32_def operand_default_def reg_ok_def
        reg_no_def has_flag_def)
  have ins: "map (in_lane ?u 0 demo_warp) [0, 1, 2, 3] = map Some [10, 20, 30, 40]"
    "map (\<lambda>l. (in_lane ?u 1 demo_warp l, in_lane ?u 2 demo_warp l, in_lane ?u 3 demo_warp l)) [0, 1, 2, 3] =
       replicate 4 (Some 1, Some 0x1E1F, Some 15)"
    by code_simp+
  have width: "unat (lm_width (w_active demo_warp)) = 4" by (simp add: demo_warp_def lane_mask_all_def)
  have val: "in_lane ?u 0 demo_warp l = Some ([10, 20, 30, 40] ! l)" if "l < 4" for l
    using ins(1) that by (auto simp: less_Suc_eq numeral_eq_Suc)
  have args: "in_lane ?u 1 demo_warp l = Some 1 \<and> in_lane ?u 2 demo_warp l = Some 0x1E1F \<and> in_lane ?u 3 demo_warp l = Some 15"
    if "l \<in> {0, 1, 2, 3}" for l
    using ins(2) that by (auto simp: numeral_eq_Suc)
  have out: "map (shfl_delivers (has_flag (a_flags (u_attrs ?u)) ''down'') 4 (\<lambda>l. [10, 20, 30, 40] ! l) (\<lambda>_. 1) (\<lambda>_. 0x1E1F)
      (\<lambda>_. 15)) [0, 1, 2, 3] = [20, 20, 40, 40]"
    by code_simp
  obtain w' o' where step: "exec_step f32_trivial ?u demo_warp demo_obs = (w', o', step_ok)" "same_context demo_warp w'"
    and wr: "lane_written ?u {0, 1, 2, 3} (shfl_delivers (has_flag (a_flags (u_attrs ?u)) ''down'') 4
      (\<lambda>l. [10, 20, 30, 40] ! l) (\<lambda>_. 1) (\<lambda>_. 0x1E1F) (\<lambda>_. 15)) demo_warp w'"
    using exec_shfl_parallel [OF u(1-3) demo_ok u(4,5), of "\<lambda>l. [10, 20, 30, 40] ! l" "\<lambda>_. 1" "\<lambda>_. 0x1E1F" "\<lambda>_. 15"
        f32_trivial demo_obs] val args unfolding width by (auto simp: demo_active)
  have "reg_no (u_outputs ?u ! 0) = 0" "\<not> is_wide (o_type (u_outputs ?u ! 0))"
    by (simp_all add: exec_uop_def reg32_def operand_default_def reg_no_def)
  then have "map (\<lambda>l. lane_reg False w' l 0) [0, 1, 2, 3] = [20, 20, 40, 40]"
    using wr out by (simp add: lane_written_def width Let_def reg_value_def)
  then show ?thesis using step by (intro exI [of _ w'] exI [of _ o']) simp
qed

text \<open>
  In place, a non-uniform \<open>shfl.idx\<close> is not parallel: lanes 0 and 1 exchange their
  \<open>r0\<close> through the lane numbers in \<open>r1\<close>; lane 1 receives its own value back, because lane 0
  has been overwritten before lane 1 reads it.
\<close>

theorem exec_shfl_idx_in_place_loses_value:
  "(let u = exec_uop Shfl U32 [''idx''] [reg32 0, reg32 1, imm32 31, imm32 15] (reg32 0);
        w' = fst (exec_step f32_trivial u demo_warp obs)
    in map (\<lambda>l. lane_reg False w' l 0) [0, 1, 2, 3] = [20, 20, 40, 40] \<and>
       map (shfl_lane False u (exec_mask_of demo_warp u) demo_warp) [0, 1, 2, 3]
         = map Some [20, 10, 40, 30])"
proof -
  let ?u = "exec_uop Shfl U32 [''idx''] [reg32 0, reg32 1, imm32 31, imm32 15] (reg32 0)"
  have "fst (exec_step f32_trivial ?u demo_warp obs) =
      fst (lane_map unknown_special ?u (shfl_lane False ?u (exec_mask_of demo_warp ?u)) demo_warp)"
    by (simp add: exec_step_def exec_shfl_def exec_uop_def arity_is_def has_flag_def Let_def)
  moreover have "map (\<lambda>l. lane_reg False
      (fst (lane_map unknown_special ?u (shfl_lane False ?u (exec_mask_of demo_warp ?u)) demo_warp)) l 0)
      [0, 1, 2, 3] = [20, 20, 40, 40]"
    by code_simp
  moreover have "map (shfl_lane False ?u (exec_mask_of demo_warp ?u) demo_warp) [0, 1, 2, 3]
      = map Some [20, 10, 40, 30]"
    by code_simp
  ultimately show ?thesis by (simp add: Let_def)
qed

section \<open>Reduction and comparison\<close>

lemma reduce_sum_values:
  assumes "\<And>l. l \<in> set ls \<Longrightarrow> f l = Some (v l)"
  shows "loop_e (\<lambda>lane acc. case f lane of None \<Rightarrow> (acc, Some d)
           | Some x \<Rightarrow> (g acc (ucast x), None)) ls acc
         = (fold (\<lambda>l acc. g acc (ucast (v l))) ls acc, None)"
  using assms by (induction ls arbitrary: acc) auto

text \<open>
  C21.  \<open>warp_reduce_add.f32\<close> leaves in every lane of the execution mask the same value: the
  sum of the lanes' initial operands, taken from zero in ascending lane order.
\<close>

theorem exec_warp_reduce_sum:
  assumes "u_op u = WarpReduceAdd" and "regs_ok u" and "length (u_inputs u) = 1"
    and "a_type (u_attrs u) = F32" and "width_ok w" and "\<not> w_done w"
    and "\<And>l. l \<in> set (active_lanes (exec_mask_of w u)) \<Longrightarrow> in_lane u 0 w l = Some (x l)"
  shows "\<exists>w' obs'. exec_step fp u w obs = (w', obs', step_ok) \<and> same_context w w' \<and>
    lane_written u (set (active_lanes (exec_mask_of w u)))
      (\<lambda>_. ucast (fold (\<lambda>l acc. f32_add fp acc (ucast (x l))) (active_lanes (exec_mask_of w u)) 0)) w w'"
proof -
  let ?ls = "active_lanes (exec_mask_of w u)"
  let ?t = "fold (\<lambda>l acc. f32_add fp acc (ucast (x l))) ?ls 0"
  have out: "o_kind (u_outputs u ! 0) = KReg" "reg_ok (u_outputs u ! 0)" "length (u_outputs u) = 1"
    using assms(2) by (simp_all add: regs_ok_def)
  have t: "reduce_sum fp u w = (?t, None)"
    unfolding reduce_sum_def by (rule reduce_sum_values) (rule assms(7))
  obtain w' where "lane_map unknown_special u (\<lambda>_ _. Some (ucast ?t)) w = (w', None)"
    "same_context w w'" "lane_written u (set ?ls) (\<lambda>_. ucast ?t) w w'"
    using lane_map_local [OF assms(5) out(1,2), of "\<lambda>_ _. Some (ucast ?t)" "\<lambda>_. ucast ?t"]
    by (auto simp: lane_local_def)
  then show ?thesis
    using assms(1,3,4,6) out(3) by (simp add: exec_step_def exec_warp_reduce_add_def arity_is_def t)
qed

lemma exec_warp_reduce_sum_witness:
  "\<exists>w' demo_obs'. exec_step f32_trivial (exec_uop WarpReduceAdd F32 [] [reg32 0] (reg32 2)) demo_warp demo_obs
       = (w', demo_obs', step_ok) \<and>
     same_context demo_warp w' \<and>
     lane_written (exec_uop WarpReduceAdd F32 [] [reg32 0] (reg32 2)) {0, 1, 2, 3}
       (\<lambda>_. 100) demo_warp w'"
proof -
  let ?u = "exec_uop WarpReduceAdd F32 [] [reg32 0] (reg32 2)"
  have u: "u_op ?u = WarpReduceAdd" "regs_ok ?u" "length (u_inputs ?u) = 1" "a_type (u_attrs ?u) = F32"
    by (simp_all add: regs_ok_def exec_uop_def reg32_def operand_default_def reg_ok_def reg_no_def)
  have x: "in_lane ?u 0 demo_warp l = Some ([10, 20, 30, 40] ! l)" if "l \<in> {0, 1, 2, 3}" for l
  proof -
    have "map (in_lane ?u 0 demo_warp) [0, 1, 2, 3] = map Some [10, 20, 30, 40]" by code_simp
    then show ?thesis using that by auto
  qed
  show ?thesis
    using exec_warp_reduce_sum [OF u demo_ok, of "\<lambda>l. [10, 20, 30, 40] ! l" f32_trivial demo_obs] x
    by (simp add: demo_active f32_trivial_def)
qed

definition pred_cell :: "warp_state \<Rightarrow> int \<Rightarrow> nat \<Rightarrow> nat" where
  "pred_cell w p l = nat p * unat (lm_width (w_active w)) + l"

definition setp_lane :: "micro_op \<Rightarrow> warp_state \<Rightarrow> nat \<Rightarrow> bool option" where
  "setp_lane u w l =
     map2_option (setp_value (a_type (u_attrs u)) (cmp_op_of (a_flags (u_attrs u))))
       (in_lane u 0 w l) (in_lane u 1 w l)"

lemma setp_lane_preds:
  "setp_lane u (w\<lparr>w_p := ps\<rparr>) l = setp_lane u w l"
proof -
  have "read_operand_lane opr (w\<lparr>w_p := ps\<rparr>) l = read_operand_lane opr w l" for opr
    using read_special_context [OF same_context_pred [of w ps], of "o_special opr" l]
    by (simp add: read_operand_lane_def read_reg_lane_def Let_def)
  then show ?thesis by (simp add: setp_lane_def in_lane_def)
qed

lemma setp_loop:
  assumes "\<And>l. l \<in> set ls \<Longrightarrow> setp_lane u w l = Some (c l)"
    and "distinct ls" and "\<And>l. l \<in> set ls \<Longrightarrow> h l < length (w_p w)"
    and "inj_on h (set ls)"
  shows "\<exists>ps. loop_e (\<lambda>lane w. case setp_lane u w lane of None \<Rightarrow> (w, Some d)
        | Some c \<Rightarrow> (w\<lparr>w_p := (w_p w)[h lane := if c then 1 else 0]\<rparr>, None)) ls w
      = (w\<lparr>w_p := ps\<rparr>, None) \<and> length ps = length (w_p w) \<and>
      (\<forall>l \<in> set ls. ps ! h l = (if c l then 1 else 0)) \<and>
      (\<forall>i. i \<notin> h ` set ls \<longrightarrow> ps ! i = w_p w ! i)"
  using assms
proof (induction ls rule: rev_induct)
  case Nil
  then show ?case by (intro exI [of _ "w_p w"]) simp
next
  case (snoc l ls)
  have "\<exists>ps. loop_e (\<lambda>lane w. case setp_lane u w lane of None \<Rightarrow> (w, Some d)
        | Some c \<Rightarrow> (w\<lparr>w_p := (w_p w)[h lane := if c then 1 else 0]\<rparr>, None)) ls w
      = (w\<lparr>w_p := ps\<rparr>, None) \<and> length ps = length (w_p w) \<and>
      (\<forall>l \<in> set ls. ps ! h l = (if c l then 1 else 0)) \<and>
      (\<forall>i. i \<notin> h ` set ls \<longrightarrow> ps ! i = w_p w ! i)"
    using snoc.prems by (intro snoc.IH) (auto intro: inj_on_subset)
  then obtain ps where ps: "loop_e (\<lambda>lane w. case setp_lane u w lane of None \<Rightarrow> (w, Some d)
        | Some c \<Rightarrow> (w\<lparr>w_p := (w_p w)[h lane := if c then 1 else 0]\<rparr>, None)) ls w
      = (w\<lparr>w_p := ps\<rparr>, None)" "length ps = length (w_p w)"
    "\<forall>l \<in> set ls. ps ! h l = (if c l then 1 else 0)"
    "\<forall>i. i \<notin> h ` set ls \<longrightarrow> ps ! i = w_p w ! i" by blast
  have new: "h l \<notin> h ` set ls" using snoc.prems(2,4) by (auto simp: inj_on_def)
  have hl: "h l < length ps" using snoc.prems(3) ps(2) by simp
  let ?q = "ps[h l := if c l then 1 else 0]"
  have "\<forall>k \<in> set (ls @ [l]). ?q ! h k = (if c k then 1 else 0)"
    using ps(3) new hl by (auto simp: nth_list_update)
  moreover have "\<forall>i. i \<notin> h ` set (ls @ [l]) \<longrightarrow> ?q ! i = w_p w ! i" using ps(4) by auto
  moreover have "setp_lane u (w\<lparr>w_p := ps\<rparr>) l = Some (c l)"
    using snoc.prems(1) by (simp add: setp_lane_preds)
  ultimately show ?case
    by (intro exI [of _ ?q]) (simp add: loop_e_append ps(1,2))
qed

lemma pred_base:
  fixes ws :: u32
  assumes "0 \<le> p" and "p < 2 ^ 58" and "unat ws \<le> 32" and "l \<le> 32"
  shows "unat (of_int p * ucast ws + of_nat l :: u64) = nat p * unat ws + l"
proof -
  have pn: "of_int p = (of_nat (nat p) :: u64)" using assms(1) by simp
  have "nat p < 2 ^ 64" using assms(2) by simp
  then have "unat (of_int p :: u64) = nat p" unfolding pn by (rule unat_of_nat_u64)
  moreover have b: "nat p * unat ws + l < 2 ^ 64"
  proof -
    have "nat p * unat ws \<le> nat p * 32" by (rule mult_le_mono2 [OF assms(3)])
    moreover have "nat p < 288230376151711744" using assms(1,2) by simp
    ultimately have "nat p * unat ws + l < 18446744073709551616" using assms(4) by linarith
    then show ?thesis by simp
  qed
  ultimately have "unat (of_int p * ucast ws :: u64) = nat p * unat ws"
    by (subst unat_mult_lem [THEN iffD1]) simp_all
  moreover have "unat (of_nat l :: u64) = l" using assms(4) by (intro unat_of_nat_u64) simp
  ultimately show ?thesis using b by (subst unat_add_u64) simp_all
qed

text \<open>
  \<open>setp\<close> writes, for every lane of the execution mask, the outcome of the comparison to
  the lane's cell of the predicate file, and leaves every other cell and every register alone.
\<close>

theorem exec_setp_writes_predicates:
  assumes "u_op u = Setp" and "arity_is u 2" and "o_kind (u_outputs u ! 0) = KPred"
    and "0 \<le> o_pred_id (u_outputs u ! 0)" and "o_pred_id (u_outputs u ! 0) < 2 ^ 58"
    and "cmp_flag_count (a_flags (u_attrs u)) \<le> 1" and "width_ok w" and "\<not> w_done w"
    and "pred_cell w (o_pred_id (u_outputs u ! 0)) (unat (lm_width (w_active w))) \<le> length (w_p w)"
    and "\<And>l. l \<in> set (active_lanes (exec_mask_of w u)) \<Longrightarrow> setp_lane u w l = Some (c l)"
  shows "\<exists>ps obs'. exec_step fp u w obs = (w\<lparr>w_p := ps\<rparr>, obs', step_ok) \<and>
    length ps = length (w_p w) \<and>
    (\<forall>l \<in> set (active_lanes (exec_mask_of w u)).
       ps ! pred_cell w (o_pred_id (u_outputs u ! 0)) l = (if c l then 1 else 0)) \<and>
    (\<forall>i. i \<notin> pred_cell w (o_pred_id (u_outputs u ! 0)) ` set (active_lanes (exec_mask_of w u)) \<longrightarrow>
       ps ! i = w_p w ! i)"
proof -
  let ?p = "o_pred_id (u_outputs u ! 0)" and ?ws = "lm_width (w_active w)"
  let ?ls = "active_lanes (exec_mask_of w u)"
  let ?base = "of_int ?p * ucast ?ws :: u64"
  have ws: "unat ?ws \<le> 32" and nz: "?ws \<noteq> 0" and le: "\<not> ?ws > 32"
    using assms(7) by (auto simp: width_ok_def word_less_nat_alt)
  have h: "unat (?base + of_nat l) = pred_cell w ?p l" if "l \<le> 32" for l
    unfolding pred_cell_def by (rule pred_base [OF assms(4,5) ws that])
  have bound: "\<not> unat (?base + ucast ?ws) > length (w_p w)"
    using h [of "unat ?ws"] assms(9) ws by (simp add: unat_ucast_32_64 [symmetric] del: unat_ucast_32_64)
  have lt: "l < 32 \<and> pred_cell w ?p l < length (w_p w)" if "l \<in> set ?ls" for l
    using active_lane_bound [OF that] assms(9) ws by (simp add: pred_cell_def)
  have cell: "unat (?base + of_nat l) = pred_cell w ?p l" if "l \<in> set ?ls" for l
    using h [of l] lt [OF that] by simp
  have inj: "inj_on (pred_cell w ?p) (set ?ls)" by (simp add: inj_on_def pred_cell_def)
  have loops: "loop_e (\<lambda>lane w. case setp_lane u w lane of None \<Rightarrow> (w, Some unknown_special)
         | Some c \<Rightarrow> (w\<lparr>w_p := (w_p w)[unat (?base + of_nat lane) := if c then 1 else 0]\<rparr>, None)) ?ls w =
      loop_e (\<lambda>lane s. case setp_lane u s lane of None \<Rightarrow> (s, Some unknown_special)
         | Some c \<Rightarrow> (s\<lparr>w_p := (w_p s)[pred_cell w ?p lane := if c then 1 else 0]\<rparr>, None)) ?ls w"
    by (rule loop_e_cong) (simp only: cell)
  have step: "exec_step fp u w obs = finish ''uop.exec.setp'' obs
      (loop_e (\<lambda>lane w. case setp_lane u w lane of None \<Rightarrow> (w, Some unknown_special)
         | Some c \<Rightarrow> (w\<lparr>w_p := (w_p w)[unat (?base + of_nat lane) := if c then 1 else 0]\<rparr>, None)) ?ls w)"
    using assms(1-4,6,8) nz le bound
    by (simp add: exec_step_def exec_setp_def Let_def setp_lane_def)
  show ?thesis
    using setp_loop [of ?ls u w c "pred_cell w ?p" unknown_special] assms(10) inj lt
    by (auto simp: step loops)
qed

lemma exec_setp_writes_predicates_witness:
  "\<exists>ps demo_obs'. exec_step f32_trivial
       (exec_uop Setp U32 [''ge''] [reg32 0, imm32 25] (operand_default\<lparr>o_kind := KPred, o_pred_id := 0\<rparr>))
       demo_warp demo_obs = (demo_warp\<lparr>w_p := ps\<rparr>, demo_obs', step_ok) \<and> ps = [0, 0, 1, 1]"
proof -
  let ?u = "exec_uop Setp U32 [''ge''] [reg32 0, imm32 25]
    (operand_default\<lparr>o_kind := KPred, o_pred_id := 0\<rparr>)"
  have u: "u_op ?u = Setp" "arity_is ?u 2" "o_kind (u_outputs ?u ! 0) = KPred"
    "0 \<le> o_pred_id (u_outputs ?u ! 0)" "o_pred_id (u_outputs ?u ! 0) < 2 ^ 58"
    "cmp_flag_count (a_flags (u_attrs ?u)) \<le> 1"
    by (simp_all add: exec_uop_def arity_is_def operand_default_def cmp_flag_count_def has_flag_def)
  have len: "pred_cell demo_warp (o_pred_id (u_outputs ?u ! 0)) (unat (lm_width (w_active demo_warp)))
      \<le> length (w_p demo_warp)"
    by code_simp
  have c: "setp_lane ?u demo_warp l = Some (2 \<le> l)" if "l \<in> {0, 1, 2, 3}" for l
  proof -
    have "map (setp_lane ?u demo_warp) [0, 1, 2, 3] = map Some [False, False, True, True]" by code_simp
    then show ?thesis using that by auto
  qed
  have cell: "pred_cell demo_warp (o_pred_id (u_outputs ?u ! 0)) l = l" for l
    by (simp add: pred_cell_def exec_uop_def)
  have four: "length ps = 4 \<Longrightarrow> \<forall>l \<in> {0, 1, 2, 3}. ps ! l = (if 2 \<le> l then 1 else 0) \<Longrightarrow> ps = [0, 0, 1, 1]"
    for ps :: "u8 list"
    by (rule nth_equalityI) (auto simp: less_Suc_eq numeral_eq_Suc)
  have "length (w_p demo_warp) = 4" by (simp add: demo_warp_def)
  then show ?thesis
    using exec_setp_writes_predicates [OF u demo_ok len, of "\<lambda>l. 2 \<le> l" f32_trivial demo_obs] c four
    by (simp add: demo_active cell) blast
qed

text \<open>
  Outside \<open>f32\<close>, \<open>setp\<close> and \<open>mul\<close> read the low 32 bits of their operands even where
  the instruction's type is 64 bits wide: two 64-bit values compare equal when their low
  halves do, and a 64-bit product is the product of the low halves.
\<close>

theorem wide_setp_and_mul_use_low_halves:
  "setp_value U64 CmpEq a b = (take_bit 32 a = take_bit 32 b) \<and>
   setp_value U64 CmpLt a b = (take_bit 32 a < take_bit 32 b) \<and>
   mul_value U64 U64 a b = take_bit 32 a * take_bit 32 b"
proof -
  have u: "(ucast (ucast x :: u32) :: u64) = take_bit 32 x" for x :: u64
    by (rule bit_word_eqI) (auto simp: bit_ucast_iff bit_take_bit_iff)
  have n: "uint (ucast x :: u32) = uint (take_bit 32 x)" for x :: u64
    by (simp add: unsigned_take_bit_eq unsigned_ucast_eq)
  show ?thesis by (simp add: setp_value_def mul_value_def u n word_less_def word_uint_eq_iff [symmetric] Let_def)
qed

end
