(* ===== verification/MemUnit.thy ===== *)
theory MemUnit
  imports ExecCore Memory
begin

text \<open>
  The memory unit, \<open>MemUnit::step\<close> (\<open>src/units/mem_unit.cpp\<close>): loads and stores of the
  parameter, global and local spaces.  Its state is the address space manager it shares with
  the runtime and the sparse local memory of all threads.  The file repeats the register
  access functions of the execution core; they are written out again here and shown equal.
  The store log that an environment variable turns on is left out.
\<close>

record mem_state =
  ms_mgr :: addr_space_manager
  ms_local :: "u64 \<rightharpoonup> u8"

type_synonym mem_result = "mem_state \<times> warp_state \<times> obs_control \<times> step_result"

section \<open>Operands\<close>

definition read_reg_lane64 :: "operand \<Rightarrow> warp_state \<Rightarrow> nat \<Rightarrow> u64" where
  "read_reg_lane64 opr w lane =
     (let warp_size = lm_width (w_active w)
      in if o_kind opr \<noteq> KReg \<or> warp_size = 0 \<or> lane \<ge> unat warp_size then 0
         else let reg = (if o_reg_id opr < 0 then 0 else of_int (o_reg_id opr));
                  idx = unat (reg_lane_index reg lane warp_size)
              in if o_type opr = U64 \<or> o_type opr = S64
                 then (if idx < length (w_r64 w) then w_r64 w ! idx else 0)
                 else (if idx < length (w_r32 w) then ucast (w_r32 w ! idx) else 0))"

definition write_reg_lane64 :: "operand \<Rightarrow> warp_state \<Rightarrow> nat \<Rightarrow> u64 \<Rightarrow> warp_state" where
  "write_reg_lane64 opr w lane v =
     (let warp_size = lm_width (w_active w)
      in if o_kind opr \<noteq> KReg \<or> warp_size = 0 \<or> lane \<ge> unat warp_size then w
         else let reg = (if o_reg_id opr < 0 then 0 else of_int (o_reg_id opr));
                  idx = unat (reg_lane_index reg lane warp_size)
              in if o_type opr = U64 \<or> o_type opr = S64
                 then w\<lparr>w_r64 := vec_put (w_r64 w) idx v\<rparr>
                 else w\<lparr>w_r32 := vec_put (w_r32 w) idx (ucast v)\<rparr>)"

lemma read_reg_lane64_eq: "read_reg_lane64 = read_reg_lane"
  by (intro ext) (simp add: read_reg_lane64_def read_reg_lane_def operand_reg_def Let_def)

lemma write_reg_lane64_eq: "write_reg_lane64 = write_reg_lane"
  by (intro ext) (simp add: write_reg_lane64_def write_reg_lane_def operand_reg_def Let_def)

text \<open>An address operand holds a base register, always read as 64 bits wide, and an offset.\<close>

definition eval_addr_lane :: "operand \<Rightarrow> warp_state \<Rightarrow> nat \<Rightarrow> u64" where
  "eval_addr_lane opr w lane =
     (let base = (if o_reg_id opr \<ge> 0
                  then read_reg_lane64
                         (operand_default\<lparr>o_kind := KReg, o_type := U64, o_reg_id := o_reg_id opr\<rparr>)
                         w lane
                  else 0)
      in base + of_int (o_imm opr))"

definition thread_linear_global :: "warp_state \<Rightarrow> nat \<Rightarrow> u64" where
  "thread_linear_global w lane =
     (let gx = ucast (dim_x (grid_dim (w_launch w)));
          gy = ucast (dim_y (grid_dim (w_launch w)));
          cta_linear = ucast (dim_x (w_ctaid w)) +
                       gx * (ucast (dim_y (w_ctaid w)) + gy * ucast (dim_z (w_ctaid w)));
          bd = block_dim (w_launch w);
          threads_per_block = ucast (dim_x bd) * ucast (dim_y bd) * ucast (dim_z bd);
          lane_linear = ucast (w_lane_base w) + of_nat lane
      in cta_linear * threads_per_block + lane_linear)"

definition local_stride :: u64 where
  "local_stride = 4096"

definition local_effective_addr :: "warp_state \<Rightarrow> nat \<Rightarrow> u64 \<Rightarrow> u64" where
  "local_effective_addr w lane local_addr =
     thread_linear_global w lane * local_stride + local_addr"

definition read_sparse :: "(u64 \<rightharpoonup> u8) \<Rightarrow> u64 \<Rightarrow> u64 \<Rightarrow> u8 list" where
  "read_sparse m addr sz =
     map (\<lambda>i. case m (addr + of_nat i) of None \<Rightarrow> 0 | Some b \<Rightarrow> b) [0..<unat sz]"

definition write_sparse :: "(u64 \<rightharpoonup> u8) \<Rightarrow> u64 \<Rightarrow> u8 list \<Rightarrow> (u64 \<rightharpoonup> u8)" where
  "write_sparse m addr bytes =
     fold (\<lambda>i m. m(addr + of_nat i \<mapsto> bytes ! i)) [0..<length bytes] m"

section \<open>Loads\<close>

definition mem_error :: "string \<Rightarrow> string \<Rightarrow> diagnostic" where
  "mem_error code msg = mk_diag ''units.mem'' code msg"

definition global_miss :: "string \<Rightarrow> u64 \<Rightarrow> u64 \<Rightarrow> diagnostic" where
  "global_miss what addr sz =
     mem_error ''E_GLOBAL_MISS''
       (''global '' @ what @ '' failed at addr='' @ dec_string (unat addr) @
        '' size='' @ dec_string (unat sz))"

definition mem_finish ::
  "string \<Rightarrow> obs_control \<Rightarrow> mem_state \<Rightarrow> warp_state \<Rightarrow> diagnostic option \<Rightarrow> mem_result" where
  "mem_finish name obs ms w err =
     (case err of
        Some d \<Rightarrow> (ms, w, obs, step_error d)
      | None \<Rightarrow> (ms, w, obs_counter name obs, step_ok))"

definition mem_ld_param :: "mem_state \<Rightarrow> micro_op \<Rightarrow> warp_state \<Rightarrow> obs_control \<Rightarrow> mem_result" where
  "mem_ld_param ms u w obs =
     (let src = u_inputs u ! 0; sz = type_size (a_type (u_attrs u))
      in if o_kind src \<noteq> KSymbol
         then (ms, w, obs, step_error
                 (mem_error ''E_LD_PARAM_KIND'' ''ld.param expects symbol source''))
         else case read_param_symbol (ms_mgr ms) (o_symbol src) sz of
                None \<Rightarrow> (ms, w, obs, step_error
                          (mem_error ''E_PARAM_MISS'' (''param read failed for '' @ o_symbol src)))
              | Some bytes \<Rightarrow>
                  let v = unpack_le bytes;
                      (w', err) = loop_e (\<lambda>lane w. (write_reg_lane64 (u_outputs u ! 0) w lane v, None))
                                    (active_lanes (exec_mask_of w u)) w
                  in mem_finish ''uop.mem.ld.param'' obs ms w' err)"

definition ld_global_lane :: "mem_state \<Rightarrow> micro_op \<Rightarrow> nat \<Rightarrow> warp_state \<Rightarrow> warp_state \<times> diagnostic option" where
  "ld_global_lane ms u lane w =
     (let sz = type_size (a_type (u_attrs u));
          addr = eval_addr_lane (u_inputs u ! 0) w lane
      in if sz \<noteq> 0 \<and> addr mod sz \<noteq> 0
         then (w, Some (mem_error ''E_GLOBAL_ALIGN'' ''global read is misaligned''))
         else case read_global (ms_mgr ms) addr sz of
                None \<Rightarrow> (w, Some (global_miss ''read'' addr sz))
              | Some bytes \<Rightarrow> (write_reg_lane64 (u_outputs u ! 0) w lane (unpack_le bytes), None))"

definition mem_ld_global :: "mem_state \<Rightarrow> micro_op \<Rightarrow> warp_state \<Rightarrow> obs_control \<Rightarrow> mem_result" where
  "mem_ld_global ms u w obs =
     (if o_kind (u_inputs u ! 0) \<noteq> KAddr
      then (ms, w, obs, step_error
              (mem_error ''E_LD_GLOBAL_KIND'' ''ld.global expects addr source''))
      else let (w', err) = loop_e (ld_global_lane ms u) (active_lanes (exec_mask_of w u)) w
           in mem_finish ''uop.mem.ld.global'' obs ms w' err)"

definition ld_local_lane :: "mem_state \<Rightarrow> micro_op \<Rightarrow> nat \<Rightarrow> warp_state \<Rightarrow> warp_state \<times> diagnostic option" where
  "ld_local_lane ms u lane w =
     (let eff = local_effective_addr w lane (eval_addr_lane (u_inputs u ! 0) w lane);
          bytes = read_sparse (ms_local ms) eff (type_size (a_type (u_attrs u)))
      in (write_reg_lane64 (u_outputs u ! 0) w lane (unpack_le bytes), None))"

definition mem_ld_local :: "mem_state \<Rightarrow> micro_op \<Rightarrow> warp_state \<Rightarrow> obs_control \<Rightarrow> mem_result" where
  "mem_ld_local ms u w obs =
     (if o_kind (u_inputs u ! 0) \<noteq> KAddr
      then (ms, w, obs, step_error
              (mem_error ''E_LD_LOCAL_KIND'' ''ld.local expects addr source''))
      else let (w', err) = loop_e (ld_local_lane ms u) (active_lanes (exec_mask_of w u)) w
           in mem_finish ''uop.mem.ld.local'' obs ms w' err)"

definition mem_ld :: "mem_state \<Rightarrow> micro_op \<Rightarrow> warp_state \<Rightarrow> obs_control \<Rightarrow> mem_result" where
  "mem_ld ms u w obs =
     (if length (u_outputs u) \<noteq> 1 \<or> length (u_inputs u) \<noteq> 1
      then (ms, w, obs, step_error (mem_error ''E_UOP_ARITY'' ''LD expects 1 in, 1 out''))
      else if a_space (u_attrs u) = Param then mem_ld_param ms u w obs
      else if a_space (u_attrs u) = Global then mem_ld_global ms u w obs
      else if a_space (u_attrs u) = Local then mem_ld_local ms u w obs
      else (ms, w, obs, step_error (mem_error ''E_LD_SPACE'' ''unsupported ld space'')))"

section \<open>Stores\<close>

definition st_global_lane :: "micro_op \<Rightarrow> warp_state \<Rightarrow> nat \<Rightarrow> mem_state \<Rightarrow> mem_state \<times> diagnostic option" where
  "st_global_lane u w lane ms =
     (let sz = type_size (a_type (u_attrs u));
          addr = eval_addr_lane (u_inputs u ! 0) w lane
      in if sz \<noteq> 0 \<and> addr mod sz \<noteq> 0
         then (ms, Some (mem_error ''E_GLOBAL_ALIGN'' ''global write is misaligned''))
         else case read_operand_lane (u_inputs u ! 1) w lane of
                None \<Rightarrow> (ms, Some (mem_error ''E_SPECIAL_UNKNOWN'' ''unknown special operand''))
              | Some v \<Rightarrow>
                  (case write_global (ms_mgr ms) addr (pack_le v (unat sz)) of
                     (mgr', True) \<Rightarrow> (ms\<lparr>ms_mgr := mgr'\<rparr>, None)
                   | (mgr', False) \<Rightarrow> (ms\<lparr>ms_mgr := mgr'\<rparr>, Some (global_miss ''write'' addr sz))))"

definition mem_st_global :: "mem_state \<Rightarrow> micro_op \<Rightarrow> warp_state \<Rightarrow> obs_control \<Rightarrow> mem_result" where
  "mem_st_global ms u w obs =
     (if o_kind (u_inputs u ! 0) \<noteq> KAddr
      then (ms, w, obs, step_error
              (mem_error ''E_ST_GLOBAL_KIND'' ''st.global expects addr dest''))
      else let (ms', err) = loop_e (st_global_lane u w) (active_lanes (exec_mask_of w u)) ms
           in mem_finish ''uop.mem.st.global'' obs ms' w err)"

definition st_local_lane :: "micro_op \<Rightarrow> warp_state \<Rightarrow> nat \<Rightarrow> mem_state \<Rightarrow> mem_state \<times> diagnostic option" where
  "st_local_lane u w lane ms =
     (let eff = local_effective_addr w lane (eval_addr_lane (u_inputs u ! 0) w lane);
          sz = type_size (a_type (u_attrs u))
      in case read_operand_lane (u_inputs u ! 1) w lane of
           None \<Rightarrow> (ms, Some (mem_error ''E_SPECIAL_UNKNOWN'' ''unknown special operand''))
         | Some v \<Rightarrow>
             (ms\<lparr>ms_local := write_sparse (ms_local ms) eff (pack_le v (unat sz))\<rparr>, None))"

definition mem_st_local :: "mem_state \<Rightarrow> micro_op \<Rightarrow> warp_state \<Rightarrow> obs_control \<Rightarrow> mem_result" where
  "mem_st_local ms u w obs =
     (if o_kind (u_inputs u ! 0) \<noteq> KAddr
      then (ms, w, obs, step_error
              (mem_error ''E_ST_LOCAL_KIND'' ''st.local expects addr dest''))
      else let (ms', err) = loop_e (st_local_lane u w) (active_lanes (exec_mask_of w u)) ms
           in mem_finish ''uop.mem.st.local'' obs ms' w err)"

definition mem_st :: "mem_state \<Rightarrow> micro_op \<Rightarrow> warp_state \<Rightarrow> obs_control \<Rightarrow> mem_result" where
  "mem_st ms u w obs =
     (if length (u_inputs u) \<noteq> 2 \<or> u_outputs u \<noteq> []
      then (ms, w, obs, step_error (mem_error ''E_UOP_ARITY'' ''ST expects 2 in, 0 out''))
      else if a_space (u_attrs u) = Global then mem_st_global ms u w obs
      else if a_space (u_attrs u) = Local then mem_st_local ms u w obs
      else (ms, w, obs, step_error (mem_error ''E_ST_SPACE'' ''unsupported st space'')))"

definition mem_step :: "mem_state \<Rightarrow> micro_op \<Rightarrow> warp_state \<Rightarrow> obs_control \<Rightarrow> mem_result" where
  "mem_step ms u w obs =
     (if w_done w then (ms, w, obs, step_result_default\<lparr>r_warp_done := True\<rparr>)
      else if u_op u = Ld then mem_ld ms u w obs
      else if u_op u = St then mem_st ms u w obs
      else (ms, w, obs, step_error (mem_error ''E_UOP_UNSUPPORTED'' ''unsupported mem uop'')))"

lemmas mem_defs [step_defs] =
  mem_ld_param_def mem_ld_global_def mem_ld_local_def mem_ld_def
  mem_st_global_def mem_st_local_def mem_st_def

section \<open>Local memory as a byte memory\<close>

lemma write_sparse_store: "write_sparse m a bs = store_bytes m a bs"
proof -
  have "fold (\<lambda>i m. m(a + of_nat i \<mapsto> bs ! i)) [0..<length bs] m = store_bytes m a bs" for a m
  proof (induction bs arbitrary: a m)
    case Nil
    then show ?case by simp
  next
    case (Cons b bs)
    have "fold (\<lambda>i m. m(a + of_nat i \<mapsto> (b # bs) ! i)) [0..<length (b # bs)] m =
        fold (\<lambda>i m. m(a + of_nat i \<mapsto> (b # bs) ! i)) (map Suc [0..<length bs]) (m(a \<mapsto> b))"
      by (simp add: upt_conv_Cons map_Suc_upt del: upt_Suc)
    also have "\<dots> = fold (\<lambda>i m. m((a + 1) + of_nat i \<mapsto> bs ! i)) [0..<length bs] (m(a \<mapsto> b))"
      by (simp add: fold_map comp_def add.assoc)
    finally show ?case by (simp only: Cons.IH store_bytes.simps)
  qed
  then show ?thesis by (simp add: write_sparse_def)
qed

lemma read_sparse_load: "read_sparse m a n = load_bytes m a (unat n)"
  by (simp add: read_sparse_def load_bytes_def)

interpretation loc: byte_memory "\<lambda>m a bs. (write_sparse m a bs, True)" "\<lambda>m a n. Some (read_sparse m a n)"
proof (unfold_locales, goal_cases)
  case (1 m a n bs)
  then show ?case by (auto simp: read_sparse_load)
next
  case (2 m a bs m')
  have "unat (of_nat (length bs) :: u64) = length bs" by (rule unat_of_nat_u64) (use 2 in simp)
  then show ?case using 2 by (auto simp: read_sparse_load write_sparse_store load_store_same)
next
  case (3 m a bs m' b n)
  then show ?case by (auto simp: read_sparse_load write_sparse_store load_store_other)
qed simp_all

section \<open>What a memory step keeps\<close>

lemma mem_finish_sel [simp]:
  "fst (mem_finish name obs ms w err) = ms" "fst (snd (mem_finish name obs ms w err)) = w"
  by (simp_all add: mem_finish_def split: option.split)

lemma loop_same_context:
  assumes "\<And>l w. same_context w (fst (f l w))"
  shows "same_context w (fst (loop_e f ls w))"
  by (rule loop_e_invariant) (auto intro: same_context_trans assms)

lemma mem_step_same_context: "same_context w (fst (snd (mem_step ms u w obs)))"
proof -
  have "same_context w (fst (ld_global_lane ms u l w))" "same_context w (fst (ld_local_lane ms u l w))"
    for l w
    by (simp_all add: ld_global_lane_def ld_local_lane_def Let_def write_reg_lane64_eq
        same_context_write_reg split: option.split)
  then have "same_context w (fst (loop_e (ld_global_lane ms u) ls w))"
    "same_context w (fst (loop_e (ld_local_lane ms u) ls w))"
    "same_context w (fst (loop_e (\<lambda>lane w. (write_reg_lane64 opr w lane v, None :: diagnostic option)) ls w))"
    for ls opr v
    by (auto intro!: loop_same_context simp: write_reg_lane64_eq same_context_write_reg)
  then show ?thesis
    by (simp add: mem_step_def mem_defs Let_def split_beta split: option.split)
qed

text \<open>A load changes registers only, a store changes memory only.\<close>

lemma mem_ld_memory: "fst (mem_ld ms u w obs) = ms"
  by (simp add: mem_defs Let_def split_beta split: option.split)

lemma mem_st_warp: "fst (snd (mem_st ms u w obs)) = w"
  by (simp add: mem_defs Let_def split_beta split: option.split)

definition mem_wf :: "mem_state \<Rightarrow> bool" where
  "mem_wf ms \<longleftrightarrow> alloc_wf (ms_mgr ms)"

lemma type_size_nz [simp]: "type_size t \<noteq> 0"
  by (cases t) simp_all

lemma st_global_lane_fst:
  "fst (st_global_lane u w l ms) =
     (let sz = type_size (a_type (u_attrs u)); addr = eval_addr_lane (u_inputs u ! 0) w l
      in if sz \<noteq> 0 \<and> addr mod sz \<noteq> 0 then ms
         else case read_operand_lane (u_inputs u ! 1) w l of
                None \<Rightarrow> ms
              | Some v \<Rightarrow> ms\<lparr>ms_mgr := fst (write_global (ms_mgr ms) addr (pack_le v (unat sz)))\<rparr>)"
proof -
  have "fst (case p of (m', True) \<Rightarrow> (f m', x) | (m', False) \<Rightarrow> (f m', y)) = f (fst p)"
    for f :: "addr_space_manager \<Rightarrow> mem_state" and p and x y :: "diagnostic option"
    by (cases p) (simp split: bool.split)
  then show ?thesis by (simp add: st_global_lane_def Let_def split: option.split)
qed

lemma st_global_lane_wf:
  assumes "mem_wf ms"
  shows "mem_wf (fst (st_global_lane u w l ms))"
proof -
  have len: "length (pack_le v (unat (type_size t))) < 2 ^ 64" for v t
    using type_size_cases [of t] by auto
  have "alloc_wf (fst (write_global (ms_mgr ms) a (pack_le v (unat (type_size t)))))" for a v t
    using assms len by (intro alloc_wf_write) (simp_all only: mem_wf_def)
  then show ?thesis
    using assms by (simp add: st_global_lane_fst mem_wf_def Let_def split: option.split)
qed

lemma mem_loops_wf:
  assumes "mem_wf ms"
  shows "mem_wf (fst (loop_e (st_local_lane u w) ls ms))" "mem_wf (fst (loop_e (st_global_lane u w) ls ms))"
proof -
  show "mem_wf (fst (loop_e (st_local_lane u w) ls ms))"
    by (rule loop_e_invariant [of mem_wf, OF assms])
      (simp add: st_local_lane_def mem_wf_def Let_def split: option.split)
  show "mem_wf (fst (loop_e (st_global_lane u w) ls ms))"
    by (rule loop_e_invariant [of mem_wf, OF assms]) (rule st_global_lane_wf)
qed

lemma mem_step_wf:
  assumes "mem_wf ms"
  shows "mem_wf (fst (mem_step ms u w obs))"
proof -
  have "mem_wf (fst (mem_st ms u w obs))"
    using assms mem_loops_wf [OF assms]
    by (simp add: mem_st_def mem_st_global_def mem_st_local_def Let_def split_beta)
  then show ?thesis using assms by (simp add: mem_step_def mem_ld_memory)
qed

section \<open>Aligned accesses\<close>

lemma aligned_range_disjoint:
  assumes "n = 4 \<or> n = 8" and "a mod n = 0" and "b mod n = 0" and "a \<noteq> (b :: u64)"
  shows "addr_range a (unat n) \<inter> addr_range b (unat n) = {}"
proof -
  have n: "unat n = 4 \<or> unat n = 8" using assms(1) by auto
  have up: "unat (x + of_nat i) = unat x + i \<and> unat x mod unat n = 0"
    if "x mod n = 0" "i < unat n" for x i
  proof -
    have m: "unat x mod unat n = 0" using arg_cong [OF that(1), of unat] by (simp add: unat_mod)
    then have "\<exists>q. unat x = 4 * q \<and> unat n = 4 \<or> unat x = 8 * q \<and> unat n = 8"
      using n by (auto elim!: dvdE simp: mod_eq_0_iff_dvd)
    then have "unat x + i < 18446744073709551616"
      using that(2) unat_u64_less [of x] by (elim exE disjE conjE) simp_all
    moreover have "unat (of_nat i :: u64) = i"
      using that(2) n by (intro unat_of_nat_u64) auto
    ultimately show ?thesis using m by (subst unat_add_u64) simp_all
  qed
  have "False" if "a + of_nat i = b + of_nat j" "i < unat n" "j < unat n" for i j
  proof -
    have e: "unat a + i = unat b + j"
      using up [OF assms(2) that(2)] up [OF assms(3) that(3)] that(1) by metis
    have "(unat a + i) mod unat n = i" "(unat b + j) mod unat n = j"
      using up [OF assms(2) that(2)] up [OF assms(3) that(3)] that(2,3)
      by (simp_all add: mod_add_eq [symmetric])
    then have "unat a = unat b" using e by simp
    then show False using assms(4) by (simp add: word_unat_eq_iff)
  qed
  then show ?thesis by (auto simp: addr_range_def)
qed

lemma type_size_48: "type_size t = 4 \<or> type_size t = 8"
  by (cases t) simp_all

section \<open>A store followed by a load\<close>

definition mem_access :: "micro_op \<Rightarrow> micro_op_op \<Rightarrow> addr_space \<Rightarrow> bool" where
  "mem_access u op sp \<longleftrightarrow> u_op u = op \<and> a_space (u_attrs u) = sp \<and> o_kind (u_inputs u ! 0) = KAddr \<and>
     (if op = Ld then length (u_inputs u) = 1 \<and> length (u_outputs u) = 1
      else length (u_inputs u) = 2 \<and> u_outputs u = [])"

definition lane_addr :: "micro_op \<Rightarrow> warp_state \<Rightarrow> nat \<Rightarrow> u64" where
  "lane_addr u w l = eval_addr_lane (u_inputs u ! 0) w l"

definition access_size :: "micro_op \<Rightarrow> u64" where
  "access_size u = type_size (a_type (u_attrs u))"

lemma access_size_48: "access_size u = 4 \<or> access_size u = 8"
  by (simp add: access_size_def type_size_48)

lemma eval_addr_local:
  assumes "o_reg_id opr < 2 ^ 58" and "width_ok w" and "l < unat (lm_width (w_active w))"
  shows "lane_local (eval_addr_lane opr) w l"
proof -
  let ?b = "operand_default\<lparr>o_kind := KReg, o_type := U64, o_reg_id := o_reg_id opr\<rparr>"
  have "o_reg_id opr < 288230376151711744" using assms(1) by simp
  then have "nat (o_reg_id opr) < 288230376151711744" by linarith
  then have "reg_ok ?b" by (simp add: reg_ok_def reg_no_def)
  then have "lane_local (read_operand_lane ?b) w l" by (rule read_operand_lane_local) fact+
  then show ?thesis
    by (simp add: lane_local_def eval_addr_lane_def read_reg_lane64_eq read_operand_lane_def Let_def)
qed

lemma st_global_loop:
  assumes "\<And>l. l \<in> set ls \<Longrightarrow> lane_addr u w l mod access_size u = 0"
    and "\<And>l. l \<in> set ls \<Longrightarrow> global_range_allocated (ms_mgr ms) (lane_addr u w l) (access_size u)"
    and "\<And>l. l \<in> set ls \<Longrightarrow> read_operand_lane (u_inputs u ! 1) w l = Some (v l)"
    and "inj_on (lane_addr u w) (set ls)" and "distinct ls"
  shows "\<exists>ms'. loop_e (st_global_lane u w) ls ms = (ms', None) \<and> ms_local ms' = ms_local ms \<and>
    allocs (ms_mgr ms') = allocs (ms_mgr ms) \<and>
    (\<forall>l \<in> set ls. read_global (ms_mgr ms') (lane_addr u w l) (access_size u)
       = Some (pack_le (v l) (unat (access_size u)))) \<and>
    (\<forall>a n. (\<forall>l \<in> set ls. addr_range (lane_addr u w l) (unat (access_size u)) \<inter> addr_range a (unat n) = {})
       \<longrightarrow> read_global (ms_mgr ms') a n = read_global (ms_mgr ms) a n)"
  using assms
proof (induction ls rule: rev_induct)
  case Nil
  then show ?case by simp
next
  case (snoc l ls)
  let ?sz = "access_size u" and ?bs = "pack_le (v l) (unat (access_size u))"
  have "inj_on (lane_addr u w) (set ls)" using snoc.prems(4) by (auto intro: inj_on_subset)
  then obtain ms1 where ms1: "loop_e (st_global_lane u w) ls ms = (ms1, None)"
    "ms_local ms1 = ms_local ms" "allocs (ms_mgr ms1) = allocs (ms_mgr ms)"
    and rd: "\<And>l. l \<in> set ls \<Longrightarrow> read_global (ms_mgr ms1) (lane_addr u w l) ?sz
       = Some (pack_le (v l) (unat ?sz))"
    and fr: "\<And>a n. (\<forall>l \<in> set ls. addr_range (lane_addr u w l) (unat ?sz) \<inter> addr_range a (unat n) = {})
       \<Longrightarrow> read_global (ms_mgr ms1) a n = read_global (ms_mgr ms) a n"
    using snoc.IH snoc.prems by auto
  have sz: "of_nat (unat ?sz) = ?sz" by simp
  have al: "global_range_allocated (ms_mgr ms1) (lane_addr u w l) ?sz"
    using snoc.prems(2) [of l] global_range_allocated_allocs [OF ms1(3)] by simp
  define mgr2 where "mgr2 = fst (write_global (ms_mgr ms1) (lane_addr u w l) ?bs)"
  have wr: "write_global (ms_mgr ms1) (lane_addr u w l) ?bs = (mgr2, True)"
    using al by (simp add: mgr2_def write_global_def)
  have step: "st_global_lane u w l ms1 = (ms1\<lparr>ms_mgr := mgr2\<rparr>, None)"
    using snoc.prems(1,3) [of l] wr
    by (simp add: st_global_lane_def Let_def lane_addr_def access_size_def)
  have new: "read_global mgr2 (lane_addr u w l) ?sz = Some ?bs"
    using glob.wr_same [OF wr] access_size_48 [of u] by auto
  have old: "read_global mgr2 a n = read_global (ms_mgr ms1) a n"
    if "addr_range (lane_addr u w l) (unat ?sz) \<inter> addr_range a (unat n) = {}" for a n
    using glob.wr_other [OF wr] that by simp
  have keep: "read_global mgr2 (lane_addr u w k) ?sz = Some (pack_le (v k) (unat ?sz))"
    if "k \<in> set ls" for k
  proof -
    have "lane_addr u w l \<noteq> lane_addr u w k"
      using snoc.prems(4,5) that by (auto simp: inj_on_def)
    then have "addr_range (lane_addr u w l) (unat ?sz) \<inter> addr_range (lane_addr u w k) (unat ?sz) = {}"
      using snoc.prems(1) that by (intro aligned_range_disjoint access_size_48) auto
    then show ?thesis using old rd [OF that] by simp
  qed
  have "allocs mgr2 = allocs (ms_mgr ms)"
    using write_global_frame(2) [of "ms_mgr ms1" "lane_addr u w l" ?bs] ms1(3) by (simp add: mgr2_def)
  moreover have "\<forall>k \<in> set (ls @ [l]). read_global mgr2 (lane_addr u w k) ?sz
       = Some (pack_le (v k) (unat ?sz))"
    using keep new by auto
  moreover have "\<forall>a n. (\<forall>k \<in> set (ls @ [l]). addr_range (lane_addr u w k) (unat ?sz) \<inter> addr_range a (unat n) = {})
       \<longrightarrow> read_global mgr2 a n = read_global (ms_mgr ms) a n"
    using old fr by simp
  ultimately show ?case
    by (intro exI [of _ "ms1\<lparr>ms_mgr := mgr2\<rparr>"]) (simp add: loop_e_append ms1(1,2) step)
qed

lemma ld_global_loop:
  assumes "width_ok w" and "o_kind (u_outputs u ! 0) = KReg" and "reg_ok (u_outputs u ! 0)"
    and "o_reg_id (u_inputs u ! 0) < 2 ^ 58" and "distinct ls"
    and "\<And>l. l \<in> set ls \<Longrightarrow> l < unat (lm_width (w_active w))"
    and "\<And>l. l \<in> set ls \<Longrightarrow> lane_addr u w l mod access_size u = 0 \<and>
           read_global (ms_mgr ms) (lane_addr u w l) (access_size u) = Some (bs l)"
  shows "\<exists>w'. loop_e (ld_global_lane ms u) ls w = (w', None) \<and> same_context w w' \<and>
    lane_written u (set ls) (\<lambda>l. unpack_le (bs l)) w w'"
proof (rule lane_loop_body [OF assms(1-3)])
  fix pre l post w'
  assume ls: "ls = pre @ l # post" and c: "same_context w w'"
    and wr: "lane_written u (set pre) (\<lambda>l. unpack_le (bs l)) w w'"
  have mem: "l \<in> set ls" by (simp add: ls)
  have "l \<notin> set pre" using assms(5) by (simp add: ls)
  then have "same_lane w w' l" by (rule lane_written_same_lane [OF wr assms(6) [OF mem]])
  then have "lane_addr u w' l = lane_addr u w l"
    using eval_addr_local [OF assms(4,1) assms(6) [OF mem]] c by (simp add: lane_local_def lane_addr_def)
  then show "ld_global_lane ms u l w' = (write_reg_lane (u_outputs u ! 0) w' l (unpack_le (bs l)), None)"
    using assms(7) [OF mem]
    by (simp add: ld_global_lane_def Let_def lane_addr_def access_size_def write_reg_lane64_eq)
qed (rule assms(6))

text \<open>
  C22.  What \<open>st.global\<close> stores, \<open>ld.global\<close> from the same addresses reads back: when the
  active lanes' addresses are aligned, allocated and distinct, the store succeeds, every
  range disjoint from the stored ones reads as before, and the load puts the low bytes of
  each lane's value into the lane's destination register and changes nothing else.
\<close>

theorem st_ld_global_round_trip:
  assumes "mem_access st St Global" and "mem_access ld Ld Global"
    and "u_inputs ld ! 0 = u_inputs st ! 0" and "a_type (u_attrs ld) = a_type (u_attrs st)"
    and "u_guard ld = u_guard st"
    and "o_kind (u_outputs ld ! 0) = KReg" and "reg_ok (u_outputs ld ! 0)"
    and "o_reg_id (u_inputs st ! 0) < 2 ^ 58" and "width_ok w" and "\<not> w_done w"
    and "\<And>l. l \<in> set (active_lanes (exec_mask_of w st)) \<Longrightarrow>
           lane_addr st w l mod access_size st = 0 \<and>
           global_range_allocated (ms_mgr ms) (lane_addr st w l) (access_size st) \<and>
           read_operand_lane (u_inputs st ! 1) w l = Some (v l)"
    and "inj_on (lane_addr st w) (set (active_lanes (exec_mask_of w st)))"
  shows "\<exists>ms1 obs1 w2 obs2.
    mem_step ms st w obs = (ms1, w, obs1, step_ok) \<and>
    mem_step ms1 ld w obs1 = (ms1, w2, obs2, step_ok) \<and> same_context w w2 \<and>
    lane_written ld (set (active_lanes (exec_mask_of w st)))
      (\<lambda>l. take_bit (8 * unat (access_size st)) (v l)) w w2 \<and>
    (\<forall>a n. (\<forall>l \<in> set (active_lanes (exec_mask_of w st)).
        addr_range (lane_addr st w l) (unat (access_size st)) \<inter> addr_range a (unat n) = {})
      \<longrightarrow> read_global (ms_mgr ms1) a n = read_global (ms_mgr ms) a n)"
proof -
  let ?ls = "active_lanes (exec_mask_of w st)"
  have same: "exec_mask_of w ld = exec_mask_of w st" "lane_addr ld w = lane_addr st w"
    "access_size ld = access_size st"
    using assms(3-5) by (auto simp: exec_mask_of_def lane_addr_def access_size_def)
  obtain ms1 where ms1: "loop_e (st_global_lane st w) ?ls ms = (ms1, None)"
    and rd: "\<And>l. l \<in> set ?ls \<Longrightarrow> read_global (ms_mgr ms1) (lane_addr st w l) (access_size st)
       = Some (pack_le (v l) (unat (access_size st)))"
    and fr: "\<forall>a n. (\<forall>l \<in> set ?ls.
        addr_range (lane_addr st w l) (unat (access_size st)) \<inter> addr_range a (unat n) = {})
      \<longrightarrow> read_global (ms_mgr ms1) a n = read_global (ms_mgr ms) a n"
    using st_global_loop [of ?ls st w ms v] assms(11,12) by auto
  have reg: "o_reg_id (u_inputs ld ! 0) < 2 ^ 58" using assms(3,8) by simp
  obtain w2 where w2: "loop_e (ld_global_lane ms1 ld) ?ls w = (w2, None)" "same_context w w2"
    "lane_written ld (set ?ls) (\<lambda>l. unpack_le (pack_le (v l) (unat (access_size st)))) w w2"
    using ld_global_loop [OF assms(9,6,7) reg, of ?ls ms1
        "\<lambda>l. pack_le (v l) (unat (access_size st))"] rd assms(11) active_lane_bound
    by (auto simp: same)
  have "unat (access_size st) \<le> 8" using access_size_48 [of st] by auto
  then have "lane_written ld (set ?ls) (\<lambda>l. take_bit (8 * unat (access_size st)) (v l)) w w2"
    using w2(3) by (simp add: unpack_pack_le)
  moreover have "mem_step ms st w obs = (ms1, w, obs_counter ''uop.mem.st.global'' obs, step_ok)"
    using assms(1,10) by (simp add: mem_step_def mem_st_def mem_st_global_def mem_access_def ms1 mem_finish_def)
  moreover have "mem_step ms1 ld w obs1 = (ms1, w2, obs_counter ''uop.mem.ld.global'' obs1, step_ok)" for obs1
    using assms(2,10)
    by (simp add: mem_step_def mem_ld_def mem_ld_global_def mem_access_def same w2(1) mem_finish_def)
  ultimately show ?thesis using w2(2) fr by blast
qed

text \<open>Four lanes store \<open>r0\<close> to the words of a fresh block of 16 bytes and load them into \<open>r1\<close>.\<close>

definition demo_mem :: mem_state where
  "demo_mem = \<lparr>ms_mgr = fst (alloc_global manager_init 16 4), ms_local = Map.empty\<rparr>"

definition demo_addr_warp :: warp_state where
  "demo_addr_warp = demo_warp\<lparr>w_r64 := [0x1000, 0x1004, 0x1008, 0x100C]\<rparr>"

definition demo_addr :: operand where
  "demo_addr = operand_default\<lparr>o_kind := KAddr, o_reg_id := 0\<rparr>"

definition mem_uop :: "micro_op_op \<Rightarrow> addr_space \<Rightarrow> operand list \<Rightarrow> operand list \<Rightarrow> micro_op" where
  "mem_uop op sp ins outs =
     \<lparr>u_kind = Mem, u_op = op, u_inputs = ins, u_outputs = outs,
      u_attrs = \<lparr>a_type = U32, a_space = sp, a_flags = []\<rparr>, u_guard = lane_mask_all 4\<rparr>"

lemma demo_addr_active: "active_lanes (exec_mask_of demo_addr_warp (mem_uop op sp ins outs)) = [0, 1, 2, 3]"
  using demo_active [of Mov U32 "[]" "[]" "imm32 0"]
  by (simp add: exec_mask_of_def demo_addr_warp_def mem_uop_def exec_uop_def)

lemma st_ld_global_round_trip_witness:
  "\<exists>ms1 obs1 w2 obs2.
    mem_step demo_mem (mem_uop St Global [demo_addr, reg32 0] []) demo_addr_warp demo_obs
      = (ms1, demo_addr_warp, obs1, step_ok) \<and>
    mem_step ms1 (mem_uop Ld Global [demo_addr] [reg32 1]) demo_addr_warp obs1
      = (ms1, w2, obs2, step_ok) \<and>
    lane_written (mem_uop Ld Global [demo_addr] [reg32 1]) {0, 1, 2, 3}
      (\<lambda>l. take_bit 32 ([10, 20, 30, 40] ! l)) demo_addr_warp w2"
proof -
  let ?st = "mem_uop St Global [demo_addr, reg32 0] []"
  let ?ld = "mem_uop Ld Global [demo_addr] [reg32 1]"
  have u: "mem_access ?st St Global" "mem_access ?ld Ld Global" "u_inputs ?ld ! 0 = u_inputs ?st ! 0"
    "a_type (u_attrs ?ld) = a_type (u_attrs ?st)" "u_guard ?ld = u_guard ?st"
    "o_kind (u_outputs ?ld ! 0) = KReg" "reg_ok (u_outputs ?ld ! 0)"
    "o_reg_id (u_inputs ?st ! 0) < 2 ^ 58" "width_ok demo_addr_warp" "\<not> w_done demo_addr_warp"
    by (simp_all add: mem_access_def mem_uop_def demo_addr_def reg32_def operand_default_def
        reg_ok_def reg_no_def demo_addr_warp_def demo_warp_def width_ok_def lane_mask_all_def)
  have addrs: "map (lane_addr ?st demo_addr_warp) [0, 1, 2, 3] = [0x1000, 0x1004, 0x1008, 0x100C]"
    by code_simp
  have ok: "list_all (\<lambda>l. lane_addr ?st demo_addr_warp l mod access_size ?st = 0 \<and>
      global_range_allocated (ms_mgr demo_mem) (lane_addr ?st demo_addr_warp l) (access_size ?st))
      [0, 1, 2, 3]"
    by code_simp
  have vals: "map (read_operand_lane (u_inputs ?st ! 1) demo_addr_warp) [0, 1, 2, 3]
      = map Some [10, 20, 30, 40]"
    by code_simp
  have pre: "lane_addr ?st demo_addr_warp l mod access_size ?st = 0 \<and>
      global_range_allocated (ms_mgr demo_mem) (lane_addr ?st demo_addr_warp l) (access_size ?st) \<and>
      read_operand_lane (u_inputs ?st ! 1) demo_addr_warp l = Some ([10, 20, 30, 40] ! l)"
    if "l \<in> {0, 1, 2, 3}" for l
  proof -
    have "lane_addr ?st demo_addr_warp l mod access_size ?st = 0 \<and>
      global_range_allocated (ms_mgr demo_mem) (lane_addr ?st demo_addr_warp l) (access_size ?st)"
      using ok that unfolding list_all_iff list.set by blast
    moreover have "read_operand_lane (u_inputs ?st ! 1) demo_addr_warp l = Some ([10, 20, 30, 40] ! l)"
      using vals that by auto
    ultimately show ?thesis by blast
  qed
  have inj: "inj_on (lane_addr ?st demo_addr_warp) {0, 1, 2, 3}" using addrs by simp
  have "access_size ?st = 4" by (simp add: access_size_def mem_uop_def)
  then show ?thesis
    using st_ld_global_round_trip [OF u, of demo_mem "\<lambda>l. [10, 20, 30, 40] ! l" demo_obs] pre inj
    by (simp add: demo_addr_active) blast
qed

section \<open>Local windows\<close>

text \<open>
  The linear thread number as the code means it: the natural number in a launch without
  wrap-around.
\<close>

definition grid_thread :: "warp_state \<Rightarrow> nat \<Rightarrow> nat" where
  "grid_thread w lane =
     (let g = grid_dim (w_launch w); b = block_dim (w_launch w); c = w_ctaid w
      in (unat (dim_x c) + unat (dim_x g) * (unat (dim_y c) + unat (dim_y g) * unat (dim_z c))) *
         (unat (dim_x b) * unat (dim_y b) * unat (dim_z b)) + (unat (w_lane_base w) + lane))"

definition in_launch :: "warp_state \<Rightarrow> nat \<Rightarrow> bool" where
  "in_launch w lane \<longleftrightarrow>
     (let g = grid_dim (w_launch w); b = block_dim (w_launch w); c = w_ctaid w
      in unat (dim_x c) < unat (dim_x g) \<and> unat (dim_y c) < unat (dim_y g) \<and>
         unat (dim_z c) < unat (dim_z g) \<and>
         unat (w_lane_base w) + lane < unat (dim_x b) * unat (dim_y b) * unat (dim_z b))"

definition launch_threads :: "launch_config \<Rightarrow> nat" where
  "launch_threads k =
     unat (dim_x (grid_dim k)) * unat (dim_y (grid_dim k)) * unat (dim_z (grid_dim k)) *
     (unat (dim_x (block_dim k)) * unat (dim_y (block_dim k)) * unat (dim_z (block_dim k)))"

lemma mixed_radix_bound:
  fixes x X y Y :: nat
  assumes "x < X" and "y < Y"
  shows "x + X * y < X * Y"
proof -
  have "x + X * y < X * (y + 1)" using assms(1) by simp
  also have "\<dots> \<le> X * Y" using assms(2) by (intro mult_le_mono2) simp
  finally show ?thesis .
qed

lemma mixed_radix_inj:
  fixes x X y :: nat
  assumes "x < X" and "x' < X" and "x + X * y = x' + X * y'"
  shows "x = x' \<and> y = y'"
  using cell_inj [of x X x' y y'] assms by (simp add: mult.commute add.commute)

lemma grid_thread_bound:
  assumes "in_launch w l"
  shows "grid_thread w l < launch_threads (w_launch w)"
proof -
  let ?g = "grid_dim (w_launch w)" and ?b = "block_dim (w_launch w)" and ?c = "w_ctaid w"
  let ?T = "unat (dim_x ?b) * unat (dim_y ?b) * unat (dim_z ?b)"
  have "unat (dim_y ?c) + unat (dim_y ?g) * unat (dim_z ?c) < unat (dim_y ?g) * unat (dim_z ?g)"
    using assms by (intro mixed_radix_bound) (simp_all add: in_launch_def Let_def)
  then have "unat (dim_x ?c) + unat (dim_x ?g) * (unat (dim_y ?c) + unat (dim_y ?g) * unat (dim_z ?c))
      < unat (dim_x ?g) * (unat (dim_y ?g) * unat (dim_z ?g))"
    using assms by (intro mixed_radix_bound) (simp_all add: in_launch_def Let_def)
  then have "(unat (w_lane_base w) + l) + ?T *
        (unat (dim_x ?c) + unat (dim_x ?g) * (unat (dim_y ?c) + unat (dim_y ?g) * unat (dim_z ?c)))
      < ?T * (unat (dim_x ?g) * (unat (dim_y ?g) * unat (dim_z ?g)))"
    using assms by (intro mixed_radix_bound) (simp_all add: in_launch_def Let_def)
  then show ?thesis
    unfolding grid_thread_def launch_threads_def Let_def
    by (simp only: mult.commute mult.left_commute mult.assoc add.commute)
qed

lemma grid_thread_inj:
  assumes "in_launch w l" and "in_launch w' l'" and "w_launch w' = w_launch w"
    and "grid_thread w l = grid_thread w' l'"
  shows "w_ctaid w = w_ctaid w' \<and> unat (w_lane_base w) + l = unat (w_lane_base w') + l'"
proof -
  let ?g = "grid_dim (w_launch w)" and ?b = "block_dim (w_launch w)"
  let ?T = "unat (dim_x ?b) * unat (dim_y ?b) * unat (dim_z ?b)"
  let ?cta = "\<lambda>c. unat (dim_x c) + unat (dim_x ?g) * (unat (dim_y c) + unat (dim_y ?g) * unat (dim_z c))"
  have "(unat (w_lane_base w) + l) + ?T * ?cta (w_ctaid w)
      = (unat (w_lane_base w') + l') + ?T * ?cta (w_ctaid w')"
    using assms(3,4) by (simp add: grid_thread_def Let_def mult.commute add.commute)
  then have lane: "unat (w_lane_base w) + l = unat (w_lane_base w') + l'"
    and cta: "?cta (w_ctaid w) = ?cta (w_ctaid w')"
    using mixed_radix_inj [of "unat (w_lane_base w) + l" ?T "unat (w_lane_base w') + l'"] assms(1-3)
    by (simp_all add: in_launch_def Let_def)
  have x: "unat (dim_x (w_ctaid w)) = unat (dim_x (w_ctaid w'))"
    and yz: "unat (dim_y (w_ctaid w)) + unat (dim_y ?g) * unat (dim_z (w_ctaid w))
      = unat (dim_y (w_ctaid w')) + unat (dim_y ?g) * unat (dim_z (w_ctaid w'))"
    using mixed_radix_inj [OF _ _ cta] assms(1-3) by (simp_all add: in_launch_def Let_def)
  then have "unat (dim_y (w_ctaid w)) = unat (dim_y (w_ctaid w'))"
    "unat (dim_z (w_ctaid w)) = unat (dim_z (w_ctaid w'))"
    using mixed_radix_inj [OF _ _ yz] assms(1-3) by (simp_all add: in_launch_def Let_def)
  with x lane show ?thesis by (simp add: word_unat_eq_iff)
qed

lemma thread_linear_global_nat: "thread_linear_global w l = of_nat (grid_thread w l)"
  by (simp add: thread_linear_global_def grid_thread_def Let_def)

text \<open>In a launch of at most \<open>2 ^ 52\<close> threads no window address wraps.\<close>

lemma window_address:
  assumes "in_launch w l" and "launch_threads (w_launch w) \<le> 2 ^ 52" and "k < 4096"
  shows "unat (thread_linear_global w l * local_stride + of_nat k) = grid_thread w l * 4096 + k"
proof -
  have "grid_thread w l < 4503599627370496" using grid_thread_bound [OF assms(1)] assms(2) by simp
  then have "grid_thread w l * 4096 + k < 2 ^ 64" using assms(3) by simp
  moreover have "thread_linear_global w l * local_stride + of_nat k
      = (of_nat (grid_thread w l * 4096 + k) :: u64)"
    by (simp add: thread_linear_global_nat local_stride_def)
  ultimately show ?thesis by (simp only: unat_of_nat_u64)
qed

definition same_thread :: "warp_state \<Rightarrow> nat \<Rightarrow> warp_state \<Rightarrow> nat \<Rightarrow> bool" where
  "same_thread w l w' l' \<longleftrightarrow>
     w_ctaid w = w_ctaid w' \<and> unat (w_lane_base w) + l = unat (w_lane_base w') + l'"

lemma windows_disjoint:
  assumes "in_launch w l" and "in_launch w' l'" and "w_launch w' = w_launch w"
    and "launch_threads (w_launch w) \<le> 2 ^ 52" and "\<not> same_thread w l w' l'"
    and "unat a + n \<le> 4096" and "unat b + m \<le> 4096"
  shows "addr_range (local_effective_addr w l a) n \<inter> addr_range (local_effective_addr w' l' b) m = {}"
proof -
  have at: "unat (local_effective_addr v k c + of_nat i) = grid_thread v k * 4096 + (unat c + i)"
    if "in_launch v k" "launch_threads (w_launch v) \<le> 2 ^ 52" "unat c + i < 4096" for v k c i
  proof -
    have eq: "local_effective_addr v k c + of_nat i
        = thread_linear_global v k * local_stride + of_nat (unat c + i)"
      by (simp add: local_effective_addr_def)
    show ?thesis unfolding eq by (rule window_address [OF that])
  qed
  have "False" if "local_effective_addr w l a + of_nat i = local_effective_addr w' l' b + of_nat j"
    "i < n" "j < m" for i j
  proof -
    have "grid_thread w l * 4096 + (unat a + i) = grid_thread w' l' * 4096 + (unat b + j)"
      using at [OF assms(1), of a i] at [OF assms(2), of b j] assms(3,4,6,7) that by simp
    moreover have "unat a + i < 4096" "unat b + j < 4096" using assms(6,7) that by simp_all
    ultimately have "grid_thread w l = grid_thread w' l'"
      using cell_inj [of "unat a + i" 4096 "unat b + j"] by blast
    then show False
      using grid_thread_inj [OF assms(1-3)] assms(5) by (simp add: same_thread_def)
  qed
  then show ?thesis by (auto simp: addr_range_def)
qed

section \<open>Local stores and loads\<close>

definition local_addr :: "micro_op \<Rightarrow> warp_state \<Rightarrow> nat \<Rightarrow> u64" where
  "local_addr u w l = local_effective_addr w l (lane_addr u w l)"

text \<open>A lane of an access that belongs to the launch and stays inside its window.\<close>

definition in_window :: "micro_op \<Rightarrow> warp_state \<Rightarrow> nat \<Rightarrow> bool" where
  "in_window u w l \<longleftrightarrow> in_launch w l \<and> unat (lane_addr u w l) + unat (access_size u) \<le> 4096"

lemma local_effective_addr_context:
  "same_context w w' \<Longrightarrow> local_effective_addr w' l a = local_effective_addr w l a"
  by (simp add: local_effective_addr_def thread_linear_global_def warp_simps Let_def)

lemma local_access_disjoint:
  assumes "in_window u w l" and "in_window u' w' l'" and "w_launch w' = w_launch w"
    and "launch_threads (w_launch w) \<le> 2 ^ 52" and "\<not> same_thread w l w' l'"
  shows "addr_range (local_addr u w l) (unat (access_size u)) \<inter>
    addr_range (local_addr u' w' l') (unat (access_size u')) = {}"
  using assms unfolding local_addr_def in_window_def by (intro windows_disjoint) simp_all

lemma st_local_loop:
  assumes "\<And>l. l \<in> set ls \<Longrightarrow> read_operand_lane (u_inputs u ! 1) w l = Some (v l)"
    and "\<And>l k. l \<in> set ls \<Longrightarrow> k \<in> set ls \<Longrightarrow> l \<noteq> k \<Longrightarrow>
      addr_range (local_addr u w l) (unat (access_size u)) \<inter> addr_range (local_addr u w k) (unat (access_size u)) = {}"
    and "distinct ls"
  shows "\<exists>ms'. loop_e (st_local_lane u w) ls ms = (ms', None) \<and>
    (\<forall>l \<in> set ls. read_sparse (ms_local ms') (local_addr u w l) (access_size u) = pack_le (v l) (unat (access_size u))) \<and>
    (\<forall>a n. (\<forall>l \<in> set ls. addr_range (local_addr u w l) (unat (access_size u)) \<inter> addr_range a (unat n) = {})
       \<longrightarrow> read_sparse (ms_local ms') a n = read_sparse (ms_local ms) a n)"
  using assms
proof (induction ls rule: rev_induct)
  case Nil
  then show ?case by simp
next
  case (snoc l ls)
  let ?sz = "access_size u" and ?bs = "pack_le (v l) (unat (access_size u))"
  obtain ms1 where ms1: "loop_e (st_local_lane u w) ls ms = (ms1, None)"
    and rd: "\<And>l. l \<in> set ls \<Longrightarrow> read_sparse (ms_local ms1) (local_addr u w l) ?sz = pack_le (v l) (unat ?sz)"
    and fr: "\<And>a n. (\<forall>l \<in> set ls. addr_range (local_addr u w l) (unat ?sz) \<inter> addr_range a (unat n) = {})
       \<Longrightarrow> read_sparse (ms_local ms1) a n = read_sparse (ms_local ms) a n"
    using snoc.IH snoc.prems by auto
  let ?m2 = "write_sparse (ms_local ms1) (local_addr u w l) ?bs"
  have step: "st_local_lane u w l ms1 = (ms1\<lparr>ms_local := ?m2\<rparr>, None)"
    using snoc.prems(1) [of l] by (simp add: st_local_lane_def Let_def local_addr_def lane_addr_def access_size_def)
  have new: "read_sparse ?m2 (local_addr u w l) ?sz = ?bs"
    using loc.wr_same [OF refl, of ?bs "ms_local ms1" "local_addr u w l"] access_size_48 [of u] by auto
  have old: "read_sparse ?m2 a n = read_sparse (ms_local ms1) a n"
    if "addr_range (local_addr u w l) (unat ?sz) \<inter> addr_range a (unat n) = {}" for a n
    using loc.wr_other [OF refl, of "local_addr u w l" ?bs a n "ms_local ms1"] that by simp
  have keep: "read_sparse ?m2 (local_addr u w k) ?sz = pack_le (v k) (unat ?sz)" if "k \<in> set ls" for k
    using old [OF snoc.prems(2) [of l k]] rd [OF that] snoc.prems(3) that by auto
  have "\<forall>k \<in> set (ls @ [l]). read_sparse ?m2 (local_addr u w k) ?sz = pack_le (v k) (unat ?sz)"
    using keep new by auto
  moreover have "\<forall>a n. (\<forall>k \<in> set (ls @ [l]). addr_range (local_addr u w k) (unat ?sz) \<inter> addr_range a (unat n) = {})
       \<longrightarrow> read_sparse ?m2 a n = read_sparse (ms_local ms) a n"
    using old fr by simp
  ultimately show ?case
    by (intro exI [of _ "ms1\<lparr>ms_local := ?m2\<rparr>"]) (simp add: loop_e_append ms1 step)
qed

lemma ld_local_loop:
  assumes "width_ok w" and "o_kind (u_outputs u ! 0) = KReg" and "reg_ok (u_outputs u ! 0)"
    and "o_reg_id (u_inputs u ! 0) < 2 ^ 58" and "distinct ls"
    and "\<And>l. l \<in> set ls \<Longrightarrow> l < unat (lm_width (w_active w))"
  shows "\<exists>w'. loop_e (ld_local_lane ms u) ls w = (w', None) \<and> same_context w w' \<and>
    lane_written u (set ls) (\<lambda>l. unpack_le (read_sparse (ms_local ms) (local_addr u w l) (access_size u))) w w'"
proof (rule lane_loop_body [OF assms(1-3)])
  fix pre l post w'
  assume ls: "ls = pre @ l # post" and c: "same_context w w'"
    and wr: "lane_written u (set pre) (\<lambda>l. unpack_le (read_sparse (ms_local ms) (local_addr u w l) (access_size u))) w w'"
  have mem: "l \<in> set ls" by (simp add: ls)
  have "l \<notin> set pre" using assms(5) by (simp add: ls)
  then have "same_lane w w' l" by (rule lane_written_same_lane [OF wr assms(6) [OF mem]])
  then have "lane_addr u w' l = lane_addr u w l"
    using eval_addr_local [OF assms(4,1) assms(6) [OF mem]] c by (simp add: lane_local_def lane_addr_def)
  then show "ld_local_lane ms u l w' = (write_reg_lane (u_outputs u ! 0) w' l
      (unpack_le (read_sparse (ms_local ms) (local_addr u w l) (access_size u))), None)"
    by (simp add: ld_local_lane_def Let_def lane_addr_def [symmetric] local_addr_def access_size_def
        local_effective_addr_context [OF c] write_reg_lane64_eq)
qed (rule assms(6))

lemma lane_written_cong:
  "(\<And>l. l \<in> ls \<Longrightarrow> v l = v' l) \<Longrightarrow> lane_written u ls v w w' \<longleftrightarrow> lane_written u ls v' w w'"
  unfolding lane_written_def by (simp cong: conj_cong if_cong)

text \<open>A load of the local space whose operands the model can address.\<close>

definition local_load :: "micro_op \<Rightarrow> warp_state \<Rightarrow> bool" where
  "local_load u w \<longleftrightarrow> mem_access u Ld Local \<and> o_kind (u_outputs u ! 0) = KReg \<and> reg_ok (u_outputs u ! 0) \<and>
     o_reg_id (u_inputs u ! 0) < 2 ^ 58 \<and> width_ok w \<and> \<not> w_done w"

lemma local_load_step:
  assumes "local_load ld w"
  shows "\<exists>w'. mem_step ms ld w obs = (ms, w', obs_counter ''uop.mem.ld.local'' obs, step_ok) \<and> same_context w w' \<and>
    lane_written ld (set (active_lanes (exec_mask_of w ld)))
      (\<lambda>l. unpack_le (read_sparse (ms_local ms) (local_addr ld w l) (access_size ld))) w w'"
proof -
  from assms obtain w' where "loop_e (ld_local_lane ms ld) (active_lanes (exec_mask_of w ld)) w = (w', None)"
    "same_context w w'" "lane_written ld (set (active_lanes (exec_mask_of w ld)))
      (\<lambda>l. unpack_le (read_sparse (ms_local ms) (local_addr ld w l) (access_size ld))) w w'"
    using ld_local_loop [of w ld "active_lanes (exec_mask_of w ld)" ms] active_lane_bound
    by (auto simp: local_load_def)
  then show ?thesis
    using assms by (auto simp: local_load_def mem_access_def mem_step_def mem_ld_def mem_ld_local_def mem_finish_def)
qed

text \<open>
  C23.  Local memory is private.  A \<open>st.local\<close> of a warp succeeds whenever its operands can be
  read.  If its active lanes are threads of the launch and stay inside their windows of 4096
  bytes, then a \<open>ld.local\<close> of the same operand by the same lanes reads the stored values back;
  and for any warp of the launch, a \<open>ld.local\<close> after the store leaves in the registers of every
  thread that is not one of the storing ones, and stays inside its window, exactly what the same
  load before the store would have left there.  (Outside its window a thread does reach the
  memory of another one: the code does not check the offset.)
\<close>

theorem local_memory_private:
  assumes "mem_access st St Local" and "width_ok w" and "\<not> w_done w" and "launch_threads (w_launch w) \<le> 2 ^ 52"
    and "\<And>l. l \<in> set (active_lanes (exec_mask_of w st)) \<Longrightarrow>
           in_window st w l \<and> read_operand_lane (u_inputs st ! 1) w l = Some (v l)"
  shows "\<exists>ms1 obs1. mem_step ms st w obs = (ms1, w, obs1, step_ok) \<and>
    (\<forall>ld. local_load ld w \<and> u_inputs ld ! 0 = u_inputs st ! 0 \<and> a_type (u_attrs ld) = a_type (u_attrs st) \<and>
        u_guard ld = u_guard st \<longrightarrow>
      (\<exists>w' obs'. mem_step ms1 ld w obs1 = (ms1, w', obs', step_ok) \<and> same_context w w' \<and>
        lane_written ld (set (active_lanes (exec_mask_of w st)))
          (\<lambda>l. take_bit (8 * unat (access_size st)) (v l)) w w')) \<and>
    (\<forall>ld w2 obs2. local_load ld w2 \<and> w_launch w2 = w_launch w \<longrightarrow>
      (\<exists>before after obs'. mem_step ms ld w2 obs2 = (ms, before, obs', step_ok) \<and>
        mem_step ms1 ld w2 obs2 = (ms1, after, obs', step_ok) \<and>
        (\<forall>k < unat (lm_width (w_active w2)). in_window ld w2 k \<and>
            (\<forall>l \<in> set (active_lanes (exec_mask_of w st)). \<not> same_thread w l w2 k) \<longrightarrow>
          same_lane before after k)))"
proof -
  let ?ls = "active_lanes (exec_mask_of w st)"
  have apart: "addr_range (local_addr st w l) (unat (access_size st)) \<inter>
      addr_range (local_addr st w k) (unat (access_size st)) = {}" if "l \<in> set ?ls" "k \<in> set ?ls" "l \<noteq> k" for l k
    using assms(4,5) that by (intro local_access_disjoint) (simp_all add: same_thread_def)
  obtain ms1 where loop: "loop_e (st_local_lane st w) ?ls ms = (ms1, None)"
    and rd: "\<forall>l \<in> set ?ls. read_sparse (ms_local ms1) (local_addr st w l) (access_size st) =
        pack_le (v l) (unat (access_size st))"
    and fr: "\<And>a n. (\<forall>l \<in> set ?ls. addr_range (local_addr st w l) (unat (access_size st)) \<inter> addr_range a (unat n) = {})
       \<Longrightarrow> read_sparse (ms_local ms1) a n = read_sparse (ms_local ms) a n"
    using st_local_loop [of ?ls st w v ms] assms(5) apart by auto
  have step: "mem_step ms st w obs = (ms1, w, obs_counter ''uop.mem.st.local'' obs, step_ok)"
    using assms(1,3) loop by (simp add: mem_step_def mem_st_def mem_st_local_def mem_access_def mem_finish_def)
  have readback: "\<exists>w' obs'. mem_step ms1 ld w obs1 = (ms1, w', obs', step_ok) \<and> same_context w w' \<and>
        lane_written ld (set ?ls) (\<lambda>l. take_bit (8 * unat (access_size st)) (v l)) w w'"
    if ld: "local_load ld w" "u_inputs ld ! 0 = u_inputs st ! 0" "a_type (u_attrs ld) = a_type (u_attrs st)"
      "u_guard ld = u_guard st" for ld obs1
  proof -
    have same: "exec_mask_of w ld = exec_mask_of w st" "local_addr ld w = local_addr st w" "access_size ld = access_size st"
      using ld by (auto simp: exec_mask_of_def local_addr_def lane_addr_def access_size_def)
    obtain w' where w': "mem_step ms1 ld w obs1 = (ms1, w', obs_counter ''uop.mem.ld.local'' obs1, step_ok)" "same_context w w'"
      "lane_written ld (set ?ls) (\<lambda>l. unpack_le (read_sparse (ms_local ms1) (local_addr st w l) (access_size st))) w w'"
      using local_load_step [OF ld(1), of ms1 obs1] by (auto simp: same)
    have "unat (access_size st) \<le> 8" using access_size_48 [of st] by auto
    then have "lane_written ld (set ?ls) (\<lambda>l. take_bit (8 * unat (access_size st)) (v l)) w w'"
      using w'(3) rd by (subst lane_written_cong) (simp_all add: unpack_pack_le)
    then show ?thesis using w'(1,2) by blast
  qed
  have others: "\<exists>before after obs'. mem_step ms ld w2 obs2 = (ms, before, obs', step_ok) \<and>
        mem_step ms1 ld w2 obs2 = (ms1, after, obs', step_ok) \<and>
        (\<forall>k < unat (lm_width (w_active w2)). in_window ld w2 k \<and> (\<forall>l \<in> set ?ls. \<not> same_thread w l w2 k) \<longrightarrow>
          same_lane before after k)"
    if ld: "local_load ld w2" "w_launch w2 = w_launch w" for ld w2 obs2
  proof -
    have kept: "read_sparse (ms_local ms1) (local_addr ld w2 k) (access_size ld) =
        read_sparse (ms_local ms) (local_addr ld w2 k) (access_size ld)"
      if "in_window ld w2 k" "\<forall>l \<in> set ?ls. \<not> same_thread w l w2 k" for k
      using assms(4,5) that ld(2) by (intro fr ballI local_access_disjoint) auto
    from local_load_step [OF ld(1), of ms obs2] local_load_step [OF ld(1), of ms1 obs2] kept show ?thesis
      by (fastforce simp: lane_written_def same_lane_def Let_def)
  qed
  show ?thesis using step readback others by blast
qed

text \<open>
  Four lanes store their \<open>r0\<close> at offset 8 of their local memory and load it back; in another
  warp of the launch, with the threads behind them, a load at that offset finds zeros.
\<close>

definition demo_local_warp :: "u32 \<Rightarrow> warp_state" where
  "demo_local_warp base = demo_warp\<lparr>w_launch := \<lparr>grid_dim = \<lparr>dim_x = 1, dim_y = 1, dim_z = 1\<rparr>,
     block_dim = \<lparr>dim_x = 8, dim_y = 1, dim_z = 1\<rparr>, launch_warp_size = 4\<rparr>, w_lane_base := base,
     w_r64 := [8, 8, 8, 8]\<rparr>"

lemma demo_local_active: "active_lanes (exec_mask_of (demo_local_warp b) (mem_uop op sp ins outs)) = [0, 1, 2, 3]"
  using demo_active [of Mov U32 "[]" "[]" "imm32 0"]
  by (simp add: exec_mask_of_def demo_local_warp_def mem_uop_def exec_uop_def)

lemma local_memory_private_witness:
  "\<exists>ms1 obs1 w' obs'. mem_step demo_mem (mem_uop St Local [demo_addr, reg32 0] []) (demo_local_warp 0) demo_obs
      = (ms1, demo_local_warp 0, obs1, step_ok) \<and>
    mem_step ms1 (mem_uop Ld Local [demo_addr] [reg32 1]) (demo_local_warp 0) obs1 = (ms1, w', obs', step_ok) \<and>
    lane_written (mem_uop Ld Local [demo_addr] [reg32 1]) {0, 1, 2, 3} (\<lambda>l. take_bit 32 ([10, 20, 30, 40] ! l))
      (demo_local_warp 0) w' \<and>
    (\<exists>before after obs3. mem_step demo_mem (mem_uop Ld Local [demo_addr] [reg32 1]) (demo_local_warp 4) demo_obs
        = (demo_mem, before, obs3, step_ok) \<and>
      mem_step ms1 (mem_uop Ld Local [demo_addr] [reg32 1]) (demo_local_warp 4) demo_obs = (ms1, after, obs3, step_ok) \<and>
      same_lane before after 2)"
proof -
  let ?st = "mem_uop St Local [demo_addr, reg32 0] []" and ?ld = "mem_uop Ld Local [demo_addr] [reg32 1]"
  have st: "mem_access ?st St Local" "width_ok (demo_local_warp 0)" "\<not> w_done (demo_local_warp 0)"
    "launch_threads (w_launch (demo_local_warp 0)) \<le> 2 ^ 52"
    by (simp_all add: mem_access_def mem_uop_def demo_addr_def operand_default_def demo_local_warp_def demo_warp_def
        width_ok_def lane_mask_all_def launch_threads_def)
  have ld: "local_load ?ld (demo_local_warp b)" for b
    by (simp add: local_load_def mem_access_def mem_uop_def demo_addr_def reg32_def operand_default_def reg_ok_def
        reg_no_def demo_local_warp_def demo_warp_def width_ok_def lane_mask_all_def)
  have wins: "list_all (in_window ?st (demo_local_warp 0)) [0, 1, 2, 3]" "in_window ?ld (demo_local_warp 4) 2"
    by code_simp+
  have vals: "map (read_operand_lane (u_inputs ?st ! 1) (demo_local_warp 0)) [0, 1, 2, 3] = map Some [10, 20, 30, 40]"
    by code_simp
  have pre: "in_window ?st (demo_local_warp 0) l \<and>
      read_operand_lane (u_inputs ?st ! 1) (demo_local_warp 0) l = Some ([10, 20, 30, 40] ! l)" if "l \<in> {0, 1, 2, 3}" for l
    using wins(1) vals that by auto
  have size: "access_size ?st = 4" by (simp add: access_size_def mem_uop_def)
  have other: "\<not> same_thread (demo_local_warp 0) l (demo_local_warp 4) 2" if "l \<in> {0, 1, 2, 3}" for l
    using that by (auto simp: same_thread_def demo_local_warp_def)
  have launch: "w_launch (demo_local_warp 4) = w_launch (demo_local_warp 0)"
    "unat (lm_width (w_active (demo_local_warp 4))) = 4"
    by (simp_all add: demo_local_warp_def demo_warp_def lane_mask_all_def)
  obtain ms1 obs1 where one: "mem_step demo_mem ?st (demo_local_warp 0) demo_obs = (ms1, demo_local_warp 0, obs1, step_ok)"
    and readback: "\<And>ld. local_load ld (demo_local_warp 0) \<and> u_inputs ld ! 0 = u_inputs ?st ! 0 \<and>
        a_type (u_attrs ld) = a_type (u_attrs ?st) \<and> u_guard ld = u_guard ?st \<Longrightarrow>
      \<exists>w' obs'. mem_step ms1 ld (demo_local_warp 0) obs1 = (ms1, w', obs', step_ok) \<and> same_context (demo_local_warp 0) w' \<and>
        lane_written ld {0, 1, 2, 3} (\<lambda>l. take_bit 32 ([10, 20, 30, 40] ! l)) (demo_local_warp 0) w'"
    and far: "\<And>ld w2 obs2. local_load ld w2 \<and> w_launch w2 = w_launch (demo_local_warp 0) \<Longrightarrow>
      \<exists>before after obs'. mem_step demo_mem ld w2 obs2 = (demo_mem, before, obs', step_ok) \<and>
        mem_step ms1 ld w2 obs2 = (ms1, after, obs', step_ok) \<and>
        (\<forall>k < unat (lm_width (w_active w2)). in_window ld w2 k \<and>
          (\<forall>l \<in> {0, 1, 2, 3}. \<not> same_thread (demo_local_warp 0) l w2 k) \<longrightarrow> same_lane before after k)"
    using local_memory_private [OF st, of "\<lambda>l. [10, 20, 30, 40] ! l" demo_mem demo_obs] pre
    unfolding demo_local_active size by auto
  have "u_inputs ?ld ! 0 = u_inputs ?st ! 0 \<and> a_type (u_attrs ?ld) = a_type (u_attrs ?st) \<and> u_guard ?ld = u_guard ?st"
    by (simp add: mem_uop_def)
  from readback [of ?ld] this ld [of 0] obtain w' obs' where two: "mem_step ms1 ?ld (demo_local_warp 0) obs1 = (ms1, w', obs', step_ok)"
    "lane_written ?ld {0, 1, 2, 3} (\<lambda>l. take_bit 32 ([10, 20, 30, 40] ! l)) (demo_local_warp 0) w'" by blast
  from far [of ?ld "demo_local_warp 4" demo_obs] ld [of 4] launch(1) obtain before after obs3 where
    three: "mem_step demo_mem ?ld (demo_local_warp 4) demo_obs = (demo_mem, before, obs3, step_ok)"
      "mem_step ms1 ?ld (demo_local_warp 4) demo_obs = (ms1, after, obs3, step_ok)"
    and lanes: "\<forall>k < unat (lm_width (w_active (demo_local_warp 4))). in_window ?ld (demo_local_warp 4) k \<and>
          (\<forall>l \<in> {0, 1, 2, 3}. \<not> same_thread (demo_local_warp 0) l (demo_local_warp 4) k) \<longrightarrow> same_lane before after k" by blast
  have "same_lane before after 2" using lanes wins(2) other unfolding launch(2) by simp
  then show ?thesis using one two three by blast
qed

end
