(* ===== verification/ControlUnit.thy ===== *)
theory ControlUnit
  imports ExecCore
begin

text \<open>The control unit, \<open>ControlUnit::step\<close> (\<open>src/units/control_unit.cpp\<close>).\<close>

definition ctrl_error :: "string \<Rightarrow> string \<Rightarrow> diagnostic" where
  "ctrl_error code msg = mk_diag ''units.ctrl'' code msg"

definition ctrl_step :: "micro_op \<Rightarrow> warp_state \<Rightarrow> obs_control \<Rightarrow> unit_result" where
  "ctrl_step u w obs =
     (if w_done w then (w, obs, step_result_default\<lparr>r_warp_done := True\<rparr>)
      else if lm_bits (exec_mask_of w u) = 0 then (w, obs, step_ok)
      else case u_op u of
          Bra \<Rightarrow>
            if length (u_inputs u) \<noteq> 1
            then (w, obs, step_error (ctrl_error ''E_UOP_ARITY'' ''BRA expects 1 input (pc)''))
            else if o_kind (u_inputs u ! 0) \<noteq> KImm
            then (w, obs, step_error (ctrl_error ''E_OPERAND_KIND'' ''BRA expects imm(pc) operand''))
            else (w, obs_counter ''uop.ctrl.bra'' obs,
                  step_ok\<lparr>r_next_pc := Some (o_imm (u_inputs u ! 0))\<rparr>)
        | Ret \<Rightarrow> (w\<lparr>w_done := True\<rparr>, obs_counter ''uop.ctrl.ret'' obs,
                 step_ok\<lparr>r_warp_done := True\<rparr>)
        | _ \<Rightarrow> (w, obs, step_error (ctrl_error ''E_UOP_UNSUPPORTED'' ''unsupported ctrl uop'')))"

lemma step_ok_upd_diag [simp]:
  "r_diag (step_ok\<lparr>r_next_pc := x\<rparr>) = None" "r_diag (step_ok\<lparr>r_warp_done := y\<rparr>) = None"
  "r_next_pc (step_ok\<lparr>r_warp_done := y\<rparr>) = None"
  by (simp_all add: step_ok_def step_result_default_def)

text \<open>A branch never touches the warp; the executor acts on the target it reports.\<close>

lemma ctrl_step_warp: "u_op u \<noteq> Ret \<Longrightarrow> fst (ctrl_step u w obs) = w"
  by (cases "u_op u") (simp_all add: ctrl_step_def)

lemma ctrl_step_next_pc:
  assumes "r_next_pc (snd (snd (ctrl_step u w obs))) = Some pc"
  shows "u_op u = Bra \<and> u_inputs u = [u_inputs u ! 0] \<and> o_kind (u_inputs u ! 0) = KImm \<and>
    pc = o_imm (u_inputs u ! 0) \<and> lm_bits (exec_mask_of w u) \<noteq> 0"
  using assms list_length_one [of "u_inputs u"]
  by (cases "u_op u") (auto simp: ctrl_step_def step_result_default_def split: if_splits)

end
