(* ===== verification/Instruction.thy ===== *)
theory Instruction
  imports Contracts Json
begin

text \<open>
  Instruction descriptors (\<open>include/gpusim/instruction_desc.h\<close>): the registry that maps an
  instruction to its micro-operation templates (\<open>src/instruction/descriptor_registry.cpp\<close>) and
  the expansion of a template to micro-operations (\<open>src/instruction/expander.cpp\<close>); also the
  kernel image of \<open>include/gpusim/frontend.h\<close>.  Reading the file is left out; the registry is
  built from the JSON value.  The \<open>int\<close> conversion of a template index is a parameter, as the
  JSON numbers are.
\<close>

record uop_template =
  t_kind :: micro_op_kind
  t_op :: micro_op_op
  t_in :: "int list"
  t_out :: "int list"

record inst_desc =
  d_opcode :: string
  d_type_mod :: string
  d_operand_kinds :: "string list"
  d_uops :: "uop_template list"

type_synonym descriptor_registry = "inst_desc list"

section \<open>Names\<close>

definition parse_uop_op :: "string \<Rightarrow> micro_op_op option" where
  "parse_uop_op s =
     (if s = ''MOV'' then Some Mov
      else if s = ''CVT'' then Some Cvt
      else if s = ''ADD'' then Some Add
      else if s = ''MUL'' then Some Mul
      else if s = ''SHL'' then Some Shl
      else if s = ''SHFL'' then Some Shfl
      else if s = ''FMA'' then Some Fma
      else if s = ''WARP_REDUCE_ADD'' then Some WarpReduceAdd
      else if s = ''SETP'' then Some Setp
      else if s = ''LD'' then Some Ld
      else if s = ''ST'' then Some St
      else if s = ''BRA'' then Some Bra
      else if s = ''RET'' then Some Ret
      else None)"

definition parse_uop_kind :: "string \<Rightarrow> micro_op_kind option" where
  "parse_uop_kind s =
     (if s = ''EXEC'' then Some Exec
      else if s = ''CTRL'' then Some Control
      else if s = ''MEM'' then Some Mem
      else None)"

fun operand_kind_to_string :: "operand_kind \<Rightarrow> string" where
  "operand_kind_to_string KReg = ''reg''"
| "operand_kind_to_string KPred = ''pred''"
| "operand_kind_to_string KImm = ''imm''"
| "operand_kind_to_string KAddr = ''addr''"
| "operand_kind_to_string KSymbol = ''symbol''"
| "operand_kind_to_string KSpecial = ''special''"

lemma operand_kind_to_string_inj: "operand_kind_to_string a = operand_kind_to_string b \<longleftrightarrow> a = b"
  by (cases a; cases b) simp_all

section \<open>Loading\<close>

definition unknown_key :: "string list \<Rightarrow> string \<Rightarrow> string \<Rightarrow> json_exn" where
  "unknown_key allowed key place =
     RuntimeError (''DescriptorRegistry: unknown key '' @ [CHR 0x27] @ key @ [CHR 0x27] @ '' at '' @ place)"

text \<open>The message also lists the allowed keys, in the order of a hash set; that tail is left out.\<close>

fun validate_known_keys :: "(string \<times> 'v) list \<Rightarrow> string list \<Rightarrow> string \<Rightarrow> json_exn + unit" where
  "validate_known_keys [] allowed place = Inr ()"
| "validate_known_keys ((k, v) # kvs) allowed place =
     (if k \<in> set allowed then validate_known_keys kvs allowed place
      else Inl (unknown_key allowed k place))"

definition idx_name :: "string \<Rightarrow> nat \<Rightarrow> string" where
  "idx_name s i = s @ ''['' @ dec_string i @ '']''"

definition load_indices :: "('n \<Rightarrow> int) \<Rightarrow> 'n json \<Rightarrow> json_exn + int list" where
  "load_indices to_int v =
     e_bind (as_array v) (map_e (\<lambda>x. e_bind (as_number x) (\<lambda>n. Inr (to_int n))))"

definition load_uop ::
  "('n \<Rightarrow> int) \<Rightarrow> bool \<Rightarrow> string \<Rightarrow> 'n json \<Rightarrow> json_exn + uop_template" where
  "load_uop to_int strict place uv =
     e_bind (as_object uv) (\<lambda>uo.
     e_bind (if strict then validate_known_keys uo [''kind'', ''op'', ''in'', ''out''] place else Inr ()) (\<lambda>_.
     e_bind (prefix_error place
       (e_bind (obj_at uo ''kind'') (\<lambda>kv. e_bind (as_string kv) (\<lambda>ks.
        e_bind (of_option (RuntimeError (''DescriptorRegistry: unknown uop kind: '' @ ks)) (parse_uop_kind ks)) (\<lambda>k.
        e_bind (obj_at uo ''op'') (\<lambda>ov. e_bind (as_string ov) (\<lambda>os.
        e_bind (of_option (RuntimeError (''DescriptorRegistry: unknown uop op: '' @ os)) (parse_uop_op os)) (\<lambda>op.
        Inr (k, op))))))))) (\<lambda>(k, op).
     e_bind (e_bind (obj_at uo ''in'') (load_indices to_int)) (\<lambda>ins.
     e_bind (e_bind (obj_at uo ''out'') (load_indices to_int)) (\<lambda>outs.
     Inr \<lparr>t_kind = k, t_op = op, t_in = ins, t_out = outs\<rparr>)))))"

definition load_inst :: "('n \<Rightarrow> int) \<Rightarrow> bool \<Rightarrow> nat \<Rightarrow> 'n json \<Rightarrow> json_exn + inst_desc" where
  "load_inst to_int strict inst_idx iv =
     e_bind (as_object iv) (\<lambda>io.
     e_bind (if strict then validate_known_keys io [''opcode'', ''type_mod'', ''operand_kinds'', ''uops'']
                              (idx_name ''insts'' inst_idx) else Inr ()) (\<lambda>_.
     e_bind (e_bind (obj_at io ''opcode'') as_string) (\<lambda>opcode.
     e_bind (e_bind (obj_at io ''type_mod'') as_string) (\<lambda>type_mod.
     e_bind (e_bind (e_bind (obj_at io ''operand_kinds'') as_array) (map_e as_string)) (\<lambda>kinds.
     e_bind (e_bind (obj_at io ''uops'') as_array) (\<lambda>uops.
     e_bind (map_e (\<lambda>(uop_idx, uv).
         load_uop to_int strict (idx_name (idx_name ''insts'' inst_idx @ ''.uops'') uop_idx) uv)
         (enumerate 0 uops)) (\<lambda>ts.
     Inr \<lparr>d_opcode = opcode, d_type_mod = type_mod, d_operand_kinds = kinds, d_uops = ts\<rparr>)))))))"

definition load_registry :: "('n \<Rightarrow> int) \<Rightarrow> bool \<Rightarrow> 'n json \<Rightarrow> json_exn + descriptor_registry" where
  "load_registry to_int strict root =
     e_bind (as_object root) (\<lambda>obj.
     e_bind (if strict then validate_known_keys obj [''insts''] ''root'' else Inr ()) (\<lambda>_.
     e_bind (e_bind (obj_at obj ''insts'') as_array) (\<lambda>insts.
     map_e (\<lambda>(i, iv). load_inst to_int strict i iv) (enumerate 0 insts))))"

section \<open>Lookup and expansion\<close>

definition inst_operand_kinds :: "inst_record \<Rightarrow> string list" where
  "inst_operand_kinds i = map (\<lambda>opr. operand_kind_to_string (o_kind opr)) (i_operands i)"

definition desc_matches :: "inst_record \<Rightarrow> inst_desc \<Rightarrow> bool" where
  "desc_matches i d \<longleftrightarrow> d_opcode d = i_opcode i \<and>
     (d_type_mod d = [] \<or> d_type_mod d = m_type_mod (i_mods i)) \<and>
     d_operand_kinds d = inst_operand_kinds i"

fun lookup_desc :: "descriptor_registry \<Rightarrow> inst_record \<Rightarrow> inst_desc option" where
  "lookup_desc [] i = None"
| "lookup_desc (d # ds) i =
     (if d_opcode d \<noteq> i_opcode i then lookup_desc ds i
      else if d_type_mod d \<noteq> [] \<and> d_type_mod d \<noteq> m_type_mod (i_mods i) then lookup_desc ds i
      else if d_operand_kinds d \<noteq> inst_operand_kinds i then lookup_desc ds i
      else Some d)"

definition parse_space :: "string \<Rightarrow> addr_space" where
  "parse_space s =
     (if s = ''global'' then Global
      else if s = ''shared'' then Shared
      else if s = ''local'' then Local
      else if s = ''const'' then Const
      else if s = ''param'' then Param
      else Global)"

definition pick_operands :: "operand list \<Rightarrow> int list \<Rightarrow> operand list" where
  "pick_operands ops idxs =
     map (\<lambda>idx. ops ! nat idx) (filter (\<lambda>idx. \<not> (idx < 0 \<or> nat idx \<ge> length ops)) idxs)"

definition expand_uop :: "inst_record \<Rightarrow> u32 \<Rightarrow> uop_template \<Rightarrow> micro_op" where
  "expand_uop i warp_size t =
     \<lparr>u_kind = t_kind t, u_op = t_op t,
      u_inputs = pick_operands (i_operands i) (t_in t),
      u_outputs = pick_operands (i_operands i) (t_out t),
      u_attrs = \<lparr>a_type = parse_value_type (m_type_mod (i_mods i)),
                 a_space = parse_space (m_space (i_mods i)), a_flags = m_flags (i_mods i)\<rparr>,
      u_guard = lane_mask_all warp_size\<rparr>"

definition expand :: "inst_record \<Rightarrow> inst_desc \<Rightarrow> u32 \<Rightarrow> micro_op list" where
  "expand i d warp_size = map (expand_uop i warp_size) (d_uops d)"

section \<open>Facts\<close>

text \<open>The first descriptor that matches is returned; none is returned only when none matches.\<close>

lemma lookup_desc_find: "lookup_desc ds i = find (desc_matches i) ds"
  by (induction ds) (auto simp: desc_matches_def)

lemma lookup_desc_Some: "lookup_desc ds i = Some d \<Longrightarrow> d \<in> set ds \<and> desc_matches i d"
  by (auto simp: lookup_desc_find find_Some_iff)

lemma lookup_desc_None: "lookup_desc ds i = None \<longleftrightarrow> (\<forall>d \<in> set ds. \<not> desc_matches i d)"
  by (auto simp: lookup_desc_find find_None_iff)

lemma pick_operands_subset: "set (pick_operands ops idxs) \<subseteq> set ops"
  by (auto simp: pick_operands_def)

lemma expand_guard: "u \<in> set (expand i d ws) \<Longrightarrow> u_guard u = lane_mask_all ws"
  by (auto simp: expand_def expand_uop_def)

lemma expand_operands:
  "u \<in> set (expand i d ws) \<Longrightarrow> set (u_inputs u) \<union> set (u_outputs u) \<subseteq> set (i_operands i)"
  using pick_operands_subset by (fastforce simp: expand_def expand_uop_def)

end
