(* ===== verification/WarpSched.thy ===== *)
theory WarpSched
  imports Contracts
begin

text \<open>
  The two warp schedulers (\<open>src/simt/warp_scheduler.cpp\<close>) behind the interface \<open>IWarpScheduler\<close>
  (\<open>include/gpusim/simt_scheduler.h\<close>): which warp of a CTA issues next.  A scheduler is its
  one \<open>uint32_t\<close> of state; \<open>done\<close> is the callback the executor passes.
\<close>

section \<open>The schedulers\<close>

text \<open>The lane-by-lane scans are \<open>find\<close> over the indices in the order of the C++ loops.\<close>

definition in_order_start :: "u32 \<Rightarrow> u32" where
  "in_order_start warp_count = 0"

definition in_order_pick :: "u32 \<Rightarrow> (u32 \<Rightarrow> bool) \<Rightarrow> u32 \<Rightarrow> u32 \<times> u32 option" where
  "in_order_pick warp_count is_done current =
     (if warp_count = 0 then (current, None)
      else if current < warp_count \<and> \<not> is_done current then (current, Some current)
      else case find (\<lambda>i. \<not> is_done (of_nat i)) [unat current..<unat warp_count] of
             None \<Rightarrow> (current, None)
           | Some i \<Rightarrow> (of_nat i, Some (of_nat i)))"

definition round_robin_start :: "u32 \<Rightarrow> u32" where
  "round_robin_start warp_count = 0"

definition round_robin_pick :: "u32 \<Rightarrow> (u32 \<Rightarrow> bool) \<Rightarrow> u32 \<Rightarrow> u32 \<times> u32 option" where
  "round_robin_pick warp_count is_done nxt =
     (if warp_count = 0 then (nxt, None)
      else case find (\<lambda>k. \<not> is_done ((nxt + of_nat k) mod warp_count)) [0..<unat warp_count] of
             None \<Rightarrow> (nxt, None)
           | Some k \<Rightarrow>
               let idx = (nxt + of_nat k) mod warp_count
               in ((idx + 1) mod warp_count, Some idx))"

datatype warp_sched_kind = InOrderRunToCompletion | RoundRobinInterleaveStep

definition create_warp_scheduler :: "string \<Rightarrow> warp_sched_kind option" where
  "create_warp_scheduler name =
     (if name = ''in_order_run_to_completion'' then Some InOrderRunToCompletion
      else if name = ''round_robin_interleave_step'' then Some RoundRobinInterleaveStep
      else None)"

fun sched_start :: "warp_sched_kind \<Rightarrow> u32 \<Rightarrow> u32" where
  "sched_start InOrderRunToCompletion n = in_order_start n"
| "sched_start RoundRobinInterleaveStep n = round_robin_start n"

fun pick_next :: "warp_sched_kind \<Rightarrow> u32 \<Rightarrow> (u32 \<Rightarrow> bool) \<Rightarrow> u32 \<Rightarrow> u32 \<times> u32 option" where
  "pick_next InOrderRunToCompletion = in_order_pick"
| "pick_next RoundRobinInterleaveStep = round_robin_pick"

section \<open>The interface\<close>

text \<open>
  What the executor relies on, for warp counts that are \<open>ok\<close>.  \<open>inv\<close> is the scheduler's own invariant; it may mention which
  warps are done, and a warp that is done stays done.  A pick is a live warp of the CTA, and
  no pick means that every warp is done.
\<close>

locale warp_scheduler =
  fixes ok :: "u32 \<Rightarrow> bool"
    and start :: "u32 \<Rightarrow> 's"
    and pick :: "u32 \<Rightarrow> (u32 \<Rightarrow> bool) \<Rightarrow> 's \<Rightarrow> 's \<times> u32 option"
    and inv :: "u32 \<Rightarrow> (u32 \<Rightarrow> bool) \<Rightarrow> 's \<Rightarrow> bool"
  assumes start_inv: "ok n \<Longrightarrow> inv n d (start n)"
    and pick_inv: "inv n d s \<Longrightarrow> inv n d (fst (pick n d s))"
    and inv_mono: "inv n d s \<Longrightarrow> (\<And>w. d w \<Longrightarrow> d' w) \<Longrightarrow> inv n d' s"
    and pick_live: "inv n d s \<Longrightarrow> snd (pick n d s) = Some w \<Longrightarrow> w < n \<and> \<not> d w"
    and pick_none: "inv n d s \<Longrightarrow> snd (pick n d s) = None \<Longrightarrow> w < n \<Longrightarrow> d w"
begin

lemma picks_iff: "inv n d s \<Longrightarrow> snd (pick n d s) = None \<longleftrightarrow> (\<forall>w < n. d w)"
  using pick_live pick_none by (metis not_None_eq)

text \<open>A run that finishes every warp it picks ends with every warp done.\<close>

lemma inv_after_step:
  assumes "inv n d s" and "pick n d s = (s', Some w)" and "\<And>v. d v \<Longrightarrow> d' v"
  shows "inv n d' s'"
  using pick_inv [OF assms(1)] inv_mono assms(2,3) by (metis fst_conv)

lemma picked_is_live: "inv n d s \<Longrightarrow> pick n d s = (s', Some w) \<Longrightarrow> w < n \<and> \<not> d w"
  using pick_live by (metis snd_conv)

lemma stopped_is_done: "inv n d s \<Longrightarrow> pick n d s = (s', None) \<Longrightarrow> \<forall>w < n. d w"
  using pick_none by (metis snd_conv)

end

section \<open>Both schedulers meet it\<close>

definition in_order_inv :: "u32 \<Rightarrow> (u32 \<Rightarrow> bool) \<Rightarrow> u32 \<Rightarrow> bool" where
  "in_order_inv n d s \<longleftrightarrow> (\<forall>w < n. w < s \<longrightarrow> d w)"

definition round_robin_inv :: "u32 \<Rightarrow> (u32 \<Rightarrow> bool) \<Rightarrow> u32 \<Rightarrow> bool" where
  "round_robin_inv n d s \<longleftrightarrow> n \<le> 0x80000000 \<and> (n = 0 \<or> s < n)"

lemma find_upt_Some:
  "find P [a..<b] = Some i \<longleftrightarrow> a \<le> i \<and> i < b \<and> P i \<and> (\<forall>j. a \<le> j \<and> j < i \<longrightarrow> \<not> P j)"
proof -
  have "find P [a..<b] = Some i \<longleftrightarrow>
      (\<exists>k < b - a. P (a + k) \<and> i = a + k \<and> (\<forall>j < k. \<not> P (a + j)))"
    by (auto simp: find_Some_iff)
  also have "\<dots> \<longleftrightarrow> a \<le> i \<and> i < b \<and> P i \<and> (\<forall>j. a \<le> j \<and> j < i \<longrightarrow> \<not> P j)"
  proof
    assume "\<exists>k < b - a. P (a + k) \<and> i = a + k \<and> (\<forall>j < k. \<not> P (a + j))"
    then obtain k where k: "k < b - a" "P (a + k)" "i = a + k" "\<forall>j < k. \<not> P (a + j)" by blast
    have "\<not> P j" if "a \<le> j" "j < i" for j
      using k(4) [rule_format, of "j - a"] that k(3) by simp
    with k show "a \<le> i \<and> i < b \<and> P i \<and> (\<forall>j. a \<le> j \<and> j < i \<longrightarrow> \<not> P j)" by simp
  next
    assume "a \<le> i \<and> i < b \<and> P i \<and> (\<forall>j. a \<le> j \<and> j < i \<longrightarrow> \<not> P j)"
    then show "\<exists>k < b - a. P (a + k) \<and> i = a + k \<and> (\<forall>j < k. \<not> P (a + j))"
      by (intro exI [of _ "i - a"]) auto
  qed
  finally show ?thesis .
qed

lemma find_upt_None: "find P [a..<b] = None \<longleftrightarrow> (\<forall>i. a \<le> i \<and> i < b \<longrightarrow> \<not> P i)"
  by (auto simp: find_None_iff)

lemma of_nat_unat_less: "i < unat (n :: u32) \<Longrightarrow> unat (of_nat i :: u32) = i"
  using unat_u32_less [of n] by (intro unat_of_nat_u32) simp

lemma in_order_cases:
  assumes "in_order_inv n d s" and "in_order_pick n d s = (s', r)"
  shows "(r = None \<and> s' = s \<and> (\<forall>w < n. d w)) \<or>
    (\<exists>w. r = Some w \<and> s' = w \<and> w < n \<and> \<not> d w \<and> (\<forall>v < n. v < w \<longrightarrow> d v))"
proof (cases "n = 0 \<or> s < n \<and> \<not> d s")
  case True
  then show ?thesis using assms by (auto simp: in_order_pick_def in_order_inv_def split: if_splits)
next
  case False
  have below: "d v" if "unat v < unat s" "v < n" for v
    using assms(1) that by (simp add: in_order_inv_def word_less_nat_alt)
  show ?thesis
  proof (cases "find (\<lambda>i. \<not> d (of_nat i)) [unat s..<unat n]")
    case None
    have "d w" if "w < n" for w
    proof (cases "unat w < unat s")
      case False
      moreover have "d (of_nat (unat w))" if "unat s \<le> unat w"
        using None that \<open>w < n\<close> unfolding find_upt_None word_less_nat_alt by blast
      ultimately show ?thesis by simp
    qed (use below that in blast)
    moreover have "in_order_pick n d s = (s, None)" using False None by (auto simp: in_order_pick_def)
    ultimately show ?thesis using assms(2) by simp
  next
    case (Some i)
    then have i: "unat s \<le> i" "i < unat n" "\<not> d (of_nat i)"
      and min: "\<And>j. unat s \<le> j \<Longrightarrow> j < i \<Longrightarrow> d (of_nat j)" unfolding find_upt_Some by auto
    have ui: "unat (of_nat i :: u32) = i" by (rule of_nat_unat_less [OF i(2)])
    have "d v" if "v < n" "v < of_nat i" for v
    proof (cases "unat v < unat s")
      case False
      then have "d (of_nat (unat v))"
        using min [of "unat v"] that(2) ui by (simp add: word_less_nat_alt)
      then show ?thesis by simp
    qed (use below that in blast)
    moreover have "(of_nat i :: u32) < n" using i(2) ui by (simp add: word_less_nat_alt)
    moreover have "in_order_pick n d s = (of_nat i, Some (of_nat i))"
      using False Some by (auto simp: in_order_pick_def)
    ultimately show ?thesis using assms(2) i(3) by auto
  qed
qed

interpretation in_order: warp_scheduler "\<lambda>_. True" in_order_start in_order_pick in_order_inv
proof (unfold_locales, goal_cases)
  case (1 n d)
  then show ?case by (simp add: in_order_inv_def in_order_start_def)
next
  case (2 n d s)
  obtain s' r where p: "in_order_pick n d s = (s', r)" by fastforce
  from in_order_cases [OF 2 p] show ?case using 2 by (auto simp: p in_order_inv_def)
next
  case (3 n d s d')
  then show ?case by (simp add: in_order_inv_def)
next
  case (4 n d s w)
  obtain s' r where p: "in_order_pick n d s = (s', r)" by fastforce
  from in_order_cases [OF 4(1) p] show ?case using 4(2) by (auto simp: p)
next
  case (5 n d s w)
  obtain s' r where p: "in_order_pick n d s = (s', r)" by fastforce
  from in_order_cases [OF 5(1) p] show ?case using 5(2,3) by (auto simp: p)
qed

lemma round_robin_index:
  fixes s n :: u32
  assumes "s < n" and "n \<le> 0x80000000" and "k \<le> unat n"
  shows "unat ((s + of_nat k) mod n) = (unat s + k) mod unat n"
proof -
  have n: "unat n \<le> 2147483648" using assms(2) by (simp add: word_le_nat_alt)
  have s: "unat s < unat n" using assms(1) by (simp add: word_less_nat_alt)
  have k: "unat (of_nat k :: u32) = k" using assms(3) n by (intro unat_of_nat_u32) simp
  have "unat (s + of_nat k) = unat s + k"
    using unat_add_lem [of s "of_nat k"] k n s assms(3) by simp
  then show ?thesis by (simp add: unat_mod)
qed

lemma rotate_hits:
  fixes n :: nat
  assumes "s < n" and "w < n"
  shows "\<exists>k < n. (s + k) mod n = w"
proof (cases "s \<le> w")
  case True
  then show ?thesis using assms by (intro exI [of _ "w - s"]) simp
next
  case False
  then have "(s + (n + w - s)) mod n = w" using assms by simp
  then show ?thesis using False assms by (intro exI [of _ "n + w - s"]) simp
qed

lemma round_robin_cases:
  assumes "round_robin_inv n d s" and "round_robin_pick n d s = (s', r)"
  shows "(r = None \<and> s' = s \<and> (\<forall>w < n. d w)) \<or>
    (\<exists>k w. k < unat n \<and> r = Some w \<and> unat w = (unat s + k) mod unat n \<and> w < n \<and> \<not> d w \<and>
       unat s' = (unat w + 1) mod unat n \<and> s' < n \<and>
       (\<forall>v < n. (\<exists>j < k. unat v = (unat s + j) mod unat n) \<longrightarrow> d v))"
proof (cases "n = 0")
  case True
  then show ?thesis using assms by (simp add: round_robin_pick_def)
next
  case False
  then have s: "s < n" and n: "n \<le> 0x80000000" using assms(1) by (simp_all add: round_robin_inv_def)
  have un: "0 < unat n" using False by (simp add: unat_gt_0)
  have us: "unat s < unat n" using s by (simp add: word_less_nat_alt)
  note idx = round_robin_index [OF s n]
  have word: "v = (s + of_nat j) mod n" if "unat v = (unat s + j) mod unat n" "j \<le> unat n" for v j
    using idx [OF that(2)] that(1) by (simp add: word_unat_eq_iff)
  show ?thesis
  proof (cases "find (\<lambda>k. \<not> d ((s + of_nat k) mod n)) [0..<unat n]")
    case None
    then have all: "\<And>k. k < unat n \<Longrightarrow> d ((s + of_nat k) mod n)" unfolding find_upt_None by blast
    have "d w" if "w < n" for w
    proof -
      have "unat w < unat n" using that by (simp only: word_less_nat_alt)
      then obtain k where "k < unat n" "(unat s + k) mod unat n = unat w"
        using rotate_hits [OF us] by blast
      then show ?thesis using all [of k] word [of w k] by simp
    qed
    then show ?thesis using False None assms(2) by (simp add: round_robin_pick_def)
  next
    case (Some k)
    then have k: "k < unat n" "\<not> d ((s + of_nat k) mod n)"
      and min: "\<And>j. j < k \<Longrightarrow> d ((s + of_nat j) mod n)" unfolding find_upt_Some by auto
    let ?w = "(s + of_nat k) mod n"
    have w: "?w < n" using False by (simp add: word_less_nat_alt unat_mod un)
    have "unat ((?w + of_nat 1) mod n) = (unat ?w + 1) mod unat n"
      by (rule round_robin_index [OF w n]) (use un in simp)
    moreover have "(?w + of_nat 1) mod n < n" using un by (simp add: word_less_nat_alt unat_mod)
    moreover have "d v" if "\<exists>j < k. unat v = (unat s + j) mod unat n" for v
    proof -
      obtain j where "j < k" "unat v = (unat s + j) mod unat n" using \<open>\<exists>j < k. _ j\<close> by blast
      then show ?thesis using min [of j] word [of v j] k(1) by simp
    qed
    ultimately show ?thesis
      using False Some assms(2) k w idx [of k]
      by (intro disjI2 exI [of _ k] exI [of _ ?w]) (auto simp: round_robin_pick_def Let_def)
  qed
qed

interpretation round_robin: warp_scheduler "\<lambda>n. n \<le> 0x80000000" round_robin_start round_robin_pick round_robin_inv
proof (unfold_locales, goal_cases)
  case (1 n d)
  then show ?case by (auto simp: round_robin_inv_def round_robin_start_def word_gt_0)
next
  case (2 n d s)
  obtain s' r where p: "round_robin_pick n d s = (s', r)" by fastforce
  from round_robin_cases [OF 2 p] show ?case using 2 by (auto simp: p round_robin_inv_def)
next
  case (3 n d s d')
  then show ?case by (simp add: round_robin_inv_def)
next
  case (4 n d s w)
  obtain s' r where p: "round_robin_pick n d s = (s', r)" by fastforce
  from round_robin_cases [OF 4(1) p] show ?case using 4(2) by (auto simp: p)
next
  case (5 n d s w)
  obtain s' r where p: "round_robin_pick n d s = (s', r)" by fastforce
  from round_robin_cases [OF 5(1) p] show ?case using 5(2,3) by (auto simp: p)
qed

section \<open>Runs of a scheduler\<close>

text \<open>
  The states a scheduler can be in while it serves a CTA of \<open>n\<close> warps: it is started, it
  picks, and warps become done in between.
\<close>

inductive sched_reach :: "warp_sched_kind \<Rightarrow> u32 \<Rightarrow> (u32 \<Rightarrow> bool) \<Rightarrow> u32 \<Rightarrow> bool" for kind n where
  start: "sched_reach kind n d (sched_start kind n)"
| pick: "sched_reach kind n d s \<Longrightarrow> pick_next kind n d s = (s', r) \<Longrightarrow> (\<And>w. d w \<Longrightarrow> d' w) \<Longrightarrow>
    sched_reach kind n d' s'"

fun sched_inv :: "warp_sched_kind \<Rightarrow> u32 \<Rightarrow> (u32 \<Rightarrow> bool) \<Rightarrow> u32 \<Rightarrow> bool" where
  "sched_inv InOrderRunToCompletion = in_order_inv"
| "sched_inv RoundRobinInterleaveStep = round_robin_inv"

interpretation sched: warp_scheduler "\<lambda>n. n \<le> 0x80000000" "sched_start kind" "pick_next kind" "sched_inv kind"
  for kind
proof (cases kind)
  case InOrderRunToCompletion
  show "warp_scheduler (\<lambda>n. n \<le> 0x80000000) (sched_start kind) (pick_next kind) (sched_inv kind)"
    unfolding InOrderRunToCompletion
  proof (unfold_locales, goal_cases)
    case (1 n d)
    then show ?case using in_order.start_inv [of n d] by simp
  next
    case (2 n d s)
    then show ?case using in_order.pick_inv [of n d s] by simp
  next
    case (3 n d s d')
    then show ?case using in_order.inv_mono [of n d s d'] by simp
  next
    case (4 n d s w)
    then show ?case using in_order.pick_live [of n d s w] by simp
  next
    case (5 n d s w)
    then show ?case using in_order.pick_none [of n d s w] by simp
  qed
next
  case RoundRobinInterleaveStep
  have "sched_start RoundRobinInterleaveStep = round_robin_start" by (rule ext) simp
  then show "warp_scheduler (\<lambda>n. n \<le> 0x80000000) (sched_start kind) (pick_next kind) (sched_inv kind)"
    using round_robin.warp_scheduler_axioms by (simp add: RoundRobinInterleaveStep)
qed

lemma sched_reach_inv:
  assumes "sched_reach kind n d s" and "n \<le> 0x80000000"
  shows "sched_inv kind n d s"
  using assms
proof (induction rule: sched_reach.induct)
  case (start d)
  then show ?case by (rule sched.start_inv)
next
  case (pick d s s' r d')
  have "sched_inv kind n d s'"
    using sched.pick_inv [OF pick.IH [OF pick.prems]] pick.hyps(2) by simp
  then show ?case by (rule sched.inv_mono) (rule pick.hyps(3))
qed

text \<open>
  C24.  In every state a warp scheduler can reach, a pick is a live warp of the CTA, and the
  scheduler gives up only when every warp is done; this holds for both policies.
\<close>

theorem scheduler_picks_live_warp:
  assumes "sched_reach kind n d s" and "n \<le> 0x80000000"
  shows "case snd (pick_next kind n d s) of
           None \<Rightarrow> \<forall>w. w < n \<longrightarrow> d w
         | Some w \<Rightarrow> w < n \<and> \<not> d w"
  using sched.pick_live [OF sched_reach_inv [OF assms]] sched.pick_none [OF sched_reach_inv [OF assms]]
  by (auto split: option.split)

lemma scheduler_picks_live_warp_witness:
  "(case snd (pick_next RoundRobinInterleaveStep 3 (\<lambda>w. w = 0 \<or> w = 2)
        (sched_start RoundRobinInterleaveStep 3)) of
      None \<Rightarrow> False
    | Some w \<Rightarrow> w < 3 \<and> w \<noteq> 0 \<and> w \<noteq> 2)"
proof -
  let ?d = "\<lambda>w. w = 0 \<or> w = (2 :: u32)" and ?k = RoundRobinInterleaveStep
  have "sched_reach ?k 3 ?d (sched_start ?k 3)" by (rule sched_reach.start)
  from scheduler_picks_live_warp [OF this] have
    "case snd (pick_next ?k 3 ?d (sched_start ?k 3)) of
       None \<Rightarrow> \<forall>w. w < 3 \<longrightarrow> ?d w | Some w \<Rightarrow> w < 3 \<and> \<not> ?d w" by simp
  moreover have "\<not> (\<forall>w. w < 3 \<longrightarrow> ?d w)" by (auto intro: exI [of _ 1])
  ultimately show ?thesis by (auto split: option.splits)
qed

section \<open>Round robin is fair\<close>

definition rr_distance :: "u32 \<Rightarrow> u32 \<Rightarrow> u32 \<Rightarrow> nat" where
  "rr_distance n s v = (unat v + unat n - unat s) mod unat n"

text \<open>The picks of a run, one for each successive state of the warps.\<close>

fun rr_picks :: "u32 \<Rightarrow> (u32 \<Rightarrow> bool) list \<Rightarrow> u32 \<Rightarrow> u32 option list" where
  "rr_picks n [] s = []"
| "rr_picks n (d # ds) s =
     (let (s', r) = round_robin_pick n d s in r # rr_picks n ds s')"

lemma rr_distance_index:
  assumes "s < n" and "v < n"
  shows "rr_distance n s v < unat n" and "unat v = (unat s + rr_distance n s v) mod unat n"
proof -
  have s: "unat s < unat n" and v: "unat v < unat n" using assms by (simp_all add: word_less_nat_alt)
  then show "rr_distance n s v < unat n" by (simp add: rr_distance_def)
  show "unat v = (unat s + rr_distance n s v) mod unat n"
    using s v by (simp add: rr_distance_def mod_add_right_eq)
qed

lemma rr_distance_step:
  fixes n :: nat
  assumes "s < n" and "v = (s + b) mod n" and "b < n" and "k < b"
  shows "(v + n - ((s + k) mod n + 1) mod n) mod n = b - Suc k"
proof -
  define c where "c = b - Suc k"
  have b: "b = Suc (k + c)" using assms(4) by (simp add: c_def)
  have t: "((s + k) mod n + 1) mod n = (s + Suc k) mod n" by (simp add: mod_Suc_eq)
  have v: "v = ((s + Suc k) mod n + c) mod n"
    by (simp add: assms(2) b mod_add_left_eq add.assoc)
  define x where "x = (s + Suc k) mod n"
  have xn: "x < n" using assms(1) by (simp add: x_def)
  have cn: "c < n" using assms(3) b by simp
  have vx: "v = (x + c) mod n" unfolding v x_def ..
  have "(v + n - x) mod n = c"
  proof (cases "x + c < n")
    case True
    then have "v + n - x = n + c" using vx by simp
    then show ?thesis using cn by simp
  next
    case False
    have "x + c - n < n" using xn cn by linarith
    then have "v = x + c - n" using vx False le_mod_geq [of n "x + c"] by simp
    then have "v + n - x = c" using False by linarith
    then show ?thesis using cn by simp
  qed
  then show ?thesis unfolding t x_def c_def .
qed

lemma rr_progress:
  assumes "round_robin_inv n d s" and "round_robin_pick n d s = (s', Some w)"
    and "v < n" and "\<not> d v" and "v \<noteq> w" and "s < n"
  shows "s' < n \<and> rr_distance n s' v < rr_distance n s v"
proof -
  have "\<exists>k. k < unat n \<and> unat w = (unat s + k) mod unat n \<and> unat s' = (unat w + 1) mod unat n \<and>
      s' < n \<and> (\<forall>u < n. (\<exists>j < k. unat u = (unat s + j) mod unat n) \<longrightarrow> d u)"
    using round_robin_cases [OF assms(1,2)] by auto
  then obtain k where
    k: "k < unat n" "unat w = (unat s + k) mod unat n" "unat s' = (unat w + 1) mod unat n" "s' < n"
    and before: "\<And>u j. u < n \<Longrightarrow> j < k \<Longrightarrow> unat u = (unat s + j) mod unat n \<Longrightarrow> d u" by blast
  let ?b = "rr_distance n s v"
  have b: "?b < unat n" "unat v = (unat s + ?b) mod unat n"
    using rr_distance_index [OF assms(6,3)] by auto
  have "\<not> ?b < k" using before [OF assms(3) _ b(2)] assms(4) by blast
  moreover have "?b \<noteq> k" using b(2) k(2) assms(5) by (auto simp: word_unat_eq_iff)
  ultimately have kb: "k < ?b" by simp
  have us: "unat s < unat n" using assms(6) by (simp add: word_less_nat_alt)
  have "rr_distance n s' v = ?b - Suc k"
    unfolding rr_distance_def [of n s'] k(3) k(2)
    by (rule rr_distance_step [OF us b(2) b(1) kb])
  then show ?thesis using k(4) kb by simp
qed

text \<open>
  C25.  The interleaving scheduler is fair: a warp that stays live is picked within the next
  \<open>n\<close> picks, whatever the other warps do.
\<close>

theorem round_robin_fair:
  assumes "n \<le> 0x80000000" and "s < n" and "v < n"
    and "\<forall>d \<in> set ds. \<not> d v" and "unat n \<le> length ds"
  shows "Some v \<in> set (rr_picks n ds s)"
proof -
  have "Some v \<in> set (rr_picks n ds s)" if "rr_distance n s v < length ds" "s < n" "\<forall>d \<in> set ds. \<not> d v"
    for s ds
    using that
  proof (induction ds arbitrary: s)
    case Nil
    then show ?case by simp
  next
    case (Cons d ds)
    have inv: "round_robin_inv n d s" using Cons.prems(2) assms(1) by (simp add: round_robin_inv_def)
    obtain s' r where p: "round_robin_pick n d s = (s', r)" by fastforce
    have dv: "\<not> d v" using Cons.prems(3) by simp
    then have "r \<noteq> None" using round_robin.pick_none [OF inv] assms(3) p by force
    then obtain w where r: "r = Some w" by blast
    show ?case
    proof (cases "w = v")
      case True
      then show ?thesis by (simp add: p r)
    next
      case False
      then have less: "s' < n \<and> rr_distance n s' v < rr_distance n s v"
        using rr_progress [OF inv _ assms(3) dv _ Cons.prems(2)] p r by blast
      have "Some v \<in> set (rr_picks n ds s')"
        using less Cons.prems(1,3) by (intro Cons.IH) auto
      then show ?thesis by (simp add: p)
    qed
  qed
  moreover have "rr_distance n s v < unat n" by (rule rr_distance_index(1) [OF assms(2,3)])
  ultimately show ?thesis using assms(2,4,5) by simp
qed

lemma round_robin_fair_witness:
  "Some 2 \<in> set (rr_picks 3 [\<lambda>w. w = 1, \<lambda>w. w = 1, \<lambda>w. w = 0] 0)"
  by (rule round_robin_fair) simp_all

end
