(* ===== verification/CtaSched.thy ===== *)
theory CtaSched
  imports Contracts "HOL-Library.Multiset"
begin

text \<open>
  The CTA schedulers (\<open>src/runtime/cta_scheduler.cpp\<close>, \<open>include/gpusim/scheduler.h\<close>) and the
  enumeration of a launch's CTAs (\<open>SimtExecutor::run\<close>, \<open>src/simt/simt.cpp\<close>).  The mutex of the
  C++ classes makes every method atomic, so each method is one function on the state.
  \<open>acquire\<close> blocks while nothing is queued and the scheduler is open; the model returns
  \<open>Wait\<close> there and leaves the state alone.
\<close>

record cta_work_item =
  it_cx :: u32
  it_cy :: u32
  it_cz :: u32
  it_linear :: u64
  it_id :: u64

datatype acquire_result = Wait | Acquired "cta_work_item option"

record fifo_sched =
  fs_q :: "cta_work_item list"
  fs_closed :: bool
  fs_stop :: bool

record rr_sched =
  rs_count :: u32
  rs_q :: "cta_work_item list list"
  rs_closed :: bool
  rs_stop :: bool

section \<open>The first-in first-out scheduler\<close>

definition fifo_init :: fifo_sched where
  "fifo_init = \<lparr>fs_q = [], fs_closed = False, fs_stop = False\<rparr>"

definition fifo_submit :: "cta_work_item \<Rightarrow> fifo_sched \<Rightarrow> fifo_sched" where
  "fifo_submit it s = s\<lparr>fs_q := fs_q s @ [it]\<rparr>"

definition fifo_close :: "fifo_sched \<Rightarrow> fifo_sched" where
  "fifo_close s = s\<lparr>fs_closed := True\<rparr>"

definition fifo_request_stop :: "fifo_sched \<Rightarrow> fifo_sched" where
  "fifo_request_stop s = s\<lparr>fs_stop := True\<rparr>"

definition fifo_acquire :: "fifo_sched \<Rightarrow> fifo_sched \<times> acquire_result" where
  "fifo_acquire s =
     (if \<not> (fs_stop s \<or> fs_q s \<noteq> [] \<or> fs_closed s) then (s, Wait)
      else if fs_stop s then (s, Acquired None)
      else case fs_q s of
             it # q \<Rightarrow> (s\<lparr>fs_q := q\<rparr>, Acquired (Some it))
           | [] \<Rightarrow> (s, Acquired None))"

section \<open>The round-robin scheduler\<close>

definition rr_init :: "u32 \<Rightarrow> rr_sched" where
  "rr_init sm_count =
     (let n = (if sm_count = 0 then 1 else sm_count)
      in \<lparr>rs_count = n, rs_q = replicate (unat n) [], rs_closed = False, rs_stop = False\<rparr>)"

definition rr_submit :: "cta_work_item \<Rightarrow> rr_sched \<Rightarrow> rr_sched" where
  "rr_submit it s =
     (let sm = unat (it_linear it mod ucast (rs_count s))
      in s\<lparr>rs_q := (rs_q s)[sm := rs_q s ! sm @ [it]]\<rparr>)"

definition rr_close :: "rr_sched \<Rightarrow> rr_sched" where
  "rr_close s = s\<lparr>rs_closed := True\<rparr>"

definition rr_request_stop :: "rr_sched \<Rightarrow> rr_sched" where
  "rr_request_stop s = s\<lparr>rs_stop := True\<rparr>"

definition rr_acquire :: "u64 \<Rightarrow> rr_sched \<Rightarrow> rr_sched \<times> acquire_result" where
  "rr_acquire sm_id s =
     (let sm = unat (sm_id mod ucast (rs_count s))
      in if \<not> (rs_stop s \<or> rs_q s ! sm \<noteq> [] \<or> rs_closed s) then (s, Wait)
         else if rs_stop s then (s, Acquired None)
         else case rs_q s ! sm of
                it # q \<Rightarrow> (s\<lparr>rs_q := (rs_q s)[sm := q]\<rparr>, Acquired (Some it))
              | [] \<Rightarrow> (s, Acquired None))"

section \<open>The choice of a scheduler\<close>

datatype cta_sched = Fifo fifo_sched | SmRoundRobin rr_sched

definition create_cta_scheduler :: "string \<Rightarrow> u32 \<Rightarrow> cta_sched option" where
  "create_cta_scheduler name sm_count =
     (if name = ''fifo'' then Some (Fifo fifo_init)
      else if name = ''sm_round_robin'' then Some (SmRoundRobin (rr_init sm_count))
      else None)"

fun cta_submit :: "cta_work_item \<Rightarrow> cta_sched \<Rightarrow> cta_sched" where
  "cta_submit it (Fifo s) = Fifo (fifo_submit it s)"
| "cta_submit it (SmRoundRobin s) = SmRoundRobin (rr_submit it s)"

fun cta_close :: "cta_sched \<Rightarrow> cta_sched" where
  "cta_close (Fifo s) = Fifo (fifo_close s)"
| "cta_close (SmRoundRobin s) = SmRoundRobin (rr_close s)"

fun cta_request_stop :: "cta_sched \<Rightarrow> cta_sched" where
  "cta_request_stop (Fifo s) = Fifo (fifo_request_stop s)"
| "cta_request_stop (SmRoundRobin s) = SmRoundRobin (rr_request_stop s)"

fun cta_stop_requested :: "cta_sched \<Rightarrow> bool" where
  "cta_stop_requested (Fifo s) = fs_stop s"
| "cta_stop_requested (SmRoundRobin s) = rs_stop s"

fun cta_acquire :: "u64 \<Rightarrow> cta_sched \<Rightarrow> cta_sched \<times> acquire_result" where
  "cta_acquire sm_id (Fifo s) = (case fifo_acquire s of (s', r) \<Rightarrow> (Fifo s', r))"
| "cta_acquire sm_id (SmRoundRobin s) = (case rr_acquire sm_id s of (s', r) \<Rightarrow> (SmRoundRobin s', r))"

section \<open>The interface\<close>

text \<open>Work done by a sequence of requests, whichever SMs make them.\<close>

fun serve :: "(u64 \<Rightarrow> 's \<Rightarrow> 's \<times> 'i option) \<Rightarrow> u64 list \<Rightarrow> 's \<Rightarrow> 's \<times> 'i list" where
  "serve acquire [] s = (s, [])"
| "serve acquire (sm # sms) s =
     (case acquire sm s of
        (s', None) \<Rightarrow> serve acquire sms s'
      | (s', Some it) \<Rightarrow> (case serve acquire sms s' of (s'', its) \<Rightarrow> (s'', it # its)))"

text \<open>
  \<open>items\<close> is what is still queued and \<open>visible sm\<close> what a worker on that SM could be given.
  Nothing is lost and nothing is handed out twice.
\<close>

locale work_distributor =
  fixes submit :: "'i \<Rightarrow> 's \<Rightarrow> 's"
    and acquire :: "u64 \<Rightarrow> 's \<Rightarrow> 's \<times> 'i option"
    and wf :: "'s \<Rightarrow> bool"
    and items :: "'s \<Rightarrow> 'i multiset"
    and visible :: "u64 \<Rightarrow> 's \<Rightarrow> 'i list"
  assumes submit_wf: "wf s \<Longrightarrow> wf (submit it s)"
    and acquire_wf: "wf s \<Longrightarrow> wf (fst (acquire sm s))"
    and submit_items: "wf s \<Longrightarrow> items (submit it s) = add_mset it (items s)"
    and acquire_some: "wf s \<Longrightarrow> acquire sm s = (s', Some it) \<Longrightarrow> items s = add_mset it (items s')"
    and acquire_none: "wf s \<Longrightarrow> acquire sm s = (s', None) \<Longrightarrow> items s' = items s"
    and nothing_hidden: "wf s \<Longrightarrow> items s = {#} \<longleftrightarrow> (\<forall>sm. visible sm s = [])"
begin

lemma submit_all:
  "wf s \<Longrightarrow> wf (fold submit its s) \<and> items (fold submit its s) = mset its + items s"
proof (induction its arbitrary: s)
  case Nil
  then show ?case by simp
next
  case (Cons it its)
  then show ?case using submit_wf [of s it] submit_items [of s it] by simp
qed

lemma serve_conserves:
  assumes "wf s"
  shows "wf (fst (serve acquire sms s)) \<and> items s = mset (snd (serve acquire sms s)) + items (fst (serve acquire sms s))"
  using assms
proof (induction sms arbitrary: s)
  case Nil
  then show ?case by simp
next
  case (Cons sm sms)
  obtain s' r where a: "acquire sm s = (s', r)" by fastforce
  have wf': "wf s'" using acquire_wf [OF Cons.prems, of sm] by (simp add: a)
  show ?case
  proof (cases r)
    case None
    then show ?thesis using Cons.IH [OF wf'] acquire_none [OF Cons.prems] a by simp
  next
    case (Some it)
    then show ?thesis
      using Cons.IH [OF wf'] acquire_some [OF Cons.prems] a by (simp add: split_beta)
  qed
qed

lemma each_once:
  assumes "wf s" and "items s = {#}"
    and "serve acquire sms (fold submit its s) = (s', served)"
  shows "mset served \<subseteq># mset its \<and> ((\<forall>sm. visible sm s' = []) \<longrightarrow> mset served = mset its)"
proof -
  have sub: "wf (fold submit its s)" "items (fold submit its s) = mset its"
    using submit_all [OF assms(1), of its] assms(2) by simp_all
  have "wf s'" "mset its = mset served + items s'"
    using serve_conserves [OF sub(1), of sms] sub(2) by (simp_all add: assms(3))
  then show ?thesis using nothing_hidden [of s'] by auto
qed

end

section \<open>Both schedulers provide it\<close>

definition rr_wf :: "rr_sched \<Rightarrow> bool" where
  "rr_wf s \<longleftrightarrow> rs_count s \<noteq> 0 \<and> length (rs_q s) = unat (rs_count s)"

fun cta_wf :: "cta_sched \<Rightarrow> bool" where
  "cta_wf (Fifo s) = True"
| "cta_wf (SmRoundRobin s) = rr_wf s"

fun cta_items_of :: "cta_sched \<Rightarrow> cta_work_item multiset" where
  "cta_items_of (Fifo s) = mset (fs_q s)"
| "cta_items_of (SmRoundRobin s) = mset (concat (rs_q s))"

fun cta_visible :: "u64 \<Rightarrow> cta_sched \<Rightarrow> cta_work_item list" where
  "cta_visible sm (Fifo s) = fs_q s"
| "cta_visible sm (SmRoundRobin s) = rs_q s ! unat (sm mod ucast (rs_count s))"

text \<open>A worker that would wait gets nothing yet.\<close>

definition cta_try_acquire :: "u64 \<Rightarrow> cta_sched \<Rightarrow> cta_sched \<times> cta_work_item option" where
  "cta_try_acquire sm s =
     (case cta_acquire sm s of (s', Wait) \<Rightarrow> (s', None) | (s', Acquired r) \<Rightarrow> (s', r))"

lemma mset_concat_update:
  "i < length qs \<Longrightarrow> mset (concat (qs[i := q])) + mset (qs ! i) = mset (concat qs) + mset q"
proof (induction qs arbitrary: i)
  case Nil
  then show ?case by simp
next
  case (Cons p qs)
  then show ?case by (cases i) (auto simp: ac_simps)
qed

lemma rr_slot_bound: "rr_wf s \<Longrightarrow> unat (x mod ucast (rs_count s) :: u64) < length (rs_q s)"
proof -
  assume wf: "rr_wf s"
  then have "0 < unat (rs_count s)" by (simp add: rr_wf_def unat_gt_0)
  then have "unat x mod unat (rs_count s) < unat (rs_count s)" by simp
  then show ?thesis using wf by (simp add: rr_wf_def unat_mod)
qed

lemma rr_submit_items:
  assumes "rr_wf s"
  shows "mset (concat (rs_q (rr_submit it s))) = add_mset it (mset (concat (rs_q s)))"
proof -
  let ?i = "unat (it_linear it mod ucast (rs_count s) :: u64)"
  have "mset (concat ((rs_q s)[?i := rs_q s ! ?i @ [it]])) + mset (rs_q s ! ?i)
      = mset (concat (rs_q s)) + mset (rs_q s ! ?i @ [it])"
    by (rule mset_concat_update) (rule rr_slot_bound [OF assms])
  then show ?thesis by (simp add: rr_submit_def Let_def)
qed

lemma rr_acquire_some:
  assumes "rr_wf s" and "rr_acquire sm s = (s', Acquired (Some it))"
  shows "mset (concat (rs_q s)) = add_mset it (mset (concat (rs_q s')))"
proof -
  let ?i = "unat (sm mod ucast (rs_count s) :: u64)"
  from assms(2) obtain q where q: "rs_q s ! ?i = it # q" and s': "s' = s\<lparr>rs_q := (rs_q s)[?i := q]\<rparr>"
    by (auto simp: rr_acquire_def Let_def split: if_splits list.splits)
  have "mset (concat ((rs_q s)[?i := q])) + mset (rs_q s ! ?i) = mset (concat (rs_q s)) + mset q"
    by (rule mset_concat_update) (rule rr_slot_bound [OF assms(1)])
  then show ?thesis by (simp add: s' q)
qed

lemma rr_acquire_other:
  assumes "rr_acquire sm s = (s', r)" and "\<And>it. r \<noteq> Acquired (Some it)"
  shows "s' = s"
  using assms by (auto simp: rr_acquire_def Let_def split: if_splits list.splits)

lemma fifo_acquire_cases:
  assumes "fifo_acquire s = (s', r)"
  shows "(\<exists>it. r = Acquired (Some it) \<and> fs_q s = it # fs_q s' \<and> fs_stop s' = fs_stop s \<and>
             fs_closed s' = fs_closed s) \<or>
    ((r = Wait \<or> r = Acquired None) \<and> s' = s)"
  using assms by (auto simp: fifo_acquire_def split: if_splits list.splits)

lemma rr_acquire_wf: "rr_wf s \<Longrightarrow> rr_wf (fst (rr_acquire sm s))"
  by (simp add: rr_acquire_def rr_wf_def Let_def split: list.split)

interpretation cta: work_distributor cta_submit cta_try_acquire cta_wf cta_items_of cta_visible
proof (unfold_locales, goal_cases)
  case (1 s it)
  then show ?case by (cases s) (simp_all add: rr_submit_def rr_wf_def Let_def)
next
  case (2 s sm)
  then show ?case
    using rr_acquire_wf
    by (cases s) (auto simp: cta_try_acquire_def split_beta split: acquire_result.split)
next
  case (3 s it)
  then show ?case by (cases s) (simp_all add: fifo_submit_def rr_submit_items)
next
  case (4 s sm s' it)
  then show ?case
    using rr_acquire_some fifo_acquire_cases
    by (cases s) (fastforce simp: cta_try_acquire_def split: prod.splits acquire_result.splits)+
next
  case (5 s sm s')
  then show ?case
    using rr_acquire_other fifo_acquire_cases
    by (cases s) (fastforce simp: cta_try_acquire_def split: prod.splits acquire_result.splits)+
next
  case (6 s)
  show ?case
  proof (cases s)
    case (Fifo t)
    then show ?thesis by simp
  next
    case (SmRoundRobin t)
    then have wf: "rr_wf t" using 6 by simp
    have "\<exists>sm :: u64. unat (sm mod ucast (rs_count t)) = i" if "i < length (rs_q t)" for i
    proof -
      have i: "i < unat (rs_count t)" using that wf by (simp add: rr_wf_def)
      then have "unat (of_nat i :: u64) = i"
        using unat_u32_less [of "rs_count t"] by (intro unat_of_nat_u64) simp
      then have "unat ((of_nat i :: u64) mod ucast (rs_count t)) = i" using i by (simp add: unat_mod)
      then show ?thesis by blast
    qed
    then have "(\<forall>sm. rs_q t ! unat (sm mod ucast (rs_count t) :: u64) = []) \<longleftrightarrow>
        (\<forall>i < length (rs_q t). rs_q t ! i = [])"
      using rr_slot_bound [OF wf] by metis
    also have "\<dots> \<longleftrightarrow> concat (rs_q t) = []" by (simp add: all_set_conv_all_nth)
    finally show ?thesis by (simp add: SmRoundRobin)
  qed
qed

section \<open>The CTAs of a launch\<close>

definition cta_item :: "dim3 \<Rightarrow> nat \<Rightarrow> nat \<Rightarrow> nat \<Rightarrow> cta_work_item" where
  "cta_item g z y x =
     (let cta_linear = (of_nat z * ucast (dim_y g) + of_nat y) * ucast (dim_x g) + of_nat x
      in \<lparr>it_cx = of_nat x, it_cy = of_nat y, it_cz = of_nat z,
          it_linear = cta_linear, it_id = cta_linear\<rparr>)"

definition cta_items :: "dim3 \<Rightarrow> cta_work_item list" where
  "cta_items g =
     concat (map (\<lambda>z. concat (map (\<lambda>y. map (\<lambda>x. cta_item g z y x) [0..<unat (dim_x g)])
                                 [0..<unat (dim_y g)]))
                 [0..<unat (dim_z g)])"

lemma concat_blocks: "concat (map (\<lambda>a. map (\<lambda>b. f (a * n + b)) [0..<n]) [0..<m]) = map f [0..<m * n]"
proof (induction m)
  case 0
  then show ?case by simp
next
  case (Suc m)
  have "map (\<lambda>b. f (m * n + b)) [0..<n] = map f [m * n..<m * n + n]"
    by (rule nth_equalityI) simp_all
  moreover have "[0..<Suc m * n] = [0..<m * n] @ [m * n..<m * n + n]"
    using upt_add_eq_append [of 0 "m * n" n] by (simp add: add.commute)
  ultimately show ?case using Suc by simp
qed


text \<open>The linear numbers of a launch's CTAs are consecutive from zero, in submission order.\<close>

lemma cta_linear_numbers:
  "map it_linear (cta_items g)
     = map of_nat [0..<unat (dim_z g) * (unat (dim_y g) * unat (dim_x g))]"
proof -
  let ?X = "unat (dim_x g)" and ?Y = "unat (dim_y g)" and ?Z = "unat (dim_z g)"
  have lin: "it_linear (cta_item g z y x) = of_nat (z * (?Y * ?X) + (y * ?X + x))" for x y z
    by (simp add: cta_item_def Let_def algebra_simps)
  have plane: "concat (map (\<lambda>y. map (\<lambda>x. of_nat (z * (?Y * ?X) + (y * ?X + x)) :: u64) [0..<?X]) [0..<?Y])
      = map (\<lambda>r. of_nat (z * (?Y * ?X) + r)) [0..<?Y * ?X]" for z
    by (rule concat_blocks [where f = "\<lambda>r. of_nat (z * (?Y * ?X) + r)"])
  have "map it_linear (cta_items g) =
      concat (map (\<lambda>z. concat (map (\<lambda>y. map (\<lambda>x. of_nat (z * (?Y * ?X) + (y * ?X + x))) [0..<?X]) [0..<?Y])) [0..<?Z])"
    unfolding cta_items_def by (simp only: map_concat map_map comp_def lin)
  also have "\<dots> = concat (map (\<lambda>z. map (\<lambda>r. of_nat (z * (?Y * ?X) + r)) [0..<?Y * ?X]) [0..<?Z])"
    by (simp only: plane)
  also have "\<dots> = map of_nat [0..<?Z * (?Y * ?X)]" by (rule concat_blocks)
  finally show ?thesis .
qed

lemma cta_items_product:
  "cta_items g = map (\<lambda>(z, y, x). cta_item g z y x)
     (List.product [0..<unat (dim_z g)] (List.product [0..<unat (dim_y g)] [0..<unat (dim_x g)]))"
  by (simp add: cta_items_def product_concat_map map_concat comp_def)

lemma distinct_cta_items: "distinct (cta_items g)"
proof -
  have n: "unat (of_nat i :: u32) = i" if "i < unat (d :: u32)" for i d
    using that unat_u32_less [of d] by (intro unat_of_nat_u32) simp
  have "inj_on (\<lambda>(z, y, x). cta_item g z y x)
      ({..<unat (dim_z g)} \<times> {..<unat (dim_y g)} \<times> {..<unat (dim_x g)})"
  proof (rule inj_onI, clarsimp)
    fix z y x z' y' x'
    assume b: "z < unat (dim_z g)" "y < unat (dim_y g)" "x < unat (dim_x g)"
      "z' < unat (dim_z g)" "y' < unat (dim_y g)" "x' < unat (dim_x g)"
      and e: "cta_item g z y x = cta_item g z' y' x'"
    from e have "(of_nat x :: u32) = of_nat x'" "(of_nat y :: u32) = of_nat y'" "(of_nat z :: u32) = of_nat z'"
      by (simp_all add: cta_item_def Let_def)
    then show "z = z' \<and> y = y' \<and> x = x'"
      using n [OF b(1)] n [OF b(2)] n [OF b(3)] n [OF b(4)] n [OF b(5)] n [OF b(6)] by metis
  qed
  then show ?thesis
    by (simp add: cta_items_product distinct_map distinct_product lessThan_atLeast0)
qed

lemma cta_close_simps [simp]:
  "cta_wf (cta_close s) = cta_wf s" "cta_items_of (cta_close s) = cta_items_of s"
  "cta_visible sm (cta_close s) = cta_visible sm s"
  by (cases s; simp add: fifo_close_def rr_close_def rr_wf_def)+

lemma cta_submit_close: "cta_submit it (cta_close s) = cta_close (cta_submit it s)"
  by (cases s) (simp_all add: fifo_close_def rr_close_def fifo_submit_def rr_submit_def Let_def)

lemma fold_submit_close: "fold cta_submit its (cta_close s) = cta_close (fold cta_submit its s)"
  by (induction its arbitrary: s) (simp_all add: cta_submit_close)

lemma create_cta_fresh:
  "create_cta_scheduler name n = Some s \<Longrightarrow> cta_wf s \<and> cta_items_of s = {#}"
  by (auto simp: create_cta_scheduler_def fifo_init_def rr_init_def rr_wf_def Let_def
      unat_eq_0 split: if_splits)

lemma distinct_sub: "mset xs \<subseteq># mset ys \<Longrightarrow> distinct ys \<Longrightarrow> distinct xs"
proof -
  assume sub: "mset xs \<subseteq># mset ys" and d: "distinct ys"
  have "count (mset xs) a = (if a \<in> set xs then 1 else 0)" for a
  proof -
    have "count (mset xs) a \<le> count (mset ys) a" by (rule mset_subset_eq_count [OF sub])
    also have "\<dots> \<le> 1" using d by (simp add: distinct_count_atmost_1)
    finally show ?thesis
      by (metis One_nat_def count_mset_0_iff le_Suc_eq le_zero_eq)
  qed
  then show ?thesis by (simp add: distinct_count_atmost_1)
qed

text \<open>
  C26.  Work distribution: whichever scheduler the configuration names, and in whatever order
  the workers of the SMs ask, no CTA of the launch is handed out twice and nothing else is
  handed out; when no worker can see any work, every CTA has been handed out.
\<close>

theorem ctas_served_once:
  assumes "create_cta_scheduler name sm_count = Some s"
    and "serve cta_try_acquire sms (cta_close (fold cta_submit (cta_items g) s)) = (s', served)"
  shows "distinct served \<and> set served \<subseteq> set (cta_items g) \<and>
    (if \<forall>sm. cta_visible sm s' = [] then mset served = mset (cta_items g) else True)"
proof -
  have s: "cta_wf (cta_close s)" "cta_items_of (cta_close s) = {#}"
    using create_cta_fresh [OF assms(1)] by simp_all
  have "mset served \<subseteq># mset (cta_items g) \<and>
      ((\<forall>sm. cta_visible sm s' = []) \<longrightarrow> mset served = mset (cta_items g))"
    by (rule cta.each_once [OF s]) (use assms(2) in \<open>simp add: fold_submit_close\<close>)
  moreover from this have "distinct served"
    using distinct_cta_items [of g] distinct_sub by blast
  moreover have "set served \<subseteq> set (cta_items g)" if "mset served \<subseteq># mset (cta_items g)"
    using set_mset_mono [OF that] by simp
  ultimately show ?thesis by (simp split: if_split)
qed

lemma ctas_served_once_witness:
  "(let g = \<lparr>dim_x = 3, dim_y = 1, dim_z = 1\<rparr>;
        run = serve cta_try_acquire [0, 1, 1, 0]
                (cta_close (fold cta_submit (cta_items g) (SmRoundRobin (rr_init 2))))
    in map it_cx (snd run) = [0, 1, 2] \<and> distinct (snd run) \<and> set (snd run) \<subseteq> set (cta_items g))"
proof -
  let ?g = "\<lparr>dim_x = 3, dim_y = 1, dim_z = 1\<rparr> :: dim3"
  let ?run = "serve cta_try_acquire [0, 1, 1, 0]
    (cta_close (fold cta_submit (cta_items ?g) (SmRoundRobin (rr_init 2))))"
  have "create_cta_scheduler ''sm_round_robin'' 2 = Some (SmRoundRobin (rr_init 2))"
    by (simp add: create_cta_scheduler_def)
  then have "distinct (snd ?run) \<and> set (snd ?run) \<subseteq> set (cta_items ?g)"
    using ctas_served_once [of _ _ _ "[0, 1, 1, 0]" ?g "fst ?run" "snd ?run"] by simp
  moreover have "map it_cx (snd ?run) = [0, 1, 2]" by code_simp
  ultimately show ?thesis by (simp add: Let_def)
qed

section \<open>The serial drain\<close>

lemma rr_single:
  "rr_wf s \<Longrightarrow> rs_count s = 1 \<Longrightarrow> \<exists>q. rs_q s = [q]"
  by (simp add: rr_wf_def length_Suc_conv)

fun cta_single :: "cta_sched \<Rightarrow> bool" where
  "cta_single (Fifo s) = (\<not> fs_stop s)"
| "cta_single (SmRoundRobin s) = (rr_wf s \<and> rs_count s = 1 \<and> \<not> rs_stop s)"

lemma word_mod_one: "(x :: u64) mod 1 = 0"
  by (simp add: word_arith_nat_mod)

lemma single_submit:
  "cta_single s \<Longrightarrow> cta_single (cta_submit it s) \<and> cta_visible 0 (cta_submit it s) = cta_visible 0 s @ [it]"
  by (cases s) (auto simp: fifo_submit_def rr_submit_def Let_def rr_wf_def word_mod_one dest: rr_single)

lemma single_submit_all:
  "cta_single s \<Longrightarrow> cta_single (fold cta_submit its s) \<and>
     cta_visible 0 (fold cta_submit its s) = cta_visible 0 s @ its"
  by (induction its arbitrary: s) (simp_all add: single_submit)

lemma single_acquire:
  assumes "cta_single s"
  shows "case cta_visible 0 s of
      [] \<Rightarrow> cta_try_acquire 0 s = (s, None)
    | it # q \<Rightarrow> \<exists>s'. cta_try_acquire 0 s = (s', Some it) \<and> cta_single s' \<and> cta_visible 0 s' = q"
  using assms
  by (cases s)
    (auto simp: cta_try_acquire_def fifo_acquire_def rr_acquire_def rr_wf_def Let_def word_mod_one
      length_Suc_conv split: list.split)

lemma single_serve:
  "cta_single s \<Longrightarrow> snd (serve cta_try_acquire (replicate k 0) s) = take k (cta_visible 0 s)"
proof (induction k arbitrary: s)
  case 0
  then show ?case by simp
next
  case (Suc k)
  show ?case
  proof (cases "cta_visible 0 s")
    case Nil
    then show ?thesis using single_acquire [OF Suc.prems] Suc.IH [OF Suc.prems] by simp
  next
    case (Cons it q)
    then obtain s' where "cta_try_acquire 0 s = (s', Some it)" "cta_single s'" "cta_visible 0 s' = q"
      using single_acquire [OF Suc.prems] by auto
    then show ?thesis using Suc.IH [of s'] Cons by (simp add: split_beta)
  qed
qed

text \<open>
  The serial executor asks as SM 0 of one: under either scheduler it is given the CTAs
  in the order of their linear numbers, and the \<open>i\<close>-th of them has number \<open>i\<close>.
\<close>

theorem serial_ctas_in_order:
  assumes "create_cta_scheduler name 1 = Some s"
  shows "snd (serve cta_try_acquire (replicate k 0) (cta_close (fold cta_submit (cta_items g) s)))
           = take k (cta_items g) \<and>
         map it_linear (cta_items g)
           = map of_nat [0..<unat (dim_z g) * (unat (dim_y g) * unat (dim_x g))]"
proof -
  have s: "cta_single s \<and> cta_visible 0 s = []"
    using assms by (auto simp: create_cta_scheduler_def fifo_init_def rr_init_def rr_wf_def Let_def
        split: if_splits)
  have "cta_single (cta_close t) = cta_single t" for t
    by (cases t) (simp_all add: fifo_close_def rr_close_def rr_wf_def)
  then show ?thesis
    using single_submit_all [of s "cta_items g"] s single_serve cta_linear_numbers by simp
qed

lemma serial_ctas_in_order_witness:
  "snd (serve cta_try_acquire (replicate 5 0)
      (cta_close (fold cta_submit (cta_items \<lparr>dim_x = 2, dim_y = 2, dim_z = 1\<rparr>) (Fifo fifo_init))))
    = take 5 (cta_items \<lparr>dim_x = 2, dim_y = 2, dim_z = 1\<rparr>)"
  using serial_ctas_in_order [of "''fifo''" "Fifo fifo_init" 5 "\<lparr>dim_x = 2, dim_y = 2, dim_z = 1\<rparr>"]
  by (simp add: create_cta_scheduler_def)

end
