(* ===== verification/ControlFlow.thy ===== *)
theory ControlFlow
  imports Instruction Memory
begin

text \<open>
  Reconvergence points of predicated branches, \<open>analyze_control_flow\<close>
  (\<open>src/simt/control_flow_analysis.cpp\<close>): the control-flow graph of a kernel, its
  post-dominator sets as bit sets over 64-bit words, computed by sweeps over the nodes until
  nothing changes, and the immediate post-dominator of each predicated branch.  The sweep
  limit of the code, four times the number of nodes plus 64, is the recursion depth of
  \<open>postdom_loop\<close>.
\<close>

section \<open>Kernel images\<close>

record kernel_image =
  k_name :: string
  k_reg_u32_count :: u32
  k_reg_u64_count :: u32
  k_params :: "param_desc list"
  k_insts :: "inst_record list"

section \<open>Bit sets\<close>

record bit_set =
  bs_n :: nat
  bs_w :: "u64 list"

definition bs_words :: "nat \<Rightarrow> nat" where
  "bs_words n = (n + 63) div 64"

definition bs_all :: "nat \<Rightarrow> bit_set" where
  "bs_all n =
     (let w = replicate (bs_words n) (0xFFFFFFFFFFFFFFFF :: u64)
      in \<lparr>bs_n = n,
          bs_w = (if w \<noteq> [] \<and> n mod 64 \<noteq> 0
                  then w[length w - 1 := last w AND (push_bit (n mod 64) 1 - 1)] else w)\<rparr>)"

definition bs_test :: "bit_set \<Rightarrow> nat \<Rightarrow> bool" where
  "bs_test b idx \<longleftrightarrow> (bs_w b ! (idx div 64)) AND push_bit (idx mod 64) 1 \<noteq> 0"

definition bs_set_bit :: "bit_set \<Rightarrow> nat \<Rightarrow> bit_set" where
  "bs_set_bit b idx =
     b\<lparr>bs_w := (bs_w b)[idx div 64 := (bs_w b ! (idx div 64)) OR push_bit (idx mod 64) 1]\<rparr>"

definition bs_singleton :: "nat \<Rightarrow> nat \<Rightarrow> bit_set" where
  "bs_singleton n idx = bs_set_bit \<lparr>bs_n = n, bs_w = replicate (bs_words n) 0\<rparr> idx"

definition bs_equals :: "bit_set \<Rightarrow> bit_set \<Rightarrow> bool" where
  "bs_equals a b \<longleftrightarrow> bs_n a = bs_n b \<and> bs_w a = bs_w b"

definition bs_iand :: "bit_set \<Rightarrow> bit_set \<Rightarrow> bit_set" where
  "bs_iand a b = a\<lparr>bs_w := map (\<lambda>i. (bs_w a ! i) AND (bs_w b ! i)) [0..<length (bs_w a)]\<rparr>"

text \<open>The set a bit set stands for; the unused bits of the last word are clear.\<close>

definition bs_elems :: "bit_set \<Rightarrow> nat set" where
  "bs_elems b = {i. i < bs_n b \<and> bit (bs_w b ! (i div 64)) (i mod 64)}"

definition bs_wf :: "nat \<Rightarrow> bit_set \<Rightarrow> bool" where
  "bs_wf n b \<longleftrightarrow> bs_n b = n \<and> length (bs_w b) = bs_words n \<and>
     (\<forall>k j. k < bs_words n \<longrightarrow> j < 64 \<longrightarrow> n \<le> 64 * k + j \<longrightarrow> \<not> bit (bs_w b ! k) j)"

lemma bs_words_bound: "i < n \<Longrightarrow> i div 64 < bs_words n"
proof -
  assume "i < n"
  then have "(i + 64) div 64 \<le> (n + 63) div 64" by (intro div_le_mono) simp
  then show ?thesis by (simp add: bs_words_def)
qed

lemma bs_words_eq: "bs_words n = n div 64 + (if n mod 64 = 0 then 0 else 1)"
proof -
  define q r where "q = n div 64" and "r = n mod 64"
  have n: "n = r + 64 * q" and r: "r < 64" by (simp_all add: q_def r_def)
  have "bs_words n = q + (r + 63) div 64"
  proof -
    have "n + 63 = (r + 63) + 64 * q" using n by simp
    then show ?thesis unfolding bs_words_def by (simp only: div_mult_self2)
  qed
  moreover have "(r + 63) div 64 = (if r = 0 then 0 else 1)"
    using r by (auto intro!: div_nat_eqI)
  ultimately show ?thesis by (simp add: q_def r_def)
qed

lemma bit_single [simp]: "bit (2 ^ j :: u64) k \<longleftrightarrow> k = j \<and> j < 64"
  by (auto simp: bit_exp_iff possible_bit_word)

lemma bit_and_single [simp]: "(w :: u64) AND 2 ^ j = 0 \<longleftrightarrow> \<not> bit w j"
proof
  assume "w AND 2 ^ j = 0"
  then have "\<not> bit (w AND 2 ^ j) j" by simp
  then show "\<not> bit w j" using bit_imp_le_length [of w j] by (auto simp: bit_and_iff)
next
  assume "\<not> bit w j"
  then show "w AND 2 ^ j = 0" by (intro bit_word_eqI) (auto simp: bit_and_iff)
qed

lemma bs_test_iff: "i < bs_n b \<Longrightarrow> bs_test b i \<longleftrightarrow> i \<in> bs_elems b"
  by (simp add: bs_test_def bs_elems_def)

lemma bs_wf_eqI:
  assumes "bs_wf n a" and "bs_wf n b" and "bs_elems a = bs_elems b"
  shows "a = b"
proof -
  have "bs_w a ! k = bs_w b ! k" if k: "k < bs_words n" for k
  proof (rule bit_word_eqI)
    fix j assume j: "j < LENGTH(64)"
    show "bit (bs_w a ! k) j = bit (bs_w b ! k) j"
    proof (cases "64 * k + j < n")
      case True
      have "(64 * k + j) div 64 = k" "(64 * k + j) mod 64 = j" using j by simp_all
      moreover have "64 * k + j \<in> bs_elems a \<longleftrightarrow> 64 * k + j \<in> bs_elems b" using assms(3) by simp
      ultimately show ?thesis using True assms(1,2) by (simp add: bs_elems_def bs_wf_def)
    next
      case False
      then show ?thesis using assms(1,2) k j by (simp add: bs_wf_def)
    qed
  qed
  moreover have "length (bs_w a) = length (bs_w b)" "length (bs_w a) = bs_words n"
    using assms by (simp_all add: bs_wf_def)
  ultimately have "bs_w a = bs_w b" by (intro nth_equalityI) simp_all
  moreover have "bs_n a = bs_n b" using assms by (simp add: bs_wf_def)
  ultimately show ?thesis by simp
qed

lemma bs_equals_iff:
  "bs_wf n a \<Longrightarrow> bs_wf n b \<Longrightarrow> bs_equals a b \<longleftrightarrow> bs_elems a = bs_elems b"
  by (metis bs_equals_def bs_wf_def bs_wf_eqI bit_set.equality unit.exhaust)

lemma bs_iand_wf: "bs_wf n a \<Longrightarrow> bs_wf n b \<Longrightarrow> bs_wf n (bs_iand a b)"
  by (auto simp: bs_wf_def bs_iand_def bit_and_iff)

lemma bs_iand_elems:
  "bs_wf n a \<Longrightarrow> bs_wf n b \<Longrightarrow> bs_elems (bs_iand a b) = bs_elems a \<inter> bs_elems b"
  by (auto simp: bs_wf_def bs_iand_def bs_elems_def bit_and_iff bs_words_bound)

lemma bs_set_bit_wf:
  assumes "bs_wf n b" and "i < n"
  shows "bs_wf n (bs_set_bit b i)"
proof -
  have "\<not> bit (bs_w (bs_set_bit b i) ! k) j"
    if "k < bs_words n" "j < 64" "n \<le> 64 * k + j" for k j
  proof -
    have "i \<noteq> 64 * k + j" using assms(2) that(3) by simp
    then have other: "\<not> (k = i div 64 \<and> j = i mod 64)" by auto
    have clear: "\<not> bit (bs_w b ! k) j" and len: "k < length (bs_w b)"
      using assms(1) that by (simp_all add: bs_wf_def)
    show ?thesis
    proof (cases "k = i div 64")
      case True
      then show ?thesis using other clear len by (simp add: bs_set_bit_def bit_or_iff)
    next
      case False
      then show ?thesis using clear by (simp add: bs_set_bit_def)
    qed
  qed
  then show ?thesis using assms(1) by (simp add: bs_wf_def bs_set_bit_def)
qed

lemma bs_set_bit_elems:
  assumes "bs_wf n b" and "i < n"
  shows "bs_elems (bs_set_bit b i) = insert i (bs_elems b)"
proof -
  have w: "i div 64 < length (bs_w b)" using assms bs_words_bound by (simp add: bs_wf_def)
  have "bit (bs_w (bs_set_bit b i) ! (k div 64)) (k mod 64) \<longleftrightarrow>
      k = i \<or> bit (bs_w b ! (k div 64)) (k mod 64)" for k
  proof (cases "k div 64 = i div 64")
    case True
    then have "k = i \<longleftrightarrow> k mod 64 = i mod 64" by (metis div_mult_mod_eq)
    then show ?thesis
      using True w by (auto simp: bs_set_bit_def bit_or_iff)
  next
    case False
    then show ?thesis by (auto simp: bs_set_bit_def)
  qed
  moreover have "bs_n b = n" using assms(1) by (simp add: bs_wf_def)
  ultimately show ?thesis using assms(2) by (auto simp: bs_elems_def bs_set_bit_def)
qed

lemma bs_empty: "bs_wf n \<lparr>bs_n = n, bs_w = replicate (bs_words n) 0\<rparr>"
    "bs_elems \<lparr>bs_n = n, bs_w = replicate (bs_words n) 0\<rparr> = {}"
  by (auto simp: bs_wf_def bs_elems_def bs_words_bound)

lemma bs_singleton_spec:
  assumes "i < n"
  shows "bs_wf n (bs_singleton n i)" "bs_elems (bs_singleton n i) = {i}"
  using bs_set_bit_wf [OF bs_empty(1) assms] bs_set_bit_elems [OF bs_empty(1) assms] bs_empty(2)
  by (simp_all add: bs_singleton_def)

lemma bs_all_word:
  assumes "k < bs_words n" and "j < 64"
  shows "bit (bs_w (bs_all n) ! k) j \<longleftrightarrow> 64 * k + j < n"
proof -
  have ones: "bit (0xFFFFFFFFFFFFFFFF :: u64) j"
  proof -
    have "(0xFFFFFFFFFFFFFFFF :: u64) = - 1" by simp
    then show ?thesis using assms(2) by (simp only: bit_minus_1_iff) simp
  qed
  have m: "bit (2 ^ (n mod 64) - 1 :: u64) j \<longleftrightarrow> j < n mod 64"
    using assms(2) by (simp flip: mask_eq_exp_minus_1 add: bit_mask_iff)
  have wn: "bs_words n \<noteq> 0" using assms(1) by simp
  show ?thesis
  proof (cases "n mod 64 \<noteq> 0 \<and> k = bs_words n - 1")
    case True
    then have "k = n div 64" by (simp add: bs_words_eq)
    then have "64 * k + j < n \<longleftrightarrow> j < n mod 64" using mult_div_mod_eq [of 64 n] by linarith
    then show ?thesis
      using True wn ones assms(2)
      by (simp add: bs_all_def Let_def m bit_and_iff bit_mask_iff last_replicate)
  next
    case False
    have "k < n div 64"
      using False assms(1) by (auto simp: bs_words_eq split: if_splits)
    then have "64 * k + j < n" using assms(2) mult_div_mod_eq [of 64 n] by linarith
    moreover have "bs_w (bs_all n) ! k = 0xFFFFFFFFFFFFFFFF"
      using False assms(1) by (auto simp: bs_all_def Let_def)
    ultimately show ?thesis using ones by simp
  qed
qed

lemma bs_all_spec: "bs_wf n (bs_all n)" "bs_elems (bs_all n) = {..<n}"
proof -
  have len: "bs_n (bs_all n) = n" "length (bs_w (bs_all n)) = bs_words n"
    by (simp_all add: bs_all_def Let_def)
  then show "bs_wf n (bs_all n)" by (auto simp: bs_wf_def bs_all_word)
  have "bit (bs_w (bs_all n) ! (i div 64)) (i mod 64)" if "i < n" for i
    using bs_all_word [OF bs_words_bound [OF that], of "i mod 64"] that by simp
  then show "bs_elems (bs_all n) = {..<n}" by (auto simp: bs_elems_def len)
qed

section \<open>The control-flow graph\<close>

record inst_ctrl_info =
  ci_has_bra :: bool
  ci_has_ret :: bool
  ci_predicated :: bool
  ci_target :: "pc_t option"

definition note_uop :: "micro_op \<Rightarrow> inst_ctrl_info \<Rightarrow> inst_ctrl_info" where
  "note_uop u info =
     (if u_kind u \<noteq> Control then info
      else if u_op u = Bra
      then info\<lparr>ci_has_bra := True,
                ci_target := (if length (u_inputs u) = 1 \<and> o_kind (u_inputs u ! 0) = KImm
                              then Some (o_imm (u_inputs u ! 0)) else ci_target info)\<rparr>
      else if u_op u = Ret then info\<lparr>ci_has_ret := True\<rparr>
      else info)"

definition classify_inst :: "descriptor_registry \<Rightarrow> u32 \<Rightarrow> inst_record \<Rightarrow> inst_ctrl_info option" where
  "classify_inst reg warp_size i =
     (case lookup_desc reg i of
        None \<Rightarrow> None
      | Some d \<Rightarrow>
          Some (fold note_uop (expand i d warp_size)
            \<lparr>ci_has_bra = False, ci_has_ret = False, ci_predicated = i_pred i \<noteq> None,
             ci_target = None\<rparr>))"

definition cfa_diag :: "string \<Rightarrow> string \<Rightarrow> string \<Rightarrow> source_location option \<Rightarrow> int option \<Rightarrow> diagnostic" where
  "cfa_diag fname code msg loc pc =
     (mk_diag ''simt'' code msg)\<lparr>d_location := loc, d_function := Some fname, d_inst_index := pc\<rparr>"

definition in_pc_range :: "int \<Rightarrow> nat \<Rightarrow> bool" where
  "in_pc_range t n \<longleftrightarrow> 0 \<le> t \<and> nat t < n"

text \<open>The successors of one instruction; \<open>n\<close> is the number of instructions and the exit node.\<close>

definition inst_succ ::
  "kernel_image \<Rightarrow> descriptor_registry \<Rightarrow> u32 \<Rightarrow> nat \<Rightarrow> diagnostic + nat list" where
  "inst_succ k reg warp_size pc =
     (let n = length (k_insts k);
          ft = (if pc + 1 < n then pc + 1 else n);
          bad = (\<lambda>msg. Inl (cfa_diag (k_name k) ''E_RECONV_INVALID'' msg
                   (i_dbg (k_insts k ! pc)) (Some (int pc))))
      in case classify_inst reg warp_size (k_insts k ! pc) of
           None \<Rightarrow> Inr [ft]
         | Some info \<Rightarrow>
             if ci_has_ret info then Inr [n]
             else if ci_has_bra info then
               (if ci_predicated info then
                  (case ci_target info of
                     None \<Rightarrow> bad ''BRA target is missing/invalid''
                   | Some t \<Rightarrow>
                       if \<not> in_pc_range t n then bad ''BRA target PC out of range''
                       else Inr [nat t, ft])
                else
                  (case ci_target info of
                     None \<Rightarrow> Inr [ft]
                   | Some t \<Rightarrow> Inr [if in_pc_range t n then nat t else n]))
             else Inr [ft])"

definition build_succ ::
  "kernel_image \<Rightarrow> descriptor_registry \<Rightarrow> u32 \<Rightarrow> diagnostic + nat list list" where
  "build_succ k reg warp_size =
     e_bind (map_e (inst_succ k reg warp_size) [0..<length (k_insts k)]) (\<lambda>ss. Inr (ss @ [[]]))"

section \<open>Post-dominators\<close>

definition postdom_init :: "nat \<Rightarrow> bit_set list" where
  "postdom_init n_insts =
     map (\<lambda>i. if i = n_insts then bs_singleton (n_insts + 1) n_insts else bs_all (n_insts + 1))
       [0..<n_insts + 1]"

definition node_set :: "nat list list \<Rightarrow> bit_set list \<Rightarrow> nat \<Rightarrow> nat \<Rightarrow> bit_set" where
  "node_set succ pd exit_node i =
     (let new_set =
        (case succ ! i of
           [] \<Rightarrow> pd ! exit_node
         | s # ss \<Rightarrow> fold (\<lambda>j b. bs_iand b (pd ! j)) ss (pd ! s))
      in bs_set_bit new_set i)"

definition sweep_node :: "nat list list \<Rightarrow> nat \<Rightarrow> nat \<Rightarrow> bit_set list \<times> bool \<Rightarrow> bit_set list \<times> bool" where
  "sweep_node succ exit_node i st =
     (case st of (pd, changed) \<Rightarrow>
        if i = exit_node then (pd, changed)
        else let new_set = node_set succ pd exit_node i
             in if bs_equals new_set (pd ! i) then (pd, changed) else (pd[i := new_set], True))"

definition sweep :: "nat list list \<Rightarrow> nat \<Rightarrow> bit_set list \<Rightarrow> bit_set list \<times> bool" where
  "sweep succ exit_node pd = fold (sweep_node succ exit_node) [0..<exit_node + 1] (pd, False)"

text \<open>\<open>None\<close>: the sweep limit was passed.\<close>

fun postdom_loop :: "nat list list \<Rightarrow> nat \<Rightarrow> nat \<Rightarrow> bit_set list \<Rightarrow> bit_set list option" where
  "postdom_loop succ exit_node 0 pd = None"
| "postdom_loop succ exit_node (Suc k) pd =
     (case sweep succ exit_node pd of
        (pd', True) \<Rightarrow> postdom_loop succ exit_node k pd'
      | (pd', False) \<Rightarrow> Some pd')"

definition sweep_limit :: "nat \<Rightarrow> nat" where
  "sweep_limit n_nodes = n_nodes * 4 + 64"

definition is_immediate :: "bit_set list \<Rightarrow> nat \<Rightarrow> nat \<Rightarrow> nat \<Rightarrow> bool" where
  "is_immediate pd n_nodes pc c \<longleftrightarrow>
     \<not> list_ex (\<lambda>d. d \<noteq> pc \<and> d \<noteq> c \<and> bs_test (pd ! pc) d \<and> bs_test (pd ! d) c) [0..<n_nodes]"

definition find_ipdom :: "bit_set list \<Rightarrow> nat \<Rightarrow> nat \<Rightarrow> nat option" where
  "find_ipdom pd n_nodes pc =
     find (\<lambda>c. c \<noteq> pc \<and> bs_test (pd ! pc) c \<and> is_immediate pd n_nodes pc c) [0..<n_nodes]"

definition inst_reconv ::
  "kernel_image \<Rightarrow> descriptor_registry \<Rightarrow> u32 \<Rightarrow> bit_set list \<Rightarrow> nat \<Rightarrow> diagnostic + pc_t option" where
  "inst_reconv k reg warp_size pd pc =
     (case classify_inst reg warp_size (k_insts k ! pc) of
        None \<Rightarrow> Inr None
      | Some info \<Rightarrow>
          if \<not> ci_has_bra info \<or> \<not> ci_predicated info then Inr None
          else case find_ipdom pd (length (k_insts k) + 1) pc of
                 None \<Rightarrow> Inl (cfa_diag (k_name k) ''E_RECONV_MISS'' ''missing ipdom for predicated BRA''
                               (i_dbg (k_insts k ! pc)) (Some (int pc)))
               | Some c \<Rightarrow> Inr (Some (int c)))"

text \<open>The reconvergence table, one entry for each instruction.\<close>

definition analyze_control_flow ::
  "kernel_image \<Rightarrow> descriptor_registry \<Rightarrow> u32 \<Rightarrow> diagnostic + pc_t option list" where
  "analyze_control_flow k reg warp_size =
     (let n = length (k_insts k)
      in e_bind (build_succ k reg warp_size) (\<lambda>succ.
         case postdom_loop succ n (sweep_limit (n + 1)) (postdom_init n) of
           None \<Rightarrow> Inl (cfa_diag (k_name k) ''E_RECONV_INVALID'' ''postdom did not converge'' None None)
         | Some pd \<Rightarrow> map_e (inst_reconv k reg warp_size pd) [0..<n]))"

section \<open>The specification\<close>

text \<open>
  \<open>avoids succ e c k i\<close>: the exit \<open>e\<close> can be reached from \<open>i\<close> in at most \<open>k\<close> steps without
  touching \<open>c\<close>.  A node post-dominates \<open>i\<close> when no such path exists.
\<close>

fun avoids :: "nat list list \<Rightarrow> nat \<Rightarrow> nat \<Rightarrow> nat \<Rightarrow> nat \<Rightarrow> bool" where
  "avoids succ e c 0 i = (i = e \<and> i \<noteq> c)"
| "avoids succ e c (Suc k) i =
     (i \<noteq> c \<and> (i = e \<or> list_ex (avoids succ e c k) (succ ! i)))"

definition postdominates :: "nat list list \<Rightarrow> nat \<Rightarrow> nat \<Rightarrow> nat \<Rightarrow> bool" where
  "postdominates succ e c i \<longleftrightarrow> (\<forall>k. \<not> avoids succ e c k i)"

definition graph_wf :: "nat list list \<Rightarrow> nat \<Rightarrow> bool" where
  "graph_wf succ e \<longleftrightarrow> length succ = e + 1 \<and>
     (\<forall>i < e. succ ! i \<noteq> [] \<and> (\<forall>j \<in> set (succ ! i). j \<le> e))"

lemma avoids_mono: "avoids succ e c k i \<Longrightarrow> k \<le> k' \<Longrightarrow> avoids succ e c k' i"
proof (induction k arbitrary: i k')
  case 0
  then show ?case by (cases k') auto
next
  case (Suc k)
  then obtain m where m: "k' = Suc m" "k \<le> m" by (cases k') auto
  then show ?case using Suc by (auto simp: list_ex_iff)
qed

lemma avoids_not_self: "\<not> avoids succ e c k c"
  by (cases k) auto

lemma postdominates_self: "postdominates succ e i i"
  by (simp add: postdominates_def avoids_not_self)

lemma postdominates_exit: "postdominates succ e c e \<longleftrightarrow> c = e"
proof
  assume "postdominates succ e c e"
  then have "\<not> avoids succ e c 0 e" unfolding postdominates_def by blast
  then show "c = e" by auto
qed (simp add: postdominates_self)

text \<open>The fixpoint equation of post-dominance.\<close>

lemma postdominates_step:
  assumes "i \<noteq> e"
  shows "postdominates succ e c i \<longleftrightarrow> c = i \<or> (\<forall>j \<in> set (succ ! i). postdominates succ e c j)"
proof
  assume pd: "postdominates succ e c i"
  have "postdominates succ e c j" if "c \<noteq> i" "j \<in> set (succ ! i)" for j
    unfolding postdominates_def
  proof
    fix k
    have "\<not> avoids succ e c (Suc k) i" using pd unfolding postdominates_def by blast
    then show "\<not> avoids succ e c k j" using that by (auto simp: list_ex_iff)
  qed
  then show "c = i \<or> (\<forall>j \<in> set (succ ! i). postdominates succ e c j)" by blast
next
  assume r: "c = i \<or> (\<forall>j \<in> set (succ ! i). postdominates succ e c j)"
  have "\<not> avoids succ e c k i" for k
    using r assms by (cases k) (auto simp: postdominates_def list_ex_iff)
  then show "postdominates succ e c i" by (simp add: postdominates_def)
qed

section \<open>Paths need no more steps than there are nodes\<close>

lemma chain_stabilises:
  fixes f :: "nat \<Rightarrow> 'a set"
  assumes "\<And>k. f k \<subseteq> f (Suc k)" and "\<And>k. f k \<subseteq> U" and "finite U" and "card U \<le> N"
    and "\<And>k. f k = f (Suc k) \<Longrightarrow> f (Suc k) = f (Suc (Suc k))"
  shows "f k \<subseteq> f N"
proof -
  have mono: "f i \<subseteq> f j" if "i \<le> j" for i j
    using that assms(1) by (rule lift_Suc_mono_le [of f, rotated])
  have stay: "f (i + j) = f i" if "f i = f (Suc i)" for i j
  proof -
    have "f (i + j) = f i \<and> f (i + j) = f (Suc (i + j))"
    proof (induction j)
      case 0
      then show ?case using that by simp
    next
      case (Suc j)
      then show ?case using assms(5) [of "i + j"] by (metis add_Suc_right)
    qed
    then show ?thesis by simp
  qed
  have grow: "j \<le> card (f j)" if "\<forall>i < j. f i \<noteq> f (Suc i)" for j
    using that
  proof (induction j)
    case 0
    then show ?case by simp
  next
    case (Suc j)
    have "f j \<subset> f (Suc j)" using Suc.prems assms(1) [of j] by blast
    then have "card (f j) < card (f (Suc j))"
      using assms(2,3) by (meson finite_subset psubset_card_mono)
    then show ?case using Suc by simp
  qed
  have "\<exists>i \<le> N. f i = f (Suc i)"
  proof (rule ccontr)
    assume "\<not> ?thesis"
    then have "\<forall>i < Suc N. f i \<noteq> f (Suc i)" by auto
    then have "Suc N \<le> card (f (Suc N))" by (rule grow)
    also have "\<dots> \<le> card U" by (rule card_mono [OF assms(3,2)])
    finally show False using assms(4) by simp
  qed
  then obtain i where i: "i \<le> N" "f i = f (Suc i)" by blast
  have "f k \<subseteq> f (i + k)" by (rule mono) simp
  also have "\<dots> = f i" by (rule stay [OF i(2)])
  also have "\<dots> \<subseteq> f N" by (rule mono [OF i(1)])
  finally show ?thesis .
qed

lemma avoids_bound:
  assumes "graph_wf succ e" and "avoids succ e c k i" and "i \<le> e"
  shows "avoids succ e c (e + 1) i"
proof -
  define f where "f k = {i. i \<le> e \<and> avoids succ e c k i}" for k
  have "f k \<subseteq> f (e + 1)"
  proof (rule chain_stabilises [where U = "{..e}"])
    fix k
    show "f k \<subseteq> f (Suc k)" using avoids_mono [of succ e c k _ "Suc k"] by (auto simp: f_def)
    show "f k \<subseteq> {..e}" by (auto simp: f_def)
    assume eq: "f k = f (Suc k)"
    have "avoids succ e c (Suc (Suc k)) i \<longleftrightarrow> avoids succ e c (Suc k) i" if "i \<le> e" for i
    proof (cases "i = e")
      case True
      then show ?thesis by simp
    next
      case False
      then have "i < e" using that by simp
      then have "\<forall>j \<in> set (succ ! i). j \<le> e" using assms(1) by (simp add: graph_wf_def)
      then have "\<forall>j \<in> set (succ ! i). avoids succ e c (Suc k) j \<longleftrightarrow> avoids succ e c k j"
        using eq unfolding f_def set_eq_iff by blast
      then show ?thesis using False by (simp add: list_ex_iff del: avoids.simps(2) add: avoids.simps(2) [of _ _ _ _ i])
    qed
    then show "f (Suc k) = f (Suc (Suc k))" by (auto simp: f_def simp del: avoids.simps)
  qed simp_all
  then show ?thesis using assms(2,3) by (auto simp: f_def simp del: avoids.simps)
qed

section \<open>The sweeps compute the post-dominators\<close>

definition pd_sound :: "nat list list \<Rightarrow> nat \<Rightarrow> bit_set list \<Rightarrow> bool" where
  "pd_sound succ e pd \<longleftrightarrow> length pd = e + 1 \<and> (\<forall>i \<le> e. bs_wf (e + 1) (pd ! i)) \<and>
     bs_elems (pd ! e) = {e} \<and>
     (\<forall>i \<le> e. \<forall>c \<le> e. postdominates succ e c i \<longrightarrow> c \<in> bs_elems (pd ! i))"

definition pd_upper :: "nat list list \<Rightarrow> nat \<Rightarrow> nat \<Rightarrow> bit_set list \<Rightarrow> nat \<Rightarrow> bool" where
  "pd_upper succ e k pd i \<longleftrightarrow> (\<forall>c \<in> bs_elems (pd ! i). \<not> avoids succ e c k i)"

definition pd_exact :: "nat list list \<Rightarrow> nat \<Rightarrow> bit_set list \<Rightarrow> bool" where
  "pd_exact succ e pd \<longleftrightarrow>
     (\<forall>i \<le> e. bs_elems (pd ! i) = {c. c \<le> e \<and> postdominates succ e c i})"

lemma bs_elems_bound: "bs_wf (e + 1) b \<Longrightarrow> c \<in> bs_elems b \<Longrightarrow> c \<le> e"
  by (auto simp: bs_wf_def bs_elems_def)

lemma fold_iand_spec:
  assumes "bs_wf n b" and "\<And>j. j \<in> set js \<Longrightarrow> bs_wf n (pd ! j)"
  shows "bs_wf n (fold (\<lambda>j b. bs_iand b (pd ! j)) js b) \<and>
    bs_elems (fold (\<lambda>j b. bs_iand b (pd ! j)) js b) = bs_elems b \<inter> (\<Inter>j \<in> set js. bs_elems (pd ! j))"
  using assms
proof (induction js arbitrary: b)
  case Nil
  then show ?case by simp
next
  case (Cons j js)
  then show ?case using bs_iand_wf [of n b "pd ! j"] bs_iand_elems [of n b "pd ! j"]
    by (simp add: Int_assoc)
qed

lemma node_set_spec:
  assumes "graph_wf succ e" and "pd_sound succ e pd" and "i < e"
  shows "bs_wf (e + 1) (node_set succ pd e i)"
    and "bs_elems (node_set succ pd e i) = insert i (\<Inter>j \<in> set (succ ! i). bs_elems (pd ! j))"
proof -
  obtain s ss where ss: "succ ! i = s # ss"
    using assms(1,3) by (cases "succ ! i") (auto simp: graph_wf_def)
  have wf: "bs_wf (e + 1) (pd ! j)" if "j \<in> set (s # ss)" for j
    using assms that by (auto simp: graph_wf_def pd_sound_def simp flip: ss)
  have spec: "bs_wf (e + 1) (fold (\<lambda>j b. bs_iand b (pd ! j)) ss (pd ! s))"
    "bs_elems (fold (\<lambda>j b. bs_iand b (pd ! j)) ss (pd ! s))
      = bs_elems (pd ! s) \<inter> (\<Inter>j \<in> set ss. bs_elems (pd ! j))"
    using fold_iand_spec [of "e + 1" "pd ! s" ss pd] wf by simp_all
  have "i < e + 1" using assms(3) by simp
  then show "bs_wf (e + 1) (node_set succ pd e i)"
    and "bs_elems (node_set succ pd e i) = insert i (\<Inter>j \<in> set (succ ! i). bs_elems (pd ! j))"
    using bs_set_bit_wf [OF spec(1)] bs_set_bit_elems [OF spec(1)] spec(2)
    by (simp_all add: node_set_def ss Let_def)
qed

lemma sweep_node_eq:
  assumes "graph_wf succ e" and "pd_sound succ e pd" and "i < e"
  shows "sweep_node succ e i (pd, ch) =
    (pd[i := node_set succ pd e i], ch \<or> node_set succ pd e i \<noteq> pd ! i)"
proof -
  have "bs_wf (e + 1) (pd ! i)" using assms(2,3) by (simp add: pd_sound_def)
  then have "bs_equals (node_set succ pd e i) (pd ! i) \<longleftrightarrow> node_set succ pd e i = pd ! i"
    using bs_equals_iff [OF node_set_spec(1) [OF assms]] bs_wf_eqI [OF node_set_spec(1) [OF assms]]
    by metis
  then show ?thesis using assms(3) by (auto simp: sweep_node_def Let_def)
qed

lemma node_update_sound:
  assumes "graph_wf succ e" and "pd_sound succ e pd" and "i < e"
  shows "pd_sound succ e (pd[i := node_set succ pd e i])"
proof -
  note spec = node_set_spec [OF assms]
  have in_range: "\<forall>j \<in> set (succ ! i). j \<le> e" using assms(1,3) by (simp add: graph_wf_def)
  have "c \<in> bs_elems (node_set succ pd e i)" if "c \<le> e" "postdominates succ e c i" for c
    using that assms(2,3) in_range postdominates_step [of i e succ c]
    by (auto simp: spec(2) pd_sound_def)
  then show ?thesis using assms(2,3) spec(1) by (auto simp: pd_sound_def nth_list_update)
qed

lemma node_update_upper:
  assumes "graph_wf succ e" and "pd_sound succ e pd" and "i < e"
    and "\<And>j. j \<le> e \<Longrightarrow> pd_upper succ e k pd j"
  shows "pd_upper succ e (Suc k) (pd[i := node_set succ pd e i]) i"
proof -
  have len: "i < length pd" using assms(2,3) by (simp add: pd_sound_def)
  have in_range: "\<forall>j \<in> set (succ ! i). j \<le> e" using assms(1,3) by (simp add: graph_wf_def)
  have "\<not> avoids succ e c (Suc k) i" if c: "c \<in> bs_elems (node_set succ pd e i)" for c
  proof (cases "c = i")
    case True
    then show ?thesis by (simp add: avoids_not_self del: avoids.simps)
  next
    case False
    then have "\<forall>j \<in> set (succ ! i). c \<in> bs_elems (pd ! j)"
      using c node_set_spec(2) [OF assms(1-3)] by auto
    then have "\<forall>j \<in> set (succ ! i). \<not> avoids succ e c k j"
      using assms(4) in_range by (auto simp: pd_upper_def)
    then show ?thesis using assms(3) by (auto simp: list_ex_iff)
  qed
  then show ?thesis using len by (simp add: pd_upper_def del: avoids.simps)
qed

lemma upper_antimono: "pd_upper succ e (Suc k) pd i \<Longrightarrow> pd_upper succ e k pd i"
  using avoids_mono [of succ e _ k i "Suc k"] by (auto simp: pd_upper_def simp del: avoids.simps)

text \<open>After the nodes below \<open>m\<close> have been visited, they are one step ahead of the others.\<close>

lemma sweep_prefix:
  assumes "graph_wf succ e" and "pd_sound succ e pd" and "\<And>j. j \<le> e \<Longrightarrow> pd_upper succ e k pd j"
    and "m \<le> e" and "fold (sweep_node succ e) [0..<m] (pd, False) = (pd', ch)"
  shows "pd_sound succ e pd' \<and> (\<forall>j < m. pd_upper succ e (Suc k) pd' j) \<and>
    (\<forall>j \<le> e. pd_upper succ e k pd' j) \<and>
    (\<not> ch \<longrightarrow> pd' = pd \<and> (\<forall>j < m. node_set succ pd e j = pd ! j))"
  using assms(4,5)
proof (induction m arbitrary: pd' ch)
  case 0
  then show ?case using assms(2,3) by simp
next
  case (Suc m)
  obtain pd1 ch1 where f: "fold (sweep_node succ e) [0..<m] (pd, False) = (pd1, ch1)" by fastforce
  have IH: "pd_sound succ e pd1" "\<And>j. j < m \<Longrightarrow> pd_upper succ e (Suc k) pd1 j"
    "\<And>j. j \<le> e \<Longrightarrow> pd_upper succ e k pd1 j"
    "\<not> ch1 \<Longrightarrow> pd1 = pd \<and> (\<forall>j < m. node_set succ pd e j = pd ! j)"
    using Suc.IH [OF _ f] Suc.prems(1) by auto
  have m: "m < e" using Suc.prems(1) by simp
  have res: "pd' = pd1[m := node_set succ pd1 e m]" "ch \<longleftrightarrow> ch1 \<or> node_set succ pd1 e m \<noteq> pd1 ! m"
    using Suc.prems(2) by (simp_all add: f sweep_node_eq [OF assms(1) IH(1) m])
  have new: "pd_upper succ e (Suc k) pd' m"
    using node_update_upper [OF assms(1) IH(1) m IH(3)] by (simp add: res)
  have same: "pd_upper succ e n pd' j = pd_upper succ e n pd1 j" if "j \<noteq> m" for n j
    using that by (simp add: pd_upper_def res)
  have "pd_sound succ e pd'" using node_update_sound [OF assms(1) IH(1) m] by (simp add: res)
  moreover have "pd_upper succ e (Suc k) pd' j" if "j < Suc m" for j
    using that new IH(2) same by (cases "j = m") auto
  moreover have "pd_upper succ e k pd' j" if "j \<le> e" for j
    using that upper_antimono [OF new] IH(3) same by (cases "j = m") auto
  moreover have "pd' = pd \<and> (\<forall>j < Suc m. node_set succ pd e j = pd ! j)" if "\<not> ch"
    using that IH(4) res by (auto simp: less_Suc_eq)
  ultimately show ?case by blast
qed

lemma sweep_split: "sweep succ e pd = sweep_node succ e e (fold (sweep_node succ e) [0..<e] (pd, False))"
  by (simp add: sweep_def)

lemma sweep_step:
  assumes "graph_wf succ e" and "pd_sound succ e pd" and "\<And>j. j \<le> e \<Longrightarrow> pd_upper succ e k pd j"
    and "sweep succ e pd = (pd', ch)"
  shows "pd_sound succ e pd' \<and> (\<forall>j \<le> e. pd_upper succ e (Suc k) pd' j) \<and>
    (\<not> ch \<longrightarrow> pd' = pd \<and> (\<forall>j < e. node_set succ pd e j = pd ! j))"
proof -
  have f: "fold (sweep_node succ e) [0..<e] (pd, False) = (pd', ch)"
    using assms(4) by (cases "fold (sweep_node succ e) [0..<e] (pd, False)")
      (simp add: sweep_split sweep_node_def)
  note pre = sweep_prefix [OF assms(1-3) le_refl f]
  have "pd_upper succ e (Suc k) pd' e" using pre by (auto simp: pd_upper_def pd_sound_def)
  then show ?thesis using pre by (metis le_neq_implies_less)
qed

lemma pd_exactI:
  assumes "pd_sound succ e pd"
    and "\<And>i c. i \<le> e \<Longrightarrow> c \<in> bs_elems (pd ! i) \<Longrightarrow> postdominates succ e c i"
  shows "pd_exact succ e pd"
  unfolding pd_exact_def
proof (intro allI impI set_eqI iffI)
  fix i c assume i: "i \<le> e"
  { assume c: "c \<in> bs_elems (pd ! i)"
    have "bs_wf (e + 1) (pd ! i)" using assms(1) i by (simp add: pd_sound_def)
    then have "c \<le> e" using c by (rule bs_elems_bound)
    then show "c \<in> {c. c \<le> e \<and> postdominates succ e c i}" using assms(2) [OF i c] by blast }
  { assume "c \<in> {c. c \<le> e \<and> postdominates succ e c i}"
    then show "c \<in> bs_elems (pd ! i)" using assms(1) i by (simp add: pd_sound_def) }
qed

text \<open>A sweep that changes nothing has reached the post-dominators.\<close>

lemma fixpoint_exact:
  assumes "graph_wf succ e" and "pd_sound succ e pd"
    and "\<forall>i < e. node_set succ pd e i = pd ! i"
  shows "pd_exact succ e pd"
proof -
  have in_range: "j \<le> e" if "i < e" "j \<in> set (succ ! i)" for i j
    using assms(1) that by (simp add: graph_wf_def)
  have elems: "bs_elems (pd ! i) = insert i (\<Inter>j \<in> set (succ ! i). bs_elems (pd ! j))" if "i < e" for i
    using node_set_spec(2) [OF assms(1,2) that] assms(3) that by simp
  have "\<not> avoids succ e c k i" if "i \<le> e" "c \<in> bs_elems (pd ! i)" for c k i
    using that
  proof (induction k arbitrary: i)
    case 0
    then show ?case using assms(2) by (auto simp: pd_sound_def)
  next
    case (Suc k)
    show ?case
    proof (cases "i = e")
      case True
      then show ?thesis using Suc.prems assms(2) by (auto simp: pd_sound_def)
    next
      case False
      then have i: "i < e" using Suc.prems by simp
      show ?thesis
        using Suc.prems(2) Suc.IH in_range [OF i] False unfolding elems [OF i]
        by (auto simp: list_ex_iff)
    qed
  qed
  then show ?thesis by (intro pd_exactI [OF assms(2)]) (simp add: postdominates_def)
qed

lemma upper_exact:
  assumes "graph_wf succ e" and "pd_sound succ e pd" and "\<And>j. j \<le> e \<Longrightarrow> pd_upper succ e k pd j"
    and "e + 1 \<le> k"
  shows "pd_exact succ e pd"
proof -
  have "\<not> avoids succ e c m i" if "i \<le> e" "c \<in> bs_elems (pd ! i)" for c i m
  proof -
    have "\<not> avoids succ e c k i" using assms(3) [OF that(1)] that(2) by (simp add: pd_upper_def)
    then have "\<not> avoids succ e c (e + 1) i" using avoids_mono [OF _ assms(4)] by blast
    then show ?thesis using avoids_bound [OF assms(1) _ that(1)] by blast
  qed
  then show ?thesis by (intro pd_exactI [OF assms(2)]) (simp add: postdominates_def)
qed

lemma exact_fixpoint:
  assumes "graph_wf succ e" and "pd_sound succ e pd" and "pd_exact succ e pd" and "i < e"
  shows "node_set succ pd e i = pd ! i"
proof (rule bs_wf_eqI)
  show "bs_wf (e + 1) (node_set succ pd e i)" by (rule node_set_spec(1) [OF assms(1,2,4)])
  show "bs_wf (e + 1) (pd ! i)" using assms(2,4) by (simp add: pd_sound_def)
  have in_range: "\<forall>j \<in> set (succ ! i). j \<le> e" and ne: "succ ! i \<noteq> []"
    using assms(1,4) by (simp_all add: graph_wf_def)
  have "bs_elems (node_set succ pd e i) = insert i (\<Inter>j \<in> set (succ ! i). {c. c \<le> e \<and> postdominates succ e c j})"
    using node_set_spec(2) [OF assms(1,2,4)] assms(3) in_range by (simp add: pd_exact_def)
  also have "\<dots> = {c. c \<le> e \<and> postdominates succ e c i}"
  proof -
    obtain s where "s \<in> set (succ ! i)" using ne by (cases "succ ! i") auto
    then show ?thesis using postdominates_step [of i e succ] assms(4) by auto
  qed
  also have "\<dots> = bs_elems (pd ! i)" using assms(3,4) by (simp add: pd_exact_def)
  finally show "bs_elems (node_set succ pd e i) = bs_elems (pd ! i)" .
qed

lemma exact_sweep:
  assumes "graph_wf succ e" and "pd_sound succ e pd" and "pd_exact succ e pd"
  shows "sweep succ e pd = (pd, False)"
proof -
  have "fold (sweep_node succ e) [0..<m] (pd, False) = (pd, False)" if "m \<le> e" for m
    using that
    by (induction m) (simp_all add: sweep_node_eq [OF assms(1,2)] exact_fixpoint [OF assms])
  then show ?thesis by (simp add: sweep_split sweep_node_def)
qed

lemma postdom_loop_converges:
  assumes "graph_wf succ e" and "pd_sound succ e pd" and "\<And>j. j \<le> e \<Longrightarrow> pd_upper succ e k pd j"
    and "e + 2 - k \<le> fuel" and "0 < fuel"
  shows "\<exists>pd'. postdom_loop succ e fuel pd = Some pd' \<and> pd_sound succ e pd' \<and> pd_exact succ e pd'"
  using assms(2-5)
proof (induction fuel arbitrary: pd k)
  case 0
  then show ?case by simp
next
  case (Suc fuel)
  obtain pd' ch where sw: "sweep succ e pd = (pd', ch)" by fastforce
  have step: "pd_sound succ e pd'" "\<And>j. j \<le> e \<Longrightarrow> pd_upper succ e (Suc k) pd' j"
    "\<not> ch \<Longrightarrow> pd' = pd \<and> (\<forall>j < e. node_set succ pd e j = pd ! j)"
    using sweep_step [OF assms(1) Suc.prems(1,2) sw] by auto
  show ?case
  proof (cases ch)
    case False
    then show ?thesis
      using fixpoint_exact [OF assms(1) Suc.prems(1)] step by (auto simp: sw)
  next
    case True
    have "\<not> e + 1 \<le> k"
    proof
      assume "e + 1 \<le> k"
      then have "pd_exact succ e pd" using upper_exact [OF assms(1) Suc.prems(1)] Suc.prems(2) by blast
      then show False using exact_sweep [OF assms(1) Suc.prems(1)] sw True by simp
    qed
    then have "e + 2 - Suc k \<le> fuel" "0 < fuel" using Suc.prems(3) by linarith+
    then show ?thesis using Suc.IH [OF step(1,2)] True by (simp add: sw)
  qed
qed

lemma postdom_init_sound:
  "pd_sound succ e (postdom_init e)" "j \<le> e \<Longrightarrow> pd_upper succ e 0 (postdom_init e) j"
proof -
  have nth: "postdom_init e ! i = (if i = e then bs_singleton (e + 1) e else bs_all (e + 1))"
    if "i \<le> e" for i
    using that unfolding postdom_init_def by (subst nth_map) (simp_all del: upt_Suc)
  have "length (postdom_init e) = e + 1" by (simp add: postdom_init_def)
  then show "pd_sound succ e (postdom_init e)"
    using bs_all_spec [of "e + 1"] bs_singleton_spec [of e "e + 1"] postdominates_exit
    by (simp add: pd_sound_def nth)
  show "j \<le> e \<Longrightarrow> pd_upper succ e 0 (postdom_init e) j"
    using bs_singleton_spec [of e "e + 1"] by (simp add: pd_upper_def nth)
qed

lemma postdom_loop_exact:
  assumes "graph_wf succ e"
  shows "\<exists>pd. postdom_loop succ e (sweep_limit (e + 1)) (postdom_init e) = Some pd \<and>
    pd_sound succ e pd \<and> pd_exact succ e pd"
  by (rule postdom_loop_converges [OF assms postdom_init_sound(1), of 0])
    (simp_all add: postdom_init_sound sweep_limit_def)

section \<open>The branch table\<close>

text \<open>
  The graph the code builds has a successor for every instruction and no edge that leaves
  the kernel, so the sweeps always end within the limit.
\<close>

lemma inst_succ_range:
  assumes "inst_succ k reg ws pc = Inr ss" and "pc < length (k_insts k)"
  shows "ss \<noteq> [] \<and> (\<forall>j \<in> set ss. j \<le> length (k_insts k))"
  using assms
  by (auto simp: inst_succ_def in_pc_range_def Let_def split: option.splits if_splits)

lemma build_succ_wf:
  assumes "build_succ k reg ws = Inr succ"
  shows "graph_wf succ (length (k_insts k)) \<and>
    (\<forall>pc < length (k_insts k). inst_succ k reg ws pc = Inr (succ ! pc))"
proof -
  let ?n = "length (k_insts k)"
  obtain ss where ss: "map_e (inst_succ k reg ws) [0..<?n] = Inr ss" and succ: "succ = ss @ [[]]"
    using assms by (auto simp: build_succ_def e_bind_Inr_iff)
  then have m: "map (inst_succ k reg ws) [0..<?n] = map Inr ss" by (simp only: map_e_Inr_iff)
  then have len: "length ss = ?n" by (metis length_map length_upt minus_nat.diff_0)
  have nth: "inst_succ k reg ws pc = Inr (ss ! pc)" if "pc < ?n" for pc
    using arg_cong [OF m, of "\<lambda>l. l ! pc"] that len by simp
  then have "ss ! pc \<noteq> [] \<and> (\<forall>j \<in> set (ss ! pc). j \<le> ?n)" if "pc < ?n" for pc
    using inst_succ_range that by blast
  then show ?thesis using nth len by (simp add: graph_wf_def succ nth_append)
qed

text \<open>
  An immediate post-dominator: it post-dominates, it is not the node itself, and every other
  strict post-dominator of the node post-dominates it.
\<close>

definition immediate_postdom :: "nat list list \<Rightarrow> nat \<Rightarrow> nat \<Rightarrow> nat \<Rightarrow> bool" where
  "immediate_postdom succ e pc c \<longleftrightarrow>
     c \<noteq> pc \<and> c \<le> e \<and> postdominates succ e c pc \<and>
     (\<forall>d \<le> e. d \<noteq> pc \<longrightarrow> postdominates succ e d pc \<longrightarrow> postdominates succ e d c)"

fun reaches :: "nat list list \<Rightarrow> nat \<Rightarrow> nat \<Rightarrow> nat \<Rightarrow> bool" where
  "reaches succ e 0 i = (i = e)"
| "reaches succ e (Suc k) i = (i = e \<or> list_ex (reaches succ e k) (succ ! i))"

definition reaches_exit :: "nat list list \<Rightarrow> nat \<Rightarrow> nat \<Rightarrow> bool" where
  "reaches_exit succ e i \<longleftrightarrow> (\<exists>k. reaches succ e k i)"

text \<open>A path that avoids \<open>c\<close> but not \<open>d\<close> goes through \<open>d\<close>, and its rest still avoids \<open>c\<close>.\<close>

lemma avoids_through:
  assumes "avoids succ e c k i" and "\<not> avoids succ e d k i"
  shows "\<exists>m. avoids succ e c m d"
  using assms
proof (induction k arbitrary: i)
  case 0
  then have "avoids succ e c 0 d" by auto
  then show ?case by blast
next
  case (Suc k)
  show ?case
  proof (cases "i = d")
    case True
    then show ?thesis using Suc.prems(1) by blast
  next
    case False
    then have "i \<noteq> e" using Suc.prems(2) by auto
    then obtain j where "j \<in> set (succ ! i)" "avoids succ e c k j"
      using Suc.prems(1) by (auto simp: list_ex_iff)
    moreover from this have "\<not> avoids succ e d k j"
      using Suc.prems(2) False by (auto simp: list_ex_iff)
    ultimately show ?thesis using Suc.IH by blast
  qed
qed

lemma reaches_through:
  assumes "reaches succ e k i" and "\<not> avoids succ e d k i"
  shows "\<exists>m \<le> k. reaches succ e m d \<and> (i \<noteq> d \<longrightarrow> m < k)"
  using assms
proof (induction k arbitrary: i)
  case 0
  then show ?case by auto
next
  case (Suc k)
  show ?case
  proof (cases "i = d")
    case True
    then show ?thesis using Suc.prems(1) by blast
  next
    case False
    then have "i \<noteq> e" using Suc.prems(2) by auto
    then obtain j where "j \<in> set (succ ! i)" "reaches succ e k j"
      using Suc.prems(1) by (auto simp: list_ex_iff)
    moreover from this have "\<not> avoids succ e d k j"
      using Suc.prems(2) False by (auto simp: list_ex_iff)
    ultimately obtain m where "m \<le> k" "reaches succ e m d" using Suc.IH by blast
    then show ?thesis by (intro exI [of _ m]) simp
  qed
qed

lemma postdominates_trans:
  "postdominates succ e c d \<Longrightarrow> postdominates succ e d i \<Longrightarrow> postdominates succ e c i"
  unfolding postdominates_def using avoids_through by blast

lemma postdom_reaches:
  "postdominates succ e d i \<Longrightarrow> reaches_exit succ e i \<Longrightarrow> reaches_exit succ e d"
  unfolding postdominates_def reaches_exit_def using reaches_through by blast

lemma postdominates_antisym:
  assumes "postdominates succ e c d" and "postdominates succ e d c" and "reaches_exit succ e d"
  shows "c = d"
proof (rule ccontr)
  assume ne: "c \<noteq> d"
  define k where "k = (LEAST k. reaches succ e k d)"
  have k: "reaches succ e k d"
    unfolding k_def using assms(3) by (auto simp: reaches_exit_def intro: LeastI_ex)
  obtain m where m: "m < k" "reaches succ e m c"
    using reaches_through [OF k, of c] assms(1) ne by (auto simp: postdominates_def)
  obtain l where l: "l < m" "reaches succ e l d"
    using reaches_through [OF m(2), of d] assms(2) ne by (auto simp: postdominates_def)
  have "k \<le> l" unfolding k_def by (rule Least_le) (rule l(2))
  then show False using m(1) l(1) by simp
qed

lemma avoids_one_of:
  assumes "reaches succ e k i" and "avoids succ e c m d" and "avoids succ e d m' c" and "c \<noteq> d"
  shows "\<exists>n. avoids succ e c n i \<or> avoids succ e d n i"
  using assms(1)
proof (induction k arbitrary: i)
  case 0
  then have "avoids succ e c 0 i \<or> avoids succ e d 0 i" using assms(4) by auto
  then show ?case by blast
next
  case (Suc k)
  consider "i = e" | "i = c" | "i = d" | "i \<noteq> e" "i \<noteq> c" "i \<noteq> d" by blast
  then show ?case
  proof cases
    case 1
    then have "avoids succ e c 0 i \<or> avoids succ e d 0 i" using assms(4) by auto
    then show ?thesis by blast
  next
    case 4
    then obtain j where j: "j \<in> set (succ ! i)" "reaches succ e k j"
      using Suc.prems by (auto simp: list_ex_iff)
    then obtain n where "avoids succ e c n j \<or> avoids succ e d n j" using Suc.IH by blast
    then have "avoids succ e c (Suc n) i \<or> avoids succ e d (Suc n) i"
      using 4 j(1) by (auto simp: list_ex_iff)
    then show ?thesis by blast
  qed (use assms(2,3) in blast)+
qed

lemma postdominates_linear:
  assumes "postdominates succ e c i" and "postdominates succ e d i" and "reaches_exit succ e i"
  shows "postdominates succ e c d \<or> postdominates succ e d c"
proof (rule ccontr)
  assume no: "\<not> ?thesis"
  then obtain m m' where "avoids succ e c m d" "avoids succ e d m' c"
    by (auto simp: postdominates_def)
  moreover have "c \<noteq> d" using no postdominates_self by blast
  ultimately show False
    using assms avoids_one_of [of succ e _ i c m d m'] by (auto simp: postdominates_def reaches_exit_def)
qed

lemma nearest_exists:
  assumes "reaches_exit succ e pc" and "pc < e"
  shows "\<exists>c \<le> e. c \<noteq> pc \<and> postdominates succ e c pc \<and>
    (\<forall>d \<le> e. d \<noteq> pc \<longrightarrow> d \<noteq> c \<longrightarrow> postdominates succ e d pc \<longrightarrow> \<not> postdominates succ e c d)"
proof -
  define S where "S = {c. c \<le> e \<and> c \<noteq> pc \<and> postdominates succ e c pc}"
  have fin: "finite S" unfolding S_def by (rule finite_subset [of _ "{..e}"]) auto
  have "postdominates succ e e pc"
    unfolding postdominates_def
  proof
    show "\<not> avoids succ e e k pc" for k
    proof (induction k arbitrary: pc)
      case (Suc k)
      then show ?case by (auto simp: list_ex_iff)
    qed simp
  qed
  then have "e \<in> S" using assms(2) by (simp add: S_def)
  define f where "f c = card {d \<in> S. postdominates succ e c d}" for c
  obtain c where c: "c \<in> S" "\<And>d. d \<in> S \<Longrightarrow> f c \<le> f d"
    using ex_has_least_nat [of "\<lambda>x. x \<in> S" e f] \<open>e \<in> S\<close> by blast
  have "\<not> postdominates succ e c d" if d: "d \<in> S" "d \<noteq> c" for d
  proof
    assume cd: "postdominates succ e c d"
    have "reaches_exit succ e d" using postdom_reaches assms(1) d(1) by (auto simp: S_def)
    then have "\<not> postdominates succ e d c" using postdominates_antisym [OF cd] d(2) by blast
    then have "{x \<in> S. postdominates succ e d x} \<subset> {x \<in> S. postdominates succ e c x}"
      using postdominates_trans [OF cd] c(1) postdominates_self by blast
    then have "f d < f c" unfolding f_def using fin by (intro psubset_card_mono) auto
    then show False using c(2) [OF d(1)] by simp
  qed
  then show ?thesis using c(1) by (auto simp: S_def)
qed

lemma find_ipdom_immediate:
  assumes "pd_sound succ e pd" and "pd_exact succ e pd" and "pc < e" and "reaches_exit succ e pc"
  shows "\<exists>c. find_ipdom pd (e + 1) pc = Some c \<and> immediate_postdom succ e pc c"
proof -
  have n: "bs_n (pd ! i) = e + 1" if "i \<le> e" for i
    using assms(1) that by (simp add: pd_sound_def bs_wf_def)
  have test: "bs_test (pd ! i) c \<longleftrightarrow> postdominates succ e c i" if "i \<le> e" "c \<le> e" for i c
    using bs_test_iff [of c "pd ! i"] n assms(2) that by (simp add: pd_exact_def)
  let ?P = "\<lambda>c. c \<noteq> pc \<and> bs_test (pd ! pc) c \<and> is_immediate pd (e + 1) pc c"
  have P: "?P c \<longleftrightarrow> c \<noteq> pc \<and> postdominates succ e c pc \<and>
      (\<forall>d \<le> e. d \<noteq> pc \<longrightarrow> d \<noteq> c \<longrightarrow> postdominates succ e d pc \<longrightarrow> \<not> postdominates succ e c d)"
    if "c \<le> e" for c
    using that assms(3) test by (auto simp: is_immediate_def list_ex_iff less_Suc_eq_le)
  obtain c0 where "c0 \<le> e" "?P c0" using nearest_exists [OF assms(4,3)] P by blast
  then have "find ?P [0..<e + 1] \<noteq> None" by (auto simp: find_None_iff)
  then obtain c where c: "find ?P [0..<e + 1] = Some c" by blast
  then have ce: "c \<le> e" and Pc: "?P c" by (auto simp: find_Some_iff nth_append less_Suc_eq_le)
  have "postdominates succ e d c" if "d \<le> e" "d \<noteq> pc" "postdominates succ e d pc" for d
  proof (cases "d = c")
    case False
    then have "\<not> postdominates succ e c d" using Pc P [OF ce] that by blast
    then show ?thesis
      using postdominates_linear [OF _ that(3) assms(4)] Pc P [OF ce] by blast
  qed (simp add: postdominates_self)
  then have "immediate_postdom succ e pc c"
    using Pc P [OF ce] ce by (simp add: immediate_postdom_def)
  then show ?thesis using c by (simp add: find_ipdom_def)
qed

section \<open>Properties\<close>

definition splits :: "kernel_image \<Rightarrow> descriptor_registry \<Rightarrow> u32 \<Rightarrow> nat \<Rightarrow> bool" where
  "splits k reg ws pc =
     (case classify_inst reg ws (k_insts k ! pc) of
        None \<Rightarrow> False
      | Some info \<Rightarrow> ci_has_bra info \<and> ci_predicated info)"

lemma analysis_unfold:
  assumes "build_succ k reg ws = Inr succ"
  shows "\<exists>pd. pd_sound succ (length (k_insts k)) pd \<and> pd_exact succ (length (k_insts k)) pd \<and>
    analyze_control_flow k reg ws = map_e (inst_reconv k reg ws pd) [0..<length (k_insts k)]"
proof -
  obtain pd where "postdom_loop succ (length (k_insts k)) (sweep_limit (length (k_insts k) + 1))
      (postdom_init (length (k_insts k))) = Some pd"
    "pd_sound succ (length (k_insts k)) pd" "pd_exact succ (length (k_insts k)) pd"
    using postdom_loop_exact build_succ_wf [OF assms] by blast
  then show ?thesis using assms by (auto simp: analyze_control_flow_def Let_def)
qed

text \<open>
  The analysis always converges: for every kernel and descriptor table, the sweep limit
  of four times the number of nodes plus 64 is enough and the error of the code for passing
  it is never reported.
\<close>

theorem postdom_always_converges:
  "analyze_control_flow k reg ws \<noteq>
     Inl (cfa_diag (k_name k) ''E_RECONV_INVALID'' ''postdom did not converge'' None None)"
proof (cases "build_succ k reg ws")
  case (Inl d)
  have "d_inst_index d \<noteq> None"
  proof -
    have "map_e (inst_succ k reg ws) pcs = Inl d \<Longrightarrow> \<exists>pc. inst_succ k reg ws pc = Inl d" for pcs
      by (induction pcs) (auto simp: e_bind_Inl_iff)
    then obtain pc where "inst_succ k reg ws pc = Inl d"
      using Inl by (auto simp: build_succ_def e_bind_Inl_iff)
    then show ?thesis
      by (auto simp: inst_succ_def cfa_diag_def Let_def split: option.splits if_splits)
  qed
  then show ?thesis using Inl by (auto simp: analyze_control_flow_def cfa_diag_def Let_def)
next
  case (Inr succ)
  then obtain pd where a: "analyze_control_flow k reg ws
      = map_e (inst_reconv k reg ws pd) [0..<length (k_insts k)]"
    using analysis_unfold by blast
  have "map_e (inst_reconv k reg ws pd) pcs = Inl d \<Longrightarrow> d_inst_index d \<noteq> None" for pcs d
    by (induction pcs)
      (auto simp: e_bind_Inl_iff inst_reconv_def cfa_diag_def split: option.splits if_splits)
  then show ?thesis unfolding a by (fastforce simp: cfa_diag_def)
qed

text \<open>
  C5.  The reconvergence table is correct: when every predicated branch of the kernel can
  reach the end, the analysis succeeds; the entry of such a branch is its immediate
  post-dominator, that is, a different node that lies on every path from the branch to the
  end, before every other such node; every other entry is empty.
\<close>

theorem reconvergence_table_correct:
  assumes "build_succ k reg ws = Inr succ"
    and "\<And>pc. pc < length (k_insts k) \<Longrightarrow> splits k reg ws pc \<Longrightarrow>
           reaches_exit succ (length (k_insts k)) pc"
  shows "\<exists>table. analyze_control_flow k reg ws = Inr table \<and> length table = length (k_insts k) \<and>
    (\<forall>pc < length (k_insts k).
       if splits k reg ws pc
       then \<exists>c. table ! pc = Some (int c) \<and> immediate_postdom succ (length (k_insts k)) pc c
       else table ! pc = None)"
proof -
  let ?n = "length (k_insts k)"
  obtain pd where pd: "pd_sound succ ?n pd" "pd_exact succ ?n pd"
    and a: "analyze_control_flow k reg ws = map_e (inst_reconv k reg ws pd) [0..<?n]"
    using analysis_unfold [OF assms(1)] by blast
  have entry: "\<exists>x. inst_reconv k reg ws pd pc = Inr x \<and>
      (if splits k reg ws pc then \<exists>c. x = Some (int c) \<and> immediate_postdom succ ?n pc c else x = None)"
    if pc: "pc < ?n" for pc
  proof (cases "splits k reg ws pc")
    case True
    obtain c where "find_ipdom pd (?n + 1) pc = Some c" "immediate_postdom succ ?n pc c"
      using find_ipdom_immediate [OF pd pc assms(2) [OF pc True]] by blast
    then show ?thesis
      using True by (auto simp: inst_reconv_def splits_def split: option.splits)
  next
    case False
    then show ?thesis by (auto simp: inst_reconv_def splits_def split: option.splits)
  qed
  define row where "row pc = (case inst_reconv k reg ws pd pc of Inr x \<Rightarrow> x | Inl _ \<Rightarrow> None)" for pc
  have row: "inst_reconv k reg ws pd pc = Inr (row pc)" if "pc < ?n" for pc
    using entry [OF that] by (auto simp: row_def)
  have "map (inst_reconv k reg ws pd) [0..<?n] = map Inr (map row [0..<?n])" using row by simp
  then have "analyze_control_flow k reg ws = Inr (map row [0..<?n])"
    unfolding a by (simp only: map_e_Inr_iff)
  moreover have "if splits k reg ws pc
      then \<exists>c. row pc = Some (int c) \<and> immediate_postdom succ ?n pc c else row pc = None"
    if "pc < ?n" for pc
    using entry [OF that] row [OF that] by simp
  ultimately show ?thesis by simp
qed

text \<open>
  A diamond: a predicated branch to 3 over the fall-through 1, 2, which jumps to 4; the two
  sides meet at 4.
\<close>

definition demo_descs :: descriptor_registry where
  "demo_descs =
     [\<lparr>d_opcode = ''bra'', d_type_mod = [], d_operand_kinds = [''imm''],
       d_uops = [\<lparr>t_kind = Control, t_op = Bra, t_in = [0], t_out = []\<rparr>]\<rparr>,
      \<lparr>d_opcode = ''ret'', d_type_mod = [], d_operand_kinds = [],
       d_uops = [\<lparr>t_kind = Control, t_op = Ret, t_in = [], t_out = []\<rparr>]\<rparr>,
      \<lparr>d_opcode = ''mov'', d_type_mod = ''u32'', d_operand_kinds = [''reg'', ''imm''],
       d_uops = [\<lparr>t_kind = Exec, t_op = Mov, t_in = [1], t_out = [0]\<rparr>]\<rparr>]"

definition demo_inst :: "string \<Rightarrow> pred_guard option \<Rightarrow> operand list \<Rightarrow> inst_record" where
  "demo_inst opc pg ops =
     \<lparr>i_opcode = opc, i_mods = \<lparr>m_type_mod = ''u32'', m_space = [], m_flags = []\<rparr>,
      i_pred = pg, i_operands = ops, i_dbg = None\<rparr>"

definition demo_imm :: "int \<Rightarrow> operand" where
  "demo_imm i = operand_default\<lparr>o_imm := i\<rparr>"

definition demo_reg :: operand where
  "demo_reg = operand_default\<lparr>o_kind := KReg, o_reg_id := 0\<rparr>"

definition demo_kernel :: kernel_image where
  "demo_kernel =
     \<lparr>k_name = ''diamond'', k_reg_u32_count = 1, k_reg_u64_count = 0, k_params = [],
      k_insts =
        [demo_inst ''bra'' (Some \<lparr>pg_pred_id = 0, pg_negated = False\<rparr>) [demo_imm 3],
         demo_inst ''mov'' None [demo_reg, demo_imm 1],
         demo_inst ''bra'' None [demo_imm 4],
         demo_inst ''mov'' None [demo_reg, demo_imm 2],
         demo_inst ''ret'' None []]\<rparr>"

lemma demo_succ: "build_succ demo_kernel demo_descs 4 = Inr [[3, 1], [2], [4], [4], [5], []]"
  by code_simp

lemma reconvergence_table_correct_witness:
  "\<exists>table c. analyze_control_flow demo_kernel demo_descs 4 = Inr table \<and>
     table ! 0 = Some (int c) \<and>
     immediate_postdom [[3, 1], [2], [4], [4], [5], []] 5 0 c"
proof -
  have n: "length (k_insts demo_kernel) = 5" by (simp add: demo_kernel_def)
  have "reaches [[3, 1], [2], [4], [4], [5], []] 5 4 pc" if "pc < 5" for pc
  proof -
    have "list_all (reaches [[3, 1], [2], [4], [4], [5], []] 5 4) [0, 1, 2, 3, 4]" by code_simp
    then show ?thesis using that by (auto simp: less_Suc_eq numeral_eq_Suc)
  qed
  then have r: "reaches_exit [[3, 1], [2], [4], [4], [5], []] 5 pc" if "pc < 5" for pc
    using that by (auto simp: reaches_exit_def)
  have "splits demo_kernel demo_descs 4 0" by code_simp
  then show ?thesis
    using reconvergence_table_correct [OF demo_succ] r unfolding n by fastforce
qed

end
