(* ===== verification/SimtStack.thy ===== *)
theory SimtStack
  imports Warp
begin

text \<open>
  Lane mask arithmetic of the SIMT executor and the normalisation of a warp's SIMT stack, the
  lambda \<open>normalize_stack\<close> of \<open>SimtExecutor::run\<close> (\<open>src/simt/simt.cpp\<close>): pop what has no
  lanes left, merge a path that has arrived at its reconvergence point into the nearest join
  frame for it, turn a join frame that has come to the top into a path.

  The trace events it emits are collected in order as \<open>ctrl_note\<close>s; the executor stamps them.
\<close>

section \<open>Masks\<close>

definition lane_mask_prefix :: "u32 \<Rightarrow> u32 \<Rightarrow> lane_mask" where
  "lane_mask_prefix warp_size lanes_on =
     \<lparr>lm_width = warp_size,
      lm_bits =
        (if warp_size = 0 then 0
         else if lanes_on \<ge> 32 then 0xFFFFFFFF
         else if lanes_on = 0 then 0
         else push_bit (unat lanes_on) 1 - 1)\<rparr>"

definition lane_mask_or_same_width :: "lane_mask \<Rightarrow> lane_mask \<Rightarrow> lane_mask" where
  "lane_mask_or_same_width a b = \<lparr>lm_width = lm_width a, lm_bits = lm_bits a OR lm_bits b\<rparr>"

definition lane_mask_not_width :: "lane_mask \<Rightarrow> lane_mask" where
  "lane_mask_not_width m =
     (if lm_width m \<ge> 32 then \<lparr>lm_width = lm_width m, lm_bits = NOT (lm_bits m)\<rparr>
      else let msk = (if lm_width m = 0 then 0 else push_bit (unat (lm_width m)) 1 - 1)
           in \<lparr>lm_width = lm_width m, lm_bits = NOT (lm_bits m) AND msk\<rparr>)"

definition lane_mask_empty :: "lane_mask \<Rightarrow> bool" where
  "lane_mask_empty m \<longleftrightarrow> lm_bits m = 0"

lemma lane_mask_widths [simp]:
  "lm_width (lane_mask_prefix ws n) = ws"
  "lm_width (lane_mask_or_same_width a b) = lm_width a"
  "lm_width (lane_mask_not_width a) = lm_width a"
  by (simp_all add: lane_mask_prefix_def lane_mask_or_same_width_def lane_mask_not_width_def Let_def)

lemma lanes_of_or [mask_simps]: "lanes_of (lane_mask_or_same_width a b) = lanes_of a \<union> lanes_of b"
  by (auto simp: lanes_of_def lane_mask_or_same_width_def bit_or_iff)

lemma lane_mask_empty_iff [mask_simps]: "lane_mask_empty m \<longleftrightarrow> lanes_of m = {}"
  by (simp add: lane_mask_empty_def lanes_of_empty_iff)

lemma lanes_of_not [mask_simps]:
  "lanes_of (lane_mask_not_width m) = {l. l < unat (lm_width m) \<and> l < 32} - lanes_of m"
proof (cases "lm_width m \<ge> 32")
  case True
  then have le: "32 \<le> unat (lm_width m)" by (simp add: word_le_nat_alt)
  have bits: "lm_bits (lane_mask_not_width m) = NOT (lm_bits m)"
    using True by (simp only: lane_mask_not_width_def if_True lane_mask.select_convs)
  have b: "bit (lm_bits (lane_mask_not_width m)) l \<longleftrightarrow> l < 32 \<and> \<not> bit (lm_bits m) l" for l
    unfolding bits bit_not_iff possible_bit_word by simp
  have "l < unat (lm_width m) \<and> l < 32 \<longleftrightarrow> l < 32" for l using le by linarith
  then show ?thesis unfolding lanes_of_def b by blast
next
  case False
  show ?thesis
  proof (cases "lm_width m = 0")
    case True
    then show ?thesis by (simp add: lane_mask_not_width_def lanes_of_def)
  next
    case nz: False
    have bits: "lm_bits (lane_mask_not_width m)
        = NOT (lm_bits m) AND (push_bit (unat (lm_width m)) 1 - 1)"
      by (simp only: lane_mask_not_width_def False nz if_False Let_def lane_mask.select_convs)
    have "bit (lm_bits (lane_mask_not_width m)) l \<longleftrightarrow>
        (l < unat (lm_width m) \<and> l < 32) \<and> \<not> bit (lm_bits m) l" for l
      unfolding bits bit_and_iff bit_low_ones by (auto simp: bit_not_iff possible_bit_word)
    then show ?thesis by (auto simp: lanes_of_def)
  qed
qed

lemma lanes_of_prefix [mask_simps]:
  "ws \<noteq> 0 \<Longrightarrow> lanes_of (lane_mask_prefix ws n) = {l. l < unat n \<and> l < 32}"
proof -
  assume nz: "ws \<noteq> 0"
  have "lanes_of (lane_mask_prefix ws n) = lanes_of (lane_mask_all n)"
    using nz by (simp add: lanes_of_def lane_mask_prefix_def lane_mask_all_def)
  then show ?thesis by (simp add: lanes_of_all)
qed

text \<open>A mask of a warp of \<open>ws\<close> lanes.\<close>

definition warp_mask :: "u32 \<Rightarrow> lane_mask \<Rightarrow> bool" where
  "warp_mask ws m \<longleftrightarrow> lm_width m = ws \<and> (\<forall>l \<in> lanes_of m. l < unat ws)"

lemma warp_mask_and [intro]: "warp_mask ws a \<Longrightarrow> warp_mask ws (lane_mask_and a b)"
  by (auto simp: warp_mask_def mask_simps)

lemma warp_mask_or [intro]:
  "warp_mask ws a \<Longrightarrow> warp_mask ws b \<Longrightarrow> warp_mask ws (lane_mask_or_same_width a b)"
  by (auto simp: warp_mask_def mask_simps)

lemma lanes_minus:
  "warp_mask ws a \<Longrightarrow> lm_width b = ws \<Longrightarrow>
   lanes_of (lane_mask_and a (lane_mask_not_width b)) = lanes_of a - lanes_of b"
  by (auto simp: warp_mask_def mask_simps dest: lanes_of_bound)

section \<open>Normalisation\<close>

record ctrl_note =
  cn_action :: string
  cn_pc :: pc_t
  cn_mask :: lane_mask
  cn_extra :: "(string \<times> int json) list"

datatype norm_result = NormDone | NormReady pc_t lane_mask | NormNoJoin pc_t

text \<open>The nearest join frame for the point, from the top: its mask takes the arrived lanes.\<close>

fun merge_join :: "pc_t \<Rightarrow> lane_mask \<Rightarrow> simt_frame list \<Rightarrow> (simt_frame list \<times> lane_mask) option" where
  "merge_join pc arrived [] = None"
| "merge_join pc arrived (f # fs) =
     (if fr_is_join f \<and> fr_pc f = pc
      then let m = lane_mask_or_same_width (fr_active f) arrived
           in Some (f\<lparr>fr_active := m\<rparr> # fs, m)
      else case merge_join pc arrived fs of
             None \<Rightarrow> None
           | Some (fs', m) \<Rightarrow> Some (f # fs', m))"

lemma merge_join_length: "merge_join pc a fs = Some (fs', m) \<Longrightarrow> length fs' = length fs"
  by (induction fs arbitrary: fs' m) (auto simp: Let_def split: if_splits option.splits prod.splits)

definition pop_note :: "simt_frame \<Rightarrow> nat \<Rightarrow> ctrl_note" where
  "pop_note f depth_after =
     \<lparr>cn_action = ''SIMT_POP'', cn_pc = fr_pc f, cn_mask = fr_active f,
      cn_extra = obj_of [(''reason'', JStr ''empty_active''), (''stack_depth_after'', JNum (int depth_after))]\<rparr>"

definition merge_note :: "pc_t \<Rightarrow> lane_mask \<Rightarrow> lane_mask \<Rightarrow> nat \<Rightarrow> ctrl_note" where
  "merge_note pc arrived joined depth_after =
     \<lparr>cn_action = ''SIMT_MERGE'', cn_pc = pc, cn_mask = joined,
      cn_extra = obj_of [(''reconv_pc'', JNum pc), (''arrived'', JStr (lane_mask_to_hex arrived)),
        (''join_active'', JStr (lane_mask_to_hex joined)), (''stack_depth_after'', JNum (int depth_after))]\<rparr>"

definition live_frame :: "lane_mask \<Rightarrow> simt_frame \<Rightarrow> simt_frame" where
  "live_frame exited f = f\<lparr>fr_active := lane_mask_and (fr_active f) (lane_mask_not_width exited)\<rparr>"

function norm_stack :: "lane_mask \<Rightarrow> simt_frame list \<Rightarrow> simt_frame list \<times> ctrl_note list \<times> norm_result" where
  "norm_stack exited [] = ([], [], NormDone)"
| "norm_stack exited (f # fs) =
     (let top = live_frame exited f
      in if lane_mask_empty (fr_active top)
         then (case norm_stack exited fs of
                 (st, notes, r) \<Rightarrow> (st, pop_note top (length fs) # notes, r))
         else if fr_is_join top
         then (top\<lparr>fr_is_join := False\<rparr> # fs, [], NormReady (fr_pc top) (fr_active top))
         else if fr_pc top = fr_reconv_pc top
         then (case merge_join (fr_pc top) (fr_active top) fs of
                 None \<Rightarrow> (fs, [], NormNoJoin (fr_pc top))
               | Some (fs', m) \<Rightarrow>
                   (case norm_stack exited fs' of
                      (st, notes, r) \<Rightarrow>
                        (st, merge_note (fr_pc top) (fr_active top) m (length fs) # notes, r)))
         else (top # fs, [], NormReady (fr_pc top) (fr_active top)))"
  by pat_completeness auto
termination
  by (relation "measure (\<lambda>(_, fs). length fs)") (auto dest: merge_join_length)

section \<open>The partition of the lanes\<close>

text \<open>
  \<open>effective exited f\<close>: the lanes a frame still stands for.  The frames of a stack and the
  exited lanes partition the lanes the warp was launched with.
\<close>

definition effective :: "lane_mask \<Rightarrow> simt_frame \<Rightarrow> nat set" where
  "effective exited f = lanes_of (fr_active f) - lanes_of exited"

definition lane_partition :: "nat set \<Rightarrow> lane_mask \<Rightarrow> simt_frame list \<Rightarrow> bool" where
  "lane_partition launched exited fs \<longleftrightarrow>
     sorted_wrt (\<lambda>f g. effective exited f \<inter> effective exited g = {}) fs \<and>
     lanes_of exited \<subseteq> launched \<and>
     lanes_of exited \<union> (\<Union>f \<in> set fs. effective exited f) = launched"

definition stack_masks :: "u32 \<Rightarrow> lane_mask \<Rightarrow> simt_frame list \<Rightarrow> bool" where
  "stack_masks ws exited fs \<longleftrightarrow> warp_mask ws exited \<and> (\<forall>f \<in> set fs. warp_mask ws (fr_active f))"

lemma live_frame_simps [simp]:
  "fr_pc (live_frame e f) = fr_pc f" "fr_is_join (live_frame e f) = fr_is_join f"
  "fr_reconv_pc (live_frame e f) = fr_reconv_pc f"
  by (simp_all add: live_frame_def)

lemma live_frame_lanes:
  "warp_mask ws (fr_active f) \<Longrightarrow> warp_mask ws e \<Longrightarrow> lanes_of (fr_active (live_frame e f)) = effective e f"
  by (simp add: live_frame_def effective_def lanes_minus [of ws] warp_mask_def)

lemma live_frame_effective:
  "warp_mask ws (fr_active f) \<Longrightarrow> warp_mask ws e \<Longrightarrow> effective e (live_frame e f) = effective e f"
  using live_frame_lanes [of ws f e] by (auto simp: effective_def)

lemma effective_upd [simp]:
  "effective e (f\<lparr>fr_is_join := b\<rparr>) = effective e f" "effective e (f\<lparr>fr_pc := p\<rparr>) = effective e f"
  by (simp_all add: effective_def)

text \<open>Merging moves the arrived lanes to another frame and keeps the union.\<close>

lemma merge_join_effective:
  assumes "merge_join pc a fs = Some (fs', m)"
    and "sorted_wrt (\<lambda>f g. effective e f \<inter> effective e g = {}) fs"
    and "\<And>f. f \<in> set fs \<Longrightarrow> (lanes_of a - lanes_of e) \<inter> effective e f = {}"
  shows "sorted_wrt (\<lambda>f g. effective e f \<inter> effective e g = {}) fs' \<and>
    (\<Union>f \<in> set fs'. effective e f) = (lanes_of a - lanes_of e) \<union> (\<Union>f \<in> set fs. effective e f)"
  using assms
proof (induction fs arbitrary: fs' m)
  case Nil
  then show ?case by simp
next
  case (Cons f fs)
  show ?case
  proof (cases "fr_is_join f \<and> fr_pc f = pc")
    case True
    then have fs': "fs' = f\<lparr>fr_active := lane_mask_or_same_width (fr_active f) a\<rparr> # fs"
      using Cons.prems(1) by (auto simp: Let_def)
    have "effective e (f\<lparr>fr_active := lane_mask_or_same_width (fr_active f) a\<rparr>)
        = effective e f \<union> (lanes_of a - lanes_of e)"
      by (auto simp: effective_def mask_simps)
    then show ?thesis using Cons.prems(2,3) by (auto simp: fs')
  next
    case False
    then obtain gs m' where gs: "merge_join pc a fs = Some (gs, m')" "fs' = f # gs"
      using Cons.prems(1) by (auto split: option.splits)
    have IH: "sorted_wrt (\<lambda>f g. effective e f \<inter> effective e g = {}) gs"
      "(\<Union>f \<in> set gs. effective e f) = (lanes_of a - lanes_of e) \<union> (\<Union>f \<in> set fs. effective e f)"
      using Cons.IH [OF gs(1)] Cons.prems(2,3) by simp_all
    have "effective e f \<inter> (\<Union>g \<in> set gs. effective e g) = {}"
      unfolding IH(2) using Cons.prems(2,3) by auto
    then have "\<forall>g \<in> set gs. effective e f \<inter> effective e g = {}" by blast
    then show ?thesis using IH by (simp add: gs(2) Un_left_commute)
  qed
qed

lemma merge_join_masks:
  "merge_join pc a fs = Some (fs', m) \<Longrightarrow> warp_mask ws a \<Longrightarrow>
   (\<forall>f \<in> set fs. warp_mask ws (fr_active f)) \<Longrightarrow> \<forall>f \<in> set fs'. warp_mask ws (fr_active f)"
  by (induction fs arbitrary: fs' m)
    (auto simp: Let_def intro!: warp_mask_or split: if_splits option.splits prod.splits)

lemma partition_Cons:
  "lane_partition L e (f # fs) \<longleftrightarrow>
     (\<forall>g \<in> set fs. effective e f \<inter> effective e g = {}) \<and>
     sorted_wrt (\<lambda>f g. effective e f \<inter> effective e g = {}) fs \<and> lanes_of e \<subseteq> L \<and>
     lanes_of e \<union> (effective e f \<union> (\<Union>f \<in> set fs. effective e f)) = L"
  by (auto simp: lane_partition_def)

lemma partition_replace_top:
  "lane_partition L e (f # fs) \<Longrightarrow> effective e f' = effective e f \<Longrightarrow> lane_partition L e (f' # fs)"
  by (simp add: partition_Cons)

lemma partition_drop_empty:
  "lane_partition L e (f # fs) \<Longrightarrow> effective e f = {} \<Longrightarrow> lane_partition L e fs"
  by (simp add: partition_Cons lane_partition_def)

lemma partition_merge:
  assumes "lane_partition L e (f # fs)" and "merge_join pc a fs = Some (fs', m)"
    and "lanes_of a - lanes_of e = effective e f"
  shows "lane_partition L e fs'"
proof -
  have "sorted_wrt (\<lambda>f g. effective e f \<inter> effective e g = {}) fs' \<and>
    (\<Union>f \<in> set fs'. effective e f) = (lanes_of a - lanes_of e) \<union> (\<Union>f \<in> set fs. effective e f)"
    by (rule merge_join_effective [OF assms(2)]) (use assms(1,3) in \<open>auto simp: partition_Cons\<close>)
  then show ?thesis using assms(1,3) by (simp add: partition_Cons lane_partition_def)
qed

text \<open>What a normalised stack is.\<close>

definition norm_good :: "u32 \<Rightarrow> nat set \<Rightarrow> lane_mask \<Rightarrow> simt_frame list \<Rightarrow> norm_result \<Rightarrow> bool" where
  "norm_good ws L e fs r \<longleftrightarrow>
     (case r of
        NormNoJoin _ \<Rightarrow> True
      | NormDone \<Rightarrow> fs = [] \<and> lanes_of e = L
      | NormReady pc m \<Rightarrow>
          stack_masks ws e fs \<and> lane_partition L e fs \<and>
          (\<exists>top rest. fs = top # rest \<and> fr_pc top = pc \<and> fr_active top = m \<and> \<not> fr_is_join top \<and>
             lanes_of m \<noteq> {} \<and> lanes_of m \<inter> lanes_of e = {}))"

lemma norm_stack_good:
  assumes "norm_stack e fs = (fs', ctl, r)" and "stack_masks ws e fs" and "lane_partition L e fs"
  shows "norm_good ws L e fs' r"
  using assms
proof (induction e fs arbitrary: fs' ctl r rule: norm_stack.induct)
  case (1 e)
  then show ?case by (simp add: norm_good_def lane_partition_def)
next
  case (2 e f fs)
  let ?top = "live_frame e f"
  have wm: "warp_mask ws (fr_active f)" "warp_mask ws e" "\<forall>g \<in> set fs. warp_mask ws (fr_active g)"
    using "2.prems"(2) by (simp_all add: stack_masks_def)
  have top_lanes: "lanes_of (fr_active ?top) = effective e f"
    by (rule live_frame_lanes [OF wm(1,2)])
  have top_mask: "warp_mask ws (fr_active ?top)" using wm(1) by (auto simp: live_frame_def)
  have top_part: "lane_partition L e (?top # fs)"
    using partition_replace_top [OF "2.prems"(3)] live_frame_effective [OF wm(1,2)] by simp
  have ready: "norm_good ws L e (t # fs) (NormReady (fr_pc ?top) (fr_active ?top))"
    if "effective e f \<noteq> {}" "t = ?top\<lparr>fr_is_join := False\<rparr>" for t
  proof -
    have "stack_masks ws e (t # fs)" using wm top_mask that(2) by (simp add: stack_masks_def)
    moreover have "lane_partition L e (t # fs)"
      using partition_replace_top [OF top_part] that(2) by simp
    ultimately show ?thesis
      using that top_lanes by (auto simp: norm_good_def effective_def)
  qed
  consider
    (empty) "lane_mask_empty (fr_active ?top)"
    | (join) "\<not> lane_mask_empty (fr_active ?top)" "fr_is_join ?top"
    | (arrive) "\<not> lane_mask_empty (fr_active ?top)" "\<not> fr_is_join ?top" "fr_pc ?top = fr_reconv_pc ?top"
    | (path) "\<not> lane_mask_empty (fr_active ?top)" "\<not> fr_is_join ?top" "fr_pc ?top \<noteq> fr_reconv_pc ?top"
    by blast
  then show ?case
  proof cases
    case empty
    obtain st ns r' where n: "norm_stack e fs = (st, ns, r')" by (metis prod_cases3)
    have "effective e f = {}" using empty top_lanes by (simp add: lane_mask_empty_iff)
    then have "lane_partition L e fs" using partition_drop_empty [OF "2.prems"(3)] by simp
    then have "norm_good ws L e st r'"
      using "2.IH"(1) [OF refl empty n] wm by (simp add: stack_masks_def)
    then show ?thesis using "2.prems"(1) empty n by (simp add: Let_def)
  next
    case join
    then show ?thesis
      using "2.prems"(1) ready top_lanes by (auto simp: Let_def lane_mask_empty_iff)
  next
    case arrive
    show ?thesis
    proof (cases "merge_join (fr_pc ?top) (fr_active ?top) fs")
      case None
      then show ?thesis using "2.prems"(1) arrive by (auto simp: Let_def norm_good_def)
    next
      case (Some p)
      obtain gs m where p: "p = (gs, m)" by fastforce
      obtain st ns r' where n: "norm_stack e gs = (st, ns, r')" by (metis prod_cases3)
      have mj: "merge_join (fr_pc ?top) (fr_active ?top) fs = Some (gs, m)" using Some p by simp
      have "lanes_of (fr_active ?top) - lanes_of e = effective e ?top" by (simp add: effective_def)
      then have "lane_partition L e gs" by (rule partition_merge [OF top_part mj])
      moreover have "stack_masks ws e gs"
        using merge_join_masks [OF mj top_mask wm(3)] wm(2) by (simp add: stack_masks_def)
      ultimately have "norm_good ws L e st r'"
        using "2.IH"(2) [OF refl arrive(1,2,3) mj refl n] by simp
      then show ?thesis using "2.prems"(1) arrive mj n by (auto simp: Let_def)
    qed
  next
    case path
    have "?top\<lparr>fr_is_join := False\<rparr> = ?top" using path(2) by (cases ?top) simp
    then show ?thesis
      using "2.prems"(1) ready [of ?top] path top_lanes by (auto simp: Let_def lane_mask_empty_iff)
  qed
qed

end
