(* ===== verification/Simt.thy ===== *)
theory Simt
  imports SimtStack MemUnit ControlUnit ControlFlow WarpSched CtaSched
begin

text \<open>
  The SIMT executor, \<open>SimtExecutor::run\<close> (\<open>src/simt/simt.cpp\<close>), in its single-threaded mode:
  launch validation, the warps of a CTA, one instruction of a warp (fetch, lookup, predicate
  mask, the micro-operations with lane exits and divergent branches, commit), the loop over
  the warps of a CTA and the loop over the CTAs.

  The C++ lambdas share the locals of \<open>run\<close>; here they are the record \<open>sim_state\<close>, which every
  function takes and returns.  The mode with one worker thread per SM and the logs that
  environment variables turn on are left out.
\<close>

section \<open>Configuration, result and state\<close>

record sim_config =
  cfg_warp_size :: u32
  cfg_max_steps :: u64
  cfg_sm_count :: u32
  cfg_parallel :: bool
  cfg_deterministic :: bool
  cfg_profile :: string
  cfg_cta_scheduler :: string
  cfg_warp_scheduler :: string
  cfg_memory_model :: string
  cfg_allow_unknown :: bool

definition sim_config_default :: sim_config where
  "sim_config_default =
     \<lparr>cfg_warp_size = 32, cfg_max_steps = 100000, cfg_sm_count = 1, cfg_parallel = False,
      cfg_deterministic = False, cfg_profile = [], cfg_cta_scheduler = ''fifo'',
      cfg_warp_scheduler = ''in_order_run_to_completion'',
      cfg_memory_model = ''no_cache_addrspace'', cfg_allow_unknown = False\<rparr>"

record sim_result =
  sr_completed :: bool
  sr_diag :: "diagnostic option"
  sr_steps :: u64

record sim_state =
  ss_mem :: mem_state
  ss_obs :: obs_control
  ss_ts :: u64
  ss_steps :: u64
  ss_diag :: "diagnostic option"
  ss_cta :: cta_sched

text \<open>What stays fixed while a CTA runs.\<close>

record cta_env =
  ce_fp :: f32_ops
  ce_kernel :: kernel_image
  ce_reg :: descriptor_registry
  ce_warp_size :: u32
  ce_item :: cta_work_item
  ce_reconv :: "pc_t option list"

definition format_inst_sig :: "inst_record \<Rightarrow> string" where
  "format_inst_sig i =
     i_opcode i @ (if m_type_mod (i_mods i) = [] then [] else ''.'' @ m_type_mod (i_mods i)) @ '' ('' @
     concat (map (\<lambda>k. (if k = 0 then [] else '','') @ operand_kind_to_string (o_kind (i_operands i ! k)))
       [0..<length (i_operands i)]) @ '')''"

definition simt_diag :: "string \<Rightarrow> string \<Rightarrow> source_location option \<Rightarrow> string \<Rightarrow> pc_t option \<Rightarrow> diagnostic" where
  "simt_diag code msg loc fname pc =
     (mk_diag ''simt'' code msg)\<lparr>d_location := loc, d_function := Some fname, d_inst_index := pc\<rparr>"

section \<open>Time and events\<close>

definition emit_at :: "(u64 \<Rightarrow> event) \<Rightarrow> sim_state \<Rightarrow> sim_state" where
  "emit_at ev s = s\<lparr>ss_obs := obs_emit (ev (ss_ts s)) (ss_obs s), ss_ts := ss_ts s + 1\<rparr>"

definition sim_counter :: "string \<Rightarrow> sim_state \<Rightarrow> sim_state" where
  "sim_counter name s = s\<lparr>ss_obs := obs_counter name (ss_obs s)\<rparr>"

definition warp_event ::
  "event_category \<Rightarrow> string \<Rightarrow> u64 \<Rightarrow> u64 \<Rightarrow> pc_t \<Rightarrow> lane_mask \<Rightarrow> string option \<Rightarrow> int json option \<Rightarrow> u64 \<Rightarrow> event" where
  "warp_event cat action cta_id warp_id pc m opcode extra ts =
     event_default\<lparr>ev_ts := ts, ev_category := cat, ev_action := action, ev_cta_id := Some cta_id,
       ev_warp_id := Some warp_id, ev_pc := Some pc, ev_lane_mask := Some m,
       ev_opcode_or_uop := opcode, ev_extra := extra\<rparr>"

definition emit_simt_ctrl :: "u64 \<Rightarrow> u64 \<Rightarrow> ctrl_note \<Rightarrow> sim_state \<Rightarrow> sim_state" where
  "emit_simt_ctrl cta_id warp_id n =
     emit_at (warp_event EvCtrl (cn_action n) cta_id warp_id (cn_pc n) (cn_mask n) None
       (Some (JObj (cn_extra n))))"

definition warp_id_of :: "cta_work_item \<Rightarrow> u32 \<Rightarrow> u64" where
  "warp_id_of it w = (push_bit 32 (it_linear it)) OR ucast w"

definition request_stop :: "sim_state \<Rightarrow> sim_state" where
  "request_stop s = s\<lparr>ss_cta := cta_request_stop (ss_cta s)\<rparr>"

text \<open>An error ends the CTA: the diagnostic is kept and no further CTA is handed out.\<close>

definition fail_with :: "diagnostic \<Rightarrow> sim_state \<Rightarrow> sim_state" where
  "fail_with d s = request_stop (s\<lparr>ss_diag := Some d\<rparr>)"

section \<open>Launch checks and the initial warps\<close>

definition mul_u64_overflow :: "u64 \<Rightarrow> u64 \<Rightarrow> u64 \<Rightarrow> u64 \<times> bool" where
  "mul_u64_overflow a b out =
     (if a = 0 \<or> b = 0 then (0, False)
      else if a > 0xFFFFFFFFFFFFFFFF div b then (out, True)
      else (a * b, False))"

definition threads_per_block :: "dim3 \<Rightarrow> u64 option" where
  "threads_per_block bd =
     (let (xy, of1) = mul_u64_overflow (ucast (dim_x bd)) (ucast (dim_y bd)) 0;
          (tpb, of2) = mul_u64_overflow xy (ucast (dim_z bd)) 0
      in if of1 \<or> of2 then None else Some tpb)"

definition launch_warp_size_of :: "sim_config \<Rightarrow> launch_config \<Rightarrow> u32" where
  "launch_warp_size_of cfg launch =
     (if launch_warp_size launch = 0 then cfg_warp_size cfg else launch_warp_size launch)"

text \<open>The checks of \<open>run\<close>, in order; on success the threads of a block and the warp size.\<close>

definition check_launch :: "sim_config \<Rightarrow> kernel_image \<Rightarrow> launch_config \<Rightarrow> diagnostic + u64 \<times> u32" where
  "check_launch cfg k launch =
     (let g = grid_dim launch; b = block_dim launch;
          bad = (\<lambda>code msg. Inl (simt_diag code msg None (k_name k) None))
      in if dim_x g = 0 \<or> dim_y g = 0 \<or> dim_z g = 0 \<or> dim_x b = 0 \<or> dim_y b = 0 \<or> dim_z b = 0
         then bad ''E_LAUNCH_DIM'' ''grid/block dims must be >= 1''
         else case threads_per_block b of
                None \<Rightarrow> bad ''E_LAUNCH_OVERFLOW'' ''threads_per_block overflow''
              | Some tpb \<Rightarrow>
                  let ws = launch_warp_size_of cfg launch
                  in if ws = 0 \<or> ws > 32 then bad ''E_WARP_SIZE'' ''warp_size must be in [1,32]''
                     else Inr (tpb, ws))"

definition warp_count_of :: "u64 \<Rightarrow> u32 \<Rightarrow> u64" where
  "warp_count_of tpb ws = (tpb + ucast ws - 1) div ucast ws"

definition check_selectors :: "sim_config \<Rightarrow> kernel_image \<Rightarrow> u32 \<Rightarrow> diagnostic + cta_sched" where
  "check_selectors cfg k sm_count =
     (let bad = (\<lambda>code msg. Inl (simt_diag code msg None (k_name k) None))
      in if cfg_memory_model cfg \<noteq> ''no_cache_addrspace'' \<and> \<not> cfg_allow_unknown cfg
         then bad ''E_MEMORY_MODEL'' (''unknown memory.model: '' @ cfg_memory_model cfg)
         else case (case create_cta_scheduler (cfg_cta_scheduler cfg) sm_count of
                      Some cs \<Rightarrow> Inr cs
                    | None \<Rightarrow>
                        if \<not> cfg_allow_unknown cfg
                        then bad ''E_CTA_SCHED'' (''unknown CTA scheduler: '' @ cfg_cta_scheduler cfg)
                        else Inr (Fifo fifo_init)) of
                Inl d \<Rightarrow> Inl d
              | Inr cs \<Rightarrow>
                  if create_warp_scheduler (cfg_warp_scheduler cfg) = None \<and> \<not> cfg_allow_unknown cfg
                  then bad ''E_WARP_SCHED'' (''unknown warp scheduler: '' @ cfg_warp_scheduler cfg)
                  else Inr cs)"

definition lanes_on :: "u64 \<Rightarrow> u32 \<Rightarrow> u32 \<Rightarrow> u32" where
  "lanes_on tpb ws lane_base =
     (let remaining = (if tpb > ucast lane_base then tpb - ucast lane_base else 0)
      in ucast (if remaining \<ge> ucast ws then ucast ws else remaining))"

definition warp_init :: "kernel_image \<Rightarrow> launch_config \<Rightarrow> u32 \<Rightarrow> u64 \<Rightarrow> cta_work_item \<Rightarrow> u32 \<Rightarrow> warp_state" where
  "warp_init k launch ws tpb it w =
     (let lane_base = w * ws;
          active = lane_mask_prefix ws (lanes_on tpb ws lane_base)
      in \<lparr>w_launch = launch\<lparr>launch_warp_size := ws\<rparr>,
          w_ctaid = \<lparr>dim_x = it_cx it, dim_y = it_cy it, dim_z = it_cz it\<rparr>,
          w_warpid = w, w_lane_base = lane_base, w_pc = 0, w_done = False, w_active = active,
          w_exited = \<lparr>lm_width = ws, lm_bits = 0\<rparr>,
          w_stack = [\<lparr>fr_pc = 0, fr_active = active, fr_reconv_pc = int (length (k_insts k)),
                      fr_is_join = False\<rparr>],
          w_r32 = replicate (unat (k_reg_u32_count k) * unat ws) 0,
          w_r64 = replicate (unat (k_reg_u64_count k) * unat ws) 0,
          w_p = replicate (8 * unat ws) 1\<rparr>)"

definition init_warps :: "kernel_image \<Rightarrow> launch_config \<Rightarrow> u32 \<Rightarrow> u64 \<Rightarrow> cta_work_item \<Rightarrow> warp_state list" where
  "init_warps k launch ws tpb it =
     map (\<lambda>w. warp_init k launch ws tpb it (of_nat w)) [0..<unat (warp_count_of tpb ws)]"

section \<open>Normalisation of a warp\<close>

text \<open>The flag says whether the warp has an instruction to issue.\<close>

definition normalize_stack :: "cta_env \<Rightarrow> warp_state \<Rightarrow> sim_state \<Rightarrow> warp_state \<times> sim_state \<times> bool" where
  "normalize_stack env w s =
     (case norm_stack (w_exited w) (w_stack w) of
        (st, ctl, r) \<Rightarrow>
          let s' = fold (emit_simt_ctrl (it_id (ce_item env)) (warp_id_of (ce_item env) (w_warpid w))) ctl s
          in case r of
               NormDone \<Rightarrow>
                 (w\<lparr>w_stack := st, w_done := True,
                    w_active := \<lparr>lm_width = ce_warp_size env, lm_bits = 0\<rparr>\<rparr>, s', False)
             | NormReady pc m \<Rightarrow> (w\<lparr>w_stack := st, w_pc := pc, w_active := m\<rparr>, s', True)
             | NormNoJoin pc \<Rightarrow>
                 (w\<lparr>w_stack := st\<rparr>,
                  fail_with (simt_diag ''E_RECONV_INVALID'' ''reconv join frame not found'' None
                    (k_name (ce_kernel env)) (Some pc)) s', False))"

section \<open>Predication\<close>

text \<open>\<open>None\<close>: the predicate does not exist.\<close>

definition pred_mask :: "pred_guard \<Rightarrow> u32 \<Rightarrow> warp_state \<Rightarrow> lane_mask option" where
  "pred_mask g ws w =
     (if pg_pred_id g < 0 then None
      else let base = (of_int (pg_pred_id g) * ucast ws :: u64)
           in if unat (base + ucast ws) > length (w_p w) then None
              else Some \<lparr>lm_width = ws,
                 lm_bits = fold (\<lambda>lane bits.
                     if \<not> lane_mask_test (w_active w) lane then bits
                     else let pval = w_p w ! unat (base + of_nat lane) \<noteq> 0;
                              enabled = (if pg_negated g then \<not> pval else pval)
                          in if enabled then bits OR push_bit lane 1 else bits)
                   [0..<min (unat ws) 32] 0\<rparr>)"

definition apply_pred :: "lane_mask \<Rightarrow> micro_op \<Rightarrow> micro_op" where
  "apply_pred m u = u\<lparr>u_guard := lane_mask_and (u_guard u) m\<rparr>"

section \<open>Micro-operations\<close>

record pending_split =
  sp_pc :: pc_t
  sp_target :: pc_t
  sp_reconv :: pc_t
  sp_taken :: lane_mask
  sp_fall :: lane_mask

record uop_run =
  ur_warp :: warp_state
  ur_sim :: sim_state
  ur_next :: "pc_t option"
  ur_split :: "pending_split option"

fun uop_name :: "micro_op_op \<Rightarrow> string" where
  "uop_name Mov = ''MOV''"
| "uop_name Add = ''ADD''"
| "uop_name Mul = ''MUL''"
| "uop_name Shl = ''SHL''"
| "uop_name Fma = ''FMA''"
| "uop_name Setp = ''SETP''"
| "uop_name Ld = ''LD''"
| "uop_name St = ''ST''"
| "uop_name Bra = ''BRA''"
| "uop_name Ret = ''RET''"
| "uop_name _ = ''UOP''"

fun uop_category :: "micro_op_kind \<Rightarrow> event_category" where
  "uop_category Exec = EvExec"
| "uop_category Control = EvCtrl"
| "uop_category Mem = EvMem"

definition env_warp_id :: "cta_env \<Rightarrow> warp_state \<Rightarrow> u64" where
  "env_warp_id env w = warp_id_of (ce_item env) (w_warpid w)"

definition emit_uop :: "cta_env \<Rightarrow> micro_op \<Rightarrow> warp_state \<Rightarrow> sim_state \<Rightarrow> sim_state" where
  "emit_uop env u w =
     emit_at (warp_event (uop_category (u_kind u)) ''UOP'' (it_id (ce_item env)) (env_warp_id env w)
       (w_pc w) (w_active w) (Some (uop_name (u_op u))) None)"

text \<open>\<open>RET\<close> is masked: the lanes of the execution mask leave the warp.\<close>

definition ret_uop :: "micro_op \<Rightarrow> warp_state \<Rightarrow> warp_state" where
  "ret_uop u w =
     (let exec_mask = exec_mask_of w u
      in if lm_bits exec_mask = 0 then w
         else let w1 = w\<lparr>w_exited := lane_mask_or_same_width (w_exited w) exec_mask\<rparr>
              in case w_stack w1 of
                   [] \<Rightarrow> w1
                 | tf # rest \<Rightarrow>
                     let m = lane_mask_and (fr_active tf) (lane_mask_not_width exec_mask)
                     in w1\<lparr>w_stack := tf\<lparr>fr_active := m\<rparr> # rest, w_active := m\<rparr>)"

definition split_note :: "pending_split \<Rightarrow> lane_mask \<Rightarrow> ctrl_note" where
  "split_note sp active =
     \<lparr>cn_action = ''SIMT_SPLIT'', cn_pc = sp_pc sp, cn_mask = active,
      cn_extra = obj_of [(''target_pc'', JNum (sp_target sp)), (''reconv_pc'', JNum (sp_reconv sp)),
        (''mask_active'', JStr (lane_mask_to_hex active)),
        (''mask_taken'', JStr (lane_mask_to_hex (sp_taken sp))),
        (''mask_fallthrough'', JStr (lane_mask_to_hex (sp_fall sp)))]\<rparr>"

definition reconv_at :: "cta_env \<Rightarrow> pc_t \<Rightarrow> pc_t option" where
  "reconv_at env pc =
     (if pc < 0 \<or> nat pc \<ge> length (ce_reconv env) then None else ce_reconv env ! nat pc)"

definition run_diag :: "cta_env \<Rightarrow> string \<Rightarrow> string \<Rightarrow> inst_record \<Rightarrow> pc_t \<Rightarrow> diagnostic" where
  "run_diag env code msg i pc = simt_diag code msg (i_dbg i) (k_name (ce_kernel env)) (Some pc)"

text \<open>
  After the control unit has reported a target: lanes on both sides make a split, which the
  commit will carry out.
\<close>

definition note_split :: "cta_env \<Rightarrow> inst_record \<Rightarrow> micro_op \<Rightarrow> pc_t \<Rightarrow> uop_run \<Rightarrow> uop_run \<times> diagnostic option" where
  "note_split env i u target x =
     (let w = ur_warp x;
          taken = lane_mask_and (w_active w) (u_guard u);
          fall = lane_mask_and (w_active w) (lane_mask_not_width (u_guard u))
      in if lane_mask_empty taken \<or> lane_mask_empty fall then (x, None)
         else case reconv_at env (w_pc w) of
                None \<Rightarrow>
                  (x, Some (run_diag env ''E_RECONV_MISS'' ''missing reconv_pc for divergent BRA'' i (w_pc w)))
              | Some r \<Rightarrow>
                  let sp = \<lparr>sp_pc = w_pc w, sp_target = target, sp_reconv = r, sp_taken = taken, sp_fall = fall\<rparr>
                  in (x\<lparr>ur_split := Some sp,
                        ur_sim := emit_simt_ctrl (it_id (ce_item env)) (env_warp_id env w)
                                    (split_note sp (w_active w)) (ur_sim x)\<rparr>, None))"

definition fill_diag :: "cta_env \<Rightarrow> inst_record \<Rightarrow> pc_t \<Rightarrow> diagnostic \<Rightarrow> diagnostic" where
  "fill_diag env i pc d =
     d\<lparr>d_function := (case d_function d of None \<Rightarrow> Some (k_name (ce_kernel env)) | f \<Rightarrow> f),
       d_inst_index := (case d_inst_index d of None \<Rightarrow> Some pc | n \<Rightarrow> n),
       d_location := (case d_location d of None \<Rightarrow> i_dbg i | l \<Rightarrow> l)\<rparr>"

text \<open>What follows every unit: the next PC must not conflict, a unit's error ends the loop.\<close>

definition after_unit :: "cta_env \<Rightarrow> inst_record \<Rightarrow> step_result \<Rightarrow> uop_run \<Rightarrow> uop_run \<times> diagnostic option" where
  "after_unit env i r x =
     (if r_next_pc r \<noteq> None \<and> ur_next x \<noteq> None \<and> ur_next x \<noteq> r_next_pc r
      then (x, Some (run_diag env ''E_NEXT_PC_CONFLICT'' ''multiple control uops set next_pc'' i
                       (w_pc (ur_warp x))))
      else let x' = (if r_next_pc r \<noteq> None then x\<lparr>ur_next := r_next_pc r\<rparr> else x)
           in case r_diag r of
                None \<Rightarrow> (x', None)
              | Some d \<Rightarrow> (x', Some (fill_diag env i (w_pc (ur_warp x)) d)))"

definition uop_exec :: "cta_env \<Rightarrow> micro_op \<Rightarrow> uop_run \<Rightarrow> uop_run \<times> step_result" where
  "uop_exec env u x =
     (case exec_step (ce_fp env) u (ur_warp x) (ss_obs (ur_sim x)) of
        (w, obs, r) \<Rightarrow> (x\<lparr>ur_warp := w, ur_sim := (ur_sim x)\<lparr>ss_obs := obs\<rparr>\<rparr>, r))"

definition uop_mem :: "micro_op \<Rightarrow> uop_run \<Rightarrow> uop_run \<times> step_result" where
  "uop_mem u x =
     (case mem_step (ss_mem (ur_sim x)) u (ur_warp x) (ss_obs (ur_sim x)) of
        (ms, w, obs, r) \<Rightarrow>
          (x\<lparr>ur_warp := w, ur_sim := (ur_sim x)\<lparr>ss_mem := ms, ss_obs := obs\<rparr>\<rparr>, r))"

definition uop_ctrl :: "micro_op \<Rightarrow> uop_run \<Rightarrow> uop_run \<times> step_result" where
  "uop_ctrl u x =
     (if u_op u = Ret
      then (x\<lparr>ur_warp := ret_uop u (ur_warp x), ur_sim := sim_counter ''uop.ctrl.ret'' (ur_sim x)\<rparr>, step_ok)
      else case ctrl_step u (ur_warp x) (ss_obs (ur_sim x)) of
             (w, obs, r) \<Rightarrow> (x\<lparr>ur_warp := w, ur_sim := (ur_sim x)\<lparr>ss_obs := obs\<rparr>\<rparr>, r))"

definition uop_body :: "cta_env \<Rightarrow> inst_record \<Rightarrow> micro_op \<Rightarrow> uop_run \<Rightarrow> uop_run \<times> diagnostic option" where
  "uop_body env i u x0 =
     (let x = x0\<lparr>ur_sim := emit_uop env u (ur_warp x0) (ur_sim x0)\<rparr>
      in case u_kind u of
           Exec \<Rightarrow> (case uop_exec env u x of (x1, r) \<Rightarrow> after_unit env i r x1)
         | Mem \<Rightarrow> (case uop_mem u x of (x1, r) \<Rightarrow> after_unit env i r x1)
         | Control \<Rightarrow>
             (case uop_ctrl u x of (x1, r) \<Rightarrow>
                (case (if u_op u = Bra then r_next_pc r else None) of
                   None \<Rightarrow> after_unit env i r x1
                 | Some target \<Rightarrow>
                     (case note_split env i u target x1 of
                        (x2, Some d) \<Rightarrow> (x2, Some d)
                      | (x2, None) \<Rightarrow> after_unit env i r x2))))"

section \<open>Commit\<close>

definition split_frames :: "cta_env \<Rightarrow> pending_split \<Rightarrow> pc_t \<Rightarrow> pc_t \<Rightarrow> simt_frame list" where
  "split_frames env sp old_pc outer_reconv =
     [\<lparr>fr_pc = sp_target sp, fr_active = sp_taken sp, fr_reconv_pc = sp_reconv sp, fr_is_join = False\<rparr>,
      \<lparr>fr_pc = old_pc + 1, fr_active = sp_fall sp, fr_reconv_pc = sp_reconv sp, fr_is_join = False\<rparr>,
      \<lparr>fr_pc = sp_reconv sp, fr_active = \<lparr>lm_width = ce_warp_size env, lm_bits = 0\<rparr>,
       fr_reconv_pc = outer_reconv, fr_is_join = True\<rparr>]"

definition commit_stack :: "cta_env \<Rightarrow> pending_split option \<Rightarrow> pc_t option \<Rightarrow> warp_state \<Rightarrow> warp_state" where
  "commit_stack env sp next_pc w =
     (let old_pc = w_pc w;
          st = (case w_stack w of
                  [] \<Rightarrow> []
                | tf # rest \<Rightarrow>
                    (case sp of
                       Some p \<Rightarrow> split_frames env p old_pc (fr_reconv_pc tf) @ rest
                     | None \<Rightarrow>
                         tf\<lparr>fr_pc := (case next_pc of Some t \<Rightarrow> t | None \<Rightarrow> old_pc + 1)\<rparr> # rest))
      in case st of
           [] \<Rightarrow> w\<lparr>w_stack := [], w_done := True\<rparr>
         | tf # rest \<Rightarrow> w\<lparr>w_stack := st, w_pc := fr_pc tf, w_active := fr_active tf\<rparr>)"

definition commit :: "cta_env \<Rightarrow> inst_record \<Rightarrow> uop_run \<Rightarrow> warp_state \<times> sim_state" where
  "commit env i x =
     (let w = ur_warp x
      in if w_done w then (w, ur_sim x)
         else let w' = commit_stack env (ur_split x) (ur_next x) w
              in (w', sim_counter ''inst.commit''
                        (emit_at (warp_event EvCommit ''COMMIT'' (it_id (ce_item env)) (env_warp_id env w)
                           (w_pc w) (w_active w') (Some (i_opcode i)) None) (ur_sim x))))"

section \<open>One instruction of a warp\<close>

text \<open>
  The warp has been normalised.  The result says whether the CTA goes on; on an error it has
  been stopped and its diagnostic kept.
\<close>

definition guarded_uops :: "cta_env \<Rightarrow> inst_record \<Rightarrow> inst_desc \<Rightarrow> warp_state \<Rightarrow> micro_op list option" where
  "guarded_uops env i d w =
     (let uops = expand i d (ce_warp_size env)
      in case i_pred i of
           None \<Rightarrow> Some uops
         | Some g \<Rightarrow>
             (case pred_mask g (ce_warp_size env) w of
                None \<Rightarrow> None
              | Some m \<Rightarrow> Some (map (apply_pred m) uops)))"

definition run_uops :: "cta_env \<Rightarrow> inst_record \<Rightarrow> micro_op list \<Rightarrow> warp_state \<Rightarrow> sim_state \<Rightarrow> warp_state \<times> sim_state \<times> bool" where
  "run_uops env i uops w s =
     (case loop_e (uop_body env i) uops \<lparr>ur_warp = w, ur_sim = s, ur_next = None, ur_split = None\<rparr> of
        (x, Some d) \<Rightarrow> (ur_warp x, fail_with d (ur_sim x), False)
      | (x, None) \<Rightarrow>
          (case commit env i x of (w', s') \<Rightarrow> (w', s'\<lparr>ss_steps := ss_steps s' + 1\<rparr>, True)))"

definition issue :: "cta_env \<Rightarrow> warp_state \<Rightarrow> sim_state \<Rightarrow> warp_state \<times> sim_state \<times> bool" where
  "issue env w s =
     (let insts = k_insts (ce_kernel env); pc = w_pc w
      in if pc < 0 \<or> nat pc \<ge> length insts
         then (w, fail_with (simt_diag ''E_PC_OOB'' ''PC out of range'' None
                               (k_name (ce_kernel env)) (Some pc)) s, False)
         else let i = insts ! nat pc;
                  s1 = sim_counter ''inst.fetch''
                         (emit_at (warp_event EvFetch ''FETCH'' (it_id (ce_item env)) (env_warp_id env w)
                            pc (w_active w) (Some (i_opcode i)) None) s)
              in case lookup_desc (ce_reg env) i of
                   None \<Rightarrow>
                     (w, fail_with (run_diag env ''E_DESC_MISS''
                           (''no inst descriptor for '' @ format_inst_sig i) i pc) s1, False)
                 | Some d \<Rightarrow>
                     (case guarded_uops env i d w of
                        None \<Rightarrow>
                          (w, fail_with (run_diag env ''E_PRED_OOB'' ''predicate id out of range'' i pc) s1, False)
                      | Some uops \<Rightarrow> run_uops env i uops w s1))"

section \<open>The warps of a CTA\<close>

record cta_state =
  cs_warps :: "warp_state list"
  cs_sched :: u32
  cs_sim :: sim_state

definition warp_done_at :: "warp_state list \<Rightarrow> u32 \<Rightarrow> bool" where
  "warp_done_at ws w = (if unat w \<ge> length ws then True else w_done (ws ! unat w))"

text \<open>One round of the loop; the flag says whether the loop goes on.\<close>

definition cta_round :: "sim_config \<Rightarrow> warp_sched_kind \<Rightarrow> cta_env \<Rightarrow> cta_state \<Rightarrow> cta_state \<times> bool" where
  "cta_round cfg kind env c =
     (let s = cs_sim c
      in if ss_steps s \<ge> cfg_max_steps cfg then (c\<lparr>cs_sim := request_stop s\<rparr>, False)
         else if cta_stop_requested (ss_cta s) then (c, False)
         else case pick_next kind (of_nat (length (cs_warps c))) (warp_done_at (cs_warps c)) (cs_sched c) of
                (sched', None) \<Rightarrow> (c\<lparr>cs_sched := sched'\<rparr>, False)
              | (sched', Some pick) \<Rightarrow>
                  let w = cs_warps c ! unat pick; c1 = c\<lparr>cs_sched := sched'\<rparr>
                  in if w_done w then (c1, True)
                     else case normalize_stack env w s of
                            (w1, s1, False) \<Rightarrow>
                              let c2 = c1\<lparr>cs_warps := (cs_warps c)[unat pick := w1], cs_sim := s1\<rparr>
                              in if ss_diag s1 \<noteq> None then (c2\<lparr>cs_sim := request_stop s1\<rparr>, False)
                                 else (c2, True)
                          | (w1, s1, True) \<Rightarrow>
                              (case issue env w1 s1 of
                                 (w2, s2, go) \<Rightarrow>
                                   (c1\<lparr>cs_warps := (cs_warps c)[unat pick := w2], cs_sim := s2\<rparr>, go)))"

subsection \<open>The loop ends\<close>

text \<open>
  A round that lets the loop go on has either committed an instruction, of which there are at
  most \<open>max_steps\<close>, or finished a warp.
\<close>

lemma emit_at_simps [simp]:
  "ss_steps (emit_at ev s) = ss_steps s" "ss_diag (emit_at ev s) = ss_diag s"
  "ss_mem (emit_at ev s) = ss_mem s" "ss_cta (emit_at ev s) = ss_cta s"
  by (simp_all add: emit_at_def)

lemma sim_counter_simps [simp]:
  "ss_steps (sim_counter n s) = ss_steps s" "ss_diag (sim_counter n s) = ss_diag s"
  "ss_mem (sim_counter n s) = ss_mem s" "ss_cta (sim_counter n s) = ss_cta s"
  by (simp_all add: sim_counter_def)

lemma emit_simt_ctrl_simps [simp]:
  "ss_steps (emit_simt_ctrl a b n s) = ss_steps s" "ss_diag (emit_simt_ctrl a b n s) = ss_diag s"
  "ss_mem (emit_simt_ctrl a b n s) = ss_mem s" "ss_cta (emit_simt_ctrl a b n s) = ss_cta s"
  by (simp_all add: emit_simt_ctrl_def)

lemma fail_with_simps [simp]:
  "ss_steps (fail_with d s) = ss_steps s" "ss_diag (fail_with d s) = Some d"
  "ss_mem (fail_with d s) = ss_mem s" "ss_cta (fail_with d s) = cta_request_stop (ss_cta s)"
  by (simp_all add: fail_with_def request_stop_def)

lemma fold_ctrl_simps [simp]:
  "ss_steps (fold (emit_simt_ctrl a b) ctl s) = ss_steps s"
  "ss_diag (fold (emit_simt_ctrl a b) ctl s) = ss_diag s"
  "ss_mem (fold (emit_simt_ctrl a b) ctl s) = ss_mem s"
  "ss_cta (fold (emit_simt_ctrl a b) ctl s) = ss_cta s"
  by (induction ctl arbitrary: s; simp)+

text \<open>What no micro-operation touches: the step count, the diagnostic and the CTA scheduler.\<close>

definition sim_frame :: "sim_state \<Rightarrow> u64 \<times> diagnostic option \<times> cta_sched" where
  "sim_frame s = (ss_steps s, ss_diag s, ss_cta s)"

lemma after_unit_sim: "ur_sim (fst (after_unit env i r x)) = ur_sim x"
  by (simp add: after_unit_def Let_def split: option.split)

lemma after_unit_warp: "ur_warp (fst (after_unit env i r x)) = ur_warp x"
  by (simp add: after_unit_def Let_def split: option.split)

lemma after_unit_split: "ur_split (fst (after_unit env i r x)) = ur_split x"
  by (simp add: after_unit_def Let_def split: option.split)

lemma note_split_frame: "sim_frame (ur_sim (fst (note_split env i u t x))) = sim_frame (ur_sim x)"
  by (simp add: note_split_def sim_frame_def Let_def split: option.split)

lemma note_split_warp: "ur_warp (fst (note_split env i u t x)) = ur_warp x"
  by (simp add: note_split_def Let_def split: option.split)

lemma uop_units_frame:
  "sim_frame (ur_sim (fst (uop_exec env u x))) = sim_frame (ur_sim x)"
  "sim_frame (ur_sim (fst (uop_mem u x))) = sim_frame (ur_sim x)"
  "sim_frame (ur_sim (fst (uop_ctrl u x))) = sim_frame (ur_sim x)"
  by (simp_all add: uop_exec_def uop_mem_def uop_ctrl_def sim_frame_def split: prod.split)

text \<open>
  A fact about the run that the units, the bookkeeping after a unit and a noted split all
  keep is kept by the body of the loop.
\<close>

lemma uop_body_keeps:
  assumes "P x0"
    and "\<And>x. P x \<Longrightarrow> P (x\<lparr>ur_sim := emit_uop env u (ur_warp x) (ur_sim x)\<rparr>)"
    and "\<And>x. u_kind u = Exec \<Longrightarrow> P x \<Longrightarrow> P (fst (uop_exec env u x))"
    and "\<And>x. u_kind u = Mem \<Longrightarrow> P x \<Longrightarrow> P (fst (uop_mem u x))"
    and "\<And>x. u_kind u = Control \<Longrightarrow> P x \<Longrightarrow> P (fst (uop_ctrl u x))"
    and "\<And>x t. u_op u = Bra \<Longrightarrow> P x \<Longrightarrow> P (fst (note_split env i u t x))"
    and "\<And>x r. P x \<Longrightarrow> P (fst (after_unit env i r x))"
  shows "P (fst (uop_body env i u x0))"
proof -
  let ?x = "x0\<lparr>ur_sim := emit_uop env u (ur_warp x0) (ur_sim x0)\<rparr>"
  have x: "P ?x" by (rule assms(2) [OF assms(1)])
  show ?thesis
  proof (cases "u_kind u")
    case Exec
    obtain x1 r where e: "uop_exec env u ?x = (x1, r)" by fastforce
    then have "P x1" using assms(3) [OF Exec x] by simp
    then show ?thesis using assms(7) by (simp add: uop_body_def Exec e Let_def)
  next
    case Mem
    obtain x1 r where e: "uop_mem u ?x = (x1, r)" by fastforce
    then have "P x1" using assms(4) [OF Mem x] by simp
    then show ?thesis using assms(7) by (simp add: uop_body_def Mem e Let_def)
  next
    case Control
    obtain x1 r where e: "uop_ctrl u ?x = (x1, r)" by fastforce
    then have x1: "P x1" using assms(5) [OF Control x] by simp
    show ?thesis
    proof (cases "if u_op u = Bra then r_next_pc r else None")
      case None
      then show ?thesis using assms(7) x1 by (simp add: uop_body_def Control e Let_def)
    next
      case (Some t)
      then have bra: "u_op u = Bra" by (simp split: if_splits)
      obtain x2 d where n: "note_split env i u t x1 = (x2, d)" by fastforce
      then have "P x2" using assms(6) [OF bra x1, of t] by simp
      then show ?thesis
        using assms(7) Some by (cases d) (simp_all add: uop_body_def Control e n Let_def)
    qed
  qed
qed

lemma uop_body_frame: "sim_frame (ur_sim (fst (uop_body env i u x))) = sim_frame (ur_sim x)"
  by (rule uop_body_keeps [where P = "\<lambda>y. sim_frame (ur_sim y) = sim_frame (ur_sim x)"])
    (simp_all add: uop_units_frame note_split_frame after_unit_sim,
     simp add: emit_uop_def sim_frame_def)

lemma uop_loop_frame:
  "sim_frame (ur_sim (fst (loop_e (uop_body env i) us x))) = sim_frame (ur_sim x)"
  by (rule loop_e_keeps) (rule uop_body_frame)

lemma commit_frame: "sim_frame (snd (commit env i x)) = sim_frame (ur_sim x)"
  by (simp add: commit_def sim_frame_def Let_def)

lemma run_uops_steps:
  assumes "run_uops env i us w s = (w', s', go)"
  shows "ss_steps s' = (if go then ss_steps s + 1 else ss_steps s)"
    and "go \<Longrightarrow> ss_diag s' = ss_diag s \<and> ss_cta s' = ss_cta s"
    and "\<not> go \<Longrightarrow> ss_diag s' \<noteq> None"
proof -
  let ?x = "\<lparr>ur_warp = w, ur_sim = s, ur_next = None, ur_split = None\<rparr>"
  obtain x d where l: "loop_e (uop_body env i) us ?x = (x, d)" by fastforce
  have f: "sim_frame (ur_sim x) = sim_frame s" using uop_loop_frame [of env i us ?x] by (simp add: l)
  have c: "sim_frame (snd (commit env i x)) = sim_frame s" using commit_frame f by simp
  show "ss_steps s' = (if go then ss_steps s + 1 else ss_steps s)"
    and "go \<Longrightarrow> ss_diag s' = ss_diag s \<and> ss_cta s' = ss_cta s"
    and "\<not> go \<Longrightarrow> ss_diag s' \<noteq> None"
    using assms f c by (auto simp: run_uops_def l sim_frame_def split: option.splits prod.splits)
qed

lemma issue_steps:
  assumes "issue env w s = (w', s', go)"
  shows "ss_steps s' = (if go then ss_steps s + 1 else ss_steps s)"
    and "go \<Longrightarrow> ss_diag s' = ss_diag s \<and> ss_cta s' = ss_cta s"
    and "\<not> go \<Longrightarrow> ss_diag s' \<noteq> None"
  using assms run_uops_steps
  by (fastforce simp: issue_def Let_def split: if_splits option.splits)+

lemma normalize_steps:
  assumes "normalize_stack env w s = (w', s', go)"
  shows "ss_steps s' = ss_steps s"
    and "ss_diag s' = ss_diag s \<Longrightarrow> \<not> go \<Longrightarrow> ss_diag s = None \<Longrightarrow> w_done w'"
    and "go \<Longrightarrow> ss_diag s' = ss_diag s \<and> ss_cta s' = ss_cta s"
  using assms
  by (auto simp: normalize_stack_def Let_def split: prod.splits norm_result.splits)

text \<open>A pick is always live, whatever the state of the scheduler.\<close>

lemma pick_next_live:
  assumes "pick_next kind n d s = (s', Some w)"
  shows "w < n \<and> \<not> d w"
proof (cases kind)
  case InOrderRunToCompletion
  show ?thesis
  proof (cases "s < n \<and> \<not> d s")
    case True
    then show ?thesis using assms InOrderRunToCompletion by (auto simp: in_order_pick_def split: if_splits)
  next
    case False
    then obtain i where i: "find (\<lambda>i. \<not> d (of_nat i)) [unat s..<unat n] = Some i" "w = of_nat i"
      using assms InOrderRunToCompletion by (auto simp: in_order_pick_def split: if_splits option.splits)
    then have "i < unat n" "\<not> d (of_nat i)" unfolding find_upt_Some by auto
    then show ?thesis using of_nat_unat_less [of i n] i(2) by (simp add: word_less_nat_alt)
  qed
next
  case RoundRobinInterleaveStep
  then have nz: "n \<noteq> 0" using assms by (auto simp: round_robin_pick_def)
  then obtain k where k: "find (\<lambda>k. \<not> d ((s + of_nat k) mod n)) [0..<unat n] = Some k"
    "w = (s + of_nat k) mod n"
    using assms RoundRobinInterleaveStep
    by (auto simp: round_robin_pick_def Let_def split: option.splits)
  then have "\<not> d w" unfolding find_upt_Some by auto
  moreover have "w < n" using nz k(2) by (simp add: word_less_nat_alt unat_mod unat_gt_0)
  ultimately show ?thesis by simp
qed

definition cta_measure :: "sim_config \<Rightarrow> cta_state \<Rightarrow> nat" where
  "cta_measure cfg c =
     (unat (cfg_max_steps cfg) - unat (ss_steps (cs_sim c))) +
     length (filter (\<lambda>w. \<not> w_done w) (cs_warps c))"

lemma filter_update_less:
  "i < length xs \<Longrightarrow> P (xs ! i) \<Longrightarrow> \<not> P y \<Longrightarrow> length (filter P (xs[i := y])) < length (filter P xs)"
proof (induction xs arbitrary: i)
  case Nil
  then show ?case by simp
next
  case (Cons x xs)
  then show ?case by (cases i) auto
qed

lemma filter_update_le:
  "i < length xs \<Longrightarrow> P (xs ! i) \<Longrightarrow> length (filter P (xs[i := y])) \<le> length (filter P xs)"
proof (induction xs arbitrary: i)
  case Nil
  then show ?case by simp
next
  case (Cons x xs)
  then show ?case by (cases i) auto
qed

lemma steps_decrease:
  "\<not> max_steps \<le> (s :: u64) \<Longrightarrow> unat max_steps - unat (s + 1) < unat max_steps - unat s"
proof -
  assume "\<not> max_steps \<le> s"
  then have lt: "unat s < unat max_steps" by (simp add: word_le_nat_alt)
  then have "unat s + 1 < 2 ^ 64" using unat_u64_less [of max_steps] by linarith
  then have "unat (s + 1) = unat s + 1" by (subst unat_add_u64) simp_all
  then show ?thesis using lt by simp
qed

text \<open>The cases of a round.\<close>

lemma cta_round_cases:
  assumes "cta_round cfg kind env c = (c', go)"
  obtains
    (limit) "ss_steps (cs_sim c) \<ge> cfg_max_steps cfg" "\<not> go" "c' = c\<lparr>cs_sim := request_stop (cs_sim c)\<rparr>"
  | (stopped) "cta_stop_requested (ss_cta (cs_sim c))" "\<not> go" "c' = c"
  | (all_done) sched' where "\<not> ss_steps (cs_sim c) \<ge> cfg_max_steps cfg" "\<not> go"
      "pick_next kind (of_nat (length (cs_warps c))) (warp_done_at (cs_warps c)) (cs_sched c) = (sched', None)"
      "c' = c\<lparr>cs_sched := sched'\<rparr>"
  | (idle) sched' pick w1 s1 where "\<not> ss_steps (cs_sim c) \<ge> cfg_max_steps cfg"
      "pick_next kind (of_nat (length (cs_warps c))) (warp_done_at (cs_warps c)) (cs_sched c) = (sched', Some pick)"
      "unat pick < length (cs_warps c)" "\<not> w_done (cs_warps c ! unat pick)"
      "normalize_stack env (cs_warps c ! unat pick) (cs_sim c) = (w1, s1, False)"
      "go \<longleftrightarrow> ss_diag s1 = None"
      "c' = c\<lparr>cs_warps := (cs_warps c)[unat pick := w1], cs_sched := sched',
              cs_sim := (if go then s1 else request_stop s1)\<rparr>"
  | (issued) sched' pick w1 s1 w2 s2 where "\<not> ss_steps (cs_sim c) \<ge> cfg_max_steps cfg"
      "pick_next kind (of_nat (length (cs_warps c))) (warp_done_at (cs_warps c)) (cs_sched c) = (sched', Some pick)"
      "unat pick < length (cs_warps c)" "\<not> w_done (cs_warps c ! unat pick)"
      "normalize_stack env (cs_warps c ! unat pick) (cs_sim c) = (w1, s1, True)"
      "issue env w1 s1 = (w2, s2, go)"
      "c' = c\<lparr>cs_warps := (cs_warps c)[unat pick := w2], cs_sched := sched', cs_sim := s2\<rparr>"
proof (cases "ss_steps (cs_sim c) \<ge> cfg_max_steps cfg \<or> cta_stop_requested (ss_cta (cs_sim c))")
  case True
  show thesis
  proof (cases "ss_steps (cs_sim c) \<ge> cfg_max_steps cfg")
    case lim: True
    then have "cta_round cfg kind env c = (c\<lparr>cs_sim := request_stop (cs_sim c)\<rparr>, False)"
      by (simp add: cta_round_def Let_def)
    then show thesis using assms lim by (intro limit) simp_all
  next
    case lim: False
    with True have stop: "cta_stop_requested (ss_cta (cs_sim c))" by simp
    then have "cta_round cfg kind env c = (c, False)" using lim by (simp add: cta_round_def Let_def)
    then show thesis using assms stop by (intro stopped) simp_all
  qed
next
  case False
  obtain sched' r where p: "pick_next kind (of_nat (length (cs_warps c))) (warp_done_at (cs_warps c)) (cs_sched c)
      = (sched', r)" by fastforce
  show thesis
  proof (cases r)
    case None
    then show thesis
      using assms False p by (intro all_done [of sched']) (simp_all add: cta_round_def Let_def)
  next
    case (Some pick)
    have live: "unat pick < length (cs_warps c)" "\<not> w_done (cs_warps c ! unat pick)"
      using pick_next_live [OF p [unfolded Some]] by (simp_all add: warp_done_at_def split: if_splits)
    obtain w1 s1 ok where n: "normalize_stack env (cs_warps c ! unat pick) (cs_sim c) = (w1, s1, ok)"
      by (metis prod_cases3)
    show thesis
    proof (cases ok)
      case ok: True
      obtain w2 s2 go' where iss: "issue env w1 s1 = (w2, s2, go')" by (metis prod_cases3)
      show thesis
        by (rule issued [of sched' pick w1 s1 w2 s2])
          (use assms False p Some live n ok iss in \<open>auto simp: cta_round_def Let_def\<close>)
    next
      case bad: False
      show thesis
        by (rule idle [of sched' pick w1 s1])
          (use assms False p Some live n bad in \<open>auto simp: cta_round_def Let_def split: if_splits\<close>)
    qed
  qed
qed

lemma cta_round_decreases:
  assumes "cta_round cfg kind env c = (c', True)"
  shows "cta_measure cfg c' < cta_measure cfg c"
  using assms
proof (cases rule: cta_round_cases)
  case (idle sched' pick w1 s1)
  then have "w_done w1"
    by (auto simp: normalize_stack_def Let_def split: prod.splits norm_result.splits)
  then have "length (filter (\<lambda>w. \<not> w_done w) ((cs_warps c)[unat pick := w1]))
      < length (filter (\<lambda>w. \<not> w_done w) (cs_warps c))"
    using idle by (intro filter_update_less) simp_all
  then show ?thesis using normalize_steps(1) [OF idle(5)] idle by (simp add: cta_measure_def)
next
  case (issued sched' pick w1 s1 w2 s2)
  have "ss_steps s2 = ss_steps (cs_sim c) + 1"
    using issue_steps(1) [OF issued(6)] normalize_steps(1) [OF issued(5)] by simp
  moreover have "length (filter (\<lambda>w. \<not> w_done w) ((cs_warps c)[unat pick := w2]))
      \<le> length (filter (\<lambda>w. \<not> w_done w) (cs_warps c))"
    using issued by (intro filter_update_le) simp_all
  ultimately show ?thesis using steps_decrease [OF issued(1)] issued by (simp add: cta_measure_def)
qed simp_all

function cta_loop :: "sim_config \<Rightarrow> warp_sched_kind \<Rightarrow> cta_env \<Rightarrow> cta_state \<Rightarrow> cta_state" where
  "cta_loop cfg kind env c =
     (case cta_round cfg kind env c of
        (c', True) \<Rightarrow> cta_loop cfg kind env c'
      | (c', False) \<Rightarrow> c')"
  by pat_completeness auto
termination
  by (relation "measure (\<lambda>(cfg, _, _, c). cta_measure cfg c)") (auto intro: cta_round_decreases)

declare cta_loop.simps [simp del]

section \<open>The run\<close>

definition warp_sched_of :: "sim_config \<Rightarrow> warp_sched_kind" where
  "warp_sched_of cfg =
     (case create_warp_scheduler (cfg_warp_scheduler cfg) of
        Some kind \<Rightarrow> kind
      | None \<Rightarrow> InOrderRunToCompletion)"

definition run_one_cta ::
  "f32_ops \<Rightarrow> sim_config \<Rightarrow> descriptor_registry \<Rightarrow> kernel_image \<Rightarrow> launch_config \<Rightarrow> u64 \<Rightarrow> u32 \<Rightarrow>
   cta_work_item \<Rightarrow> sim_state \<Rightarrow> cta_state" where
  "run_one_cta fp cfg reg k launch tpb ws it s =
     (let warps = init_warps k launch ws tpb it;
          kind = warp_sched_of cfg
      in case analyze_control_flow k reg ws of
           Inl d \<Rightarrow> \<lparr>cs_warps = warps, cs_sched = 0, cs_sim = fail_with d s\<rparr>
         | Inr table \<Rightarrow>
             cta_loop cfg kind
               \<lparr>ce_fp = fp, ce_kernel = k, ce_reg = reg, ce_warp_size = ws, ce_item = it, ce_reconv = table\<rparr>
               \<lparr>cs_warps = warps, cs_sched = sched_start kind (of_nat (length warps)), cs_sim = s\<rparr>)"

text \<open>The CTA loop hands the scheduler back as it was, apart from a request to stop.\<close>

definition same_cta_work :: "sim_state \<Rightarrow> sim_state \<Rightarrow> bool" where
  "same_cta_work s s' \<longleftrightarrow> ss_cta s' = ss_cta s \<or> ss_cta s' = cta_request_stop (ss_cta s)"

lemma cta_request_stop_idem [simp]: "cta_request_stop (cta_request_stop cs) = cta_request_stop cs"
  by (cases cs) (simp_all add: fifo_request_stop_def rr_request_stop_def)

lemma same_cta_work_trans: "same_cta_work s s' \<Longrightarrow> same_cta_work s' s'' \<Longrightarrow> same_cta_work s s''"
  by (auto simp: same_cta_work_def)

lemma same_cta_work_stop: "same_cta_work s (request_stop s)"
  by (simp add: same_cta_work_def request_stop_def)

lemma normalize_cta_work: "normalize_stack env w s = (w', s', go) \<Longrightarrow> same_cta_work s s'"
  by (auto simp: normalize_stack_def same_cta_work_def Let_def split: prod.splits norm_result.splits)

lemma issue_cta_work:
  assumes "issue env w s = (w', s', go)"
  shows "same_cta_work s s'"
proof -
  have run: "same_cta_work s t'" if r: "run_uops env i us w t = (v, t', g)" and t: "ss_cta t = ss_cta s" for i us t v t' g
  proof -
    let ?x = "\<lparr>ur_warp = w, ur_sim = t, ur_next = None, ur_split = None\<rparr>"
    obtain x d where l: "loop_e (uop_body env i) us ?x = (x, d)" by fastforce
    have "sim_frame (ur_sim x) = sim_frame t" using uop_loop_frame [of env i us ?x] by (simp add: l)
    moreover have "sim_frame (snd (commit env i x)) = sim_frame (ur_sim x)" by (rule commit_frame)
    ultimately show ?thesis
      using r t by (auto simp: run_uops_def l sim_frame_def same_cta_work_def split: option.splits prod.splits)
  qed
  then show ?thesis
    using assms
    by (auto simp: issue_def same_cta_work_def Let_def split: if_splits option.splits)
qed

lemma cta_round_work:
  assumes "cta_round cfg kind env c = (c', go)"
  shows "same_cta_work (cs_sim c) (cs_sim c')"
  using assms
proof (cases rule: cta_round_cases)
  case (idle sched' pick w1 s1)
  then show ?thesis
    using normalize_cta_work [OF idle(5)] same_cta_work_trans [OF _ same_cta_work_stop] by simp
next
  case (issued sched' pick w1 s1 w2 s2)
  then show ?thesis
    using same_cta_work_trans [OF normalize_cta_work [OF issued(5)] issue_cta_work [OF issued(6)]] by simp
qed (simp_all add: same_cta_work_stop, simp_all add: same_cta_work_def)

lemma cta_loop_work: "same_cta_work (cs_sim c) (cs_sim (cta_loop cfg kind env c))"
proof (induction cfg kind env c rule: cta_loop.induct)
  case (1 cfg kind env c)
  obtain c' go where r: "cta_round cfg kind env c = (c', go)" by fastforce
  then have w: "same_cta_work (cs_sim c) (cs_sim c')" by (rule cta_round_work)
  show ?case
  proof (cases go)
    case True
    then have "same_cta_work (cs_sim c') (cs_sim (cta_loop cfg kind env c'))"
      using "1.IH" [OF r [symmetric]] by simp
    then show ?thesis
      using same_cta_work_trans [OF w] True by (simp add: cta_loop.simps [of cfg kind env c] r)
  next
    case False
    then show ?thesis using w by (simp add: cta_loop.simps [of cfg kind env c] r)
  qed
qed

lemma run_one_cta_work: "same_cta_work s (cs_sim (run_one_cta fp cfg reg k launch tpb ws it s))"
proof -
  have "same_cta_work s (cs_sim (cta_loop cfg kind env \<lparr>cs_warps = a, cs_sched = b, cs_sim = s\<rparr>))"
    for kind env a b
    using cta_loop_work [of "\<lparr>cs_warps = a, cs_sched = b, cs_sim = s\<rparr>"] by simp
  then show ?thesis
    by (auto simp: run_one_cta_def Let_def same_cta_work_def split: sum.split)
qed

lemma cta_request_stop_items [simp]:
  "cta_items_of (cta_request_stop cs) = cta_items_of cs" "cta_wf (cta_request_stop cs) = cta_wf cs"
  "\<not> cta_single (cta_request_stop cs)"
  "cta_stop_requested (cta_request_stop cs)"
  by (cases cs; simp add: fifo_request_stop_def rr_request_stop_def rr_wf_def; fail)+

lemma acquire_size:
  assumes "cta_wf cs" and "cta_acquire sm cs = (cs', Acquired (Some it))"
  shows "size (cta_items_of cs') < size (cta_items_of cs) \<and> cta_wf cs'"
proof -
  have t: "cta_try_acquire sm cs = (cs', Some it)" using assms(2) by (simp add: cta_try_acquire_def)
  have "cta_items_of cs = add_mset it (cta_items_of cs')" by (rule cta.acquire_some [OF assms(1) t])
  moreover have "cta_wf cs'" using cta.acquire_wf [OF assms(1), of sm] by (simp add: t)
  ultimately show ?thesis by simp
qed

text \<open>
  The loop over the CTAs, as SM 0.  The result also lists the final state of every CTA that was
  run.  \<open>None\<close> means that the loop does not return: it would wait for work that never comes.
\<close>

partial_function (option) serial_loop ::
  "(cta_work_item \<Rightarrow> sim_state \<Rightarrow> cta_state) \<Rightarrow> sim_state \<Rightarrow> (sim_state \<times> cta_state list) option" where
  "serial_loop run_cta s =
     (case cta_acquire 0 (ss_cta s) of
        (cs', Wait) \<Rightarrow> None
      | (cs', Acquired None) \<Rightarrow> Some (s\<lparr>ss_cta := cs'\<rparr>, [])
      | (cs', Acquired (Some it)) \<Rightarrow>
          let c = run_cta it (s\<lparr>ss_cta := cs'\<rparr>); s' = cs_sim c
          in if ss_diag s' \<noteq> None then Some (s', [c])
             else Option.bind (serial_loop run_cta s') (\<lambda>(s'', cs). Some (s'', c # cs)))"

text \<open>The configuration of the trace event that opens a run.\<close>

definition run_start_event :: "sim_config \<Rightarrow> u32 \<Rightarrow> u64 \<Rightarrow> event" where
  "run_start_event cfg sm_count ts =
     (let components = obj_of [(''cta_scheduler'', JStr (cfg_cta_scheduler cfg)),
            (''warp_scheduler'', JStr (cfg_warp_scheduler cfg)),
            (''memory_model'', JStr (cfg_memory_model cfg))];
          o' = obj_of [(''profile'', JStr (cfg_profile cfg)), (''components'', JObj components),
            (''sm_count'', JNum (uint sm_count)), (''parallel'', JBool False),
            (''deterministic'', JBool (cfg_deterministic cfg))]
      in event_default\<lparr>ev_ts := ts, ev_category := EvStream, ev_action := ''RUN_START'',
           ev_extra := Some (JObj o')\<rparr>)"

definition parallel_enabled :: "sim_config \<Rightarrow> bool" where
  "parallel_enabled cfg \<longleftrightarrow> cfg_parallel cfg \<and> \<not> cfg_deterministic cfg \<and> cfg_sm_count cfg > 1"

definition failed_launch :: "diagnostic \<Rightarrow> sim_result" where
  "failed_launch d = \<lparr>sr_completed = False, sr_diag = Some d, sr_steps = 0\<rparr>"

text \<open>
  A run with \<open>\<not> parallel_enabled cfg\<close>.  The lists of CTA states is what the proofs look at; the
  code keeps none of it.
\<close>

definition start_state :: "sim_config \<Rightarrow> mem_state \<Rightarrow> obs_control \<Rightarrow> launch_config \<Rightarrow> cta_sched \<Rightarrow> sim_state" where
  "start_state cfg ms obs launch cs =
     emit_at (run_start_event cfg 1)
       \<lparr>ss_mem = ms, ss_obs = obs, ss_ts = 0, ss_steps = 0, ss_diag = None,
        ss_cta = cta_close (fold cta_submit (cta_items (grid_dim launch)) cs)\<rparr>"

definition simt_run_serial ::
  "f32_ops \<Rightarrow> sim_config \<Rightarrow> descriptor_registry \<Rightarrow> mem_state \<Rightarrow> obs_control \<Rightarrow> kernel_image \<Rightarrow>
   launch_config \<Rightarrow> (sim_result \<times> mem_state \<times> obs_control \<times> cta_state list) option" where
  "simt_run_serial fp cfg reg ms obs k launch =
     (case check_launch cfg k launch of
        Inl d \<Rightarrow> Some (failed_launch d, ms, obs, [])
      | Inr (tpb, ws) \<Rightarrow>
          (case check_selectors cfg k 1 of
             Inl d \<Rightarrow> Some (failed_launch d, ms, obs, [])
           | Inr cs \<Rightarrow>
               (case serial_loop (run_one_cta fp cfg reg k launch tpb ws) (start_state cfg ms obs launch cs) of
                  None \<Rightarrow> None
                | Some (s, ctas) \<Rightarrow>
                    Some (\<lparr>sr_completed = (ss_diag s = None), sr_diag = ss_diag s, sr_steps = ss_steps s\<rparr>,
                          ss_mem s, ss_obs s, ctas))))"

definition default_launch :: "sim_config \<Rightarrow> launch_config" where
  "default_launch cfg =
     \<lparr>grid_dim = \<lparr>dim_x = 1, dim_y = 1, dim_z = 1\<rparr>,
      block_dim = \<lparr>dim_x = cfg_warp_size cfg, dim_y = 1, dim_z = 1\<rparr>,
      launch_warp_size = cfg_warp_size cfg\<rparr>"

subsection \<open>The run returns\<close>

fun cta_closed :: "cta_sched \<Rightarrow> bool" where
  "cta_closed (Fifo s) = fs_closed s"
| "cta_closed (SmRoundRobin s) = rs_closed s"

lemma acquire_closed:
  assumes "cta_closed cs" and "cta_acquire sm cs = (cs', r)"
  shows "r \<noteq> Wait \<and> cta_closed cs'"
  using assms
  by (cases cs)
    (auto simp: fifo_acquire_def rr_acquire_def Let_def split: prod.splits if_splits list.splits)

lemma cta_closed_stop [simp]: "cta_closed (cta_request_stop cs) = cta_closed cs"
  by (cases cs) (simp_all add: fifo_request_stop_def rr_request_stop_def)

lemma serial_loop_returns:
  assumes "cta_wf (ss_cta s)" and "cta_closed (ss_cta s)"
    and "\<And>it s. same_cta_work s (cs_sim (run_cta it s))"
  shows "\<exists>r. serial_loop run_cta s = Some r"
  using assms(1,2)
proof (induction "size (cta_items_of (ss_cta s))" arbitrary: s rule: less_induct)
  case less
  obtain cs' r where a: "cta_acquire 0 (ss_cta s) = (cs', r)" by fastforce
  note cl = acquire_closed [OF less.prems(2) a]
  show ?case
  proof (cases r)
    case Wait
    then show ?thesis using cl by simp
  next
    case (Acquired o')
    show ?thesis
    proof (cases o')
      case None
      then show ?thesis by (simp add: serial_loop.simps [of run_cta s] a Acquired)
    next
      case (Some it)
      let ?s' = "cs_sim (run_cta it (s\<lparr>ss_cta := cs'\<rparr>))"
      have small: "size (cta_items_of cs') < size (cta_items_of (ss_cta s))" "cta_wf cs'"
        using acquire_size [OF less.prems(1)] a Acquired Some by auto
      have "ss_cta ?s' = cs' \<or> ss_cta ?s' = cta_request_stop cs'"
        using assms(3) [of "s\<lparr>ss_cta := cs'\<rparr>" it] by (simp add: same_cta_work_def)
      then have "\<exists>r. serial_loop run_cta ?s' = Some r"
        using less.hyps [of ?s'] small cl by auto
      then show ?thesis
        by (auto simp: serial_loop.simps [of run_cta s] a Acquired Some Let_def)
    qed
  qed
qed

section \<open>The lanes of a warp are accounted for\<close>

text \<open>
  \<open>warp_inv ws L w\<close>: the frames and the exited lanes partition the lanes \<open>L\<close> of the launch;
  a warp that is done has seen all of them exit.  \<open>warp_ready\<close> holds while an instruction is
  executed: the active mask is the one of the top frame.
\<close>

definition warp_inv :: "u32 \<Rightarrow> nat set \<Rightarrow> warp_state \<Rightarrow> bool" where
  "warp_inv ws L w \<longleftrightarrow>
     stack_masks ws (w_exited w) (w_stack w) \<and> lane_partition L (w_exited w) (w_stack w) \<and>
     (w_done w \<longrightarrow> w_stack w = [])"

definition warp_ready :: "u32 \<Rightarrow> nat set \<Rightarrow> warp_state \<Rightarrow> bool" where
  "warp_ready ws L w \<longleftrightarrow>
     stack_masks ws (w_exited w) (w_stack w) \<and> lane_partition L (w_exited w) (w_stack w) \<and>
     \<not> w_done w \<and>
     (\<exists>tf rest. w_stack w = tf # rest \<and> fr_active tf = w_active w) \<and>
     lanes_of (w_active w) \<inter> lanes_of (w_exited w) = {}"

definition split_ok :: "u32 \<Rightarrow> warp_state \<Rightarrow> pending_split \<Rightarrow> bool" where
  "split_ok ws w sp \<longleftrightarrow>
     warp_mask ws (sp_taken sp) \<and> warp_mask ws (sp_fall sp) \<and>
     lanes_of (sp_taken sp) \<inter> lanes_of (sp_fall sp) = {} \<and>
     (lanes_of (sp_taken sp) \<union> lanes_of (sp_fall sp)) - lanes_of (w_exited w) = lanes_of (w_active w)"

definition run_inv :: "u32 \<Rightarrow> nat set \<Rightarrow> uop_run \<Rightarrow> bool" where
  "run_inv ws L x \<longleftrightarrow> warp_ready ws L (ur_warp x) \<and>
     (case ur_split x of None \<Rightarrow> True | Some sp \<Rightarrow> split_ok ws (ur_warp x) sp)"

lemma warp_done_exited:
  "warp_inv ws L w \<Longrightarrow> w_done w \<Longrightarrow> lanes_of (w_exited w) = L"
  by (auto simp: warp_inv_def lane_partition_def)

lemma warp_ready_context:
  "same_context w w' \<Longrightarrow> warp_ready ws L w \<Longrightarrow> warp_ready ws L w'"
  by (simp add: warp_ready_def warp_simps)

lemma run_inv_context:
  "run_inv ws L x \<Longrightarrow> same_context (ur_warp x) w' \<Longrightarrow> run_inv ws L (x\<lparr>ur_warp := w', ur_sim := s\<rparr>)"
  using warp_ready_context [of "ur_warp x" w' ws L]
  by (auto simp: run_inv_def split_ok_def warp_simps split: option.splits)

lemma ready_top:
  assumes "warp_ready ws L w"
  obtains tf rest where "w_stack w = tf # rest" "fr_active tf = w_active w"
    "warp_mask ws (w_active w)" "warp_mask ws (w_exited w)"
    "effective (w_exited w) tf = lanes_of (w_active w)"
proof -
  from assms obtain tf rest where t: "w_stack w = tf # rest" "fr_active tf = w_active w"
    by (auto simp: warp_ready_def)
  then have "warp_mask ws (w_active w)" "warp_mask ws (w_exited w)"
    using assms by (auto simp: warp_ready_def stack_masks_def)
  moreover have "effective (w_exited w) tf = lanes_of (w_active w)"
    using assms t(2) by (auto simp: effective_def warp_ready_def)
  ultimately show ?thesis using that t by blast
qed

lemma uop_exec_warp:
  fixes x :: uop_run
  shows "\<exists>w' s'. fst (uop_exec env u x) = x\<lparr>ur_warp := w', ur_sim := s'\<rparr> \<and> same_context (ur_warp x) w'"
proof -
  obtain w obs r where e: "exec_step (ce_fp env) u (ur_warp x) (ss_obs (ur_sim x)) = (w, obs, r)"
    by (metis prod_cases3)
  have "same_context (ur_warp x) w"
    using exec_step_same_context [of "ur_warp x" "ce_fp env" u "ss_obs (ur_sim x)"] by (simp add: e)
  then show ?thesis by (auto simp: uop_exec_def e)
qed

lemma uop_mem_warp:
  fixes x :: uop_run
  shows "\<exists>w' s'. fst (uop_mem u x) = x\<lparr>ur_warp := w', ur_sim := s'\<rparr> \<and> same_context (ur_warp x) w'"
proof -
  obtain ms w obs r where e: "mem_step (ss_mem (ur_sim x)) u (ur_warp x) (ss_obs (ur_sim x)) = (ms, w, obs, r)"
    by (metis prod_cases4)
  have "same_context (ur_warp x) w"
    using mem_step_same_context [of "ur_warp x" "ss_mem (ur_sim x)" u "ss_obs (ur_sim x)"] by (simp add: e)
  then show ?thesis by (auto simp: uop_mem_def e)
qed

lemma uop_ctrl_warp:
  fixes x :: uop_run
  assumes "u_op u \<noteq> Ret"
  shows "\<exists>s'. fst (uop_ctrl u x) = x\<lparr>ur_warp := ur_warp x, ur_sim := s'\<rparr>"
proof -
  obtain w obs r where e: "ctrl_step u (ur_warp x) (ss_obs (ur_sim x)) = (w, obs, r)"
    by (metis prod_cases3)
  have "w = ur_warp x" using ctrl_step_warp [OF assms, of "ur_warp x" "ss_obs (ur_sim x)"] by (simp add: e)
  then show ?thesis using assms by (auto simp: uop_ctrl_def e)
qed

text \<open>A masked \<open>RET\<close> moves the lanes of the execution mask to the exited ones.\<close>

lemma ret_uop_ready:
  assumes "warp_ready ws L w" and "split = None \<or> split = Some sp \<and> split_ok ws w sp"
  shows "warp_ready ws L (ret_uop u w) \<and> (split = Some sp \<longrightarrow> split_ok ws (ret_uop u w) sp)"
proof (cases "lm_bits (exec_mask_of w u) = 0")
  case True
  then show ?thesis using assms by (auto simp: ret_uop_def Let_def)
next
  case False
  obtain tf rest where t: "w_stack w = tf # rest" "fr_active tf = w_active w"
    and wm: "warp_mask ws (w_active w)" "warp_mask ws (w_exited w)"
    and eff: "effective (w_exited w) tf = lanes_of (w_active w)"
    using ready_top [OF assms(1)] by blast
  let ?E = "exec_mask_of w u"
  let ?x = "lane_mask_or_same_width (w_exited w) ?E"
  let ?m = "lane_mask_and (w_active w) (lane_mask_not_width ?E)"
  have E: "lanes_of ?E \<subseteq> lanes_of (w_active w)" "warp_mask ws ?E"
    using wm(1) by (auto simp: exec_mask_of_def mask_simps)
  have w': "ret_uop u w = w\<lparr>w_exited := ?x, w_stack := tf\<lparr>fr_active := ?m\<rparr> # rest, w_active := ?m\<rparr>"
    using False t by (simp add: ret_uop_def Let_def)
  have m: "lanes_of ?m = lanes_of (w_active w) - lanes_of ?E"
    using E(2) by (intro lanes_minus [OF wm(1)]) (simp add: warp_mask_def)
  have x: "lanes_of ?x = lanes_of (w_exited w) \<union> lanes_of ?E" by (simp add: mask_simps)
  have disj: "lanes_of (w_active w) \<inter> lanes_of (w_exited w) = {}"
    using assms(1) by (simp add: warp_ready_def)
  have part: "lane_partition L (w_exited w) (tf # rest)"
    using assms(1) t(1) by (simp add: warp_ready_def)
  have keep: "effective ?x g = effective (w_exited w) g" if "g \<in> set rest" for g
  proof -
    have "lanes_of (w_active w) \<inter> effective (w_exited w) g = {}"
      using part that eff by (auto simp: partition_Cons)
    then show ?thesis using E(1) by (auto simp: effective_def x)
  qed
  have top': "effective ?x (tf\<lparr>fr_active := ?m\<rparr>) = lanes_of (w_active w) - lanes_of ?E"
    using disj by (auto simp: effective_def x m)
  have "lane_partition L ?x (tf\<lparr>fr_active := ?m\<rparr> # rest)"
  proof -
    have "sorted_wrt (\<lambda>f g. effective ?x f \<inter> effective ?x g = {}) rest"
      using part keep by (auto simp: partition_Cons intro: sorted_wrt_mono_rel [rotated])
    moreover have "\<forall>g \<in> set rest. effective ?x (tf\<lparr>fr_active := ?m\<rparr>) \<inter> effective ?x g = {}"
      using part keep eff top' by (auto simp: partition_Cons)
    moreover have "lanes_of ?x \<subseteq> L"
      using part E(1) eff by (auto simp: partition_Cons x)
    moreover have "lanes_of ?x \<union> (effective ?x (tf\<lparr>fr_active := ?m\<rparr>) \<union> (\<Union>g \<in> set rest. effective ?x g)) = L"
      using part E(1) eff keep by (auto simp: partition_Cons x top')
    ultimately show ?thesis by (simp add: partition_Cons)
  qed
  moreover have "stack_masks ws ?x (tf\<lparr>fr_active := ?m\<rparr> # rest)"
    using assms(1) t(1) wm E(2) by (auto simp: warp_ready_def stack_masks_def)
  moreover have "lanes_of ?m \<inter> lanes_of ?x = {}" using disj by (auto simp: m x)
  ultimately have "warp_ready ws L (ret_uop u w)"
    using assms(1) by (simp add: warp_ready_def w')
  moreover have "split_ok ws (ret_uop u w) sp" if "split = Some sp"
    using assms(2) that by (auto simp: split_ok_def w' m x)
  ultimately show ?thesis by blast
qed

lemma note_split_ready:
  assumes "run_inv ws L x" and "lm_width (u_guard u) = ws"
  shows "run_inv ws L (fst (note_split env i u t x))"
proof -
  let ?w = "ur_warp x"
  obtain tf rest where wm: "warp_mask ws (w_active ?w)"
    using ready_top [of ws L ?w] assms(1) by (auto simp: run_inv_def)
  let ?taken = "lane_mask_and (w_active ?w) (u_guard u)"
  let ?fall = "lane_mask_and (w_active ?w) (lane_mask_not_width (u_guard u))"
  have f: "lanes_of ?fall = lanes_of (w_active ?w) - lanes_of (u_guard u)"
    by (rule lanes_minus [OF wm assms(2)])
  have disj: "lanes_of (w_active ?w) \<inter> lanes_of (w_exited ?w) = {}"
    using assms(1) by (simp add: run_inv_def warp_ready_def)
  have "split_ok ws ?w \<lparr>sp_pc = pc, sp_target = t, sp_reconv = r, sp_taken = ?taken, sp_fall = ?fall\<rparr>" for pc r
    using wm f disj by (auto simp: split_ok_def mask_simps)
  then show ?thesis
    using assms(1) by (auto simp: note_split_def run_inv_def Let_def split: option.splits)
qed

lemma uop_body_ready:
  assumes "run_inv ws L x" and "lm_width (u_guard u) = ws"
  shows "run_inv ws L (fst (uop_body env i u x))"
proof (rule uop_body_keeps [where P = "run_inv ws L"])
  show "run_inv ws L x" by (rule assms(1))
next
  fix x assume x: "run_inv ws L x"
  show "run_inv ws L (x\<lparr>ur_sim := emit_uop env u (ur_warp x) (ur_sim x)\<rparr>)"
    using x by (cases "ur_split x") (simp_all add: run_inv_def)
  show "run_inv ws L (fst (after_unit env i r x))" for r
    using x by (cases "ur_split x") (simp_all add: run_inv_def after_unit_warp after_unit_split)
  show "run_inv ws L (fst (note_split env i u t x))" for t
    by (rule note_split_ready [OF x assms(2)])
  show "run_inv ws L (fst (uop_exec env u x))"
    using run_inv_context [OF x] uop_exec_warp [of env u x] by auto
  show "run_inv ws L (fst (uop_mem u x))"
    using run_inv_context [OF x] uop_mem_warp [of u x] by auto
  show "run_inv ws L (fst (uop_ctrl u x))"
  proof (cases "u_op u = Ret")
    case True
    have "warp_ready ws L (ret_uop u (ur_warp x)) \<and>
        (ur_split x = Some sp \<longrightarrow> split_ok ws (ret_uop u (ur_warp x)) sp)"
      if "ur_split x = None \<or> ur_split x = Some sp" for sp
      using x that by (intro ret_uop_ready) (auto simp: run_inv_def)
    then show ?thesis using True by (cases "ur_split x") (auto simp: uop_ctrl_def run_inv_def)
  next
    case False
    then show ?thesis
      using run_inv_context [OF x same_context_refl] uop_ctrl_warp [OF False, of x] by auto
  qed
qed

lemma commit_stack_inv:
  assumes "warp_ready ws L w" and "sp = None \<or> (\<exists>p. sp = Some p \<and> split_ok ws w p)"
    and "ce_warp_size env = ws"
  shows "warp_inv ws L (commit_stack env sp next_pc w)"
proof -
  obtain tf rest where t: "w_stack w = tf # rest" "fr_active tf = w_active w"
    and wm: "warp_mask ws (w_active w)" "warp_mask ws (w_exited w)"
    and eff: "effective (w_exited w) tf = lanes_of (w_active w)"
    using ready_top [OF assms(1)] by blast
  have part: "lane_partition L (w_exited w) (tf # rest)" and nd: "\<not> w_done w"
    and masks: "\<forall>g \<in> set rest. warp_mask ws (fr_active g)"
    using assms(1) t(1) by (simp_all add: warp_ready_def stack_masks_def)
  show ?thesis
  proof (cases sp)
    case None
    have "lane_partition L (w_exited w) (tf\<lparr>fr_pc := p\<rparr> # rest)" for p
      using partition_replace_top [OF part] by simp
    then show ?thesis
      using None t nd wm masks by (simp add: commit_stack_def Let_def warp_inv_def stack_masks_def)
  next
    case (Some p)
    then have ok: "split_ok ws w p" using assms(2) by auto
    let ?X = "w_exited w"
    let ?fs = "split_frames env p (w_pc w) (fr_reconv_pc tf)"
    have join: "lanes_of \<lparr>lm_width = ws, lm_bits = 0\<rparr> = {}" by (simp add: lanes_of_empty_iff)
    have effs: "map (effective ?X) ?fs = [lanes_of (sp_taken p) - lanes_of ?X, lanes_of (sp_fall p) - lanes_of ?X, {}]"
      using assms(3) join by (simp add: split_frames_def effective_def)
    have union: "(lanes_of (sp_taken p) - lanes_of ?X) \<union> (lanes_of (sp_fall p) - lanes_of ?X) = lanes_of (w_active w)"
      using ok by (auto simp: split_ok_def)
    have "lane_partition L ?X (?fs @ rest)"
    proof -
      have rest: "\<forall>g \<in> set rest. lanes_of (w_active w) \<inter> effective ?X g = {}"
        using part eff by (simp add: partition_Cons)
      obtain a b j where fs: "?fs = [a, b, j]" by (simp add: split_frames_def)
      have abj: "effective ?X a = lanes_of (sp_taken p) - lanes_of ?X"
        "effective ?X b = lanes_of (sp_fall p) - lanes_of ?X" "effective ?X j = {}"
        using effs by (simp_all add: fs)
      have "effective ?X a \<inter> effective ?X b = {}" using ok by (auto simp: abj split_ok_def)
      then show ?thesis
        using part rest union eff by (auto simp: fs partition_Cons abj)
    qed
    moreover have "\<forall>f \<in> set ?fs. warp_mask ws (fr_active f)"
      using ok assms(3) join by (simp add: split_frames_def split_ok_def warp_mask_def)
    ultimately have "stack_masks ws ?X (?fs @ rest) \<and> lane_partition L ?X (?fs @ rest)"
      using wm masks by (auto simp: stack_masks_def)
    moreover obtain h hs where "?fs @ rest = h # hs" by (simp add: split_frames_def)
    ultimately show ?thesis
      using Some t nd by (simp add: commit_stack_def Let_def warp_inv_def)
  qed
qed

lemma run_uops_inv:
  assumes "run_uops env i us w s = (w', s', True)" and "warp_ready ws L w"
    and "\<And>u. u \<in> set us \<Longrightarrow> lm_width (u_guard u) = ws" and "ce_warp_size env = ws"
  shows "warp_inv ws L w'"
proof -
  let ?x = "\<lparr>ur_warp = w, ur_sim = s, ur_next = None, ur_split = None\<rparr>"
  obtain x d where l: "loop_e (uop_body env i) us ?x = (x, d)" by fastforce
  have "run_inv ws L (fst (loop_e (uop_body env i) us ?x))"
  proof (rule loop_e_invariant [where P = "run_inv ws L"])
    show "run_inv ws L ?x" using assms(2) by (simp add: run_inv_def)
    show "run_inv ws L (fst (uop_body env i u y))" if "u \<in> set us" "run_inv ws L y" for u y
      by (rule uop_body_ready [OF that(2) assms(3) [OF that(1)]])
  qed
  then have x: "run_inv ws L x" by (simp add: l)
  then have "\<not> w_done (ur_warp x)" by (simp add: run_inv_def warp_ready_def)
  moreover have "warp_inv ws L (commit_stack env (ur_split x) (ur_next x) (ur_warp x))"
    using x by (intro commit_stack_inv assms(4)) (auto simp: run_inv_def split: option.splits)
  ultimately show ?thesis
    using assms(1) by (auto simp: run_uops_def l commit_def Let_def split: option.splits)
qed

lemma guarded_uops_width:
  assumes "guarded_uops env i d w = Some us" and "u \<in> set us"
  shows "lm_width (u_guard u) = ce_warp_size env"
proof -
  have "lm_width (u_guard v) = ce_warp_size env" if "v \<in> set (expand i d (ce_warp_size env))" for v
    using expand_guard [OF that] by (simp add: lane_mask_all_def)
  then show ?thesis
    using assms by (auto simp: guarded_uops_def apply_pred_def Let_def split: option.splits)
qed

lemma issue_inv:
  assumes "issue env w s = (w', s', True)" and "warp_ready (ce_warp_size env) L w"
  shows "warp_inv (ce_warp_size env) L w'"
  using assms
  by (auto simp: issue_def Let_def split: if_splits option.splits
      intro: run_uops_inv [OF _ assms(2)] dest: guarded_uops_width)

lemma normalize_inv:
  assumes "normalize_stack env w s = (w', s', go)" and "warp_inv ws L w" and "\<not> w_done w"
    and "ce_warp_size env = ws"
  shows "go \<Longrightarrow> warp_ready ws L w'"
    and "\<not> go \<Longrightarrow> ss_diag s' = None \<Longrightarrow> warp_inv ws L w' \<and> w_done w'"
proof -
  obtain st ctl r where n: "norm_stack (w_exited w) (w_stack w) = (st, ctl, r)" by (metis prod_cases3)
  have good: "norm_good ws L (w_exited w) st r"
    using norm_stack_good [OF n, of ws L] assms(2) by (simp add: warp_inv_def)
  have wm: "warp_mask ws (w_exited w)" using assms(2) by (simp add: warp_inv_def stack_masks_def)
  show "warp_ready ws L w'" if "go"
    using assms(1,3) good that
    by (auto simp: normalize_stack_def n norm_good_def warp_ready_def Let_def split: norm_result.splits)
  show "warp_inv ws L w' \<and> w_done w'" if "\<not> go" "ss_diag s' = None"
    using assms(1) good that wm
    by (auto simp: normalize_stack_def n norm_good_def warp_inv_def stack_masks_def lane_partition_def
        Let_def split: norm_result.splits)
qed

section \<open>The place of a warp in the launch never changes\<close>

definition warp_static :: "warp_state \<Rightarrow> launch_config \<times> dim3 \<times> u32 \<times> u32" where
  "warp_static w = (w_launch w, w_ctaid w, w_warpid w, w_lane_base w)"

lemma warp_static_context: "same_context w w' \<Longrightarrow> warp_static w' = warp_static w"
  by (simp add: warp_static_def warp_simps)

lemma uop_body_static:
  fixes x :: uop_run
  shows "warp_static (ur_warp (fst (uop_body env i u x))) = warp_static (ur_warp x)"
proof (rule uop_body_keeps [where P = "\<lambda>y. warp_static (ur_warp y) = warp_static (ur_warp x)"])
  fix y :: uop_run assume y: "warp_static (ur_warp y) = warp_static (ur_warp x)"
  show "warp_static (ur_warp (fst (uop_exec env u y))) = warp_static (ur_warp x)"
    using y warp_static_context uop_exec_warp [of env u y] by auto
  show "warp_static (ur_warp (fst (uop_mem u y))) = warp_static (ur_warp x)"
    using y warp_static_context uop_mem_warp [of u y] by auto
  show "warp_static (ur_warp (fst (uop_ctrl u y))) = warp_static (ur_warp x)"
  proof (cases "u_op u = Ret")
    case True
    then show ?thesis
      using y by (simp add: uop_ctrl_def ret_uop_def warp_static_def Let_def split: list.split)
  next
    case False
    then show ?thesis using y uop_ctrl_warp [OF False, of y] by auto
  qed
qed (simp_all add: after_unit_warp note_split_warp)

lemma run_uops_static:
  assumes "run_uops env i us w s = (w', s', go)"
  shows "warp_static w' = warp_static w"
proof -
  let ?x = "\<lparr>ur_warp = w, ur_sim = s, ur_next = None, ur_split = None\<rparr>"
  obtain x d where l: "loop_e (uop_body env i) us ?x = (x, d)" by fastforce
  have "warp_static (ur_warp (fst (loop_e (uop_body env i) us ?x))) = warp_static (ur_warp ?x)"
    by (rule loop_e_keeps) (rule uop_body_static)
  then have "warp_static (ur_warp x) = warp_static w" by (simp add: l)
  moreover have "warp_static (commit_stack env sp n v) = warp_static v" for sp n v
    by (simp add: commit_stack_def warp_static_def Let_def split: list.split)
  ultimately show ?thesis
    using assms by (auto simp: run_uops_def l commit_def Let_def split: option.splits if_splits)
qed

lemma issue_static: "issue env w s = (w', s', go) \<Longrightarrow> warp_static w' = warp_static w"
  by (auto simp: issue_def Let_def run_uops_static split: if_splits option.splits)

lemma normalize_static: "normalize_stack env w s = (w', s', go) \<Longrightarrow> warp_static w' = warp_static w"
  by (auto simp: normalize_stack_def warp_static_def Let_def split: prod.splits norm_result.splits)

section \<open>The warps of a CTA\<close>

definition cta_inv ::
  "warp_sched_kind \<Rightarrow> u32 \<Rightarrow> (launch_config \<times> dim3 \<times> u32 \<times> u32) list \<Rightarrow> nat set list \<Rightarrow> cta_state \<Rightarrow> bool" where
  "cta_inv kind ws sts Ls c \<longleftrightarrow>
     map warp_static (cs_warps c) = sts \<and> length sts = length Ls \<and>
     (\<forall>i < length Ls. warp_inv ws (Ls ! i) (cs_warps c ! i)) \<and>
     sched_inv kind (of_nat (length Ls)) (warp_done_at (cs_warps c)) (cs_sched c)"

lemma cta_inv_length: "cta_inv kind ws sts Ls c \<Longrightarrow> length (cs_warps c) = length Ls"
  unfolding cta_inv_def by (metis length_map)

lemma cta_inv_update:
  assumes "cta_inv kind ws sts Ls c" and "i < length Ls" and "warp_inv ws (Ls ! i) w"
    and "warp_static w = warp_static (cs_warps c ! i)" and "\<not> w_done (cs_warps c ! i)"
    and "pick_next kind (of_nat (length Ls)) (warp_done_at (cs_warps c)) (cs_sched c) = (sched', Some pick)"
  shows "cta_inv kind ws sts Ls (c\<lparr>cs_warps := (cs_warps c)[i := w], cs_sched := sched', cs_sim := s\<rparr>)"
proof -
  have len: "length (cs_warps c) = length Ls" by (rule cta_inv_length [OF assms(1)])
  have inv: "sched_inv kind (of_nat (length Ls)) (warp_done_at (cs_warps c)) (cs_sched c)"
    using assms(1) by (simp add: cta_inv_def)
  have mono: "warp_done_at ((cs_warps c)[i := w]) v" if "warp_done_at (cs_warps c) v" for v
  proof (cases "unat v = i")
    case True
    then show ?thesis using that assms(2,5) len by (simp add: warp_done_at_def)
  next
    case False
    then show ?thesis using that by (simp add: warp_done_at_def)
  qed
  have "sched_inv kind (of_nat (length Ls)) (warp_done_at ((cs_warps c)[i := w])) sched'"
    by (rule sched.inv_after_step [OF inv assms(6) mono])
  moreover have "map warp_static ((cs_warps c)[i := w]) = sts"
    using assms(1,2,4) len by (metis cta_inv_def list_update_id map_update nth_map)
  moreover have "warp_inv ws (Ls ! j) ((cs_warps c)[i := w] ! j)" if "j < length Ls" for j
    using assms(1,3) that len by (cases "j = i") (auto simp: cta_inv_def)
  ultimately show ?thesis using assms(1) by (simp add: cta_inv_def)
qed

lemma cta_round_inv:
  assumes "cta_round cfg kind env c = (c', go)" and "cta_inv kind (ce_warp_size env) sts Ls c"
    and "ss_diag (cs_sim c') = None"
  shows "cta_inv kind (ce_warp_size env) sts Ls c'"
  using assms(1)
proof (cases rule: cta_round_cases)
  case limit
  then show ?thesis using assms(2) by (simp add: cta_inv_def)
next
  case stopped
  then show ?thesis using assms(2) by simp
next
  case (all_done sched')
  have "sched_inv kind (of_nat (length Ls)) (warp_done_at (cs_warps c)) (cs_sched c)"
    using assms(2) by (simp add: cta_inv_def)
  then have "sched_inv kind (of_nat (length Ls)) (warp_done_at (cs_warps c)) sched'"
    using sched.pick_inv all_done(3) cta_inv_length [OF assms(2)] by (metis fst_conv)
  then show ?thesis using assms(2) all_done(4) by (simp add: cta_inv_def)
next
  case (idle sched' pick w1 s1)
  have len: "length (cs_warps c) = length Ls" by (rule cta_inv_length [OF assms(2)])
  have inv: "warp_inv (ce_warp_size env) (Ls ! unat pick) (cs_warps c ! unat pick)"
    using assms(2) idle(3) len by (simp add: cta_inv_def)
  have d: "ss_diag s1 = None" using assms(3) idle by (auto simp: request_stop_def split: if_splits)
  have "warp_inv (ce_warp_size env) (Ls ! unat pick) w1"
    using normalize_inv(2) [OF idle(5) inv idle(4) refl] d by simp
  then show ?thesis
    using cta_inv_update [OF assms(2) _ _ normalize_static [OF idle(5)] idle(4)] idle len d by simp
next
  case (issued sched' pick w1 s1 w2 s2)
  have len: "length (cs_warps c) = length Ls" by (rule cta_inv_length [OF assms(2)])
  have inv: "warp_inv (ce_warp_size env) (Ls ! unat pick) (cs_warps c ! unat pick)"
    using assms(2) issued(3) len by (simp add: cta_inv_def)
  have go: go using issue_steps(3) [OF issued(6)] assms(3) issued(7) by auto
  have "warp_ready (ce_warp_size env) (Ls ! unat pick) w1"
    using normalize_inv(1) [OF issued(5) inv issued(4) refl] by simp
  then have "warp_inv (ce_warp_size env) (Ls ! unat pick) w2"
    using issue_inv issued(6) go by simp
  moreover have "warp_static w2 = warp_static (cs_warps c ! unat pick)"
    using normalize_static [OF issued(5)] issue_static [OF issued(6)] by simp
  ultimately show ?thesis
    using cta_inv_update [OF assms(2) _ _ _ issued(4)] issued len by simp
qed

text \<open>A round that goes on leaves the diagnostic and the CTA scheduler alone.\<close>

lemma cta_round_go:
  assumes "cta_round cfg kind env c = (c', True)" and "ss_diag (cs_sim c) = None"
  shows "ss_diag (cs_sim c') = None \<and> ss_cta (cs_sim c') = ss_cta (cs_sim c)"
  using assms(1)
proof (cases rule: cta_round_cases)
  case (idle sched' pick w1 s1)
  then show ?thesis
    using assms(2) by (auto simp: normalize_stack_def Let_def split: prod.splits norm_result.splits)
next
  case (issued sched' pick w1 s1 w2 s2)
  then show ?thesis
    using assms(2) issue_steps(2) [OF issued(6)] normalize_steps(3) [OF issued(5)] by simp
qed simp_all

lemma cta_round_end:
  assumes "cta_round cfg kind env c = (c', False)" and "cta_inv kind (ce_warp_size env) sts Ls c"
    and "ss_diag (cs_sim c') = None" and "\<not> cta_stop_requested (ss_cta (cs_sim c))"
    and "ss_steps (cs_sim c') < cfg_max_steps cfg" and "length Ls \<le> 2 ^ 31"
  shows "cs_sim c' = cs_sim c \<and> (\<forall>w \<in> set (cs_warps c'). w_done w)"
  using assms(1)
proof (cases rule: cta_round_cases)
  case limit
  then show ?thesis using assms(5) by (simp add: request_stop_def)
next
  case stopped
  then show ?thesis using assms(4) by simp
next
  case (all_done sched')
  have len: "length (cs_warps c) = length Ls" by (rule cta_inv_length [OF assms(2)])
  have inv: "sched_inv kind (of_nat (length Ls)) (warp_done_at (cs_warps c)) (cs_sched c)"
    using assms(2) by (simp add: cta_inv_def)
  have un: "unat (of_nat (length Ls) :: u32) = length Ls"
    using assms(6) by (intro unat_of_nat_u32) simp
  have "\<forall>w < of_nat (length Ls). warp_done_at (cs_warps c) w"
    by (rule sched.stopped_is_done [OF inv]) (use all_done(3) len in simp)
  then have all: "w < of_nat (length Ls) \<Longrightarrow> warp_done_at (cs_warps c) w" for w by blast
  have "w_done (cs_warps c ! i)" if "i < length Ls" for i
  proof -
    have ui: "unat (of_nat i :: u32) = i" using that assms(6) by (intro unat_of_nat_u32) simp
    have "(of_nat i :: u32) < of_nat (length Ls)"
      unfolding word_less_nat_alt un ui by (rule that)
    from all [OF this] show ?thesis using that len ui by (simp add: warp_done_at_def)
  qed
  then show ?thesis using all_done(4) len by (auto simp: in_set_conv_nth)
next
  case (idle sched' pick w1 s1)
  then show ?thesis using assms(3) by (simp add: request_stop_def)
next
  case (issued sched' pick w1 s1 w2 s2)
  then show ?thesis using issue_steps(3) [OF issued(6)] assms(3) by simp
qed

text \<open>
  The loop over the warps: without a diagnostic the invariant holds at the end, and unless the
  step limit was reached every warp is done.
\<close>

definition cta_finished :: "sim_config \<Rightarrow> cta_sched \<Rightarrow> cta_state \<Rightarrow> bool" where
  "cta_finished cfg cs c \<longleftrightarrow>
     (ss_steps (cs_sim c) < cfg_max_steps cfg \<longrightarrow> ss_cta (cs_sim c) = cs \<and> (\<forall>w \<in> set (cs_warps c). w_done w))"

lemma cta_loop_inv:
  assumes "cta_inv kind (ce_warp_size env) sts Ls c" and "length Ls \<le> 2 ^ 31"
    and "ss_diag (cs_sim c) = None" and "\<not> cta_stop_requested (ss_cta (cs_sim c))"
    and "ss_diag (cs_sim (cta_loop cfg kind env c)) = None"
  shows "cta_inv kind (ce_warp_size env) sts Ls (cta_loop cfg kind env c) \<and>
    cta_finished cfg (ss_cta (cs_sim c)) (cta_loop cfg kind env c)"
  using assms
proof (induction cfg kind env c rule: cta_loop.induct)
  case (1 cfg kind env c)
  obtain c' go where r: "cta_round cfg kind env c = (c', go)" by fastforce
  show ?case
  proof (cases go)
    case True
    have loop: "cta_loop cfg kind env c = cta_loop cfg kind env c'"
      using True by (simp add: cta_loop.simps [of cfg kind env c] r)
    have go: "ss_diag (cs_sim c') = None" "ss_cta (cs_sim c') = ss_cta (cs_sim c)"
      using cta_round_go [of cfg kind env c c'] r True "1.prems"(3) by simp_all
    have inv': "cta_inv kind (ce_warp_size env) sts Ls c'" by (rule cta_round_inv [OF r "1.prems"(1) go(1)])
    show ?thesis
      using "1.IH" [OF r [symmetric] _ inv' "1.prems"(2) go(1)] True "1.prems"(4,5) go(2) by (simp add: loop)
  next
    case False
    have loop: "cta_loop cfg kind env c = c'" using False by (simp add: cta_loop.simps [of cfg kind env c] r)
    have d: "ss_diag (cs_sim c') = None" using "1.prems"(5) by (simp add: loop)
    have r': "cta_round cfg kind env c = (c', False)" using r False by simp
    show ?thesis
      using cta_round_inv [OF r "1.prems"(1) d] cta_round_end [OF r' "1.prems"(1) d "1.prems"(4) _ "1.prems"(2)]
      by (auto simp: loop cta_finished_def)
  qed
qed

end
