(* ===== verification/SimtRun.thy ===== *)
theory SimtRun
  imports Simt
begin

text \<open>
  What a single-threaded run of the SIMT executor (\<open>src/simt/simt.cpp\<close>) guarantees: it
  returns, it keeps account of every lane, and a run that neither fails nor reaches the step
  limit has executed every thread of every CTA of the launch to its exit.  Also an example of
  nested branches.
\<close>

section \<open>The warps a CTA starts with\<close>

lemma check_launch_Inr:
  assumes "check_launch cfg k launch = Inr (tpb, ws)"
  shows "ws \<noteq> 0" "unat ws \<le> 32" "threads_per_block (block_dim launch) = Some tpb"
    "ws = launch_warp_size_of cfg launch"
  using assms
  by (auto simp: check_launch_def Let_def word_less_nat_alt split: if_splits option.splits)

text \<open>The lanes of warp \<open>i\<close> of a block: those with a thread.\<close>

definition launched_lanes :: "u64 \<Rightarrow> u32 \<Rightarrow> nat \<Rightarrow> nat set" where
  "launched_lanes tpb ws i = {l. l < unat ws \<and> i * unat ws + l < unat tpb}"

definition block_fits :: "u64 \<Rightarrow> u32 \<Rightarrow> bool" where
  "block_fits tpb ws \<longleftrightarrow> unat tpb \<le> 2 ^ 31 \<and> ws \<noteq> 0 \<and> unat ws \<le> 32"

lemma warp_count_nat:
  assumes "block_fits tpb ws"
  shows "unat (warp_count_of tpb ws) = (unat tpb + unat ws - 1) div unat ws"
proof -
  have p: "0 < unat ws" "unat ws \<le> 32" "unat tpb \<le> 2 ^ 31"
    using assms by (simp_all add: block_fits_def unat_gt_0)
  have a: "unat (tpb + ucast ws) = unat tpb + unat ws" using p by (subst unat_add_u64) simp_all
  then have "(1 :: u64) \<le> tpb + ucast ws" using p by (simp add: word_le_nat_alt)
  then have "unat (tpb + ucast ws - 1) = unat tpb + unat ws - 1" by (simp add: unat_sub a)
  then show ?thesis by (simp add: warp_count_of_def unat_div)
qed

lemma warp_count_bound:
  assumes "block_fits tpb ws"
  shows "unat (warp_count_of tpb ws) \<le> 2 ^ 31"
    and "i < unat (warp_count_of tpb ws) \<Longrightarrow> i * unat ws < unat tpb"
proof -
  have p: "0 < unat ws" "unat tpb \<le> 2 ^ 31"
    using assms by (simp_all add: block_fits_def unat_gt_0)
  have *: "i * unat ws < unat tpb" if "i < unat (warp_count_of tpb ws)" for i
  proof -
    have "Suc i * unat ws \<le> (unat tpb + unat ws - 1) div unat ws * unat ws"
      using that warp_count_nat [OF assms] by (intro mult_right_mono) simp_all
    also have "\<dots> \<le> unat tpb + unat ws - 1" by simp
    finally show ?thesis using p by simp
  qed
  then show "i < unat (warp_count_of tpb ws) \<Longrightarrow> i * unat ws < unat tpb" .
  show "unat (warp_count_of tpb ws) \<le> 2 ^ 31"
  proof (cases "unat (warp_count_of tpb ws)")
    case (Suc n)
    then have "n * unat ws < unat tpb" using * [of n] by simp
    moreover have "n * 1 \<le> n * unat ws" using p by (intro mult_le_mono) simp_all
    ultimately show ?thesis unfolding Suc using p(2) by linarith
  qed simp
qed

lemma lane_base_nat:
  assumes "block_fits tpb ws" and "i < unat (warp_count_of tpb ws)"
  shows "unat (of_nat i * ws :: u32) = i * unat ws"
proof -
  have b: "i * unat ws < unat tpb" "unat tpb \<le> 2 ^ 31"
    using warp_count_bound(2) [OF assms] assms(1) by (simp_all add: block_fits_def)
  have "i \<le> 2 ^ 31" using warp_count_bound(1) [OF assms(1)] assms(2) by simp
  then have i: "unat (of_nat i :: u32) = i" by (intro unat_of_nat_u32) simp
  have "unat (of_nat i * ws :: u32) = (i * unat ws) mod 2 ^ 32"
    by (simp add: unat_word_ariths i)
  then show ?thesis using b by simp
qed

lemma lanes_on_nat:
  assumes "block_fits tpb ws" and "i < unat (warp_count_of tpb ws)"
  shows "unat (lanes_on tpb ws (of_nat i * ws)) = min (unat ws) (unat tpb - i * unat ws)"
proof -
  let ?b = "ucast (of_nat i * ws :: u32) :: u64"
  have b: "unat ?b = i * unat ws" by (simp add: lane_base_nat [OF assms])
  have lt: "i * unat ws < unat tpb" by (rule warp_count_bound(2) [OF assms])
  have sm: "unat ws \<le> 32" using assms(1) by (simp add: block_fits_def)
  have gt: "?b < tpb" using lt b by (simp add: word_less_nat_alt)
  have r: "unat (tpb - ?b) = unat tpb - i * unat ws" using gt b by (simp add: unat_sub)
  have uc: "unat (ucast (x :: u64) :: u32) = unat x" if "unat x < 2 ^ 32" for x
    using that by (simp add: unsigned_ucast_eq take_bit_nat_eq_self_iff)
  show ?thesis
  proof (cases "ucast ws \<le> tpb - ?b")
    case True
    then have "unat ws \<le> unat tpb - i * unat ws" by (simp add: word_le_nat_alt r)
    then show ?thesis using True gt sm by (simp add: lanes_on_def Let_def uc)
  next
    case False
    then have "unat tpb - i * unat ws < unat ws" by (simp add: word_le_nat_alt r)
    then show ?thesis using False gt sm by (simp add: lanes_on_def Let_def uc r)
  qed
qed

lemma warp_init_inv:
  assumes "block_fits tpb ws" and "i < unat (warp_count_of tpb ws)"
  shows "warp_inv ws (launched_lanes tpb ws i) (warp_init k launch ws tpb it (of_nat i))"
proof -
  have p: "ws \<noteq> 0" "unat ws \<le> 32" using assms(1) by (simp_all add: block_fits_def)
  let ?m = "lane_mask_prefix ws (lanes_on tpb ws (of_nat i * ws))"
  have l: "lanes_of ?m = launched_lanes tpb ws i"
    using p by (auto simp: mask_simps lanes_on_nat [OF assms] launched_lanes_def)
  have e: "lanes_of \<lparr>lm_width = ws, lm_bits = 0\<rparr> = {}" by (simp add: lanes_of_def)
  have "warp_mask ws ?m" by (auto simp: warp_mask_def l launched_lanes_def)
  moreover have "warp_mask ws \<lparr>lm_width = ws, lm_bits = 0\<rparr>" by (simp add: warp_mask_def e)
  ultimately show ?thesis
    by (simp add: warp_inv_def warp_init_def Let_def stack_masks_def lane_partition_def effective_def e l)
qed

lemma init_cta_inv:
  assumes "block_fits tpb ws"
  defines "n \<equiv> unat (warp_count_of tpb ws)"
  shows "cta_inv kind ws (map warp_static (init_warps k launch ws tpb it)) (map (launched_lanes tpb ws) [0..<n])
    \<lparr>cs_warps = init_warps k launch ws tpb it,
     cs_sched = sched_start kind (of_nat (length (init_warps k launch ws tpb it))), cs_sim = s\<rparr>"
proof -
  have "n \<le> 2 ^ 31" using warp_count_bound(1) [OF assms(1)] by (simp add: n_def)
  then have "(of_nat n :: u32) \<le> 0x80000000"
    by (simp add: word_le_nat_alt unat_of_nat_u32)
  then show ?thesis
    using warp_init_inv [OF assms(1)]
    by (simp add: cta_inv_def init_warps_def n_def [symmetric] sched.start_inv)
qed

section \<open>One CTA\<close>

text \<open>
  A CTA that has run to its end: warp \<open>i\<close> of it is done, was the warp of this CTA's lanes from
  \<open>i * ws\<close> on, and exactly the lanes that stand for a thread of the block have exited.
\<close>

definition cta_complete :: "u64 \<Rightarrow> u32 \<Rightarrow> cta_work_item \<Rightarrow> cta_state \<Rightarrow> bool" where
  "cta_complete tpb ws it c \<longleftrightarrow>
     length (cs_warps c) = (unat tpb + unat ws - 1) div unat ws \<and>
     (\<forall>i < length (cs_warps c).
        let w = cs_warps c ! i
        in w_done w \<and> w_ctaid w = \<lparr>dim_x = it_cx it, dim_y = it_cy it, dim_z = it_cz it\<rparr> \<and>
           unat (w_lane_base w) = i * unat ws \<and>
           lanes_of (w_exited w) = {l. l < unat ws \<and> i * unat ws + l < unat tpb})"

lemma cta_inv_complete:
  assumes "block_fits tpb ws"
    and "cta_inv kind ws (map warp_static (init_warps k launch ws tpb it))
           (map (launched_lanes tpb ws) [0..<unat (warp_count_of tpb ws)]) c"
    and "\<forall>w \<in> set (cs_warps c). w_done w"
  shows "cta_complete tpb ws it c"
proof -
  let ?n = "unat (warp_count_of tpb ws)"
  have len: "length (cs_warps c) = ?n" using cta_inv_length [OF assms(2)] by simp
  have st: "map warp_static (cs_warps c) = map warp_static (init_warps k launch ws tpb it)"
    and inv: "warp_inv ws (launched_lanes tpb ws i) (cs_warps c ! i)" if "i < ?n" for i
    using assms(2) that by (simp_all add: cta_inv_def)
  have "w_done (cs_warps c ! i) \<and>
      w_ctaid (cs_warps c ! i) = \<lparr>dim_x = it_cx it, dim_y = it_cy it, dim_z = it_cz it\<rparr> \<and>
      unat (w_lane_base (cs_warps c ! i)) = i * unat ws \<and>
      lanes_of (w_exited (cs_warps c ! i)) = launched_lanes tpb ws i" if i: "i < ?n" for i
  proof -
    have "warp_static (cs_warps c ! i) = warp_static (init_warps k launch ws tpb it ! i)"
      using arg_cong [OF st [OF i], of "\<lambda>xs. xs ! i"] i len by (simp add: init_warps_def)
    moreover have "init_warps k launch ws tpb it ! i = warp_init k launch ws tpb it (of_nat i)"
      using i by (simp add: init_warps_def)
    ultimately have "w_ctaid (cs_warps c ! i) = \<lparr>dim_x = it_cx it, dim_y = it_cy it, dim_z = it_cz it\<rparr>"
      "w_lane_base (cs_warps c ! i) = of_nat i * ws"
      by (simp_all add: warp_static_def warp_init_def Let_def)
    moreover have d: "w_done (cs_warps c ! i)" using assms(3) i len by simp
    ultimately show ?thesis
      using lane_base_nat [OF assms(1) i] warp_done_exited [OF inv [OF i] d] by simp
  qed
  then show ?thesis
    using len by (simp add: cta_complete_def warp_count_nat [OF assms(1)] Let_def launched_lanes_def)
qed

lemma run_one_cta_complete:
  assumes "block_fits tpb ws" and "ss_diag s = None" and "\<not> cta_stop_requested (ss_cta s)"
    and "ss_diag (cs_sim (run_one_cta fp cfg reg k launch tpb ws it s)) = None"
    and "ss_steps (cs_sim (run_one_cta fp cfg reg k launch tpb ws it s)) < cfg_max_steps cfg"
  shows "cta_complete tpb ws it (run_one_cta fp cfg reg k launch tpb ws it s) \<and>
    ss_cta (cs_sim (run_one_cta fp cfg reg k launch tpb ws it s)) = ss_cta s"
proof (cases "analyze_control_flow k reg ws")
  case (Inl d)
  then show ?thesis using assms(4) by (simp add: run_one_cta_def Let_def)
next
  case (Inr table)
  let ?warps = "init_warps k launch ws tpb it" and ?kind = "warp_sched_of cfg"
  let ?env = "\<lparr>ce_fp = fp, ce_kernel = k, ce_reg = reg, ce_warp_size = ws, ce_item = it, ce_reconv = table\<rparr>"
  let ?c = "\<lparr>cs_warps = ?warps, cs_sched = sched_start ?kind (of_nat (length ?warps)), cs_sim = s\<rparr>"
  let ?Ls = "map (launched_lanes tpb ws) [0..<unat (warp_count_of tpb ws)]"
  have run: "run_one_cta fp cfg reg k launch tpb ws it s = cta_loop cfg ?kind ?env ?c"
    using Inr by (simp add: run_one_cta_def Let_def)
  have i: "cta_inv ?kind (ce_warp_size ?env) (map warp_static ?warps) ?Ls ?c"
    using init_cta_inv [OF assms(1)] by simp
  have "length ?Ls \<le> 2 ^ 31" using warp_count_bound(1) [OF assms(1)] by simp
  then have "cta_inv ?kind ws (map warp_static ?warps) ?Ls (cta_loop cfg ?kind ?env ?c) \<and>
      cta_finished cfg (ss_cta s) (cta_loop cfg ?kind ?env ?c)"
    using cta_loop_inv [OF i, of cfg] assms(2,3,4) run by simp
  then show ?thesis
    using cta_inv_complete [OF assms(1)] assms(5) unfolding run cta_finished_def by blast
qed

text \<open>The step count never goes back.\<close>

lemma steps_grow: "\<not> m \<le> (s :: u64) \<Longrightarrow> s \<le> s + 1"
  using unat_u64_less [of m] by (simp add: word_le_nat_alt unat_add_u64)

lemma cta_round_steps:
  assumes "cta_round cfg kind env c = (c', go)"
  shows "ss_steps (cs_sim c) \<le> ss_steps (cs_sim c')"
  using assms
proof (cases rule: cta_round_cases)
  case limit
  then show ?thesis by (simp add: request_stop_def)
next
  case (idle sched' pick w1 s1)
  then show ?thesis using normalize_steps(1) [OF idle(5)] by (simp add: request_stop_def)
next
  case (issued sched' pick w1 s1 w2 s2)
  have "ss_steps (cs_sim c) \<le> ss_steps (cs_sim c) + 1" by (rule steps_grow [OF issued(1)])
  then show ?thesis
    using issue_steps [OF issued(6)] normalize_steps(1) [OF issued(5)] issued(7)
    by (cases go) simp_all
qed simp_all

lemma cta_loop_steps: "ss_steps (cs_sim c) \<le> ss_steps (cs_sim (cta_loop cfg kind env c))"
proof (induction cfg kind env c rule: cta_loop.induct)
  case (1 cfg kind env c)
  obtain c' go where r: "cta_round cfg kind env c = (c', go)" by fastforce
  show ?case
    using "1.IH" [OF r [symmetric]] cta_round_steps [OF r]
    by (cases go) (auto simp: cta_loop.simps [of cfg kind env c] r intro: order_trans)
qed

lemma run_one_cta_steps: "ss_steps s \<le> ss_steps (cs_sim (run_one_cta fp cfg reg k launch tpb ws it s))"
proof -
  have "ss_steps s \<le> ss_steps (cs_sim (cta_loop cfg kind env \<lparr>cs_warps = a, cs_sched = b, cs_sim = s\<rparr>))"
    for kind env a b
    using cta_loop_steps [of "\<lparr>cs_warps = a, cs_sched = b, cs_sim = s\<rparr>"] by simp
  then show ?thesis by (auto simp: run_one_cta_def Let_def split: sum.split)
qed

section \<open>The loop over the CTAs\<close>

lemma serial_loop_steps:
  assumes "serial_loop run_cta s = Some (s', cs)" and "\<And>it s. ss_steps s \<le> ss_steps (cs_sim (run_cta it s))"
  shows "ss_steps s \<le> ss_steps s'"
proof -
  let ?P = "\<lambda>run_cta s r. (\<forall>it s. ss_steps s \<le> ss_steps (cs_sim (run_cta it s))) \<longrightarrow>
    ss_steps s \<le> ss_steps (fst (r :: sim_state \<times> cta_state list))"
  have "?P run_cta s (s', cs)"
  proof (rule serial_loop.raw_induct [where P = ?P, OF _ assms(1)])
    fix f run_cta s y
    assume IH: "\<And>run_cta s y. f run_cta s = Some y \<Longrightarrow> ?P run_cta s y"
      and body: "(case cta_acquire 0 (ss_cta s) of
          (cs', Wait) \<Rightarrow> None
        | (cs', Acquired None) \<Rightarrow> Some (s\<lparr>ss_cta := cs'\<rparr>, [])
        | (cs', Acquired (Some it)) \<Rightarrow>
            let c = run_cta it (s\<lparr>ss_cta := cs'\<rparr>); s' = cs_sim c
            in if ss_diag s' \<noteq> None then Some (s', [c])
               else Option.bind (f run_cta s') (\<lambda>(s'', cs). Some (s'', c # cs))) = Some y"
    obtain cs' a where ac: "cta_acquire 0 (ss_cta s) = (cs', a)" by fastforce
    show "?P run_cta s y"
    proof (rule impI)
      assume mono: "\<forall>it s. ss_steps s \<le> ss_steps (cs_sim (run_cta it s))"
      consider (none) "a = Wait" | (fin) "a = Acquired None" | (item) it where "a = Acquired (Some it)"
        by (metis acquire_result.exhaust option.exhaust)
      then show "ss_steps s \<le> ss_steps (fst y)"
      proof cases
        case (item it)
        let ?s' = "cs_sim (run_cta it (s\<lparr>ss_cta := cs'\<rparr>))"
        have "ss_steps s \<le> ss_steps ?s'" using mono [rule_format, of "s\<lparr>ss_cta := cs'\<rparr>" it] by simp
        then show ?thesis
          using body ac item mono IH [of run_cta ?s']
          by (auto simp: Let_def bind_eq_Some_conv split: if_splits intro: order_trans)
      qed (use body ac in auto)
    qed
  qed
  then show ?thesis using assms(2) by simp
qed

lemma single_acquire_closed:
  assumes "cta_single cs" and "cta_closed cs"
  shows "case cta_visible 0 cs of
      [] \<Rightarrow> cta_acquire 0 cs = (cs, Acquired None)
    | it # q \<Rightarrow> \<exists>cs'. cta_acquire 0 cs = (cs', Acquired (Some it)) \<and> cta_single cs' \<and>
        cta_visible 0 cs' = q \<and> cta_closed cs'"
  using assms
  by (cases cs)
    (auto simp: fifo_acquire_def rr_acquire_def rr_wf_def Let_def word_mod_one length_Suc_conv split: list.split)

lemma cta_single_running: "cta_single cs \<Longrightarrow> \<not> cta_stop_requested cs"
  by (cases cs) simp_all

lemma serial_loop_complete:
  assumes "block_fits tpb ws"
    and "serial_loop (run_one_cta fp cfg reg k launch tpb ws) s = Some (s', ctas)"
    and "cta_single (ss_cta s)" and "cta_closed (ss_cta s)" and "ss_diag s = None"
    and "ss_diag s' = None" and "ss_steps s' < cfg_max_steps cfg"
  shows "list_all2 (cta_complete tpb ws) (cta_visible 0 (ss_cta s)) ctas"
  using assms(2-5)
proof (induction "cta_visible 0 (ss_cta s)" arbitrary: s ctas)
  case Nil
  have a: "cta_acquire 0 (ss_cta s) = (ss_cta s, Acquired None)"
    using single_acquire_closed [OF Nil.prems(2,3)] unfolding Nil.hyps [symmetric] by simp
  have "serial_loop (run_one_cta fp cfg reg k launch tpb ws) s = Some (s\<lparr>ss_cta := ss_cta s\<rparr>, [])"
    by (subst serial_loop.simps) (simp only: a prod.case acquire_result.case option.case)
  then show ?case using Nil.prems(1) Nil.hyps [symmetric] by simp
next
  case (Cons it q)
  let ?run = "run_one_cta fp cfg reg k launch tpb ws"
  obtain cs' where a: "cta_acquire 0 (ss_cta s) = (cs', Acquired (Some it))" "cta_single cs'"
      "cta_visible 0 cs' = q" "cta_closed cs'"
    using single_acquire_closed [OF Cons.prems(2,3)] unfolding Cons.hyps(2) [symmetric] by auto
  let ?c = "?run it (s\<lparr>ss_cta := cs'\<rparr>)"
  have unf: "serial_loop ?run s =
      (if ss_diag (cs_sim ?c) \<noteq> None then Some (cs_sim ?c, [?c])
       else Option.bind (serial_loop ?run (cs_sim ?c)) (\<lambda>(s'', cs). Some (s'', ?c # cs)))"
    by (subst serial_loop.simps) (simp only: a prod.case acquire_result.case option.case Let_def)
  have d: "ss_diag (cs_sim ?c) = None"
    using Cons.prems(1) assms(6) unfolding unf by (auto split: if_splits)
  obtain rest where rest: "serial_loop ?run (cs_sim ?c) = Some (s', rest)" "ctas = ?c # rest"
    using Cons.prems(1) d unfolding unf by (auto simp: bind_eq_Some_conv)
  have "ss_steps (cs_sim ?c) < cfg_max_steps cfg"
    using serial_loop_steps [OF rest(1) run_one_cta_steps] assms(7) by (rule le_less_trans)
  then have c: "cta_complete tpb ws it ?c \<and> ss_cta (cs_sim ?c) = cs'"
    using run_one_cta_complete [OF assms(1), of "s\<lparr>ss_cta := cs'\<rparr>"] d Cons.prems(4)
      cta_single_running [OF a(2)] by simp
  have "list_all2 (cta_complete tpb ws) (cta_visible 0 (ss_cta (cs_sim ?c))) rest"
    by (rule Cons.hyps(1)) (use rest(1) c a d in simp_all)
  then show ?case using c a rest(2) Cons.hyps(2) by (metis list_all2_Cons)
qed

section \<open>The run\<close>

lemma check_selectors_single:
  assumes "check_selectors cfg k 1 = Inr cs"
  shows "cta_single cs \<and> cta_wf cs \<and> cta_visible 0 cs = []"
  using assms
  by (auto simp: check_selectors_def create_cta_scheduler_def fifo_init_def rr_init_def rr_wf_def Let_def
      split: if_splits option.splits sum.splits)

lemma cta_submit_all_wf: "cta_wf cs \<Longrightarrow> cta_wf (fold cta_submit its cs)"
  by (induction its arbitrary: cs) (simp_all add: cta.submit_wf)

lemma cta_close_single [simp]:
  "cta_single (cta_close cs) = cta_single cs" "cta_closed (cta_close cs)"
  by (cases cs; simp add: fifo_close_def rr_close_def rr_wf_def; fail)+

lemma start_state_sched:
  assumes "check_selectors cfg k 1 = Inr cs"
  shows "cta_wf (ss_cta (start_state cfg ms obs launch cs))"
    "cta_single (ss_cta (start_state cfg ms obs launch cs))"
    "cta_closed (ss_cta (start_state cfg ms obs launch cs))"
    "cta_visible 0 (ss_cta (start_state cfg ms obs launch cs)) = cta_items (grid_dim launch)"
    "ss_diag (start_state cfg ms obs launch cs) = None"
  using check_selectors_single [OF assms] cta_submit_all_wf single_submit_all
  by (simp_all add: start_state_def)

text \<open>
  A launch always returns: whatever the kernel does, loops without end included, the
  single-threaded executor gives a result, since the step limit bounds the instructions and
  the queue of CTAs is closed before the first of them is asked for.
\<close>

lemma simt_run_serial_total: "\<exists>r. simt_run_serial fp cfg reg ms obs k launch = Some r"
proof (cases "check_launch cfg k launch")
  case (Inr tw)
  obtain tpb ws where tw: "tw = (tpb, ws)" by fastforce
  show ?thesis
  proof (cases "check_selectors cfg k 1")
    case sel: (Inr cs)
    have "\<exists>r. serial_loop (run_one_cta fp cfg reg k launch tpb ws) (start_state cfg ms obs launch cs) = Some r"
      using start_state_sched [OF sel] by (intro serial_loop_returns run_one_cta_work)
    then show ?thesis using Inr tw sel by (auto simp: simt_run_serial_def)
  qed (simp add: simt_run_serial_def Inr tw)
qed (simp add: simt_run_serial_def)

section \<open>Running with fuel\<close>

text \<open>
  The two loops of a run with a bound on their rounds, for the kernel to evaluate: whenever the
  bound is not reached, the result is the one of the run.
\<close>

fun cta_rounds :: "nat \<Rightarrow> sim_config \<Rightarrow> warp_sched_kind \<Rightarrow> cta_env \<Rightarrow> cta_state \<Rightarrow> cta_state option" where
  "cta_rounds 0 cfg kind env c = None"
| "cta_rounds (Suc n) cfg kind env c =
     (case cta_round cfg kind env c of
        (c', True) \<Rightarrow> cta_rounds n cfg kind env c'
      | (c', False) \<Rightarrow> Some c')"

lemma cta_rounds_loop: "cta_rounds n cfg kind env c = Some c' \<Longrightarrow> cta_loop cfg kind env c = c'"
proof (induction n arbitrary: c)
  case (Suc n)
  obtain d go where r: "cta_round cfg kind env c = (d, go)" by fastforce
  show ?case using Suc r by (cases go) (simp_all add: cta_loop.simps [of cfg kind env c])
qed simp

definition run_one_cta_fuel ::
  "nat \<Rightarrow> f32_ops \<Rightarrow> sim_config \<Rightarrow> descriptor_registry \<Rightarrow> kernel_image \<Rightarrow> launch_config \<Rightarrow> u64 \<Rightarrow> u32 \<Rightarrow>
   cta_work_item \<Rightarrow> sim_state \<Rightarrow> cta_state option" where
  "run_one_cta_fuel n fp cfg reg k launch tpb ws it s =
     (let warps = init_warps k launch ws tpb it;
          kind = warp_sched_of cfg
      in case analyze_control_flow k reg ws of
           Inl d \<Rightarrow> Some \<lparr>cs_warps = warps, cs_sched = 0, cs_sim = fail_with d s\<rparr>
         | Inr table \<Rightarrow>
             cta_rounds n cfg kind
               \<lparr>ce_fp = fp, ce_kernel = k, ce_reg = reg, ce_warp_size = ws, ce_item = it, ce_reconv = table\<rparr>
               \<lparr>cs_warps = warps, cs_sched = sched_start kind (of_nat (length warps)), cs_sim = s\<rparr>)"

lemma run_one_cta_fuel_sound:
  "run_one_cta_fuel n fp cfg reg k launch tpb ws it s = Some c \<Longrightarrow>
   run_one_cta fp cfg reg k launch tpb ws it s = c"
  by (auto simp: run_one_cta_fuel_def run_one_cta_def Let_def cta_rounds_loop split: sum.splits)

fun serial_rounds ::
  "nat \<Rightarrow> (cta_work_item \<Rightarrow> sim_state \<Rightarrow> cta_state option) \<Rightarrow> sim_state \<Rightarrow> (sim_state \<times> cta_state list) option" where
  "serial_rounds 0 run_cta s = None"
| "serial_rounds (Suc n) run_cta s =
     (case cta_acquire 0 (ss_cta s) of
        (cs', Wait) \<Rightarrow> None
      | (cs', Acquired None) \<Rightarrow> Some (s\<lparr>ss_cta := cs'\<rparr>, [])
      | (cs', Acquired (Some it)) \<Rightarrow>
          (case run_cta it (s\<lparr>ss_cta := cs'\<rparr>) of
             None \<Rightarrow> None
           | Some c \<Rightarrow>
               if ss_diag (cs_sim c) \<noteq> None then Some (cs_sim c, [c])
               else (case serial_rounds n run_cta (cs_sim c) of
                       None \<Rightarrow> None
                     | Some (s'', cs) \<Rightarrow> Some (s'', c # cs))))"

lemma serial_rounds_loop:
  assumes "serial_rounds n run_fuel s = Some r"
    and "\<And>it s c. run_fuel it s = Some c \<Longrightarrow> run_cta it s = c"
  shows "serial_loop run_cta s = Some r"
  using assms(1)
proof (induction n arbitrary: s r)
  case (Suc n)
  obtain cs' a where ac: "cta_acquire 0 (ss_cta s) = (cs', a)" by fastforce
  consider (none) "a = Wait" | (fin) "a = Acquired None" | (item) it where "a = Acquired (Some it)"
    by (metis acquire_result.exhaust option.exhaust)
  then show ?case
  proof cases
    case (item it)
    then obtain c where c: "run_fuel it (s\<lparr>ss_cta := cs'\<rparr>) = Some c"
      using Suc.prems ac by (auto split: option.splits)
    then show ?thesis
      using Suc assms(2) [OF c] ac item
      by (auto simp: serial_loop.simps [of run_cta s] Let_def split: if_splits option.splits)
  qed (use Suc.prems ac in \<open>auto simp: serial_loop.simps [of run_cta s]\<close>)
qed simp

definition simt_run_fuel ::
  "nat \<Rightarrow> f32_ops \<Rightarrow> sim_config \<Rightarrow> descriptor_registry \<Rightarrow> mem_state \<Rightarrow> obs_control \<Rightarrow> kernel_image \<Rightarrow>
   launch_config \<Rightarrow> (sim_state \<times> cta_state list) option" where
  "simt_run_fuel n fp cfg reg ms obs k launch =
     (case check_launch cfg k launch of
        Inl d \<Rightarrow> None
      | Inr (tpb, ws) \<Rightarrow>
          (case check_selectors cfg k 1 of
             Inl d \<Rightarrow> None
           | Inr cs \<Rightarrow>
               serial_rounds n (run_one_cta_fuel n fp cfg reg k launch tpb ws) (start_state cfg ms obs launch cs)))"

lemma simt_run_fuel_sound:
  assumes "simt_run_fuel n fp cfg reg ms obs k launch = Some (s, ctas)"
  shows "simt_run_serial fp cfg reg ms obs k launch =
    Some (\<lparr>sr_completed = (ss_diag s = None), sr_diag = ss_diag s, sr_steps = ss_steps s\<rparr>,
          ss_mem s, ss_obs s, ctas)"
proof -
  have "serial_rounds n (run_one_cta_fuel n fp cfg reg k launch tpb ws) t = Some r \<Longrightarrow>
      serial_loop (run_one_cta fp cfg reg k launch tpb ws) t = Some r" for tpb ws t r
    by (erule serial_rounds_loop) (rule run_one_cta_fuel_sound)
  then show ?thesis
    using assms by (fastforce simp: simt_run_fuel_def simt_run_serial_def split: sum.splits prod.splits)
qed

section \<open>Runs evaluated\<close>

lemmas fuel_numeral =
  cta_rounds.simps(2) [of "pred_numeral n" for n, folded numeral_eq_Suc]
  serial_rounds.simps(2) [of "pred_numeral n" for n, folded numeral_eq_Suc]
  postdom_loop.simps(2) [of _ _ "pred_numeral n" for n, folded numeral_eq_Suc]

lemmas launch_eval =
  simt_run_fuel_def check_launch_def threads_per_block_def mul_u64_overflow_def launch_warp_size_of_def
  check_selectors_def create_cta_scheduler_def create_warp_scheduler_def start_state_def cta_items_def
  cta_item_def fifo_init_def fifo_submit_def fifo_close_def fifo_acquire_def fifo_request_stop_def
  run_one_cta_fuel_def warp_sched_of_def init_warps_def warp_init_def lane_mask_prefix_def lanes_on_def
  warp_count_of_def in_order_start_def

lemmas issue_eval =
  cta_round_def request_stop_def warp_done_at_def in_order_pick_def normalize_stack_def issue_def
  live_frame_def lane_mask_and_def lane_mask_not_width_def lane_mask_empty_def inst_operand_kinds_def
  guarded_uops_def pred_mask_def apply_pred_def lane_mask_test_def expand_def expand_uop_def
  pick_operands_def parse_value_type_def parse_space_def run_uops_def
  uop_body_def emit_uop_def uop_ctrl_def uop_exec_def ctrl_step_def note_split_def reconv_at_def
  ret_uop_def exec_mask_of_def lane_mask_all_def lane_mask_or_same_width_def after_unit_def
  step_ok_def step_result_default_def commit_def commit_stack_def split_frames_def
  emit_at_def sim_counter_def obs_emit_def obs_counter_def emit_simt_ctrl_def

lemmas analysis_eval =
  analyze_control_flow_def build_succ_def inst_succ_def classify_inst_def note_uop_def in_pc_range_def
  postdom_init_def bs_singleton_def bs_all_def bs_words_def bs_set_bit_def sweep_limit_def sweep_def
  sweep_node_def node_set_def bs_iand_def bs_equals_def inst_reconv_def find_ipdom_def
  is_immediate_def bs_test_def

definition demo_launch :: "nat \<Rightarrow> launch_config" where
  "demo_launch ctas =
     \<lparr>grid_dim = \<lparr>dim_x = of_nat ctas, dim_y = 1, dim_z = 1\<rparr>,
      block_dim = \<lparr>dim_x = 3, dim_y = 1, dim_z = 1\<rparr>, launch_warp_size = 2\<rparr>"

definition demo_sim_config :: "u64 \<Rightarrow> sim_config" where
  "demo_sim_config steps = sim_config_default\<lparr>cfg_max_steps := steps\<rparr>"

definition sim_descs :: descriptor_registry where
  "sim_descs = demo_descs @
     [\<lparr>d_opcode = ''setp'', d_type_mod = ''u32'', d_operand_kinds = [''pred'', ''special'', ''imm''],
       d_uops = [\<lparr>t_kind = Exec, t_op = Setp, t_in = [1, 2], t_out = [0]\<rparr>]\<rparr>,
      \<lparr>d_opcode = ''warp_reduce_add'', d_type_mod = ''f32'', d_operand_kinds = [''reg'', ''imm''],
       d_uops = [\<lparr>t_kind = Exec, t_op = WarpReduceAdd, t_in = [1], t_out = [0]\<rparr>]\<rparr>]"

definition demo_mem0 :: mem_state where
  "demo_mem0 = \<lparr>ms_mgr = manager_init, ms_local = Map.empty\<rparr>"

lemmas demo_eval = demo_launch_def demo_sim_config_def sim_config_default_def demo_inst_def
  demo_imm_def demo_reg_def operand_default_def obs_init_def trace_buffer_init_def f32_trivial_def

lemma lookup_sim_descs:
  "lookup_desc sim_descs i = lookup_desc (demo_descs @
     [\<lparr>d_opcode = ''setp'', d_type_mod = ''u32'', d_operand_kinds = [''pred'', ''special'', ''imm''],
       d_uops = [\<lparr>t_kind = Exec, t_op = Setp, t_in = [1, 2], t_out = [0]\<rparr>]\<rparr>,
      \<lparr>d_opcode = ''warp_reduce_add'', d_type_mod = ''f32'', d_operand_kinds = [''reg'', ''imm''],
       d_uops = [\<lparr>t_kind = Exec, t_op = WarpReduceAdd, t_in = [1], t_out = [0]\<rparr>]\<rparr>]) i"
  by (simp add: sim_descs_def)

lemma numeral_le_one_word: "(numeral k :: 'a::len word) \<le> 1 \<longleftrightarrow> unat (numeral k :: 'a word) \<le> 1"
  by (cases "LENGTH('a) = 1") (auto simp: word_le_nat_alt)

lemmas eval_cong = prod.case_cong_weak let_weak_cong

lemmas sim_eval = launch_eval demo_eval fuel_numeral issue_eval lookup_sim_descs demo_descs_def
  upt_conv_Cons numeral_le_one_word Let_def

definition ret_kernel :: kernel_image where
  "ret_kernel =
     \<lparr>k_name = ''ret'', k_reg_u32_count = 0, k_reg_u64_count = 0, k_params = [],
      k_insts = [demo_inst ''ret'' None []]\<rparr>"

lemma ret_kernel_sel:
  "k_name ret_kernel = ''ret''" "k_reg_u32_count ret_kernel = 0" "k_reg_u64_count ret_kernel = 0"
  "k_insts ret_kernel = [demo_inst ''ret'' None []]"
  "analyze_control_flow ret_kernel sim_descs 2 = Inr [None]"
  "analyze_control_flow ret_kernel sim_descs 4 = Inr [None]"
  by (simp_all add: ret_kernel_def) code_simp+

lemma ret_kernel_run:
  "case simt_run_fuel 9 f32_trivial (demo_sim_config 50) sim_descs demo_mem0 (obs_init False 0)
          ret_kernel ((demo_launch 2)\<lparr>launch_warp_size := 4\<rparr>) of
     None \<Rightarrow> False
   | Some (s, ctas) \<Rightarrow> ss_diag s = None \<and> ss_steps s = 2"
  by (simp add: sim_eval ret_kernel_sel cong: eval_cong)

definition spin_kernel :: kernel_image where
  "spin_kernel =
     \<lparr>k_name = ''spin'', k_reg_u32_count = 0, k_reg_u64_count = 0, k_params = [],
      k_insts = [demo_inst ''bra'' None [demo_imm 0], demo_inst ''ret'' None []]\<rparr>"

lemma spin_kernel_sel:
  "k_name spin_kernel = ''spin''" "k_reg_u32_count spin_kernel = 0" "k_reg_u64_count spin_kernel = 0"
  "k_insts spin_kernel = [demo_inst ''bra'' None [demo_imm 0], demo_inst ''ret'' None []]"
  "analyze_control_flow spin_kernel sim_descs 2 = Inr [None, None]"
  by (simp_all add: spin_kernel_def) code_simp

lemma spin_kernel_run:
  "case simt_run_fuel 9 f32_trivial (demo_sim_config 5) sim_descs demo_mem0 (obs_init False 0)
          spin_kernel (demo_launch 2) of
     None \<Rightarrow> False
   | Some (s, ctas) \<Rightarrow> ss_diag s = None \<and> ss_steps s = 5 \<and>
       map (\<lambda>c. map w_done (cs_warps c)) ctas = [[False, False]]"
  by (simp add: sim_eval spin_kernel_sel cong: eval_cong)

definition nested_kernel :: kernel_image where
  "nested_kernel =
     \<lparr>k_name = ''nested'', k_reg_u32_count = 1, k_reg_u64_count = 0, k_params = [],
      k_insts =
        [demo_inst ''setp'' None [operand_default\<lparr>o_kind := KPred, o_pred_id := 0\<rparr>,
           operand_default\<lparr>o_kind := KSpecial, o_special := ''laneid''\<rparr>, demo_imm 1],
         demo_inst ''setp'' None [operand_default\<lparr>o_kind := KPred, o_pred_id := 1\<rparr>,
           operand_default\<lparr>o_kind := KSpecial, o_special := ''laneid''\<rparr>, demo_imm 2],
         demo_inst ''bra'' (Some \<lparr>pg_pred_id = 0, pg_negated = False\<rparr>) [demo_imm 5],
         demo_inst ''bra'' (Some \<lparr>pg_pred_id = 1, pg_negated = False\<rparr>) [demo_imm 5],
         demo_inst ''mov'' None [demo_reg, demo_imm 1],
         (demo_inst ''warp_reduce_add'' None [demo_reg, demo_imm 1])
           \<lparr>i_mods := \<lparr>m_type_mod = ''f32'', m_space = [], m_flags = []\<rparr>\<rparr>,
         demo_inst ''ret'' None []]\<rparr>"

lemmas exec_eval = exec_step_def exec_mov_def exec_setp_def exec_warp_reduce_add_def arity_is_def finish_def lane_map_def
  in_lane_def read_operand_lane_def read_special_u32_def read_reg_lane_def write_reg_lane_def operand_reg_def reg_lane_index_def
  vec_put_def active_lanes_def cmp_flag_count_def cmp_op_of_def has_flag_def setp_value_def map2_option_def reduce_sum_def
  tid_of_def thread_linear_def
lemma nested_kernel_sel:
  "k_name nested_kernel = ''nested''" "k_reg_u32_count nested_kernel = 1" "k_reg_u64_count nested_kernel = 0"
  "k_insts nested_kernel =
        [demo_inst ''setp'' None [operand_default\<lparr>o_kind := KPred, o_pred_id := 0\<rparr>,
           operand_default\<lparr>o_kind := KSpecial, o_special := ''laneid''\<rparr>, demo_imm 1],
         demo_inst ''setp'' None [operand_default\<lparr>o_kind := KPred, o_pred_id := 1\<rparr>,
           operand_default\<lparr>o_kind := KSpecial, o_special := ''laneid''\<rparr>, demo_imm 2],
         demo_inst ''bra'' (Some \<lparr>pg_pred_id = 0, pg_negated = False\<rparr>) [demo_imm 5],
         demo_inst ''bra'' (Some \<lparr>pg_pred_id = 1, pg_negated = False\<rparr>) [demo_imm 5],
         demo_inst ''mov'' None [demo_reg, demo_imm 1],
         (demo_inst ''warp_reduce_add'' None [demo_reg, demo_imm 1])
           \<lparr>i_mods := \<lparr>m_type_mod = ''f32'', m_space = [], m_flags = []\<rparr>\<rparr>,
         demo_inst ''ret'' None []]"
  by (simp_all add: nested_kernel_def)

lemma nested_kernel_analysis:
  "analyze_control_flow nested_kernel sim_descs 4 = Inr [None, None, Some 5, Some 5, None, None, None]"
  by (simp add: analysis_eval demo_eval nested_kernel_sel lookup_sim_descs demo_descs_def expand_def
      expand_uop_def inst_operand_kinds_def pick_operands_def fuel_numeral upt_conv_Cons Let_def
      lane_mask_all_def parse_value_type_def parse_space_def numeral_le_one_word cong: eval_cong)

lemma nested_kernel_run:
  "case simt_run_fuel 20 f32_trivial (demo_sim_config 50) sim_descs demo_mem0 (obs_init False 0)
          nested_kernel ((demo_launch 1)\<lparr>launch_warp_size := 4\<rparr>) of
     None \<Rightarrow> False
   | Some (s, ctas) \<Rightarrow> ss_diag s = None \<and>
       map (\<lambda>c. map w_r32 (cs_warps c)) ctas = [[[1, 2, 2, 0]]]"
proof -
  have "(replicate 4 0)[2 := 1, Suc 0 := 2, 2 := 2, 0 := 1] = [1, 2, 2, 0 :: u32]"
    by (simp add: eval_nat_numeral)
  then show ?thesis
    by (simp add: sim_eval nested_kernel_sel nested_kernel_analysis exec_eval cong: eval_cong)
qed

section \<open>What a run guarantees\<close>

lemma simt_run_complete:
  assumes "simt_run_serial fp cfg reg ms obs k launch = Some (res, ms', obs', ctas)"
    and "sr_diag res = None" and "sr_steps res < cfg_max_steps cfg"
    and "threads_per_block (block_dim launch) = Some tpb" and "unat tpb \<le> 2 ^ 31"
  shows "sr_completed res \<and>
    list_all2 (cta_complete tpb (launch_warp_size_of cfg launch)) (cta_items (grid_dim launch)) ctas"
proof -
  obtain tpb' ws where cl: "check_launch cfg k launch = Inr (tpb', ws)"
    using assms(1,2) by (auto simp: simt_run_serial_def failed_launch_def split: sum.splits)
  note ws = check_launch_Inr [OF cl]
  have fits: "block_fits tpb ws" and tpb: "tpb' = tpb"
    using ws assms(4,5) by (simp_all add: block_fits_def)
  obtain cs where sel: "check_selectors cfg k 1 = Inr cs"
    using assms(1,2) cl by (auto simp: simt_run_serial_def failed_launch_def split: sum.splits)
  note st = start_state_sched [OF sel, of ms obs launch]
  obtain s where loop: "serial_loop (run_one_cta fp cfg reg k launch tpb ws)
        (start_state cfg ms obs launch cs) = Some (s, ctas)"
      and res: "res = \<lparr>sr_completed = (ss_diag s = None), sr_diag = ss_diag s, sr_steps = ss_steps s\<rparr>"
    using assms(1) cl sel tpb by (auto simp: simt_run_serial_def split: option.splits)
  show ?thesis
    using serial_loop_complete [OF fits loop] st assms(2,3) res ws(4) by simp
qed

text \<open>
  C1.  A run without a diagnostic that ends below the step limit has executed the whole grid:
  the CTAs were run in the order of their linear numbers, each exactly once, and in each of
  them every warp is done and exactly the lanes that stand for a thread of the block have
  exited, whatever the divergence on the way.
\<close>

theorem clean_run_executes_every_thread:
  assumes "simt_run_serial fp cfg reg ms obs k launch = Some (res, ms', obs', ctas)"
    and "sr_diag res = None" and "sr_steps res < cfg_max_steps cfg"
    and "threads_per_block (block_dim launch) = Some tpb" and "unat tpb \<le> 2 ^ 31"
  shows "sr_completed res \<and>
    list_all2 (cta_complete tpb (launch_warp_size_of cfg launch)) (cta_items (grid_dim launch)) ctas"
  by (rule simt_run_complete [OF assms])

lemma clean_run_executes_every_thread_witness:
  "\<exists>res ms' obs' ctas.
     simt_run_serial f32_trivial (demo_sim_config 50) sim_descs demo_mem0 (obs_init False 0) ret_kernel
       ((demo_launch 2)\<lparr>launch_warp_size := 4\<rparr>) = Some (res, ms', obs', ctas) \<and>
     sr_steps res = 2 \<and>
     list_all2 (cta_complete 3 4) (cta_items \<lparr>dim_x = 2, dim_y = 1, dim_z = 1\<rparr>) ctas"
proof -
  obtain s ctas where fuel: "simt_run_fuel 9 f32_trivial (demo_sim_config 50) sim_descs demo_mem0
        (obs_init False 0) ret_kernel ((demo_launch 2)\<lparr>launch_warp_size := 4\<rparr>) = Some (s, ctas)"
      and s: "ss_diag s = None" "ss_steps s = 2"
    using ret_kernel_run by (auto split: option.splits)
  note run = simt_run_fuel_sound [OF fuel]
  have tpb: "threads_per_block (block_dim ((demo_launch 2)\<lparr>launch_warp_size := 4\<rparr>)) = Some 3"
    by (simp add: threads_per_block_def mul_u64_overflow_def demo_launch_def)
  have "list_all2 (cta_complete 3 (launch_warp_size_of (demo_sim_config 50) ((demo_launch 2)\<lparr>launch_warp_size := 4\<rparr>)))
      (cta_items (grid_dim ((demo_launch 2)\<lparr>launch_warp_size := 4\<rparr>))) ctas"
    using clean_run_executes_every_thread [OF run _ _ tpb] s by (simp add: demo_eval)
  then show ?thesis
    using run s by (auto simp: launch_warp_size_of_def demo_launch_def)
qed

text \<open>
  C2.  One instruction of a warp keeps account of the lanes: in a warp whose frames and exited
  lanes partition the lanes it was launched with, normalisation and the execution of one
  instruction, with any guard, divergence, merge or exit in it, keep that partition; and when
  normalisation ends the warp, every one of its lanes has exited.
\<close>

theorem warp_step_keeps_partition:
  assumes "warp_inv (ce_warp_size env) L w" and "\<not> w_done w"
    and "normalize_stack env w s = (w1, s1, go)" and "ss_diag s1 = None"
  shows "if go
    then (\<forall>w2 s2. issue env w1 s1 = (w2, s2, True) \<longrightarrow> warp_inv (ce_warp_size env) L w2)
    else w_done w1 \<and> lanes_of (w_exited w1) = L"
proof (cases go)
  case True
  then show ?thesis
    using normalize_inv(1) [OF assms(3,1,2) refl] issue_inv by simp
next
  case False
  then have w1: "warp_inv (ce_warp_size env) L w1" "w_done w1"
    using normalize_inv(2) [OF assms(3,1,2) refl] assms(4) by simp_all
  then show ?thesis using False warp_done_exited [OF w1] by simp
qed

definition demo_env :: cta_env where
  "demo_env =
     \<lparr>ce_fp = f32_trivial, ce_kernel = ret_kernel, ce_reg = sim_descs, ce_warp_size = 2,
      ce_item = cta_item \<lparr>dim_x = 1, dim_y = 1, dim_z = 1\<rparr> 0 0 0, ce_reconv = [None]\<rparr>"

definition demo_state :: sim_state where
  "demo_state = start_state (demo_sim_config 50) demo_mem0 (obs_init False 0) (demo_launch 1) (Fifo fifo_init)"

lemma warp_step_keeps_partition_witness:
  "\<exists>w1 s1 w2 s2.
     normalize_stack demo_env (warp_init ret_kernel (demo_launch 1) 2 3 (ce_item demo_env) (of_nat 1)) demo_state
       = (w1, s1, True) \<and>
     issue demo_env w1 s1 = (w2, s2, True) \<and> warp_inv 2 {0} w2"
proof -
  let ?w = "warp_init ret_kernel (demo_launch 1) 2 3 (ce_item demo_env) (of_nat 1)"
  have L: "launched_lanes 3 2 1 = {0}" by (auto simp: launched_lanes_def)
  have inv: "warp_inv (ce_warp_size demo_env) {0} ?w"
    unfolding L [symmetric] demo_env_def cta_env.select_convs
    by (rule warp_init_inv) (simp_all add: block_fits_def warp_count_of_def)
  have eval: "case normalize_stack demo_env ?w demo_state of
      (w1, s1, go) \<Rightarrow> go \<and> ss_diag s1 = None \<and> (case issue demo_env w1 s1 of (w2, s2, go2) \<Rightarrow> go2)"
    by (simp add: demo_env_def demo_state_def sim_eval ret_kernel_sel cong: eval_cong)
  obtain w1 s1 go w2 s2 go2 where n: "normalize_stack demo_env ?w demo_state = (w1, s1, go)"
    "issue demo_env w1 s1 = (w2, s2, go2)" by (metis prod_cases3)
  have "go" "go2" "ss_diag s1 = None" using eval n by simp_all
  moreover have "\<not> w_done ?w" by (simp add: warp_init_def Let_def)
  ultimately have "warp_inv (ce_warp_size demo_env) {0} w2"
    using warp_step_keeps_partition [OF inv _ n(1)] n(2) by simp
  then show ?thesis using n \<open>go\<close> \<open>go2\<close> by (auto simp: demo_env_def)
qed

section \<open>Nested branches with one reconvergence point\<close>

text \<open>
  The analysis gives 5 for both branches of the kernel, but the join frame of the inner one is
  executed as soon as it comes to the top of the stack, without being merged into the outer one,
  so that the sum over the warp at 5 is formed in two groups: lanes 0, 1 and 2, each giving 1,
  read 1, 2 and 2 instead of 3.
\<close>

lemma nested_divergence_splits_the_warp:
  "analyze_control_flow nested_kernel sim_descs 4
     = Inr [None, None, Some 5, Some 5, None, None, None] \<and>
   (\<exists>res ms obs c. simt_run_serial f32_trivial (demo_sim_config 50) sim_descs demo_mem0 (obs_init False 0)
        nested_kernel ((demo_launch 1)\<lparr>launch_warp_size := 4\<rparr>) = Some (res, ms, obs, [c]) \<and>
      sr_diag res = None \<and> map w_r32 (cs_warps c) = [[1, 2, 2, 0]])"
proof -
  obtain s ctas where fuel: "simt_run_fuel 20 f32_trivial (demo_sim_config 50) sim_descs demo_mem0
        (obs_init False 0) nested_kernel ((demo_launch 1)\<lparr>launch_warp_size := 4\<rparr>) = Some (s, ctas)"
      and s: "ss_diag s = None"
      "map (\<lambda>c. map w_r32 (cs_warps c)) ctas = [[[1, 2, 2, 0]]]"
    using nested_kernel_run by (auto split: option.splits)
  from s(2) obtain c where "ctas = [c]" "map w_r32 (cs_warps c) = [[1, 2, 2, 0]]"
    by (auto simp: map_eq_Cons_conv)
  then show ?thesis using simt_run_fuel_sound [OF fuel] s(1) nested_kernel_analysis by auto
qed

end
