(* ===== verification/Reconvergence.thy ===== *)
theory Reconvergence
  imports SimtRun
begin

text \<open>
  The join frames of the SIMT stack (\<open>src/simt/simt.cpp\<close>, \<open>normalize_stack\<close>, \<open>commit\<close>): every
  path of a warp finds the join frame of its reconvergence point, through all branches, merges
  and exits of a run; and a run that ends at the step limit.
\<close>

section \<open>Errors that are not a missing join frame\<close>

definition no_join :: "diagnostic \<Rightarrow> bool" where
  "no_join d \<longleftrightarrow> d_message d = ''reconv join frame not found''"

lemma loop_e_error:
  "loop_e f ls s = (s', Some d) \<Longrightarrow> \<exists>l \<in> set ls. \<exists>s0 s1. f l s0 = (s1, Some d)"
  by (induction ls arbitrary: s) (auto split: prod.splits option.splits)

lemma lane_map_error: "lane_map d u f w = (w', Some e) \<Longrightarrow> e = d"
  by (auto simp: lane_map_def dest!: loop_e_error split: option.splits)

lemma finish_error:
  "r_diag (snd (snd (finish name obs res))) = Some d \<Longrightarrow> snd res = Some d"
  by (auto simp: finish_def step_ok_def step_error_def step_result_default_def split: prod.splits option.splits)

lemma finish_lane_map_error:
  "r_diag (snd (snd (finish name obs (lane_map d u f w)))) = Some e \<Longrightarrow> e = d"
  using finish_error lane_map_error by (metis prod.collapse)

lemma finish_loop_error:
  assumes "r_diag (snd (snd (finish name obs (loop_e f ls w)))) = Some e"
    and "\<And>l s0 s1 d. f l s0 = (s1, Some d) \<Longrightarrow> d = d0"
  shows "e = d0"
  using finish_error [OF assms(1)] assms(2) loop_e_error by (metis prod.collapse)

lemma step_diag [simp]:
  "r_diag (step_error d) = Some d" "r_diag step_ok = None" "r_diag (step_result_default\<lparr>r_warp_done := True\<rparr>) = None"
  by (simp_all add: step_error_def step_ok_def step_result_default_def)

lemma exec_message [simp]:
  "no_join (exec_error c m) \<longleftrightarrow> m = ''reconv join frame not found''" "\<not> no_join unknown_special"
  "no_join (mem_error c m) \<longleftrightarrow> m = ''reconv join frame not found''"
  "no_join (ctrl_error c m) \<longleftrightarrow> m = ''reconv join frame not found''"
  "no_join (simt_diag c m loc f pc) \<longleftrightarrow> m = ''reconv join frame not found''"
  "no_join (cfa_diag fn c m loc at) \<longleftrightarrow> m = ''reconv join frame not found''"
  by (simp_all add: no_join_def exec_error_def unknown_special_def mem_error_def ctrl_error_def simt_diag_def cfa_diag_def
      mk_diag_def)

lemma setp_loop_error:
  assumes "r_diag (snd (snd (finish name obs (loop_e (\<lambda>lane w. case g w lane of None \<Rightarrow> (w, Some d)
    | Some c \<Rightarrow> (w\<lparr>w_p := (w_p w)[h lane := k c]\<rparr>, None)) ls w)))) = Some e"
  shows "e = d"
  by (rule finish_loop_error [OF assms]) (auto split: option.splits)

lemma exec_step_error:
  assumes "r_diag (snd (snd (exec_step fp u w obs))) = Some d"
  shows "\<not> no_join d"
proof -
  have setp: "\<not> no_join d" if "r_diag (snd (snd (exec_setp u w obs))) = Some d"
    using that by (auto simp: exec_setp_def Let_def split: if_splits dest!: setp_loop_error)
  have reduce: "\<not> no_join d" if "r_diag (snd (snd (exec_warp_reduce_add fp u w obs))) = Some d"
    using that
    by (auto simp: exec_warp_reduce_add_def reduce_sum_def split: if_splits prod.splits option.splits
        dest!: finish_lane_map_error loop_e_error)
  show ?thesis
    using assms setp reduce
    by (cases "u_op u")
      (auto simp: exec_step_def exec_mov_def exec_cvt_def exec_add_def exec_mul_def exec_shl_def exec_shfl_def exec_fma_def
        Let_def split: if_splits dest!: finish_lane_map_error)
qed

lemma mem_finish_error: "r_diag (snd (snd (snd (mem_finish name obs ms w err)))) = Some d \<Longrightarrow> err = Some d"
  by (auto simp: mem_finish_def split: option.splits)

lemma lane_errors:
  "ld_global_lane ms u l w = (w', Some d) \<Longrightarrow> \<not> no_join d"
  "st_global_lane u w l ms = (ms', Some d) \<Longrightarrow> \<not> no_join d"
  "ld_local_lane ms u l w \<noteq> (w', Some d)"
  "st_local_lane u w l ms = (ms', Some d) \<Longrightarrow> \<not> no_join d"
  by (auto simp: ld_global_lane_def st_global_lane_def ld_local_lane_def st_local_lane_def Let_def global_miss_def
      split: if_splits option.splits prod.splits bool.splits)

lemma mem_step_error:
  assumes "r_diag (snd (snd (snd (mem_step ms u w obs)))) = Some d"
  shows "\<not> no_join d"
proof -
  have param: "\<not> no_join d" if "r_diag (snd (snd (snd (mem_ld_param ms u w obs)))) = Some d"
    using that by (auto simp: mem_ld_param_def Let_def split: if_splits option.splits prod.splits
        dest!: mem_finish_error loop_e_error)
  have loads: "\<not> no_join d" if "r_diag (snd (snd (snd (mem_ld_global ms u w obs)))) = Some d \<or>
      r_diag (snd (snd (snd (mem_ld_local ms u w obs)))) = Some d"
    using that by (auto simp: mem_ld_global_def mem_ld_local_def lane_errors(3) split: if_splits prod.splits
        dest!: mem_finish_error loop_e_error dest: lane_errors(1,2,4))
  have stores: "\<not> no_join d" if "r_diag (snd (snd (snd (mem_st_global ms u w obs)))) = Some d \<or>
      r_diag (snd (snd (snd (mem_st_local ms u w obs)))) = Some d"
    using that by (auto simp: mem_st_global_def mem_st_local_def split: if_splits prod.splits
        dest!: mem_finish_error loop_e_error dest: lane_errors(1,2,4))
  show ?thesis
    using assms param loads stores
    by (auto simp: mem_step_def mem_ld_def mem_st_def split: if_splits)
qed

lemma ctrl_step_error: "r_diag (snd (snd (ctrl_step u w obs))) = Some d \<Longrightarrow> \<not> no_join d"
  by (cases "u_op u") (auto simp: ctrl_step_def split: if_splits)

lemma fill_diag_message [simp]: "no_join (fill_diag env i pc d) = no_join d"
  by (simp add: fill_diag_def no_join_def)

lemma after_unit_error:
  assumes "after_unit env i r x = (x', Some d)" and "\<And>e. r_diag r = Some e \<Longrightarrow> \<not> no_join e"
  shows "\<not> no_join d"
  using assms by (auto simp: after_unit_def run_diag_def Let_def split: if_splits option.splits)

lemma uop_body_error:
  assumes "uop_body env i u x0 = (x', Some d)"
  shows "\<not> no_join d"
proof -
  define x where "x = x0\<lparr>ur_sim := emit_uop env u (ur_warp x0) (ur_sim x0)\<rparr>"
  have exec: "\<not> no_join e" if "uop_exec env u x = (x1, r)" "r_diag r = Some e" for x1 r e
    using that exec_step_error [of "ce_fp env" u "ur_warp x" "ss_obs (ur_sim x)" e]
    by (auto simp: uop_exec_def split: prod.splits)
  have mem: "\<not> no_join e" if "uop_mem u x = (x1, r)" "r_diag r = Some e" for x1 r e
    using that mem_step_error [of "ss_mem (ur_sim x)" u "ur_warp x" "ss_obs (ur_sim x)" e]
    by (auto simp: uop_mem_def split: prod.splits)
  have ctrl: "\<not> no_join e" if "uop_ctrl u x = (x1, r)" "r_diag r = Some e" for x1 r e
    using that ctrl_step_error [of u "ur_warp x" "ss_obs (ur_sim x)" e]
    by (auto simp: uop_ctrl_def split: prod.splits if_splits)
  have split_note: "\<not> no_join e" if "note_split env i u t y = (y', Some e)" for t y y' e
    using that by (auto simp: note_split_def run_diag_def Let_def split: if_splits option.splits)
  show ?thesis
    using assms unfolding uop_body_def x_def [symmetric] Let_def
    by (cases "u_kind u")
      (auto split: prod.splits option.splits dest!: split_note dest: after_unit_error exec mem ctrl)
qed

section \<open>Every path finds its join frame\<close>

text \<open>
  \<open>n\<close> is the number of instructions, the reconvergence point of the whole warp: every other
  frame has a join frame for its reconvergence point below it.
\<close>

fun frames_joined :: "pc_t \<Rightarrow> simt_frame list \<Rightarrow> bool" where
  "frames_joined n [] = True"
| "frames_joined n (f # fs) \<longleftrightarrow>
     (fr_reconv_pc f = n \<or> (\<exists>g \<in> set fs. fr_is_join g \<and> fr_pc g = fr_reconv_pc f)) \<and> frames_joined n fs"

definition frame_points :: "simt_frame \<Rightarrow> pc_t \<times> pc_t \<times> bool" where
  "frame_points f = (fr_pc f, fr_reconv_pc f, fr_is_join f)"

lemma frames_joined_points: "map frame_points fs = map frame_points gs \<Longrightarrow> frames_joined n fs = frames_joined n gs"
proof (induction fs arbitrary: gs)
  case Nil
  then show ?case by simp
next
  case (Cons f fs)
  then obtain g gs' where gs: "gs = g # gs'" "frame_points f = frame_points g" "map frame_points fs = map frame_points gs'"
    by (auto simp: Cons_eq_map_conv)
  have join: "(\<exists>h \<in> set hs. fr_is_join h \<and> fr_pc h = p) \<longleftrightarrow> (\<exists>r. (p, r, True) \<in> set (map frame_points hs))" for hs p
    by (auto simp: frame_points_def image_iff)
  have "(\<exists>h \<in> set fs. fr_is_join h \<and> fr_pc h = p) \<longleftrightarrow> (\<exists>h \<in> set gs'. fr_is_join h \<and> fr_pc h = p)" for p
    unfolding join gs(3) ..
  then show ?case using Cons.IH [OF gs(3)] gs(1,2) by (simp add: frame_points_def)
qed

lemma merge_join_points: "merge_join pc a fs = Some (gs, m) \<Longrightarrow> map frame_points gs = map frame_points fs"
  by (induction fs arbitrary: gs m) (auto simp: Let_def frame_points_def split: if_splits option.splits prod.splits)

lemma merge_join_None: "merge_join pc a fs = None \<Longrightarrow> g \<in> set fs \<Longrightarrow> fr_is_join g \<Longrightarrow> fr_pc g \<noteq> pc"
  by (induction fs) (auto simp: Let_def split: if_splits option.splits)

lemma norm_stack_joined:
  assumes "norm_stack e fs = (fs', ctl, r)" and "frames_joined n fs"
  shows "frames_joined n fs' \<and> (\<forall>pc. r = NormNoJoin pc \<longrightarrow> pc = n)"
  using assms
proof (induction e fs arbitrary: fs' ctl r rule: norm_stack.induct)
  case (1 e)
  then show ?case by auto
next
  case (2 e f fs)
  let ?top = "live_frame e f"
  consider
    (empty) "lane_mask_empty (fr_active ?top)"
    | (join) "\<not> lane_mask_empty (fr_active ?top)" "fr_is_join ?top"
    | (arrive) "\<not> lane_mask_empty (fr_active ?top)" "\<not> fr_is_join ?top" "fr_pc ?top = fr_reconv_pc ?top"
    | (path) "\<not> lane_mask_empty (fr_active ?top)" "\<not> fr_is_join ?top" "fr_pc ?top \<noteq> fr_reconv_pc ?top"
    by blast
  then show ?case
  proof cases
    case empty
    obtain st ns r' where nn: "norm_stack e fs = (st, ns, r')" by (metis prod_cases3)
    then show ?thesis using "2.IH"(1) [OF refl empty nn] "2.prems" empty by (auto simp: Let_def)
  next
    case arrive
    show ?thesis
    proof (cases "merge_join (fr_pc ?top) (fr_active ?top) fs")
      case None
      then have "fr_pc ?top = n" using merge_join_None [OF None] "2.prems"(2) arrive(3) by auto
      then show ?thesis using "2.prems" arrive None by (auto simp: Let_def)
    next
      case (Some p)
      obtain gs m where p: "p = (gs, m)" by fastforce
      then have mj: "merge_join (fr_pc ?top) (fr_active ?top) fs = Some (gs, m)" using Some by simp
      obtain st ns r' where nn: "norm_stack e gs = (st, ns, r')" by (metis prod_cases3)
      have "frames_joined n gs" using frames_joined_points [OF merge_join_points [OF mj]] "2.prems"(2) by simp
      then have "frames_joined n st \<and> (\<forall>pc. r' = NormNoJoin pc \<longrightarrow> pc = n)"
        using "2.IH"(2) [OF refl arrive(1,2,3) mj refl nn] by simp
      then show ?thesis using "2.prems"(1) arrive mj nn by (auto simp: Let_def)
    qed
  qed (use "2.prems" in \<open>auto simp: Let_def\<close>)
qed

lemma normalize_joined:
  assumes "normalize_stack env w s = (w', s', go)" and "frames_joined n (w_stack w)"
  shows "frames_joined n (w_stack w')"
    and "ss_diag s' = ss_diag s \<or> (\<exists>d. ss_diag s' = Some d \<and> no_join d \<and> d_inst_index d = Some n)"
proof -
  obtain st ctl r where nn: "norm_stack (w_exited w) (w_stack w) = (st, ctl, r)" by (metis prod_cases3)
  note good = norm_stack_joined [OF nn assms(2)]
  show "frames_joined n (w_stack w')" using assms(1) good by (auto simp: normalize_stack_def nn Let_def split: norm_result.splits)
  show "ss_diag s' = ss_diag s \<or> (\<exists>d. ss_diag s' = Some d \<and> no_join d \<and> d_inst_index d = Some n)"
    using assms(1) good
    by (auto simp: normalize_stack_def nn Let_def split: norm_result.splits) (simp add: simt_diag_def)
qed

lemma uop_body_stack:
  fixes x :: uop_run
  assumes "frames_joined n (w_stack (ur_warp x))"
  shows "frames_joined n (w_stack (ur_warp (fst (uop_body env i u x))))"
proof (rule uop_body_keeps [where P = "\<lambda>y. frames_joined n (w_stack (ur_warp y))"])
  have stack: "w_stack w' = w_stack w" if "same_context w w'" for w w' using that by (simp add: warp_simps)
  fix y :: uop_run assume y: "frames_joined n (w_stack (ur_warp y))"
  show "frames_joined n (w_stack (ur_warp (fst (uop_exec env u y))))"
    using y stack uop_exec_warp [of env u y] by auto
  show "frames_joined n (w_stack (ur_warp (fst (uop_mem u y))))"
    using y stack uop_mem_warp [of u y] by auto
  show "frames_joined n (w_stack (ur_warp (fst (uop_ctrl u y))))"
  proof (cases "u_op u = Ret")
    case True
    then show ?thesis using y by (auto simp: uop_ctrl_def ret_uop_def Let_def split: list.splits)
  next
    case False
    then show ?thesis using y uop_ctrl_warp [OF False, of y] by auto
  qed
qed (simp_all add: assms after_unit_warp note_split_warp)

lemma commit_stack_joined: "frames_joined n (w_stack w) \<Longrightarrow> frames_joined n (w_stack (commit_stack env sp next_pc w))"
  by (auto simp: commit_stack_def split_frames_def Let_def split: list.splits option.splits)

lemma run_uops_joined:
  assumes "run_uops env i us w s = (w', s', go)" and "frames_joined n (w_stack w)"
  shows "frames_joined n (w_stack w')" and "ss_diag s' = ss_diag s \<or> (\<exists>d. ss_diag s' = Some d \<and> \<not> no_join d)"
proof -
  let ?x = "\<lparr>ur_warp = w, ur_sim = s, ur_next = None, ur_split = None\<rparr>"
  obtain x d where l: "loop_e (uop_body env i) us ?x = (x, d)" by fastforce
  have "frames_joined n (w_stack (ur_warp (fst (loop_e (uop_body env i) us ?x))))"
    by (rule loop_e_invariant [where P = "\<lambda>y. frames_joined n (w_stack (ur_warp y))"]) (simp_all add: assms(2) uop_body_stack)
  then have x: "frames_joined n (w_stack (ur_warp x))" by (simp add: l)
  then show "frames_joined n (w_stack w')"
    using assms(1) commit_stack_joined by (auto simp: run_uops_def l commit_def Let_def split: option.splits if_splits)
  have "sim_frame (ur_sim (fst (loop_e (uop_body env i) us ?x))) = sim_frame (ur_sim ?x)"
    by (rule loop_e_keeps) (rule uop_body_frame)
  then have "ss_diag (ur_sim x) = ss_diag s" by (simp add: l sim_frame_def)
  moreover have "\<not> no_join e" if "d = Some e" for e
    using loop_e_error [of "uop_body env i" us ?x x e] l that uop_body_error by blast
  ultimately show "ss_diag s' = ss_diag s \<or> (\<exists>d. ss_diag s' = Some d \<and> \<not> no_join d)"
    using assms(1) by (auto simp: run_uops_def l commit_def Let_def split: option.splits if_splits)
qed

lemma issue_joined:
  assumes "issue env w s = (w', s', go)" and "frames_joined n (w_stack w)"
  shows "frames_joined n (w_stack w')" and "ss_diag s' = ss_diag s \<or> (\<exists>d. ss_diag s' = Some d \<and> \<not> no_join d)"
proof -
  show "frames_joined n (w_stack w')"
    using assms by (auto simp: issue_def Let_def split: if_splits option.splits dest: run_uops_joined(1))
  show "ss_diag s' = ss_diag s \<or> (\<exists>d. ss_diag s' = Some d \<and> \<not> no_join d)"
    using assms(1)
    by (auto simp: issue_def run_diag_def Let_def split: if_splits option.splits dest!: run_uops_joined(2) [OF _ assms(2)])
qed

section \<open>A whole run\<close>

lemma cta_round_warps:
  assumes "cta_round cfg kind env c = (c', go)" and "\<forall>w \<in> set (cs_warps c). frames_joined n (w_stack w)"
  shows "\<forall>w \<in> set (cs_warps c'). frames_joined n (w_stack w)"
    and "ss_diag (cs_sim c') = ss_diag (cs_sim c) \<or>
      (\<exists>d. ss_diag (cs_sim c') = Some d \<and> (no_join d \<longrightarrow> d_inst_index d = Some n))"
proof -
  have upd: "\<forall>w \<in> set ((cs_warps c)[i := v]). frames_joined n (w_stack w)" if "frames_joined n (w_stack v)" for i v
    using assms(2) that set_update_subset_insert [of "cs_warps c" i v] by blast
  have "(\<forall>w \<in> set (cs_warps c'). frames_joined n (w_stack w)) \<and>
    (ss_diag (cs_sim c') = ss_diag (cs_sim c) \<or>
      (\<exists>d. ss_diag (cs_sim c') = Some d \<and> (no_join d \<longrightarrow> d_inst_index d = Some n)))"
    using assms(1)
  proof (cases rule: cta_round_cases)
    case (idle sched' pick w1 s1)
    have "frames_joined n (w_stack (cs_warps c ! unat pick))" using assms(2) idle(3) by simp
    note norm = normalize_joined [OF idle(5) this]
    show ?thesis using upd [OF norm(1)] norm(2) idle(7) by (auto simp: request_stop_def)
  next
    case (issued sched' pick w1 s1 w2 s2)
    have "frames_joined n (w_stack (cs_warps c ! unat pick))" using assms(2) issued(3) by simp
    note norm = normalize_joined [OF issued(5) this]
    note iss = issue_joined [OF issued(6) norm(1)]
    show ?thesis using upd [OF iss(1)] norm(2) iss(2) issued(7) by auto
  qed (use assms(2) in \<open>auto simp: request_stop_def\<close>)
  then show "\<forall>w \<in> set (cs_warps c'). frames_joined n (w_stack w)"
    "ss_diag (cs_sim c') = ss_diag (cs_sim c) \<or>
      (\<exists>d. ss_diag (cs_sim c') = Some d \<and> (no_join d \<longrightarrow> d_inst_index d = Some n))" by blast+
qed

text \<open>What the diagnostic of a state says about join frames.\<close>

definition join_report :: "pc_t \<Rightarrow> sim_state \<Rightarrow> bool" where
  "join_report n s \<longleftrightarrow> (\<forall>d. ss_diag s = Some d \<and> no_join d \<longrightarrow> d_inst_index d = Some n)"

lemma cta_loop_report:
  assumes "\<forall>w \<in> set (cs_warps c). frames_joined n (w_stack w)" and "join_report n (cs_sim c)"
  shows "join_report n (cs_sim (cta_loop cfg kind env c))"
  using assms
proof (induction cfg kind env c rule: cta_loop.induct)
  case (1 cfg kind env c)
  obtain c' go where r: "cta_round cfg kind env c = (c', go)" by fastforce
  note round = cta_round_warps [OF r "1.prems"(1)]
  have "join_report n (cs_sim c')" using round(2) "1.prems"(2) by (auto simp: join_report_def)
  then show ?case
    using "1.IH" [OF r [symmetric] _ round(1)] by (cases go) (simp_all add: cta_loop.simps [of cfg kind env c] r)
qed

lemma analysis_message: "analyze_control_flow k reg ws = Inl d \<Longrightarrow> \<not> no_join d"
proof -
  have map_e: "\<exists>x \<in> set xs. f x = Inl d" if "map_e f xs = Inl d" for f :: "nat \<Rightarrow> diagnostic + 'b" and xs
    using that by (induction xs) (auto simp: e_bind_Inl_iff)
  assume "analyze_control_flow k reg ws = Inl d"
  then show ?thesis
    by (auto simp: analyze_control_flow_def build_succ_def e_bind_Inl_iff Let_def inst_succ_def inst_reconv_def
        split: option.splits if_splits dest!: map_e)
qed

lemma run_one_cta_report:
  assumes "join_report (int (length (k_insts k))) s"
  shows "join_report (int (length (k_insts k))) (cs_sim (run_one_cta fp cfg reg k launch tpb ws it s))"
proof (cases "analyze_control_flow k reg ws")
  case (Inl d)
  then show ?thesis using analysis_message [OF Inl] by (simp add: run_one_cta_def join_report_def Let_def)
next
  case (Inr table)
  have "\<forall>w \<in> set (init_warps k launch ws tpb it). frames_joined (int (length (k_insts k))) (w_stack w)"
    by (auto simp: init_warps_def warp_init_def Let_def)
  then show ?thesis using cta_loop_report assms Inr by (simp add: run_one_cta_def Let_def)
qed

lemma serial_loop_keeps:
  assumes "serial_loop run_cta s = Some (s', cs)" and "P s"
    and "\<And>s q. P s \<Longrightarrow> P (s\<lparr>ss_cta := q\<rparr>)" and "\<And>it s. P s \<Longrightarrow> P (cs_sim (run_cta it s))"
  shows "P s'"
proof -
  let ?Q = "\<lambda>run_cta s r. (\<forall>it s. P s \<longrightarrow> P (cs_sim (run_cta it s))) \<and> P s \<longrightarrow> P (fst (r :: sim_state \<times> cta_state list))"
  have "?Q run_cta s (s', cs)"
  proof (rule serial_loop.raw_induct [where P = ?Q, OF _ assms(1)])
    fix f run_cta s y
    assume IH: "\<And>run_cta s y. f run_cta s = Some y \<Longrightarrow> ?Q run_cta s y"
      and body: "(case cta_acquire 0 (ss_cta s) of
          (cs', Wait) \<Rightarrow> None
        | (cs', Acquired None) \<Rightarrow> Some (s\<lparr>ss_cta := cs'\<rparr>, [])
        | (cs', Acquired (Some it)) \<Rightarrow>
            let c = run_cta it (s\<lparr>ss_cta := cs'\<rparr>); s' = cs_sim c
            in if ss_diag s' \<noteq> None then Some (s', [c])
               else Option.bind (f run_cta s') (\<lambda>(s'', cs). Some (s'', c # cs))) = Some y"
    obtain cs' a where ac: "cta_acquire 0 (ss_cta s) = (cs', a)" by fastforce
    show "?Q run_cta s y"
    proof (rule impI, elim conjE)
      assume keep: "\<forall>it s. P s \<longrightarrow> P (cs_sim (run_cta it s))" and s: "P s"
      have next_s: "P (s\<lparr>ss_cta := cs'\<rparr>)" by (rule assms(3) [OF s])
      consider (none) "a = Wait" | (fin) "a = Acquired None" | (item) it where "a = Acquired (Some it)"
        by (metis acquire_result.exhaust option.exhaust)
      then show "P (fst y)"
      proof cases
        case (item it)
        have "P (cs_sim (run_cta it (s\<lparr>ss_cta := cs'\<rparr>)))" using keep next_s by blast
        then show ?thesis
          using body ac item keep IH [of run_cta "cs_sim (run_cta it (s\<lparr>ss_cta := cs'\<rparr>))"]
          by (auto simp: Let_def bind_eq_Some_conv split: if_splits)
      qed (use body ac next_s in auto)
    qed
  qed
  then show ?thesis using assms(2,4) by simp
qed

lemma launch_messages:
  "check_launch cfg k launch = Inl d \<Longrightarrow> \<not> no_join d" "check_selectors cfg k sms = Inl d \<Longrightarrow> \<not> no_join d"
  by (auto simp: check_launch_def check_selectors_def Let_def split: if_splits option.splits sum.splits)


text \<open>A kernel without \<open>ret\<close>: its lanes part at 1, meet again at 3 and run off the end.\<close>

definition endless_kernel :: kernel_image where
  "endless_kernel =
     \<lparr>k_name = ''off'', k_reg_u32_count = 1, k_reg_u64_count = 0, k_params = [],
      k_insts =
        [demo_inst ''setp'' None [operand_default\<lparr>o_kind := KPred, o_pred_id := 0\<rparr>,
           operand_default\<lparr>o_kind := KSpecial, o_special := ''laneid''\<rparr>, demo_imm 1],
         demo_inst ''bra'' (Some \<lparr>pg_pred_id = 0, pg_negated = False\<rparr>) [demo_imm 3],
         demo_inst ''mov'' None [demo_reg, demo_imm 1],
         demo_inst ''mov'' None [demo_reg, demo_imm 2]]\<rparr>"

lemma endless_kernel_sel:
  "k_name endless_kernel = ''off''" "k_reg_u32_count endless_kernel = 1" "k_reg_u64_count endless_kernel = 0"
  "k_insts endless_kernel =
        [demo_inst ''setp'' None [operand_default\<lparr>o_kind := KPred, o_pred_id := 0\<rparr>,
           operand_default\<lparr>o_kind := KSpecial, o_special := ''laneid''\<rparr>, demo_imm 1],
         demo_inst ''bra'' (Some \<lparr>pg_pred_id = 0, pg_negated = False\<rparr>) [demo_imm 3],
         demo_inst ''mov'' None [demo_reg, demo_imm 1],
         demo_inst ''mov'' None [demo_reg, demo_imm 2]]"
  by (simp_all add: endless_kernel_def)

lemma endless_kernel_analysis:
  "analyze_control_flow endless_kernel sim_descs 4 = Inr [None, Some 3, None, None]"
  by (simp add: analysis_eval demo_eval endless_kernel_sel lookup_sim_descs demo_descs_def expand_def
      expand_uop_def inst_operand_kinds_def pick_operands_def fuel_numeral upt_conv_Cons Let_def
      lane_mask_all_def parse_value_type_def parse_space_def numeral_le_one_word cong: eval_cong)

lemma endless_kernel_run:
  "case simt_run_fuel 20 f32_trivial (demo_sim_config 50) sim_descs demo_mem0 (obs_init False 0)
          endless_kernel ((demo_launch 1)\<lparr>launch_warp_size := 4\<rparr>) of
     None \<Rightarrow> False
   | Some (s, ctas) \<Rightarrow> ss_steps s = 4 \<and>
       (case ss_diag s of None \<Rightarrow> False | Some d \<Rightarrow> d_message d = ''reconv join frame not found'')"
  by (simp add: sim_eval endless_kernel_sel endless_kernel_analysis exec_eval simt_diag_def mk_diag_def fail_with_def
      cong: eval_cong)


section \<open>The step limit\<close>

lemma cta_round_limit:
  assumes "cta_round cfg kind env c = (c', go)" and "ss_steps (cs_sim c) \<le> cfg_max_steps cfg"
  shows "ss_steps (cs_sim c') \<le> cfg_max_steps cfg"
  using assms(1)
proof (cases rule: cta_round_cases)
  case limit
  then show ?thesis using assms(2) by (simp add: request_stop_def)
next
  case (idle sched' pick w1 s1)
  then show ?thesis using normalize_steps(1) [OF idle(5)] assms(2) by (simp add: request_stop_def)
next
  case (issued sched' pick w1 s1 w2 s2)
  have "ss_steps (cs_sim c) + 1 \<le> cfg_max_steps cfg" using issued(1) by (simp add: inc_le not_le)
  then show ?thesis
    using issue_steps [OF issued(6)] normalize_steps(1) [OF issued(5)] issued(7) assms(2) by (cases go) simp_all
qed (use assms(2) in simp_all)

lemma cta_loop_limit:
  "ss_steps (cs_sim c) \<le> cfg_max_steps cfg \<Longrightarrow> ss_steps (cs_sim (cta_loop cfg kind env c)) \<le> cfg_max_steps cfg"
proof (induction cfg kind env c rule: cta_loop.induct)
  case (1 cfg kind env c)
  obtain c' go where r: "cta_round cfg kind env c = (c', go)" by fastforce
  show ?case
    using "1.IH" [OF r [symmetric]] cta_round_limit [OF r "1.prems"]
    by (cases go) (simp_all add: cta_loop.simps [of cfg kind env c] r)
qed

lemma run_one_cta_limit:
  "ss_steps s \<le> cfg_max_steps cfg \<Longrightarrow>
   ss_steps (cs_sim (run_one_cta fp cfg reg k launch tpb ws it s)) \<le> cfg_max_steps cfg"
  by (auto simp: run_one_cta_def Let_def intro!: cta_loop_limit split: sum.split)

lemma run_limit:
  assumes "simt_run_serial fp cfg reg ms obs k launch = Some (res, ms', obs', ctas)"
  shows "sr_steps res \<le> cfg_max_steps cfg \<and> (sr_completed res \<longleftrightarrow> sr_diag res = None)"
proof -
  have start: "ss_steps (start_state cfg ms obs launch cs) \<le> cfg_max_steps cfg" for cs by (simp add: start_state_def)
  have "ss_steps s \<le> cfg_max_steps cfg"
    if "serial_loop (run_one_cta fp cfg reg k launch tpb ws) (start_state cfg ms obs launch cs) = Some (s, cs')" for tpb ws cs s cs'
    by (rule serial_loop_keeps [where P = "\<lambda>s. ss_steps s \<le> cfg_max_steps cfg", OF that])
      (simp_all add: start run_one_cta_limit)
  then show ?thesis
    using assms by (auto simp: simt_run_serial_def failed_launch_def split: sum.splits option.splits prod.splits)
qed

text \<open>
  C27.  The step limit: a run never executes more than the configured number of instructions; it
  is reported as completed exactly if there is no diagnostic; and a run without a diagnostic that
  has not executed every thread of the grid has executed exactly the configured number of
  instructions, and is reported as completed all the same.
\<close>

theorem step_limit_reports_completion:
  assumes "simt_run_serial fp cfg reg ms obs k launch = Some (res, ms', obs', ctas)"
    and "threads_per_block (block_dim launch) = Some tpb" and "unat tpb \<le> 2 ^ 31"
  shows "sr_steps res \<le> cfg_max_steps cfg \<and> (sr_completed res \<longleftrightarrow> sr_diag res = None) \<and>
    (sr_diag res = None \<and>
       \<not> list_all2 (cta_complete tpb (launch_warp_size_of cfg launch)) (cta_items (grid_dim launch)) ctas \<longrightarrow>
     sr_steps res = cfg_max_steps cfg \<and> sr_completed res)"
proof -
  note limit = run_limit [OF assms(1)]
  have "sr_steps res = cfg_max_steps cfg"
    if "sr_diag res = None" "\<not> list_all2 (cta_complete tpb (launch_warp_size_of cfg launch)) (cta_items (grid_dim launch)) ctas"
    using simt_run_complete [OF assms(1) that(1) _ assms(2,3)] that(2) limit by (meson le_less)
  then show ?thesis using limit by blast
qed

lemma step_limit_reports_completion_witness:
  "\<exists>res ms obs ctas. simt_run_serial f32_trivial (demo_sim_config 5) sim_descs demo_mem0 (obs_init False 0)
       spin_kernel (demo_launch 2) = Some (res, ms, obs, ctas) \<and>
     sr_diag res = None \<and> sr_completed res \<and> sr_steps res = 5 \<and>
     map (\<lambda>c. map w_done (cs_warps c)) ctas = [[False, False]]"
proof -
  obtain s ctas where fuel: "simt_run_fuel 9 f32_trivial (demo_sim_config 5) sim_descs demo_mem0
        (obs_init False 0) spin_kernel (demo_launch 2) = Some (s, ctas)"
      and s: "ss_diag s = None" "map (\<lambda>c. map w_done (cs_warps c)) ctas = [[False, False]]"
    using spin_kernel_run by (auto split: option.splits)
  note run = simt_run_fuel_sound [OF fuel]
  have tpb: "threads_per_block (block_dim (demo_launch 2)) = Some 3"
    by (simp add: threads_per_block_def mul_u64_overflow_def demo_launch_def)
  have "length (cta_items (grid_dim (demo_launch 2))) = 2" by (simp add: demo_launch_def cta_items_def upt_conv_Cons)
  moreover have "length ctas = 1" using s(2) by (auto simp: map_eq_Cons_conv)
  ultimately have short: "\<not> list_all2 (cta_complete 3 (launch_warp_size_of (demo_sim_config 5) (demo_launch 2)))
      (cta_items (grid_dim (demo_launch 2))) ctas" by (auto dest: list_all2_lengthD)
  have "ss_steps s = 5"
    using step_limit_reports_completion [OF run tpb] short s(1) by (simp add: demo_sim_config_def)
  then show ?thesis using run s by auto
qed

end
