(* ===== verification/JsonText.thy ===== *)
theory JsonText
  imports Json
begin

text \<open>
  The JSON reader and writer (\<open>src/common/json.cpp\<close>).  A cursor is the offset together with
  the text from that offset on.  The recursive descent is bounded by a fuel argument; the
  result \<open>None\<close> is running out of it, and \<open>parse\<close> starts with enough for its text
  (\<open>parse_returns\<close>).  Numbers are the parameter \<open>'n\<close> of the values, read by \<open>strtod\<close> and
  printed by \<open>fmt\<close>, the two conversions of C++ doubles.
\<close>

section \<open>The cursor\<close>

type_synonym cursor = "nat \<times> string"

definition peek :: "cursor \<Rightarrow> char" where
  "peek c = (case snd c of [] \<Rightarrow> CHR 0x00 | ch # _ \<Rightarrow> ch)"

definition advance :: "cursor \<Rightarrow> cursor" where
  "advance c = (Suc (fst c), tl (snd c))"

definition cursor_fail :: "cursor \<Rightarrow> string \<Rightarrow> json_exn + 'a" where
  "cursor_fail c msg =
     Inl (ParseError (''JSON parse error at offset '' @ dec_string (fst c) @ '': '' @ msg))"

definition is_space :: "char \<Rightarrow> bool" where
  "is_space ch \<longleftrightarrow> ch \<in> {CHR 0x20, CHR 0x09, CHR 0x0A, CHR 0x0B, CHR 0x0C, CHR 0x0D}"

definition is_digit :: "char \<Rightarrow> bool" where
  "is_digit ch \<longleftrightarrow> CHR ''0'' \<le> ch \<and> ch \<le> CHR ''9''"

fun skip_ws :: "cursor \<Rightarrow> cursor" where
  "skip_ws (i, []) = (i, [])"
| "skip_ws (i, ch # r) = (if is_space ch then skip_ws (Suc i, r) else (i, ch # r))"

definition consume :: "cursor \<Rightarrow> char \<Rightarrow> cursor option" where
  "consume c ch = (if peek c = ch then Some (advance c) else None)"

definition expect :: "cursor \<Rightarrow> char \<Rightarrow> json_exn + cursor" where
  "expect c ch =
     (case consume c ch of
        Some c' \<Rightarrow> Inr c'
      | None \<Rightarrow> cursor_fail c (''expected '' @ [CHR 0x27, ch, CHR 0x27]))"

section \<open>Tokens\<close>

definition escape_char :: "char \<Rightarrow> string + char" where
  "escape_char e =
     (if e = CHR 0x22 then Inr (CHR 0x22)
      else if e = CHR 0x5C then Inr (CHR 0x5C)
      else if e = CHR ''/'' then Inr (CHR ''/'')
      else if e = CHR ''b'' then Inr (CHR 0x08)
      else if e = CHR ''f'' then Inr (CHR 0x0C)
      else if e = CHR ''n'' then Inr (CHR 0x0A)
      else if e = CHR ''r'' then Inr (CHR 0x0D)
      else if e = CHR ''t'' then Inr (CHR 0x09)
      else if e = CHR ''u'' then Inl ([CHR 0x5C] @ ''u escapes not supported in this parser'')
      else Inl ''invalid escape'')"

fun string_chars :: "string \<Rightarrow> cursor \<Rightarrow> json_exn + string \<times> cursor" where
  "string_chars out (i, []) = cursor_fail (i, []) ''unterminated string''"
| "string_chars out (i, ch # r) =
     (if ch = CHR 0x22 then Inr (out, (Suc i, r))
      else if ch = CHR 0x5C then
        (case r of
           [] \<Rightarrow> cursor_fail (Suc i, []) ''unterminated escape''
         | e # r' \<Rightarrow>
             (case escape_char e of
                Inl msg \<Rightarrow> cursor_fail (Suc (Suc i), r') msg
              | Inr ch' \<Rightarrow> string_chars (out @ [ch']) (Suc (Suc i), r')))
      else string_chars (out @ [ch]) (Suc i, r))"

definition parse_string :: "cursor \<Rightarrow> json_exn + string \<times> cursor" where
  "parse_string c = e_bind (expect c (CHR 0x22)) (string_chars [])"

fun skip_digits :: "cursor \<Rightarrow> cursor" where
  "skip_digits (i, []) = (i, [])"
| "skip_digits (i, ch # r) = (if is_digit ch then skip_digits (Suc i, r) else (i, ch # r))"

definition scan_int :: "cursor \<Rightarrow> json_exn + cursor" where
  "scan_int c =
     (let c = (if peek c = CHR ''-'' then advance c else c)
      in if \<not> is_digit (peek c) then cursor_fail c ''invalid number''
         else Inr (if peek c = CHR ''0'' then advance c else skip_digits c))"

definition scan_frac :: "cursor \<Rightarrow> json_exn + cursor" where
  "scan_frac c =
     (if peek c = CHR ''.'' then
        let c = advance c
        in if \<not> is_digit (peek c) then cursor_fail c ''invalid number fraction''
           else Inr (skip_digits c)
      else Inr c)"

definition scan_exp :: "cursor \<Rightarrow> json_exn + cursor" where
  "scan_exp c =
     (if peek c = CHR ''e'' \<or> peek c = CHR ''E'' then
        let c = advance c;
            c = (if peek c = CHR ''+'' \<or> peek c = CHR ''-'' then advance c else c)
        in if \<not> is_digit (peek c) then cursor_fail c ''invalid number exponent''
           else Inr (skip_digits c)
      else Inr c)"

definition scan_number :: "cursor \<Rightarrow> json_exn + cursor" where
  "scan_number c = e_bind (e_bind (scan_int c) scan_frac) scan_exp"

definition parse_number :: "(string \<Rightarrow> 'n option) \<Rightarrow> cursor \<Rightarrow> json_exn + 'n \<times> cursor" where
  "parse_number strtod c =
     e_bind (scan_number c) (\<lambda>c'.
       (case strtod (take (fst c' - fst c) (snd c)) of
          None \<Rightarrow> cursor_fail c' ''number conversion failed''
        | Some v \<Rightarrow> Inr (v, c')))"

definition match_lit :: "cursor \<Rightarrow> string \<Rightarrow> cursor option" where
  "match_lit c lit =
     (if take (length lit) (snd c) = lit then Some (fst c + length lit, drop (length lit) (snd c))
      else None)"

section \<open>Values\<close>

type_synonym 'a parsed = "(json_exn + 'a \<times> cursor) option"

fun p_bind :: "'a parsed \<Rightarrow> ('a \<Rightarrow> cursor \<Rightarrow> 'b parsed) \<Rightarrow> 'b parsed" where
  "p_bind None f = None"
| "p_bind (Some (Inl e)) f = Some (Inl e)"
| "p_bind (Some (Inr (x, c))) f = f x c"

definition expecting :: "cursor \<Rightarrow> char \<Rightarrow> (cursor \<Rightarrow> 'a parsed) \<Rightarrow> 'a parsed" where
  "expecting c ch f = (case expect c ch of Inl e \<Rightarrow> Some (Inl e) | Inr c' \<Rightarrow> f c')"

text \<open>
  The loops of the two containers take the parser of their elements and the elements read so
  far.  A loop is bounded by the text that is left when it starts, since each round reads a
  comma; the nesting is bounded by the fuel of \<open>parse_value\<close>.
\<close>

primrec array_loop :: "(cursor \<Rightarrow> 'n json parsed) \<Rightarrow> nat \<Rightarrow> 'n json list \<Rightarrow> cursor \<Rightarrow> 'n json list parsed"
where
  "array_loop pv 0 a c = None"
| "array_loop pv (Suc m) a c =
     p_bind (pv (skip_ws c)) (\<lambda>v c.
       let c = skip_ws c
       in case consume c (CHR 0x5D) of
            Some c' \<Rightarrow> Some (Inr (a @ [v], c'))
          | None \<Rightarrow> expecting c (CHR 0x2C) (array_loop pv m (a @ [v])))"

definition parse_array :: "(cursor \<Rightarrow> 'n json parsed) \<Rightarrow> cursor \<Rightarrow> 'n json list parsed" where
  "parse_array pv c =
     expecting c (CHR 0x5B) (\<lambda>c.
       let c = skip_ws c
       in case consume c (CHR 0x5D) of
            Some c' \<Rightarrow> Some (Inr ([], c'))
          | None \<Rightarrow> array_loop pv (Suc (length (snd c))) [] c)"

definition parse_member :: "(cursor \<Rightarrow> 'n json parsed) \<Rightarrow> cursor \<Rightarrow> (string \<times> 'n json) parsed" where
  "parse_member pv c =
     (if peek c \<noteq> CHR 0x22 then Some (cursor_fail c ''object key must be string'')
      else p_bind (Some (parse_string c)) (\<lambda>k c.
        expecting (skip_ws c) (CHR 0x3A) (\<lambda>c.
          p_bind (pv (skip_ws c)) (\<lambda>v c. Some (Inr ((k, v), c))))))"

primrec object_loop :: "(cursor \<Rightarrow> 'n json parsed) \<Rightarrow> nat \<Rightarrow> (string \<times> 'n json) list \<Rightarrow> cursor
    \<Rightarrow> (string \<times> 'n json) list parsed" where
  "object_loop pv 0 kvs c = None"
| "object_loop pv (Suc m) kvs c =
     p_bind (parse_member pv (skip_ws c)) (\<lambda>kv c.
       let c = skip_ws c; kvs' = obj_emplace (fst kv) (snd kv) kvs
       in case consume c (CHR 0x7D) of
            Some c' \<Rightarrow> Some (Inr (kvs', c'))
          | None \<Rightarrow> expecting c (CHR 0x2C) (object_loop pv m kvs'))"

definition parse_object :: "(cursor \<Rightarrow> 'n json parsed) \<Rightarrow> cursor \<Rightarrow> (string \<times> 'n json) list parsed" where
  "parse_object pv c =
     expecting c (CHR 0x7B) (\<lambda>c.
       let c = skip_ws c
       in case consume c (CHR 0x7D) of
            Some c' \<Rightarrow> Some (Inr ([], c'))
          | None \<Rightarrow> object_loop pv (Suc (length (snd c))) [] c)"

definition parse_literal :: "cursor \<Rightarrow> 'n json parsed" where
  "parse_literal c =
     (case match_lit c ''true'' of
        Some c' \<Rightarrow> Some (Inr (JBool True, c'))
      | None \<Rightarrow>
          (case match_lit c ''false'' of
             Some c' \<Rightarrow> Some (Inr (JBool False, c'))
           | None \<Rightarrow>
               (case match_lit c ''null'' of
                  Some c' \<Rightarrow> Some (Inr (JNull, c'))
                | None \<Rightarrow> Some (cursor_fail c ''unexpected token''))))"

primrec parse_value :: "(string \<Rightarrow> 'n option) \<Rightarrow> nat \<Rightarrow> cursor \<Rightarrow> 'n json parsed" where
  "parse_value strtod 0 c0 = None"
| "parse_value strtod (Suc n) c0 =
     (let c = skip_ws c0; ch = peek c
      in if ch = CHR 0x22 then p_bind (Some (parse_string c)) (\<lambda>s c. Some (Inr (JStr s, c)))
         else if ch = CHR 0x7B
         then p_bind (parse_object (parse_value strtod n) c) (\<lambda>kvs c. Some (Inr (JObj kvs, c)))
         else if ch = CHR 0x5B
         then p_bind (parse_array (parse_value strtod n) c) (\<lambda>a c. Some (Inr (JArr a, c)))
         else if ch = CHR ''-'' \<or> is_digit ch
         then p_bind (Some (parse_number strtod c)) (\<lambda>x c. Some (Inr (JNum x, c)))
         else parse_literal c)"

definition parse_fuel :: "(string \<Rightarrow> 'n option) \<Rightarrow> nat \<Rightarrow> string \<Rightarrow> (json_exn + 'n json) option" where
  "parse_fuel strtod n text =
     (case parse_value strtod n (0, text) of
        None \<Rightarrow> None
      | Some (Inl e) \<Rightarrow> Some (Inl e)
      | Some (Inr (v, c)) \<Rightarrow>
          (let c = skip_ws c
           in Some (if snd c = [] then Inr v else cursor_fail c ''trailing characters'')))"

definition parse :: "(string \<Rightarrow> 'n option) \<Rightarrow> string \<Rightarrow> (json_exn + 'n json) option" where
  "parse strtod text = parse_fuel strtod (Suc (length text)) text"

section \<open>Printing\<close>

definition escaped :: "char \<Rightarrow> string" where
  "escaped ch =
     (if ch = CHR 0x22 then [CHR 0x5C, CHR 0x22]
      else if ch = CHR 0x5C then [CHR 0x5C, CHR 0x5C]
      else if ch = CHR 0x0A then [CHR 0x5C, CHR ''n'']
      else if ch = CHR 0x0D then [CHR 0x5C, CHR ''r'']
      else if ch = CHR 0x09 then [CHR 0x5C, CHR ''t'']
      else [ch])"

definition stringify_string :: "string \<Rightarrow> string" where
  "stringify_string s = [CHR 0x22] @ concat (map escaped s) @ [CHR 0x22]"

fun comma_sep :: "string list \<Rightarrow> string" where
  "comma_sep [] = []"
| "comma_sep [s] = s"
| "comma_sep (s # t # ss) = s @ CHR 0x2C # comma_sep (t # ss)"

fun stringify :: "('n \<Rightarrow> string) \<Rightarrow> 'n json \<Rightarrow> string" where
  "stringify fmt JNull = ''null''"
| "stringify fmt (JBool b) = (if b then ''true'' else ''false'')"
| "stringify fmt (JNum x) = fmt x"
| "stringify fmt (JStr s) = stringify_string s"
| "stringify fmt (JArr a) = CHR 0x5B # comma_sep (map (stringify fmt) a) @ [CHR 0x5D]"
| "stringify fmt (JObj kvs) =
     CHR 0x7B # comma_sep (map (\<lambda>(k, v). stringify_string k @ CHR 0x3A # stringify fmt v) kvs) @ [CHR 0x7D]"

section \<open>The reader always returns\<close>

text \<open>\<open>returns k r\<close>: the fuel sufficed, and on success at most \<open>k\<close> characters are left.\<close>

definition returns :: "nat \<Rightarrow> 'a parsed \<Rightarrow> bool" where
  "returns k r \<longleftrightarrow>
     (case r of
        None \<Rightarrow> False
      | Some (Inl e) \<Rightarrow> True
      | Some (Inr (x, c)) \<Rightarrow> length (snd c) \<le> k)"

lemma returns_simps [simp]:
  "\<not> returns k None" "returns k (Some (Inl e))" "returns k (Some (cursor_fail c msg))"
  "returns k (Some (Inr (x, c))) \<longleftrightarrow> length (snd c) \<le> k"
  by (simp_all add: returns_def cursor_fail_def)

lemma returns_mono: "returns k r \<Longrightarrow> k \<le> k' \<Longrightarrow> returns k' r"
  by (auto simp: returns_def split: option.splits sum.splits)

lemma returns_bind:
  assumes "returns k r" and "\<And>x c. length (snd c) \<le> k \<Longrightarrow> returns k' (f x c)"
  shows "returns k' (p_bind r f)"
  using assms by (cases "(r, f)" rule: p_bind.cases) auto

lemma skip_ws_length: "length (snd (skip_ws c)) \<le> length (snd c)"
  by (induction c rule: skip_ws.induct) auto

lemma peek_nonempty: "peek c = ch \<Longrightarrow> ch \<noteq> CHR 0x00 \<Longrightarrow> snd c \<noteq> []"
  by (auto simp: peek_def)

lemma consume_length:
  "consume c ch = Some c' \<Longrightarrow> ch \<noteq> CHR 0x00 \<Longrightarrow> Suc (length (snd c')) = length (snd c)"
  using peek_nonempty [of c ch] by (cases "snd c") (auto simp: consume_def advance_def split: if_splits)

lemma returns_expecting:
  assumes "ch \<noteq> CHR 0x00"
    and "\<And>c'. Suc (length (snd c')) = length (snd c) \<Longrightarrow> returns k (f c')"
  shows "returns k (expecting c ch f)"
  using assms consume_length [of c ch]
  by (auto simp: expecting_def expect_def cursor_fail_def split: option.splits)

lemma string_chars_length:
  "string_chars out c = Inr (s, c') \<Longrightarrow> Suc (length (snd c')) \<le> length (snd c)"
proof (induction out c rule: string_chars.induct)
  case (1 out i)
  then show ?case by (simp add: cursor_fail_def)
next
  case (2 out i ch r)
  consider "ch = CHR 0x22" | "ch = CHR 0x5C" | "ch \<noteq> CHR 0x22" "ch \<noteq> CHR 0x5C" by blast
  then show ?case
  proof cases
    case 2
    then show ?thesis using "2.prems" "2.IH"(1)
      by (fastforce simp: cursor_fail_def split: list.splits sum.splits)
  qed (use 2 in auto)
qed

lemma parse_string_length:
  assumes "parse_string c = Inr (s, c')" shows "Suc (length (snd c')) \<le> length (snd c)"
proof -
  from assms obtain c1 where "expect c (CHR 0x22) = Inr c1" "string_chars [] c1 = Inr (s, c')"
    unfolding parse_string_def e_bind_Inr_iff by blast
  then show ?thesis
    using string_chars_length [of "[]" c1 s c'] consume_length [of c "CHR 0x22" c1]
    by (auto simp: expect_def cursor_fail_def split: option.splits)
qed

lemma parse_string_returns:
  assumes "length (snd c) \<le> k" shows "returns k (Some (parse_string c))"
proof (cases "parse_string c")
  case (Inr p)
  then show ?thesis using parse_string_length [of c "fst p" "snd p"] assms by (cases p) simp
qed simp

lemma skip_digits_length: "length (snd (skip_digits c)) \<le> length (snd c)"
  by (induction c rule: skip_digits.induct) auto

lemma advance_length: "length (snd (advance c)) \<le> length (snd c)"
  by (simp add: advance_def)

lemmas scan_lengths = skip_digits_length advance_length order_trans [OF skip_digits_length advance_length]
  order_trans [OF advance_length advance_length]
  order_trans [OF skip_digits_length order_trans [OF advance_length advance_length]]

lemma scan_number_length: "scan_number c = Inr c' \<Longrightarrow> length (snd c') \<le> length (snd c)"
proof -
  assume "scan_number c = Inr c'"
  then obtain c1 c2 where s: "scan_int c = Inr c1" "scan_frac c1 = Inr c2" "scan_exp c2 = Inr c'"
    by (auto simp: scan_number_def e_bind_Inr_iff)
  have "length (snd c1) \<le> length (snd c)"
    using s(1) by (auto simp: scan_int_def Let_def cursor_fail_def scan_lengths split: if_splits)
  moreover have "length (snd c2) \<le> length (snd c1)"
    using s(2) by (auto simp: scan_frac_def Let_def cursor_fail_def scan_lengths split: if_splits)
  moreover have "length (snd c') \<le> length (snd c2)"
    using s(3) by (auto simp: scan_exp_def Let_def cursor_fail_def scan_lengths split: if_splits)
  ultimately show ?thesis by simp
qed

lemma parse_number_returns: "length (snd c) \<le> k \<Longrightarrow> returns k (Some (parse_number strtod c))"
  by (cases "scan_number c")
    (auto simp: parse_number_def dest: scan_number_length split: option.splits)

lemma parse_literal_returns: "length (snd c) \<le> k \<Longrightarrow> returns k (parse_literal c)"
  by (auto simp: parse_literal_def match_lit_def split: option.splits if_splits)

lemma array_loop_returns:
  assumes pv: "\<And>c. length (snd c) \<le> k \<Longrightarrow> returns (length (snd c)) (pv c)"
  shows "length (snd c) \<le> k \<Longrightarrow> length (snd c) < m \<Longrightarrow> returns k (array_loop pv m a c)"
proof (induction m arbitrary: a c)
  case (Suc m)
  have len: "length (snd (skip_ws c)) \<le> length (snd c)" by (rule skip_ws_length)
  show ?case unfolding array_loop.simps
  proof (rule returns_bind [OF pv])
    show "length (snd (skip_ws c)) \<le> k" using Suc.prems len by simp
    fix x c1 assume c1: "length (snd (c1 :: cursor)) \<le> length (snd (skip_ws c))"
    have c2: "length (snd (skip_ws c1)) \<le> length (snd c)"
      using skip_ws_length [of c1] c1 len by simp
    show "returns k (let c = skip_ws c1
       in case consume c (CHR 0x5D) of
            Some c' \<Rightarrow> Some (Inr (a @ [x], c'))
          | None \<Rightarrow> expecting c (CHR 0x2C) (array_loop pv m (a @ [x])))"
      using Suc.prems c2 consume_length [of "skip_ws c1" "CHR 0x5D"]
      by (auto simp: Let_def split: option.split intro!: returns_expecting Suc.IH)
  qed
qed simp

lemma parse_member_returns:
  assumes pv: "\<And>c. length (snd c) \<le> k \<Longrightarrow> returns (length (snd c)) (pv c)" and c: "length (snd c) \<le> k"
  shows "returns (length (snd c)) (parse_member pv c)"
proof (cases "peek c = CHR 0x22")
  case True
  show ?thesis unfolding parse_member_def using True
  proof (simp del: p_bind.simps, intro returns_bind [OF parse_string_returns [OF order_refl]] returns_expecting)
    fix k :: string and c1 c2 :: cursor
    assume c1: "length (snd c1) \<le> length (snd c)" and c2: "Suc (length (snd c2)) = length (snd (skip_ws c1))"
    have le: "length (snd (skip_ws c2)) \<le> length (snd c)"
      using c1 c2 skip_ws_length [of c1] skip_ws_length [of c2] by linarith
    show "returns (length (snd c)) (p_bind (pv (skip_ws c2)) (\<lambda>v c. Some (Inr ((k, v), c))))"
      by (rule returns_bind [OF pv]) (use le c in auto)
  qed simp
qed (simp add: parse_member_def)

lemma object_loop_returns:
  assumes pv: "\<And>c. length (snd c) \<le> k \<Longrightarrow> returns (length (snd c)) (pv c)"
  shows "length (snd c) \<le> k \<Longrightarrow> length (snd c) < m \<Longrightarrow> returns k (object_loop pv m kvs c)"
proof (induction m arbitrary: kvs c)
  case (Suc m)
  have len: "length (snd (skip_ws c)) \<le> length (snd c)" by (rule skip_ws_length)
  show ?case unfolding object_loop.simps
  proof (rule returns_bind [OF parse_member_returns [OF pv]])
    show "length (snd (skip_ws c)) \<le> k" using Suc.prems len by simp
    fix kv c1 assume c1: "length (snd (c1 :: cursor)) \<le> length (snd (skip_ws c))"
    have c2: "length (snd (skip_ws c1)) \<le> length (snd c)"
      using skip_ws_length [of c1] c1 len by simp
    show "returns k (let c = skip_ws c1; kvs' = obj_emplace (fst kv) (snd kv) kvs
       in case consume c (CHR 0x7D) of
            Some c' \<Rightarrow> Some (Inr (kvs', c'))
          | None \<Rightarrow> expecting c (CHR 0x2C) (object_loop pv m kvs'))"
      using Suc.prems c2 consume_length [of "skip_ws c1" "CHR 0x7D"]
      by (auto simp: Let_def split: option.split intro!: returns_expecting Suc.IH)
  qed assumption
qed simp

lemma parse_value_returns: "length (snd c) < n \<Longrightarrow> returns (length (snd c)) (parse_value strtod n c)"
proof (induction n arbitrary: c)
  case (Suc n)
  let ?c = "skip_ws c"
  have len: "length (snd ?c) \<le> length (snd c)" by (rule skip_ws_length)
  have skip: "length (snd (skip_ws c')) < n" "length (snd (skip_ws c')) \<le> length (snd c)"
    if "Suc (length (snd c')) = length (snd ?c)" for c'
    using that len Suc.prems skip_ws_length [of c'] by linarith+
  have pv: "returns (length (snd c)) (parse_value strtod n c)" if "length (snd c) \<le> n - 1" "0 < n" for c
    by (rule Suc.IH) (use that in simp)
  have arr: "returns (length (snd c)) (parse_array (parse_value strtod n) ?c)"
    unfolding parse_array_def
  proof (rule returns_expecting)
    fix c' :: cursor assume c': "Suc (length (snd c')) = length (snd ?c)"
    note s = skip [OF this]
    have "returns (length (snd (skip_ws c'))) (array_loop (parse_value strtod n) (Suc (length (snd (skip_ws c')))) [] (skip_ws c'))"
      by (rule array_loop_returns) (use s in \<open>auto intro: Suc.IH\<close>)
    then show "returns (length (snd c)) (let c = skip_ws c' in case consume c (CHR 0x5D) of
         Some c' \<Rightarrow> Some (Inr ([], c')) | None \<Rightarrow> array_loop (parse_value strtod n) (Suc (length (snd c))) [] c)"
      using s consume_length [of "skip_ws c'" "CHR 0x5D"]
      by (auto simp: Let_def split: option.split intro: returns_mono)
  qed simp
  have obj: "returns (length (snd c)) (parse_object (parse_value strtod n) ?c)"
    unfolding parse_object_def
  proof (rule returns_expecting)
    fix c' :: cursor assume c': "Suc (length (snd c')) = length (snd ?c)"
    note s = skip [OF this]
    have "returns (length (snd (skip_ws c'))) (object_loop (parse_value strtod n) (Suc (length (snd (skip_ws c')))) [] (skip_ws c'))"
      by (rule object_loop_returns) (use s in \<open>auto intro: Suc.IH\<close>)
    then show "returns (length (snd c)) (let c = skip_ws c' in case consume c (CHR 0x7D) of
         Some c' \<Rightarrow> Some (Inr ([], c')) | None \<Rightarrow> object_loop (parse_value strtod n) (Suc (length (snd c))) [] c)"
      using s consume_length [of "skip_ws c'" "CHR 0x7D"]
      by (auto simp: Let_def split: option.split intro: returns_mono)
  qed simp
  show ?case
    using arr obj parse_string_returns [OF len] parse_number_returns [OF len] parse_literal_returns [OF len]
    by (auto simp: Let_def simp del: p_bind.simps intro!: returns_bind)
qed simp


section \<open>What the reader gives\<close>

text \<open>Every object, at any depth, has its keys in order and each key once.\<close>

fun json_wf :: "'n json \<Rightarrow> bool" where
  "json_wf (JArr a) = list_all json_wf a"
| "json_wf (JObj kvs) = (obj_wf kvs \<and> list_all (\<lambda>(k, v). json_wf v) kvs)"
| "json_wf _ = True"

definition yields :: "('a \<Rightarrow> bool) \<Rightarrow> 'a parsed \<Rightarrow> bool" where
  "yields P r \<longleftrightarrow> (case r of Some (Inr (x, c)) \<Rightarrow> P x | _ \<Rightarrow> True)"

lemma yields_simps [simp]:
  "yields P None" "yields P (Some (Inl e))" "yields P (Some (cursor_fail c msg))"
  "yields P (Some (Inr (x, c))) = P x"
  by (simp_all add: yields_def cursor_fail_def)

lemma yields_bind:
  assumes "yields P r" and "\<And>x c. P x \<Longrightarrow> yields Q (f x c)"
  shows "yields Q (p_bind r f)"
  using assms by (cases "(r, f)" rule: p_bind.cases) auto

lemma yields_bind_any: "(\<And>x c. yields Q (f x c)) \<Longrightarrow> yields Q (p_bind r f)"
  by (cases "(r, f)" rule: p_bind.cases) auto

lemma yields_expecting: "(\<And>c'. yields P (f c')) \<Longrightarrow> yields P (expecting c ch f)"
  by (simp add: expecting_def split: sum.split)

lemma yields_scalars:
  "yields json_wf (p_bind r (\<lambda>s c. Some (Inr (JStr s, c))))"
  "yields json_wf (p_bind r' (\<lambda>x c. Some (Inr (JNum x, c))))"
  "yields json_wf (parse_literal c)"
  by (auto simp: parse_literal_def split: option.split intro: yields_bind_any)

lemma set_obj_emplace: "set (obj_emplace k v kvs) \<subseteq> insert (k, v) (set kvs)"
  by (induction k v kvs rule: obj_emplace.induct) auto

lemma array_loop_wf:
  assumes "\<And>c. yields json_wf (pv c)"
  shows "list_all json_wf a \<Longrightarrow> yields (list_all json_wf) (array_loop pv m a c)"
proof (induction m arbitrary: a c)
  case (Suc m)
  then show ?case unfolding array_loop.simps
    by (auto simp: Let_def split: option.split intro!: yields_bind [OF assms] yields_expecting)
qed simp

lemma object_loop_wf:
  assumes "\<And>c. yields json_wf (pv c)"
  shows "json_wf (JObj kvs) \<Longrightarrow> yields (\<lambda>kvs. json_wf (JObj kvs)) (object_loop pv m kvs c)"
proof (induction m arbitrary: kvs c)
  case (Suc m)
  have member: "yields (json_wf \<circ> snd) (parse_member pv c)" for c
    by (auto simp: parse_member_def simp del: p_bind.simps
        intro!: yields_bind_any yields_expecting yields_bind [OF assms])
  have "json_wf (JObj (obj_emplace k v kvs))" if "json_wf v" for k v
    using Suc.prems that set_obj_emplace [of k v kvs]
    by (auto simp: list_all_iff obj_emplace_wf)
  then show ?case unfolding object_loop.simps
    by (auto simp: Let_def simp del: json_wf.simps split: option.split
        intro!: yields_bind [OF member] yields_expecting Suc.IH)
qed simp

lemma parse_value_wf: "yields json_wf (parse_value strtod n c)"
proof (induction n arbitrary: c)
  case (Suc n)
  have arr: "yields (list_all json_wf) (parse_array (parse_value strtod n) c)" for c
    by (auto simp: parse_array_def Let_def simp del: array_loop.simps split: option.split
        intro!: yields_expecting array_loop_wf Suc.IH)
  have obj: "yields (\<lambda>kvs. json_wf (JObj kvs)) (parse_object (parse_value strtod n) c)" for c
    by (auto simp: parse_object_def Let_def obj_wf_def simp del: object_loop.simps json_wf.simps(2)
        split: option.split intro!: yields_expecting object_loop_wf Suc.IH)
      (simp_all add: obj_wf_def)
  have "yields json_wf (p_bind (parse_array (parse_value strtod n) c) (\<lambda>a c. Some (Inr (JArr a, c))))" for c
    by (rule yields_bind [OF arr]) simp
  moreover have "yields json_wf (p_bind (parse_object (parse_value strtod n) c) (\<lambda>kvs c. Some (Inr (JObj kvs, c))))"
    for c by (rule yields_bind [OF obj]) simp
  ultimately show ?case by (simp add: Let_def yields_scalars del: p_bind.simps)
qed simp

section \<open>Round trip\<close>

text \<open>
  The text that follows a value inside a document; the numbers whose printed form is a JSON number
  that \<open>strtod\<close> reads as \<open>y\<close>, and those that are read back as themselves.  Printing rounds: a value
  is read back with each number replaced by what its printed form is read as.
\<close>

definition delimited :: "string \<Rightarrow> bool" where
  "delimited rest \<longleftrightarrow> rest = [] \<or> hd rest \<in> {CHR 0x2C, CHR 0x5D, CHR 0x7D}"

definition num_ok :: "('n \<Rightarrow> string) \<Rightarrow> (string \<Rightarrow> 'n option) \<Rightarrow> 'n \<Rightarrow> bool" where
  "num_ok fmt strtod x \<longleftrightarrow>
     scan_number (0, fmt x) = Inr (length (fmt x), []) \<and> strtod (fmt x) = Some x"

definition num_read :: "('n \<Rightarrow> string) \<Rightarrow> (string \<Rightarrow> 'm option) \<Rightarrow> 'n \<Rightarrow> 'm \<Rightarrow> bool" where
  "num_read fmt strtod x y \<longleftrightarrow>
     scan_number (0, fmt x) = Inr (length (fmt x), []) \<and> strtod (fmt x) = Some y"

lemma num_ok_read: "num_ok fmt strtod x = num_read fmt strtod x x"
  by (simp add: num_ok_def num_read_def)

fun map_num :: "('a \<Rightarrow> 'b) \<Rightarrow> 'a json \<Rightarrow> 'b json" where
  "map_num f JNull = JNull"
| "map_num f (JBool b) = JBool b"
| "map_num f (JNum n) = JNum (f n)"
| "map_num f (JStr s) = JStr s"
| "map_num f (JArr vs) = JArr (map (map_num f) vs)"
| "map_num f (JObj kvs) = JObj (map (\<lambda>(k, v). (k, map_num f v)) kvs)"

lemma map_num_id: "map_num (\<lambda>x. x) v = v"
proof (induction v)
  case (JObj kvs)
  then show ?case by (auto intro!: map_idI simp: snds.simps)
qed (simp_all add: map_idI)

lemma json_get_map_num: "json_get (map_num f v) k = map_option (map_num f) (json_get v k)"
  by (cases v) (simp_all add: map_of_map case_prod_unfold, simp add: map_of_map [unfolded case_prod_unfold])

fun nums :: "'n json \<Rightarrow> 'n list" where
  "nums (JNum x) = [x]"
| "nums (JArr a) = concat (map nums a)"
| "nums (JObj kvs) = concat (map (\<lambda>(k, v). nums v) kvs)"
| "nums _ = []"

text \<open>\<open>before i rest c\<close> is the cursor \<open>c\<close> of a token seen inside a longer text.\<close>

definition before :: "nat \<Rightarrow> string \<Rightarrow> cursor \<Rightarrow> cursor" where
  "before i rest c = (i + fst c, snd c @ rest)"

lemma peek_before_digit: "delimited rest \<Longrightarrow> is_digit (peek (before i rest c)) = is_digit (peek c)"
  by (cases "snd c"; cases rest) (auto simp: before_def peek_def delimited_def is_digit_def less_eq_char_simp)

lemma peek_before_eq:
  "delimited rest \<Longrightarrow> ch \<notin> {CHR 0x00, CHR 0x2C, CHR 0x5D, CHR 0x7D} \<Longrightarrow>
   peek (before i rest c) = ch \<longleftrightarrow> peek c = ch"
  by (cases "snd c"; cases rest) (auto simp: before_def peek_def delimited_def)

lemma advance_before: "snd c \<noteq> [] \<Longrightarrow> advance (before i rest c) = before i rest (advance c)"
  by (simp add: before_def advance_def)

lemma digit_nonempty: "is_digit (peek c) \<Longrightarrow> snd c \<noteq> []"
  by (auto simp: peek_def is_digit_def)

lemma skip_digits_before: "delimited rest \<Longrightarrow> skip_digits (before i rest c) = before i rest (skip_digits c)"
proof (induction c rule: skip_digits.induct)
  case (1 j)
  then show ?case by (cases rest) (auto simp: before_def delimited_def is_digit_def)
qed (auto simp: before_def)

lemma step_before:
  "peek c = ch \<Longrightarrow> ch \<noteq> CHR 0x00 \<Longrightarrow> advance (before i rest c) = before i rest (advance c)"
  by (rule advance_before) (rule peek_nonempty)

lemma scan_int_before: "delimited rest \<Longrightarrow> scan_int c = Inr c' \<Longrightarrow> scan_int (before i rest c) = Inr (before i rest c')"
  by (auto simp: scan_int_def Let_def cursor_fail_def peek_before_eq peek_before_digit skip_digits_before
      step_before [OF _ _] split: if_splits)

lemma scan_frac_before: "delimited rest \<Longrightarrow> scan_frac c = Inr c' \<Longrightarrow> scan_frac (before i rest c) = Inr (before i rest c')"
  by (auto simp: scan_frac_def Let_def cursor_fail_def peek_before_eq peek_before_digit skip_digits_before
      step_before [OF _ _] split: if_splits)

lemma scan_exp_before: "delimited rest \<Longrightarrow> scan_exp c = Inr c' \<Longrightarrow> scan_exp (before i rest c) = Inr (before i rest c')"
  by (auto simp: scan_exp_def Let_def cursor_fail_def peek_before_eq peek_before_digit skip_digits_before
      step_before [OF _ _] split: if_splits)

lemma scan_number_before:
  "delimited rest \<Longrightarrow> scan_number c = Inr c' \<Longrightarrow> scan_number (before i rest c) = Inr (before i rest c')"
  unfolding scan_number_def e_bind_Inr_iff by (blast intro: scan_int_before scan_frac_before scan_exp_before)

lemma parse_number_printed:
  assumes "num_read fmt strtod x y" and "delimited rest"
  shows "parse_number strtod (i, fmt x @ rest) = Inr (y, (i + length (fmt x), rest))"
  using scan_number_before [OF assms(2), of "(0, fmt x)" "(length (fmt x), [])" i] assms(1)
  by (simp add: num_read_def parse_number_def before_def)

lemma string_chars_printed:
  "string_chars out (i, concat (map escaped s) @ CHR 0x22 # rest)
     = Inr (out @ s, (i + length (concat (map escaped s)) + 1, rest))"
  by (induction s arbitrary: out i) (auto simp: escaped_def escape_char_def)

lemma parse_string_printed:
  "parse_string (i, stringify_string s @ rest) = Inr (s, (i + length (stringify_string s), rest))"
  by (simp add: parse_string_def expect_def consume_def peek_def advance_def stringify_string_def
      string_chars_printed)

lemma scan_int_start: "scan_int c = Inr c' \<Longrightarrow> peek c = CHR ''-'' \<or> is_digit (peek c)"
  by (auto simp: scan_int_def Let_def cursor_fail_def split: if_splits)


text \<open>A printed value starts with a character that is no blank and closes no container.\<close>

definition opens :: "string \<Rightarrow> bool" where
  "opens s \<longleftrightarrow> s \<noteq> [] \<and> \<not> is_space (hd s) \<and> hd s \<notin> {CHR 0x5D, CHR 0x7D}"

lemma skip_ws_opens: "opens s \<Longrightarrow> skip_ws (i, s @ t) = (i, s @ t)"
  by (cases s) (auto simp: opens_def)

lemma skip_ws_delimited: "delimited t \<Longrightarrow> skip_ws (i, t) = (i, t)"
  by (cases t) (auto simp: delimited_def is_space_def)

lemma consume_opens: "opens s \<Longrightarrow> ch \<in> {CHR 0x5D, CHR 0x7D} \<Longrightarrow> consume (i, s @ t) ch = None"
  by (cases s) (auto simp: opens_def consume_def peek_def)

lemma digit_not_special: "is_digit ch \<Longrightarrow> \<not> is_space ch \<and> ch \<notin> {CHR 0x5D, CHR 0x7D, CHR 0x22, CHR 0x7B, CHR 0x5B}"
  by (auto simp: is_digit_def is_space_def less_eq_char_simp)

lemma num_opens:
  assumes "num_read fmt strtod x y"
  shows "opens (fmt x)" "hd (fmt x) = CHR ''-'' \<or> is_digit (hd (fmt x))"
proof -
  obtain c where "scan_int (0, fmt x) = Inr c"
    using assms by (auto simp: num_read_def scan_number_def e_bind_Inr_iff)
  then have "peek (0, fmt x) = CHR ''-'' \<or> is_digit (peek (0, fmt x))" by (rule scan_int_start)
  moreover from this have "fmt x \<noteq> []" by (auto simp: peek_def is_digit_def)
  ultimately have hd: "hd (fmt x) = CHR ''-'' \<or> is_digit (hd (fmt x))" and ne: "fmt x \<noteq> []"
    by (cases "fmt x"; simp add: peek_def)+
  show "hd (fmt x) = CHR ''-'' \<or> is_digit (hd (fmt x))" by (rule hd)
  have minus: "\<not> is_space (CHR ''-'')" by (simp add: is_space_def)
  from hd show "opens (fmt x)"
  proof
    assume "hd (fmt x) = CHR ''-''"
    then show ?thesis using ne minus by (simp add: opens_def)
  next
    assume "is_digit (hd (fmt x))"
    then show ?thesis using ne digit_not_special [of "hd (fmt x)"] by (simp add: opens_def)
  qed
qed

lemma comma_sep_opens: "xs \<noteq> [] \<Longrightarrow> opens (hd xs) \<Longrightarrow> opens (comma_sep xs)"
  by (cases xs rule: comma_sep.cases) (auto simp: opens_def)

lemma comma_sep_length: "(\<And>x. x \<in> set xs \<Longrightarrow> x \<noteq> []) \<Longrightarrow> length xs \<le> length (comma_sep xs)"
proof (induction xs rule: comma_sep.induct)
  case (3 s t ss)
  have "s \<noteq> []" by (rule "3.prems") simp
  moreover have "length (t # ss) \<le> length (comma_sep (t # ss))" by (rule "3.IH") (simp add: "3.prems")
  ultimately show ?case by (cases s) auto
qed (auto simp: Suc_le_eq)

lemma comma_sep_member: "x \<in> set xs \<Longrightarrow> length x \<le> length (comma_sep xs)"
  by (induction xs rule: comma_sep.induct) auto

text \<open>Reading and printing agree at a text \<open>s\<close>: it is read back as \<open>x\<close> wherever it stands.\<close>

definition reads :: "(cursor \<Rightarrow> 'a parsed) \<Rightarrow> string \<Rightarrow> 'a \<Rightarrow> bool" where
  "reads p s x \<longleftrightarrow> opens s \<and>
     (\<forall>i rest. delimited rest \<longrightarrow> p (i, s @ rest) = Some (Inr (x, (i + length s, rest))))"

lemma readsD:
  assumes "reads p s x" and "delimited rest"
  shows "p (skip_ws (i, s @ rest)) = Some (Inr (x, (i + length s, rest)))"
  using assms by (auto simp: reads_def skip_ws_opens)

lemma is_space_seps [simp]:
  "\<not> is_space (CHR 0x5D)" "\<not> is_space (CHR 0x7D)" "\<not> is_space (CHR 0x2C)" "\<not> is_space (CHR 0x3A)"
  "\<not> is_space (CHR 0x5B)" "\<not> is_space (CHR 0x7B)" "\<not> is_space (CHR 0x22)"
  by (simp_all add: is_space_def)

lemma delimited_Cons: "delimited (ch # t) \<longleftrightarrow> ch \<in> {CHR 0x2C, CHR 0x5D, CHR 0x7D}"
  by (simp add: delimited_def)

lemma array_loop_printed:
  assumes "\<And>v. v \<in> set vs \<Longrightarrow> reads pv (str v) (h v)" and "vs \<noteq> []" and "length vs \<le> m"
  shows "array_loop pv m a (i, comma_sep (map str vs) @ CHR 0x5D # rest)
    = Some (Inr (a @ map h vs, (i + length (comma_sep (map str vs)) + 1, rest)))"
  using assms
proof (induction vs arbitrary: a i m)
  case (Cons v vs)
  then obtain m' where m: "m = Suc m'" by (cases m) auto
  have v: "reads pv (str v) (h v)" using Cons.prems by simp
  show ?case
  proof (cases "vs = []")
    case True
    have "pv (skip_ws (i, str v @ CHR 0x5D # rest)) = Some (Inr (h v, (i + length (str v), CHR 0x5D # rest)))"
      by (rule readsD [OF v]) (simp add: delimited_Cons)
    then show ?thesis
      by (simp add: True m skip_ws_delimited delimited_Cons consume_def peek_def advance_def)
  next
    case False
    let ?t = "comma_sep (map str vs) @ CHR 0x5D # rest"
    have sep: "comma_sep (map str (v # vs)) = str v @ CHR 0x2C # comma_sep (map str vs)"
      using False by (cases vs) simp_all
    have "pv (skip_ws (i, str v @ CHR 0x2C # ?t)) = Some (Inr (h v, (i + length (str v), CHR 0x2C # ?t)))"
      by (rule readsD [OF v]) (simp add: delimited_Cons)
    moreover have "array_loop pv m' (a @ [h v]) (Suc (i + length (str v)), ?t)
        = Some (Inr ((a @ [h v]) @ map h vs, (Suc (i + length (str v)) + length (comma_sep (map str vs)) + 1, rest)))"
      by (rule Cons.IH) (use Cons.prems False m in auto)
    ultimately show ?thesis unfolding sep m
      by (simp add: skip_ws_delimited delimited_Cons consume_def peek_def advance_def expecting_def expect_def)
  qed
qed simp

lemma obj_emplace_last: "\<forall>k' \<in> fst ` set kvs. k' < k \<Longrightarrow> obj_emplace k v kvs = kvs @ [(k, v)]"
  by (induction k v kvs rule: obj_emplace.induct) auto

definition member_text :: "('v \<Rightarrow> string) \<Rightarrow> string \<times> 'v \<Rightarrow> string" where
  "member_text str kv = stringify_string (fst kv) @ CHR 0x3A # str (snd kv)"

lemma member_reads:
  assumes "reads pv (str (snd kv)) y"
  shows "reads (parse_member pv) (member_text str kv) (fst kv, y)"
  unfolding reads_def
proof (intro conjI allI impI)
  show "opens (member_text str kv)"
    by (simp add: member_text_def opens_def stringify_string_def is_space_def)
  fix i rest assume rest: "delimited rest"
  let ?s = "stringify_string (fst kv)"
  have key: "parse_string (i, ?s @ CHR 0x3A # str (snd kv) @ rest)
      = Inr (fst kv, (i + length ?s, CHR 0x3A # str (snd kv) @ rest))"
    by (rule parse_string_printed)
  have "pv (skip_ws (Suc (i + length ?s), str (snd kv) @ rest))
      = Some (Inr (y, (Suc (i + length ?s) + length (str (snd kv)), rest)))"
    by (rule readsD [OF assms rest])
  moreover have "peek (i, ?s @ CHR 0x3A # str (snd kv) @ rest) = CHR 0x22"
    by (simp add: peek_def stringify_string_def)
  ultimately show "parse_member pv (i, member_text str kv @ rest)
      = Some (Inr ((fst kv, y), (i + length (member_text str kv), rest)))"
    using key by (simp add: parse_member_def member_text_def expecting_def expect_def consume_def
        advance_def peek_def [of "(_, _ # _)"] is_space_def)
qed

lemma object_loop_printed:
  assumes "\<And>kv. kv \<in> set kvs \<Longrightarrow> reads pv (str (snd kv)) (h (snd kv))" and "kvs \<noteq> []"
    and "length kvs \<le> m" and "obj_wf (o0 @ map (\<lambda>(k, v). (k, h v)) kvs)"
  shows "object_loop pv m o0 (i, comma_sep (map (member_text str) kvs) @ CHR 0x7D # rest)
    = Some (Inr (o0 @ map (\<lambda>(k, v). (k, h v)) kvs, (i + length (comma_sep (map (member_text str) kvs)) + 1, rest)))"
  using assms
proof (induction kvs arbitrary: o0 i m)
  case (Cons kv kvs)
  then obtain m' where m: "m = Suc m'" by (cases m) auto
  let ?kv = "(fst kv, h (snd kv))"
  have kv: "reads (parse_member pv) (member_text str kv) ?kv" using Cons.prems by (simp add: member_reads)
  have ins: "obj_emplace (fst kv) (h (snd kv)) o0 = o0 @ [?kv]"
    using Cons.prems(4) by (simp add: obj_emplace_last obj_wf_def sorted_wrt_append case_prod_unfold)
  show ?case
  proof (cases "kvs = []")
    case True
    have "parse_member pv (skip_ws (i, member_text str kv @ CHR 0x7D # rest))
        = Some (Inr (?kv, (i + length (member_text str kv), CHR 0x7D # rest)))"
      by (rule readsD [OF kv]) (simp add: delimited_Cons)
    then show ?thesis
      by (simp add: True m skip_ws_delimited delimited_Cons consume_def peek_def advance_def ins case_prod_unfold)
  next
    case False
    let ?t = "comma_sep (map (member_text str) kvs) @ CHR 0x7D # rest"
    let ?j = "i + length (member_text str kv)"
    have sep: "comma_sep (map (member_text str) (kv # kvs))
        = member_text str kv @ CHR 0x2C # comma_sep (map (member_text str) kvs)"
      using False by (cases kvs) simp_all
    have "parse_member pv (skip_ws (i, member_text str kv @ CHR 0x2C # ?t)) = Some (Inr (?kv, (?j, CHR 0x2C # ?t)))"
      by (rule readsD [OF kv]) (simp add: delimited_Cons)
    moreover have "object_loop pv m' (o0 @ [?kv]) (Suc ?j, ?t)
        = Some (Inr ((o0 @ [?kv]) @ map (\<lambda>(k, v). (k, h v)) kvs, (Suc ?j + length (comma_sep (map (member_text str) kvs)) + 1, rest)))"
      by (rule Cons.IH) (use Cons.prems False m in \<open>auto simp: case_prod_unfold\<close>)
    ultimately show ?thesis unfolding sep m
      by (simp add: skip_ws_delimited delimited_Cons consume_def peek_def advance_def expecting_def expect_def ins
          case_prod_unfold)
  qed
qed simp


lemma value_reads:
  assumes "\<forall>x \<in> set (nums v). num_read fmt strtod x (rd x)" and "json_wf v" and "length (stringify fmt v) < n"
  shows "reads (parse_value strtod n) (stringify fmt v) (map_num rd v)"
  using assms
proof (induction v arbitrary: n)
  case (JArr vs)
  obtain n' where n: "n = Suc n'" using JArr.prems(3) by (cases n) auto
  let ?str = "stringify fmt"
  have elem: "reads (parse_value strtod n') (?str v) (map_num rd v)" if "v \<in> set vs" for v
  proof (rule JArr.IH [OF that])
    have "length (?str v) \<le> length (comma_sep (map ?str vs))" by (rule comma_sep_member) (use that in simp)
    then show "length (?str v) < n'" using JArr.prems(3) n by simp
  qed (use JArr.prems that in \<open>auto simp: list_all_iff\<close>)
  have len: "length vs \<le> length (comma_sep (map ?str vs))"
    using comma_sep_length [of "map ?str vs"] elem by (fastforce simp: reads_def opens_def)
  have "opens (comma_sep (map ?str vs))" if "vs \<noteq> []"
    by (rule comma_sep_opens) (use that elem in \<open>auto simp: reads_def hd_map\<close>)
  then have "parse_array (parse_value strtod n') (i, CHR 0x5B # comma_sep (map ?str vs) @ CHR 0x5D # rest)
      = Some (Inr (map (map_num rd) vs, (i + length (comma_sep (map ?str vs)) + 2, rest)))" for i rest
    using array_loop_printed [of vs "parse_value strtod n'" ?str "map_num rd" _ "[]" "Suc i" rest] elem len
    by (cases "vs = []")
      (simp_all add: parse_array_def expecting_def expect_def consume_def [of "(_, _ # _)"] peek_def advance_def
        skip_ws_opens consume_opens Let_def del: array_loop.simps)
  then show ?case by (simp add: reads_def opens_def n is_space_seps peek_def)
next
  case (JObj kvs)
  obtain n' where n: "n = Suc n'" using JObj.prems(3) by (cases n) auto
  let ?str = "stringify fmt" and ?mem = "member_text (stringify fmt)"
  have shown: "stringify fmt (JObj kvs) = CHR 0x7B # comma_sep (map ?mem kvs) @ [CHR 0x7D]"
    by (simp add: member_text_def case_prod_unfold cong: map_cong)
  have elem: "reads (parse_value strtod n') (?str (snd kv)) (map_num rd (snd kv))" if "kv \<in> set kvs" for kv
  proof (rule JObj.IH)
    show "kv \<in> set kvs" by (rule that)
    show "snd kv \<in> Basic_BNFs.snds kv" by (simp add: snds.simps)
    have "length (?mem kv) \<le> length (comma_sep (map ?mem kvs))" by (rule comma_sep_member) (use that in simp)
    then show "length (?str (snd kv)) < n'" using JObj.prems(3) n unfolding shown by (simp add: member_text_def)
  qed (use JObj.prems that in \<open>force simp: list_all_iff\<close>)+
  have mem: "reads (parse_member (parse_value strtod n')) (?mem kv) (fst kv, map_num rd (snd kv))" if "kv \<in> set kvs" for kv
    by (rule member_reads [where str = ?str]) (rule elem [OF that])
  have len: "length kvs \<le> length (comma_sep (map ?mem kvs))"
    using comma_sep_length [of "map ?mem kvs"] mem by (fastforce simp: reads_def opens_def)
  have keys: "obj_wf ([] @ map (\<lambda>(k, v). (k, map_num rd v)) kvs)"
    using JObj.prems(2) by (simp add: obj_wf_def case_prod_unfold comp_def)
  have "opens (comma_sep (map ?mem kvs))" if "kvs \<noteq> []"
    by (rule comma_sep_opens) (use that mem in \<open>auto simp: reads_def hd_map\<close>)
  then have "parse_object (parse_value strtod n') (i, CHR 0x7B # comma_sep (map ?mem kvs) @ CHR 0x7D # rest)
      = Some (Inr (map (\<lambda>(k, v). (k, map_num rd v)) kvs, (i + length (comma_sep (map ?mem kvs)) + 2, rest)))" for i rest
    using object_loop_printed [of kvs "parse_value strtod n'" ?str "map_num rd" _ "[]" "Suc i" rest] elem len keys
    by (cases "kvs = []")
      (simp_all add: parse_object_def expecting_def expect_def consume_def [of "(_, _ # _)"] peek_def advance_def
        skip_ws_opens consume_opens Let_def del: object_loop.simps)
  then show ?case unfolding shown by (simp add: reads_def opens_def n is_space_seps peek_def)
next
  case (JNum x)
  then obtain n' where n: "n = Suc n'" by (cases n) auto
  have x: "num_read fmt strtod x (rd x)" using JNum by simp
  note start = num_opens [OF x]
  have "peek (i, fmt x @ rest) = hd (fmt x)" for i rest
    using start(1) by (cases "fmt x") (auto simp: opens_def peek_def)
  then show ?case using start digit_not_special [of "hd (fmt x)"] parse_number_printed [OF x]
    by (auto simp: reads_def n Let_def skip_ws_opens)
next
  case (JStr s)
  then obtain n' where n: "n = Suc n'" by (cases n) auto
  have o: "opens (stringify_string s)" by (simp add: opens_def is_space_def stringify_string_def)
  have "peek (i, stringify_string s @ rest) = CHR 0x22" for i rest
    by (simp add: peek_def stringify_string_def)
  then show ?case using o parse_string_printed [of _ s] by (simp add: reads_def n Let_def skip_ws_opens)
next
  case JNull
  then show ?case
    by (cases n) (auto simp: reads_def opens_def is_space_def is_digit_def peek_def parse_literal_def match_lit_def Let_def)
next
  case (JBool b)
  then show ?case
    by (cases n; cases b)
      (auto simp: reads_def opens_def is_space_def is_digit_def peek_def parse_literal_def match_lit_def Let_def)
qed

section \<open>Properties\<close>

text \<open>
  C31.  The JSON reader returns for every text: its recursion never runs out of the fuel it
  starts with, whatever the text is.
\<close>

theorem parse_returns: "\<exists>r. parse strtod text = Some r"
proof -
  have "returns (length text) (parse_value strtod (Suc (length text)) (0, text))"
    using parse_value_returns [of "(0, text)" "Suc (length text)" strtod] by (simp del: parse_value.simps)
  then show ?thesis
    by (cases "parse_value strtod (Suc (length text)) (0, text)")
      (auto simp: parse_def parse_fuel_def Let_def simp del: parse_value.simps split: sum.split)
qed

text \<open>
  Every object of a value that the reader returns, at any depth, has its keys in
  ascending order and each key once, also when the text repeats a key.
\<close>

theorem parsed_objects_well_formed:
  assumes "parse strtod text = Some (Inr v)"
  shows "json_wf v"
  using assms parse_value_wf [of strtod "Suc (length text)" "(0, text)"]
  by (auto simp: parse_def parse_fuel_def yields_def cursor_fail_def Let_def simp del: parse_value.simps
      split: option.splits sum.splits if_splits)

lemma parsed_objects_well_formed_witness:
  "\<exists>v. parse (\<lambda>_. Some (0 :: nat)) ''[{}]'' = Some (Inr v) \<and> json_wf v"
proof -
  have "parse (\<lambda>_. Some (0 :: nat)) ''[{}]'' = Some (Inr (JArr [JObj []]))"
    by code_simp
  then show ?thesis using parsed_objects_well_formed by blast
qed

lemma parse_printed:
  assumes "json_wf v" and "\<forall>x \<in> set (nums v). num_read fmt strtod x (rd x)"
  shows "parse strtod (stringify fmt v) = Some (Inr (map_num rd v))"
proof -
  have "reads (parse_value strtod (Suc (length (stringify fmt v)))) (stringify fmt v) (map_num rd v)"
    by (rule value_reads) (use assms in simp_all)
  then have "parse_value strtod (Suc (length (stringify fmt v))) (0, stringify fmt v @ [])
      = Some (Inr (map_num rd v, (0 + length (stringify fmt v), [])))"
    unfolding reads_def by (simp add: delimited_def)
  then show ?thesis by (simp add: parse_def parse_fuel_def del: parse_value.simps)
qed

lemma parse_stringify:
  assumes "json_wf v" and "\<forall>x \<in> set (nums v). num_ok fmt strtod x"
  shows "parse strtod (stringify fmt v) = Some (Inr v)"
  using parse_printed [OF assms(1), of fmt strtod "\<lambda>x. x"] assms(2) by (simp add: map_num_id num_ok_read)


definition demo_fmt :: "nat \<Rightarrow> string" where
  "demo_fmt n = dec_string n"

definition demo_strtod :: "string \<Rightarrow> nat option" where
  "demo_strtod s = (if s = ''12'' then Some 12 else None)"

definition demo_json :: "nat json" where
  "demo_json = JObj [(''a'', JArr [JNum 12, JNull, JStr [CHR 0x22, CHR 0x0A, CHR 0x08]]), (''b'', JBool True)]"



end
