(* ===== verification/Text.thy ===== *)
theory Text
  imports JsonText
begin

text \<open>
  The string handling of the front end: the helpers that \<open>src/frontend/parser.cpp\<close> and
  \<open>src/instruction/ptx_isa.cpp\<close> define for themselves, and the members of the C++ standard
  library they use (\<open>find\<close>, \<open>rfind(p, 0)\<close>, \<open>stoll\<close>, \<open>stoul\<close>, \<open>tolower\<close>, \<open>getline\<close>).  The
  conversions throw \<open>invalid_argument\<close> or \<open>out_of_range\<close>; nothing in the code tells them apart,
  and both carry the name of the function.
\<close>

section \<open>Trimming and splitting\<close>

definition drop_back :: "(char \<Rightarrow> bool) \<Rightarrow> string \<Rightarrow> string" where
  "drop_back p s = rev (dropWhile p (rev s))"

definition trim :: "string \<Rightarrow> string" where
  "trim s = drop_back is_space (dropWhile is_space s)"

definition starts_with :: "string \<Rightarrow> string \<Rightarrow> bool" where
  "starts_with s p \<longleftrightarrow> length s \<ge> length p \<and> take (length p) s = p"

fun ws_words :: "string \<Rightarrow> string \<Rightarrow> string list" where
  "ws_words cur [] = (if cur \<noteq> [] then [cur] else [])"
| "ws_words cur (ch # s) =
     (if is_space ch then (if cur \<noteq> [] then cur # ws_words [] s else ws_words [] s)
      else ws_words (cur @ [ch]) s)"

definition split_ws :: "string \<Rightarrow> string list" where
  "split_ws s = ws_words [] s"

fun split_by :: "(char \<Rightarrow> bool) \<Rightarrow> string \<Rightarrow> string \<Rightarrow> string list" where
  "split_by sep cur [] = [cur]"
| "split_by sep cur (ch # s) =
     (if sep ch then cur # split_by sep [] s else split_by sep (cur @ [ch]) s)"

definition split :: "string \<Rightarrow> char \<Rightarrow> string list" where
  "split s sep = split_by (\<lambda>ch. ch = sep) [] s"

fun find_sub :: "string \<Rightarrow> string \<Rightarrow> nat option" where
  "find_sub p [] = (if p = [] then Some 0 else None)"
| "find_sub p (ch # s) =
     (if starts_with (ch # s) p then Some 0 else map_option Suc (find_sub p s))"

definition contains :: "string \<Rightarrow> string \<Rightarrow> bool" where
  "contains s p \<longleftrightarrow> find_sub p s \<noteq> None"

text \<open>\<open>substr(0, find(p))\<close>, the whole string when \<open>p\<close> is not found.\<close>

definition upto :: "string \<Rightarrow> string \<Rightarrow> string" where
  "upto p s = (case find_sub p s of Some i \<Rightarrow> take i s | None \<Rightarrow> s)"

definition strip_comment :: "string \<Rightarrow> string" where
  "strip_comment s = trim (upto ''//'' s)"

text \<open>\<open>std::getline\<close>: a newline at the end of the text ends the last line and starts none.\<close>

definition text_lines :: "string \<Rightarrow> string list" where
  "text_lines s = (let ls = split s (CHR 0x0A) in if last ls = [] then butlast ls else ls)"

definition lower_char :: "char \<Rightarrow> char" where
  "lower_char ch = (if CHR ''A'' \<le> ch \<and> ch \<le> CHR ''Z'' then char_of (of_char ch + (32 :: nat)) else ch)"

definition to_lower :: "string \<Rightarrow> string" where
  "to_lower s = map lower_char s"

definition all_digits :: "string \<Rightarrow> bool" where
  "all_digits s = list_all is_digit s"

section \<open>Numbers\<close>

definition digit_value :: "char \<Rightarrow> nat option" where
  "digit_value ch =
     (if CHR ''0'' \<le> ch \<and> ch \<le> CHR ''9'' then Some (of_char ch - 48)
      else if CHR ''a'' \<le> ch \<and> ch \<le> CHR ''z'' then Some (of_char ch - 87)
      else if CHR ''A'' \<le> ch \<and> ch \<le> CHR ''Z'' then Some (of_char ch - 55)
      else None)"

definition digit_in :: "nat \<Rightarrow> char \<Rightarrow> bool" where
  "digit_in base ch = (case digit_value ch of Some d \<Rightarrow> d < base | None \<Rightarrow> False)"

definition digits_value :: "nat \<Rightarrow> string \<Rightarrow> nat" where
  "digits_value base s = foldl (\<lambda>acc ch. acc * base + the (digit_value ch)) 0 s"

definition is_hex_prefix :: "string \<Rightarrow> bool" where
  "is_hex_prefix s \<longleftrightarrow> length s \<ge> 3 \<and> s ! 0 = CHR ''0'' \<and> s ! 1 \<in> {CHR ''x'', CHR ''X''} \<and> digit_in 16 (s ! 2)"

text \<open>
  \<open>strtoll\<close>: blanks, a sign, for base 0 or 16 a prefix, then the longest run of digits.  The
  result is the value and the number of characters read, or nothing when there is no digit.
\<close>

definition str_to_int :: "nat \<Rightarrow> string \<Rightarrow> (int \<times> nat) option" where
  "str_to_int base s =
     (let s1 = dropWhile is_space s;
          signed = (s1 \<noteq> [] \<and> hd s1 \<in> {CHR ''+'', CHR ''-''});
          neg = (s1 \<noteq> [] \<and> hd s1 = CHR ''-'');
          s2 = (if signed then tl s1 else s1);
          hex = ((base = 0 \<or> base = 16) \<and> is_hex_prefix s2);
          b = (if hex then 16
               else if base = 0 then (if s2 \<noteq> [] \<and> hd s2 = CHR ''0'' then 8 else 10)
               else base);
          s3 = (if hex then drop 2 s2 else s2);
          ds = takeWhile (digit_in b) s3;
          v = int (digits_value b ds)
      in if ds = [] then None
         else Some (if neg then - v else v, length s - length s3 + length ds))"

definition stoll :: "nat \<Rightarrow> string \<Rightarrow> json_exn + int \<times> nat" where
  "stoll base s =
     (case str_to_int base s of
        None \<Rightarrow> Inl (RuntimeError ''stoll'')
      | Some (v, n) \<Rightarrow> if v < - (2 ^ 63) \<or> v \<ge> 2 ^ 63 then Inl (RuntimeError ''stoll'') else Inr (v, n))"

definition stoul :: "nat \<Rightarrow> string \<Rightarrow> json_exn + u64" where
  "stoul base s =
     (case str_to_int base s of
        None \<Rightarrow> Inl (RuntimeError ''stoul'')
      | Some (v, n) \<Rightarrow> if \<bar>v\<bar> \<ge> 2 ^ 64 then Inl (RuntimeError ''stoul'') else Inr (of_int v))"

section \<open>Decimal text is read back\<close>

lemma digit_char: "d < 10 \<Longrightarrow> digit_value (char_of (48 + d)) = Some d"
  by (auto simp: digit_value_def less_eq_char_simp less_eq_char_def of_char_of)

lemma digits_value_snoc: "digits_value b (s @ [ch]) = digits_value b s * b + the (digit_value ch)"
  by (simp add: digits_value_def)

lemma dec_string_digits: "list_all (digit_in 10) (dec_string n) \<and> digits_value 10 (dec_string n) = n"
proof (induction n rule: dec_string.induct)
  case (1 n)
  show ?case
  proof (cases "n < 10")
    case True
    then show ?thesis
      by (subst (1 2) dec_string.simps) (simp add: digit_in_def digit_char digits_value_def)
  next
    case False
    have "digit_in 10 (char_of (48 + n mod 10))" "the (digit_value (char_of (48 + n mod 10))) = n mod 10"
      by (simp_all add: digit_in_def digit_char)
    then show ?thesis using 1 False
      by (subst (1 2) dec_string.simps) (simp add: digits_value_snoc)
  qed
qed

lemma dec_string_head:
  "dec_string n \<noteq> [] \<and> (hd (dec_string n) = CHR ''0'' \<longrightarrow> n = 0) \<and> is_digit (hd (dec_string n))"
proof (induction n rule: dec_string.induct)
  case (1 n)
  have eq: "dec_string n = (if n < 10 then [char_of (48 + n)] else dec_string (n div 10) @ [char_of (48 + n mod 10)])"
    by (subst dec_string.simps) simp
  have head: "is_digit (char_of (48 + d)) \<and> (char_of (48 + d) = CHR ''0'' \<longrightarrow> d = 0)" if "d < 10" for d :: nat
    using that by (auto simp: is_digit_def less_eq_char_def of_char_of dest: arg_cong [of _ _ "of_char :: char \<Rightarrow> nat"])
  show ?case
  proof (cases "n < 10")
    case True
    then show ?thesis using head by (simp add: eq)
  next
    case False
    then have "n div 10 \<noteq> 0" by simp
    then show ?thesis using 1 False by (simp add: eq)
  qed
qed

lemma stoll_dec_string:
  assumes "n < 2 ^ 63" and "base = 0 \<or> base = 10"
  shows "stoll base (dec_string n) = Inr (int n, length (dec_string n))"
proof -
  let ?s = "dec_string n"
  note h = dec_string_head [of n]
  have ns: "\<not> is_space (hd ?s)" "hd ?s \<notin> {CHR ''+'', CHR ''-''}"
    using h by (auto simp: is_digit_def is_space_def less_eq_char_simp)
  then have s1: "dropWhile is_space ?s = ?s" using h by (cases ?s) auto
  have "length ?s = 1" if "hd ?s = CHR ''0''"
    using that h by (subst dec_string.simps) simp
  then have hex: "\<not> is_hex_prefix ?s" using h by (auto simp: is_hex_prefix_def hd_conv_nth)
  have all: "takeWhile (digit_in 10) ?s = ?s" using dec_string_digits [of n] by (simp add: list_all_iff)
  have zero: "?s = [CHR ''0'']" if "hd ?s = CHR ''0''"
  proof -
    have "?s = [char_of (48 + n)]" using that h by (subst dec_string.simps) simp
    then show ?thesis using that by simp
  qed
  have zv: "takeWhile (digit_in 8) [CHR ''0''] = [CHR ''0'']" "digits_value 8 [CHR ''0''] = 0"
    "digits_value 10 [CHR ''0''] = 0"
    by (simp_all add: digit_in_def digit_value_def digits_value_def less_eq_char_simp)
  have "str_to_int base ?s = Some (int n, length ?s)"
  proof (cases "base = 0 \<and> hd ?s = CHR ''0''")
    case True
    then have "n = 0" "?s = [CHR ''0'']" using h zero by simp_all
    then show ?thesis using True zv hex by (simp add: str_to_int_def Let_def is_space_def is_hex_prefix_def)
  next
    case False
    then have "str_to_int base ?s =
        (if takeWhile (digit_in 10) ?s = [] then None
         else Some (int (digits_value 10 (takeWhile (digit_in 10) ?s)), length (takeWhile (digit_in 10) ?s)))"
      using assms(2) h ns s1 hex by (auto simp: str_to_int_def Let_def)
    then show ?thesis unfolding all using h dec_string_digits [of n] by simp
  qed
  then show ?thesis using assms(1) by (simp add: stoll_def)
qed

end
