(* ===== verification/PtxParser.thy ===== *)
theory PtxParser
  imports Text ControlFlow
begin

text \<open>
  The PTX front end: the tokens of \<open>include/gpusim/ptx_tokens.h\<close>, the parser to kernel tokens of
  \<open>src/frontend/parser.cpp\<close> and the binder of \<open>src/frontend/binder.cpp\<close>.  The parser works on
  the lines of the text; the conversions of a register number or a count can throw, which is the
  \<open>Inl\<close> of the results.
\<close>

section \<open>Tokens\<close>

record ptx_inst =
  px_opcode :: string
  px_mods :: inst_mods
  px_pred :: "pred_guard option"
  px_tokens :: "string list"
  px_dbg :: "source_location option"

record kernel_tokens =
  kt_name :: string
  kt_reg_u32_count :: u32
  kt_reg_u64_count :: u32
  kt_params :: "param_desc list"
  kt_insts :: "ptx_inst list"

section \<open>One instruction line\<close>

definition parse_predicate :: "string \<Rightarrow> json_exn + pred_guard option \<times> string" where
  "parse_predicate line0 =
     (let line = trim line0;
          neg = (length line > 1 \<and> line ! 1 = CHR ''!'');
          i = (if neg then 2 else 1);
          j0 = i + 2;
          num = takeWhile is_digit (drop j0 line)
      in if line = [] then Inr (None, line)
         else if line ! 0 \<noteq> CHR ''@'' then Inr (None, line)
         else if i \<ge> length line \<or> line ! i \<noteq> CHR 0x25 then Inr (None, line)
         else if i + 2 \<ge> length line \<or> line ! (i + 1) \<noteq> CHR ''p'' then Inr (None, line)
         else if num = [] then Inr (None, line)
         else e_bind (stoll 10 num) (\<lambda>(pid, _).
           Inr (Some \<lparr>pg_pred_id = pid, pg_negated = neg\<rparr>, trim (drop (j0 + length num) line))))"

definition type_mods :: "string list" where
  "type_mods = [''u32'', ''s32'', ''b32'', ''u64'', ''s64'', ''b64'', ''f32'']"

definition space_mods :: "string list" where
  "space_mods = [''global'', ''shared'', ''local'', ''const'', ''param'']"

definition add_mod :: "string \<Rightarrow> inst_mods \<Rightarrow> inst_mods" where
  "add_mod m mods =
     (if m \<in> set type_mods then mods\<lparr>m_type_mod := m\<rparr>
      else if m \<in> set space_mods then mods\<lparr>m_space := m\<rparr>
      else mods\<lparr>m_flags := m_flags mods @ [m]\<rparr>)"

definition no_mods :: inst_mods where
  "no_mods = \<lparr>m_type_mod = [], m_space = [], m_flags = []\<rparr>"

text \<open>The opcode with its modifiers, and the text behind it.\<close>

definition opmods_of :: "string \<Rightarrow> string" where
  "opmods_of w = trim (drop_back (\<lambda>ch. ch = CHR 0x3B \<or> ch = CHR 0x2C) w)"

definition after_opcode :: "string \<Rightarrow> string" where
  "after_opcode line =
     (let ws = split_ws line
      in if length ws \<ge> 2
         then (case find_sub (ws ! 0) line of
                 Some pos \<Rightarrow> trim (drop (pos + length (ws ! 0)) line)
               | None \<Rightarrow> [])
         else [])"

definition operand_texts :: "string \<Rightarrow> string list" where
  "operand_texts rest =
     (if rest = [] then []
      else filter (\<lambda>t. t \<noteq> []) (map trim (split_by (\<lambda>ch. ch = CHR 0x2C \<or> ch = CHR 0x3B) [] rest)))"

definition empty_inst :: "string \<Rightarrow> int \<Rightarrow> ptx_inst" where
  "empty_inst file_name line_no =
     \<lparr>px_opcode = [], px_mods = no_mods, px_pred = None, px_tokens = [],
      px_dbg = Some \<lparr>loc_file = file_name, loc_line = line_no, loc_column = 1\<rparr>\<rparr>"

definition tokenize_inst_line :: "string \<Rightarrow> string \<Rightarrow> int \<Rightarrow> json_exn + ptx_inst" where
  "tokenize_inst_line raw file_name line_no =
     (let inst = empty_inst file_name line_no; line = strip_comment raw
      in if line = [] then Inr inst
         else e_bind (parse_predicate line) (\<lambda>(pred, line).
           let inst = inst\<lparr>px_pred := pred\<rparr>; ws = split_ws line
           in if ws = [] then Inr inst
              else let opmods = opmods_of (ws ! 0)
                in if opmods = [] then Inr inst
                   else let parts = split opmods (CHR ''.'')
                     in Inr (inst\<lparr>px_opcode := hd parts,
                                  px_mods := fold add_mod (tl parts) no_mods,
                                  px_tokens := operand_texts (after_opcode line)\<rparr>)))"

section \<open>Parameters\<close>

definition parse_param_decl :: "string \<Rightarrow> param_desc option" where
  "parse_param_decl raw =
     (let t = strip_comment raw; ws = split_ws t
      in if \<not> contains t ''.param'' then None
         else if length ws < 3 then None
         else if ws ! 0 \<noteq> ''.param'' then None
         else
           let name = trim (drop_back (\<lambda>ch. ch \<in> {CHR 0x2C, CHR 0x29, CHR 0x3B}) (ws ! 2))
           in if name = [] then None
              else if ws ! 1 = ''.u32''
              then Some \<lparr>pd_name = name, pd_type = ParamU32, pd_size = 4, pd_align = 4, pd_offset = 0\<rparr>
              else if ws ! 1 = ''.u64''
              then Some \<lparr>pd_name = name, pd_type = ParamU64, pd_size = 8, pd_align = 8, pd_offset = 0\<rparr>
              else None)"

definition align_up_u32 :: "u32 \<Rightarrow> u32 \<Rightarrow> u32" where
  "align_up_u32 v a =
     (if a = 0 then v else let r = v mod a in if r = 0 then v else v + (a - r))"

definition params_end :: "param_desc list \<Rightarrow> u32" where
  "params_end ps = fold (\<lambda>p e. max e (pd_offset p + pd_size p)) ps 0"

definition add_param :: "param_desc list \<Rightarrow> param_desc \<Rightarrow> param_desc list" where
  "add_param ps p = ps @ [p\<lparr>pd_offset := align_up_u32 (params_end ps) (pd_align p)\<rparr>]"

section \<open>Register declarations\<close>

definition decl_name :: "string \<Rightarrow> string" where
  "decl_name w = trim (drop_back (\<lambda>ch. ch = CHR 0x3B \<or> ch = CHR 0x2C) w)"

text \<open>The range form \<open>%r<12>\<close>: the text between the angle brackets.\<close>

definition reg_range :: "string \<Rightarrow> string option" where
  "reg_range decl =
     (case (find_sub ''<'' decl, find_sub ''>'' decl) of
        (Some lt, Some gt) \<Rightarrow> if gt > lt + 1 then Some (take (gt - lt - 1) (drop (lt + 1) decl)) else None
      | _ \<Rightarrow> None)"

definition count_regs :: "string \<Rightarrow> u32 \<Rightarrow> u32 \<times> u32 \<Rightarrow> u32 \<times> u32" where
  "count_regs decl count c =
     (let c64 = (if starts_with decl [CHR 0x25, CHR ''r'', CHR ''d'', CHR 0x3C] then max (snd c) count else snd c);
          c32 = (if starts_with decl [CHR 0x25, CHR ''r'', CHR 0x3C] then max (fst c) count else fst c);
          c32 = (if starts_with decl [CHR 0x25, CHR ''f'', CHR 0x3C] then max c32 count else c32)
      in (c32, c64))"

section \<open>The body of a kernel, in two passes\<close>

text \<open>What the first pass has found: counts (32-bit, 64-bit), named registers, labels, the next PC.\<close>

record pass_one =
  p1_counts :: "u32 \<times> u32"
  p1_named :: "(string \<times> string) list"
  p1_labels :: "(string \<times> nat) list"
  p1_pc :: nat

definition starts_dot_or_brace :: "string \<Rightarrow> bool" where
  "starts_dot_or_brace s \<longleftrightarrow> s ! 0 = CHR ''.'' \<or> s ! 0 = CHR 0x7B"

definition reg_line :: "string \<Rightarrow> pass_one \<Rightarrow> json_exn + pass_one" where
  "reg_line s p =
     (let a = split_ws s
      in if length a < 3 then Inr p
         else let type = a ! 1; decl = decl_name (a ! 2)
           in case reg_range decl of
                Some num \<Rightarrow>
                  e_bind (stoul 10 num) (\<lambda>n. Inr (p\<lparr>p1_counts := count_regs decl (ucast n) (p1_counts p)\<rparr>))
              | None \<Rightarrow>
                  Inr (if decl \<noteq> [] \<and> hd decl = CHR 0x25 \<and> \<not> starts_with decl [CHR 0x25, CHR ''r''] \<and>
                          \<not> starts_with decl [CHR 0x25, CHR ''r'', CHR ''d''] \<and> \<not> starts_with decl [CHR 0x25, CHR ''p'']
                       then p\<lparr>p1_named := p1_named p @ [(type, decl)]\<rparr> else p))"

definition first_pass_line :: "string \<Rightarrow> pass_one \<Rightarrow> json_exn + pass_one" where
  "first_pass_line line p =
     (let s = strip_comment line
      in if s = [] then Inr p
         else if starts_with s ''.reg'' then reg_line s p
         else if starts_dot_or_brace s then Inr p
         else if last s = CHR 0x3A then
           let name = trim (butlast s)
           in Inr (if name \<noteq> [] then p\<lparr>p1_labels := (name, p1_pc p) # p1_labels p\<rparr> else p)
         else Inr (p\<lparr>p1_pc := p1_pc p + 1\<rparr>))"

fun first_pass :: "(int \<times> string) list \<Rightarrow> pass_one \<Rightarrow> json_exn + pass_one" where
  "first_pass [] p = Inr p"
| "first_pass ((n, l) # ls) p = e_bind (first_pass_line l p) (first_pass ls)"

text \<open>A named register gets the next free number of its class, once.\<close>

definition assign_alias ::
  "string \<times> string \<Rightarrow> (u32 \<times> u32) \<times> (string \<times> string) list \<Rightarrow> (u32 \<times> u32) \<times> (string \<times> string) list"
where
  "assign_alias nr st =
     (case (nr, st) of ((type, name), ((c32, c64), alias)) \<Rightarrow>
        if map_of alias name \<noteq> None then st
        else if type = ''.b64'' \<or> type = ''.u64'' then
          ((c32, c64 + 1), alias @ [(name, [CHR 0x25, CHR ''r'', CHR ''d''] @ dec_string (unat c64))])
        else if type = ''.b32'' \<or> type = ''.u32'' \<or> type = ''.f32'' then
          ((c32 + 1, c64), alias @ [(name, [CHR 0x25, CHR ''r''] @ dec_string (unat c32))])
        else st)"

text \<open>
  All occurrences of \<open>old\<close>, left to right, the replaced text not looked at again.  The loop
  in the code moves its position by the length of the new text, so with an empty \<open>old\<close> it would
  insert without end; the names it is used with start with \<open>%\<close>.
\<close>

function replace_all :: "string \<Rightarrow> string \<Rightarrow> string \<Rightarrow> string" where
  "replace_all old new tok =
     (if old = [] then tok
      else case find_sub old tok of
             None \<Rightarrow> tok
           | Some i \<Rightarrow> take i tok @ new @ replace_all old new (drop (i + length old) tok))"
  by pat_completeness auto

lemma find_sub_bound: "find_sub p s = Some i \<Longrightarrow> i + length p \<le> length s"
  by (induction p s arbitrary: i rule: find_sub.induct)
    (auto simp: starts_with_def split: if_splits)

termination replace_all
proof (relation "measure (\<lambda>(_, _, s). length s)")
  fix old new tok :: string and i
  assume "old \<noteq> []" "find_sub old tok = Some i"
  moreover from this have "i + length old \<le> length tok" by (simp add: find_sub_bound)
  ultimately show "((old, new, drop (i + length old) tok), (old, new, tok)) \<in> measure (\<lambda>(_, _, s). length s)"
    by (cases old) simp_all
qed simp

declare replace_all.simps [simp del]

text \<open>
  The aliases are kept in a hash map, whose order of iteration the code does not fix:
  \<open>hash_order\<close> gives it.
\<close>

definition rewrite_named_regs ::
  "((string \<times> string) list \<Rightarrow> (string \<times> string) list) \<Rightarrow> (string \<times> string) list \<Rightarrow> string \<Rightarrow> string"
where
  "rewrite_named_regs hash_order alias tok =
     fold (\<lambda>(old, new) t. replace_all old new t) (hash_order alias) tok"

definition mark_stack_access :: "(string \<times> string) list \<Rightarrow> ptx_inst \<Rightarrow> ptx_inst" where
  "mark_stack_access alias inst =
     (if px_opcode inst \<in> {''ld'', ''st''} \<and> m_space (px_mods inst) = [] then
        (case map_of alias [CHR 0x25, CHR ''S'', CHR ''P''] of
           None \<Rightarrow> inst
         | Some sp \<Rightarrow>
             if \<exists>tok \<in> set (px_tokens inst). contains tok ''['' \<and> contains tok sp
             then inst\<lparr>px_mods := (px_mods inst)\<lparr>m_space := ''local''\<rparr>\<rparr>
             else inst)
      else inst)"

definition resolve_branch :: "(string \<times> nat) list \<Rightarrow> ptx_inst \<Rightarrow> ptx_inst" where
  "resolve_branch labels inst =
     (if px_opcode inst = ''bra'' \<and> length (px_tokens inst) = 1 then
        (case map_of labels (trim (px_tokens inst ! 0)) of
           Some pc \<Rightarrow> inst\<lparr>px_tokens := [dec_string pc]\<rparr>
         | None \<Rightarrow> inst)
      else inst)"

definition is_code_line :: "string \<Rightarrow> bool" where
  "is_code_line line \<longleftrightarrow>
     (let s = strip_comment line
      in s \<noteq> [] \<and> \<not> starts_with s ''.reg'' \<and> \<not> starts_dot_or_brace s \<and> last s \<noteq> CHR 0x3A)"

definition second_pass_line ::
  "((string \<times> string) list \<Rightarrow> (string \<times> string) list) \<Rightarrow> string \<Rightarrow> (string \<times> string) list \<Rightarrow> (string \<times> nat) list \<Rightarrow>
   int \<times> string \<Rightarrow> json_exn + ptx_inst list"
where
  "second_pass_line hash_order file_name alias labels nl =
     (if \<not> is_code_line (snd nl) then Inr []
      else e_bind (tokenize_inst_line (strip_comment (snd nl)) file_name (fst nl)) (\<lambda>inst.
        let inst = inst\<lparr>px_tokens := map (rewrite_named_regs hash_order alias) (px_tokens inst)\<rparr>;
            inst = resolve_branch labels (mark_stack_access alias inst)
        in Inr (if px_opcode inst \<noteq> [] then [inst] else [])))"

fun second_pass ::
  "((string \<times> string) list \<Rightarrow> (string \<times> string) list) \<Rightarrow> string \<Rightarrow> (string \<times> string) list \<Rightarrow> (string \<times> nat) list \<Rightarrow>
   (int \<times> string) list \<Rightarrow> json_exn + ptx_inst list"
where
  "second_pass hash_order file_name alias labels [] = Inr []"
| "second_pass hash_order file_name alias labels (nl # ls) =
     e_bind (second_pass_line hash_order file_name alias labels nl) (\<lambda>is1.
     e_bind (second_pass hash_order file_name alias labels ls) (\<lambda>is2. Inr (is1 @ is2)))"

definition parse_body ::
  "((string \<times> string) list \<Rightarrow> (string \<times> string) list) \<Rightarrow> string \<Rightarrow> string \<Rightarrow> param_desc list \<Rightarrow> (int \<times> string) list \<Rightarrow>
   json_exn + kernel_tokens"
where
  "parse_body hash_order file_name name params ls =
     e_bind (first_pass ls \<lparr>p1_counts = (0, 0), p1_named = [], p1_labels = [], p1_pc = 0\<rparr>) (\<lambda>p.
       let (c, alias) = fold assign_alias (p1_named p) (p1_counts p, [])
       in e_bind (second_pass hash_order file_name alias (p1_labels p) ls) (\<lambda>insts.
            Inr \<lparr>kt_name = name, kt_reg_u32_count = fst c, kt_reg_u64_count = snd c, kt_params = params,
                 kt_insts = insts\<rparr>))"

section \<open>The text of a module\<close>

text \<open>The state of the line loop of \<open>parse_ptx_text_tokens\<close>.\<close>

record token_state =
  ts_in_entry :: bool
  ts_in_body :: bool
  ts_name :: string
  ts_params :: "param_desc list"
  ts_lines :: "(int \<times> string) list"
  ts_kernels :: "kernel_tokens list"

definition is_entry_line :: "string \<Rightarrow> bool" where
  "is_entry_line t \<longleftrightarrow> starts_with t ''.visible'' \<and> contains t ''.entry''"

definition entry_rest :: "string \<Rightarrow> string" where
  "entry_rest t = (case find_sub ''.entry'' t of Some pos \<Rightarrow> drop pos t | None \<Rightarrow> [])"

definition entry_name :: "string \<Rightarrow> string" where
  "entry_name t = trim (upto [CHR 0x28] (trim (drop 6 (entry_rest t))))"

definition token_line ::
  "((string \<times> string) list \<Rightarrow> (string \<times> string) list) \<Rightarrow> string \<Rightarrow> int \<times> string \<Rightarrow> token_state \<Rightarrow> json_exn + token_state"
where
  "token_line hash_order file_name nl st =
     (let t = trim (snd nl)
      in if t = [] then Inr st
         else if is_entry_line t then
           Inr (st\<lparr>ts_in_entry := True, ts_in_body := contains (entry_rest t) [CHR 0x7B],
                   ts_name := entry_name t, ts_params := [], ts_lines := []\<rparr>)
         else if ts_in_entry st \<and> t = [CHR 0x7D] then
           e_bind (parse_body hash_order file_name (ts_name st) (ts_params st) (ts_lines st)) (\<lambda>k.
             Inr (st\<lparr>ts_in_entry := False, ts_in_body := False, ts_kernels := ts_kernels st @ [k]\<rparr>))
         else if \<not> ts_in_entry st then Inr st
         else if \<not> ts_in_body st then
           Inr (st\<lparr>ts_params := (case parse_param_decl t of Some p \<Rightarrow> add_param (ts_params st) p | None \<Rightarrow> ts_params st),
                   ts_in_body := (ts_in_body st \<or> t ! 0 = CHR 0x7B)\<rparr>)
         else Inr (st\<lparr>ts_lines := ts_lines st @ [(fst nl, t)]\<rparr>))"

fun token_lines ::
  "((string \<times> string) list \<Rightarrow> (string \<times> string) list) \<Rightarrow> string \<Rightarrow> (int \<times> string) list \<Rightarrow> token_state \<Rightarrow> json_exn + token_state"
where
  "token_lines hash_order file_name [] st = Inr st"
| "token_lines hash_order file_name (nl # ls) st =
     e_bind (token_line hash_order file_name nl st) (token_lines hash_order file_name ls)"

definition numbered :: "string list \<Rightarrow> (int \<times> string) list" where
  "numbered ls = map (\<lambda>(i, l). (int i, l)) (enumerate 1 ls)"

definition token_state_init :: token_state where
  "token_state_init =
     \<lparr>ts_in_entry = False, ts_in_body = False, ts_name = [], ts_params = [], ts_lines = [], ts_kernels = []\<rparr>"

definition parse_ptx_text_tokens ::
  "((string \<times> string) list \<Rightarrow> (string \<times> string) list) \<Rightarrow> string \<Rightarrow> string \<Rightarrow> json_exn + kernel_tokens list"
where
  "parse_ptx_text_tokens hash_order ptx_text file_name =
     e_bind (token_lines hash_order file_name (numbered (text_lines ptx_text)) token_state_init) (\<lambda>st.
       Inr (ts_kernels st))"

section \<open>Binding\<close>

definition bind_first_kernel :: "kernel_tokens list \<Rightarrow> json_exn + kernel_tokens" where
  "bind_first_kernel ks =
     (case ks of [] \<Rightarrow> Inl (RuntimeError ''Binder: no kernels found'') | k # _ \<Rightarrow> Inr k)"

fun bind_kernel_by_name :: "kernel_tokens list \<Rightarrow> string \<Rightarrow> json_exn + kernel_tokens" where
  "bind_kernel_by_name [] entry = Inl (RuntimeError (''Binder: kernel entry not found: '' @ entry))"
| "bind_kernel_by_name (k # ks) entry = (if kt_name k = entry then Inr k else bind_kernel_by_name ks entry)"


section \<open>Parameter layout\<close>

text \<open>Natural alignment: sizes 4 or 8, offsets aligned, each parameter above the one before.\<close>

definition layout_ok :: "param_desc list \<Rightarrow> bool" where
  "layout_ok ps \<longleftrightarrow>
     sorted_wrt (\<lambda>p q. unat (pd_offset p) + unat (pd_size p) \<le> unat (pd_offset q)) ps \<and>
     list_all (\<lambda>p. pd_size p \<in> {4, 8} \<and> pd_align p = pd_size p \<and>
       unat (pd_offset p) mod unat (pd_align p) = 0 \<and> unat (pd_offset p) + unat (pd_size p) \<le> 8 * length ps) ps"

lemma params_end_append: "params_end (ps @ [p]) = max (params_end ps) (pd_offset p + pd_size p)"
  by (simp add: params_end_def)

lemma params_end_spec:
  assumes "layout_ok ps" and "length ps < 2 ^ 28"
  shows "unat (params_end ps) \<le> 8 * length ps \<and> (\<forall>p \<in> set ps. unat (pd_offset p) + unat (pd_size p) \<le> unat (params_end ps))"
proof -
  define b where "b = 8 * length ps"
  have b: "b < 2 ^ 31" using assms(2) by (simp add: b_def)
  have "unat (params_end qs) \<le> b \<and> (\<forall>p \<in> set qs. unat (pd_offset p) + unat (pd_size p) \<le> unat (params_end qs))"
    if "\<forall>p \<in> set qs. unat (pd_offset p) + unat (pd_size p) \<le> b" for qs
    using that
  proof (induction qs rule: rev_induct)
    case Nil
    then show ?case by (simp add: params_end_def)
  next
    case (snoc q qs)
    then have "unat (pd_offset q + pd_size q) = unat (pd_offset q) + unat (pd_size q)"
      using unat_add_lem [of "pd_offset q" "pd_size q"] b by simp
    then show ?case using snoc unfolding params_end_append by (auto simp: max_def word_le_nat_alt)
  qed
  from this [of ps] show ?thesis using assms(1) by (simp add: layout_ok_def b_def list_all_iff)
qed

lemma align_up_u32_nat:
  assumes "a \<in> {4, 8}" and "unat v < 2 ^ 31"
  shows "unat (align_up_u32 v a) mod unat a = 0 \<and> unat v \<le> unat (align_up_u32 v a) \<and>
    unat (align_up_u32 v a) < unat v + unat a"
proof (cases "v mod a = 0")
  case True
  then have "unat v mod unat a = 0" by (metis unat_0 unat_mod_distrib)
  then show ?thesis using True assms(1) by (auto simp: align_up_u32_def)
next
  case False
  have r: "unat (v mod a) = unat v mod unat a" by (simp add: unat_mod_distrib)
  have a: "0 < unat a" "unat a \<le> 8" using assms(1) by auto
  have pos: "0 < unat v mod unat a" using False r by (metis neq0_conv unat_eq_0)
  have "v mod a \<le> a" using r a by (simp add: word_le_nat_alt less_imp_le)
  then have sub: "unat (a - v mod a) = unat a - unat v mod unat a" using r by (simp add: unat_sub)
  moreover have "unat v + (unat a - unat v mod unat a) < 2 ^ 32" using a(2) assms(2) by simp
  ultimately have "unat v + unat (a - v mod a) < 2 ^ LENGTH(32)" by simp
  from unat_add_lem [THEN iffD1, OF this]
  have "unat (v + (a - v mod a)) = unat v + (unat a - unat v mod unat a)" unfolding sub .
  moreover have "(unat v + (unat a - unat v mod unat a)) mod unat a = 0"
  proof -
    have "unat v + (unat a - unat v mod unat a) = (unat v div unat a) * unat a + unat a"
      using mod_less_divisor [OF a(1), of "unat v"] div_mult_mod_eq [of "unat v" "unat a"] by linarith
    then show ?thesis by simp
  qed
  ultimately show ?thesis using False pos a mod_less_divisor [OF a(1), of "unat v"] assms(1)
    by (auto simp: align_up_u32_def Let_def)
qed

lemma add_param_layout:
  assumes "layout_ok ps" and "length ps < 2 ^ 28" and "pd_size p \<in> {4, 8}" "pd_align p = pd_size p"
  shows "layout_ok (add_param ps p)"
proof -
  let ?e = "params_end ps" and ?off = "align_up_u32 (params_end ps) (pd_align p)"
  note e = params_end_spec [OF assms(1,2)]
  have "unat ?e < 2 ^ 31" using e assms(2) by simp
  note off = align_up_u32_nat [OF _ this, of "pd_align p"]
  have size: "unat (pd_size p) \<in> {4, 8}" using assms(3) by auto
  have o: "unat ?off mod unat (pd_align p) = 0" "unat ?e \<le> unat ?off" "unat ?off < unat ?e + unat (pd_size p)"
    using off assms(3,4) by auto
  have "unat ?off + unat (pd_size p) \<le> 8 * length ps + 8"
  proof (cases "pd_size p = 8")
    case True
    then have "unat ?off mod 8 = 0" using o(1) assms(4) by simp
    moreover have "unat ?e \<le> 8 * length ps" using e by blast
    ultimately show ?thesis using o(3) True by (simp, presburger)
  next
    case False
    then show ?thesis using o(3) e size assms(3) by auto
  qed
  then show ?thesis using assms e o
    by (fastforce simp: layout_ok_def add_param_def sorted_wrt_append list_all_iff)
qed

lemma parse_param_decl_size: "parse_param_decl raw = Some p \<Longrightarrow> pd_size p \<in> {4, 8} \<and> pd_align p = pd_size p"
  by (auto simp: parse_param_decl_def Let_def split: if_splits)

lemma token_line_layout:
  assumes "token_line ho f nl st = Inr st'" and "layout_ok (ts_params st)" and "length (ts_params st) < 2 ^ 28"
    and "\<forall>k \<in> set (ts_kernels st). layout_ok (kt_params k)"
  shows "layout_ok (ts_params st') \<and> length (ts_params st') \<le> Suc (length (ts_params st)) \<and>
    (\<forall>k \<in> set (ts_kernels st'). layout_ok (kt_params k))"
proof -
  have body: "kt_params k = ps" if "parse_body ho f n ps ls = Inr k" for k n ps ls
  proof -
    from that obtain p where p: "e_bind (first_pass ls \<lparr>p1_counts = (0, 0), p1_named = [], p1_labels = [], p1_pc = 0\<rparr>)
        (\<lambda>p. Inr p) = Inr p" by (auto simp: parse_body_def e_bind_Inr_iff)
    obtain c al where "fold assign_alias (p1_named p) (p1_counts p, []) = (c, al)" by fastforce
    then show ?thesis using that p by (auto simp: parse_body_def e_bind_Inr_iff)
  qed
  have nil: "layout_ok []" by (simp add: layout_ok_def)
  have add: "layout_ok (add_param (ts_params st) p)" "length (add_param (ts_params st) p) = Suc (length (ts_params st))"
    if "parse_param_decl t = Some p" for p t
    using add_param_layout [OF assms(2,3)] parse_param_decl_size [OF that] by (auto simp: add_param_def)
  show ?thesis using assms add body nil
    by (auto simp: token_line_def Let_def e_bind_Inr_iff split: if_splits option.splits)
qed

lemma token_lines_layout:
  assumes "token_lines ho f ls st = Inr st'" and "layout_ok (ts_params st)"
    and "length (ts_params st) + length ls \<le> 2 ^ 28" and "\<forall>k \<in> set (ts_kernels st). layout_ok (kt_params k)"
  shows "\<forall>k \<in> set (ts_kernels st'). layout_ok (kt_params k)"
  using assms
proof (induction ls arbitrary: st)
  case (Cons nl ls)
  then obtain st1 where s: "token_line ho f nl st = Inr st1" "token_lines ho f ls st1 = Inr st'"
    by (auto simp: e_bind_Inr_iff)
  have "length (ts_params st) < 2 ^ 28" using Cons.prems(3) by simp
  note t = token_line_layout [OF s(1) Cons.prems(2) this Cons.prems(4)]
  show ?case by (rule Cons.IH [OF s(2)]) (use t Cons.prems(3) in simp_all)
qed simp

lemma parse_body_signature: "parse_body h f name params ls = Inr k \<Longrightarrow> kt_name k = name \<and> kt_params k = params"
proof -
  assume k: "parse_body h f name params ls = Inr k"
  obtain p :: pass_one where "(case fold assign_alias (p1_named p) (p1_counts p, []) of
      (c, alias) \<Rightarrow> e_bind (second_pass h f alias (p1_labels p) ls) (\<lambda>insts.
        Inr \<lparr>kt_name = name, kt_reg_u32_count = fst c, kt_reg_u64_count = snd c, kt_params = params, kt_insts = insts\<rparr>)) = Inr k"
    using k by (auto simp: parse_body_def e_bind_Inr_iff Let_def)
  then show ?thesis
    by (cases "fold assign_alias (p1_named p) (p1_counts p, [])") (auto simp: e_bind_Inr_iff)
qed

section \<open>Labels\<close>

definition label_of :: "string \<Rightarrow> string option" where
  "label_of line =
     (let s = strip_comment line
      in if s = [] \<or> starts_with s ''.reg'' \<or> starts_dot_or_brace s \<or> last s \<noteq> CHR 0x3A then None
         else let name = trim (butlast s) in if name = [] then None else Some name)"

abbreviation code_count :: "(int \<times> string) list \<Rightarrow> nat" where
  "code_count ls \<equiv> length (filter (is_code_line \<circ> snd) ls)"

abbreviation pass_one_init :: pass_one where
  "pass_one_init \<equiv> \<lparr>p1_counts = (0, 0), p1_named = [], p1_labels = [], p1_pc = 0\<rparr>"

lemma reg_line_labels: "reg_line s p = Inr p' \<Longrightarrow> p1_labels p' = p1_labels p \<and> p1_pc p' = p1_pc p"
  by (auto simp: reg_line_def Let_def e_bind_Inr_iff split: if_splits option.splits)

lemma first_pass_line_effect:
  assumes "first_pass_line l p = Inr p'"
  shows "p1_pc p' = p1_pc p + (if is_code_line l then 1 else 0)"
    "p1_labels p' = (case label_of l of None \<Rightarrow> p1_labels p | Some n \<Rightarrow> (n, p1_pc p) # p1_labels p)"
  using assms reg_line_labels
  by (auto simp: first_pass_line_def is_code_line_def label_of_def Let_def split: if_splits)

lemma first_pass_append:
  "first_pass (xs @ ys) p = e_bind (first_pass xs p) (first_pass ys)"
  by (induction xs arbitrary: p) (auto simp: e_bind_Inr_iff split: prod.splits, (case_tac "first_pass_line b p"; simp)+)

lemma first_pass_pc:
  "first_pass ls p = Inr p' \<Longrightarrow> p1_pc p' = p1_pc p + length (filter (is_code_line \<circ> snd) ls)"
  by (induction ls arbitrary: p) (auto simp: e_bind_Inr_iff first_pass_line_effect)

lemma first_pass_other_label:
  "first_pass ls p = Inr p' \<Longrightarrow> \<forall>nl \<in> set ls. label_of (snd nl) \<noteq> Some name \<Longrightarrow>
   map_of (p1_labels p') name = map_of (p1_labels p) name"
  by (induction ls arbitrary: p) (auto simp: e_bind_Inr_iff first_pass_line_effect split: option.splits)

lemma first_pass_label:
  assumes "first_pass (pre @ (n, l) # post) p = Inr p'" and "label_of l = Some name"
    and "\<forall>nl \<in> set post. label_of (snd nl) \<noteq> Some name"
  shows "map_of (p1_labels p') name = Some (p1_pc p + length (filter (is_code_line \<circ> snd) pre))"
proof -
  obtain p1 p2 where p: "first_pass pre p = Inr p1" "first_pass_line l p1 = Inr p2" "first_pass post p2 = Inr p'"
    using assms(1) by (auto simp: first_pass_append e_bind_Inr_iff)
  show ?thesis
    using first_pass_other_label [OF p(3) assms(3)] first_pass_line_effect(2) [OF p(2)] first_pass_pc [OF p(1)] assms(2)
    by simp
qed

lemma second_pass_append:
  "second_pass ho f al lb (xs @ ys) =
     e_bind (second_pass ho f al lb xs) (\<lambda>a. e_bind (second_pass ho f al lb ys) (\<lambda>b. Inr (a @ b)))"
proof (induction xs)
  case Nil
  then show ?case by (cases "second_pass ho f al lb ys") auto
next
  case (Cons x xs)
  show ?case
    by (cases "second_pass_line ho f al lb x"; cases "second_pass ho f al lb xs"; cases "second_pass ho f al lb ys")
      (simp_all add: Cons.IH)
qed

definition body_labels :: "(int \<times> string) list \<Rightarrow> (string \<times> nat) list" where
  "body_labels ls = (case first_pass ls pass_one_init of Inr p \<Rightarrow> p1_labels p | Inl _ \<Rightarrow> [])"

definition body_alias :: "(int \<times> string) list \<Rightarrow> (string \<times> string) list" where
  "body_alias ls =
     (case first_pass ls pass_one_init of
        Inr p \<Rightarrow> snd (fold assign_alias (p1_named p) (p1_counts p, []))
      | Inl _ \<Rightarrow> [])"

definition gives_inst :: "string \<Rightarrow> int \<times> string \<Rightarrow> bool" where
  "gives_inst f nl \<longleftrightarrow>
     (case tokenize_inst_line (strip_comment (snd nl)) f (fst nl) of
        Inr inst \<Rightarrow> px_opcode inst \<noteq> [] | Inl _ \<Rightarrow> True)"

lemma pass_two_opcode [simp]:
  "px_opcode (resolve_branch lb inst) = px_opcode inst" "px_opcode (mark_stack_access al inst) = px_opcode inst"
  by (auto simp: resolve_branch_def mark_stack_access_def split: option.splits)

lemma second_pass_length:
  assumes "second_pass ho f al lb ls = Inr insts" and "\<forall>nl \<in> set ls. is_code_line (snd nl) \<longrightarrow> gives_inst f nl"
  shows "length insts = length (filter (is_code_line \<circ> snd) ls)"
  using assms
proof (induction ls arbitrary: insts)
  case (Cons nl ls)
  then obtain is1 is2 where s: "second_pass_line ho f al lb nl = Inr is1" "second_pass ho f al lb ls = Inr is2"
    "insts = is1 @ is2"
    by (auto simp: e_bind_Inr_iff)
  have "length is1 = (if is_code_line (snd nl) then 1 else 0)"
    using s(1) Cons.prems(2) by (auto simp: second_pass_line_def gives_inst_def e_bind_Inr_iff Let_def split: if_splits)
  then show ?case using Cons s by simp
qed simp

section \<open>Properties\<close>

text \<open>
  C34.  Whatever the text, the parameters of every parsed kernel are laid out naturally: each
  offset is a multiple of the parameter's size of 4 or 8, the parameters follow one another
  without overlap, and the 32-bit arithmetic of the layout does not wrap (for texts of at most
  \<open>2 ^ 28\<close> lines).
\<close>

theorem parsed_parameters_laid_out:
  assumes "parse_ptx_text_tokens ho ptx f = Inr ks" and "k \<in> set ks" and "length (text_lines ptx) \<le> 2 ^ 28"
  shows "layout_ok (kt_params k)"
proof -
  obtain st where st: "token_lines ho f (numbered (text_lines ptx)) token_state_init = Inr st" "ks = ts_kernels st"
    using assms(1) by (auto simp: parse_ptx_text_tokens_def e_bind_Inr_iff)
  have "\<forall>k \<in> set (ts_kernels st). layout_ok (kt_params k)"
    by (rule token_lines_layout [OF st(1)])
      (use assms(3) in \<open>simp_all add: token_state_init_def layout_ok_def numbered_def\<close>)
  then show ?thesis using assms(2) st(2) by simp
qed

definition demo_ptx :: string where
  "demo_ptx = ''.visible .entry k(\<newline>.param .u32 n,\<newline>.param .u64 p)\<newline>{\<newline>'' @
     ''mov.u32 a, 0;\<newline>L:\<newline>bra L;\<newline>}\<newline>''"

lemma parsed_parameters_laid_out_witness:
  "\<exists>k. parse_ptx_text_tokens id demo_ptx ''k.ptx'' = Inr [k] \<and>
     map pd_offset (kt_params k) = [0, 8] \<and> layout_ok (kt_params k)"
proof -
  have "case parse_ptx_text_tokens id demo_ptx ''k.ptx'' of
      Inl _ \<Rightarrow> False | Inr ks \<Rightarrow> map (map pd_offset \<circ> kt_params) ks = [[0, 8]]"
    by code_simp
  then obtain k where k: "parse_ptx_text_tokens id demo_ptx ''k.ptx'' = Inr [k]" "map pd_offset (kt_params k) = [0, 8]"
    by (auto split: sum.splits simp: map_eq_Cons_conv)
  have "length (text_lines demo_ptx) \<le> 10" by code_simp
  then show ?thesis using k parsed_parameters_laid_out [OF k(1)] by auto
qed

text \<open>The branch of a body, through the second pass.\<close>

lemma second_pass_branch:
  assumes "second_pass_line ho f al lb (n, l) = Inr is" and "is_code_line l"
    and "tokenize_inst_line (strip_comment l) f n = Inr b" and "px_opcode b = ''bra''" and "px_tokens b = [t]"
    and "map_of lb (trim (rewrite_named_regs ho al t)) = Some pc"
  shows "\<exists>i. is = [i] \<and> px_opcode i = ''bra'' \<and> px_tokens i = [dec_string pc] \<and> px_pred i = px_pred b"
  using assms by (auto simp: second_pass_line_def mark_stack_access_def resolve_branch_def Let_def)

text \<open>
  C33.  A branch goes to the instruction behind its label.  Take a body with a label that is not
  set again below it, and a line, above or below, that is a branch to this label, after the
  rewriting of named registers.  When the lines of code above the label and above the branch hold
  an instruction each, the kernel has at the index of the branch an instruction \<open>bra\<close>, with the
  guard of the line, whose target is the number of instructions above the label; and these are
  the ones of the lines above the label, all others those of the lines below it.
\<close>

theorem branch_goes_behind_label:
  assumes "parse_body ho f nm ps body = Inr k"
    and "body = pre @ (n, l) # post" and "label_of l = Some name" and "\<forall>x \<in> set post. label_of (snd x) \<noteq> Some name"
    and "body = front @ (bn, bl) # rest" and "is_code_line bl"
    and "tokenize_inst_line (strip_comment bl) f bn = Inr b" and "px_opcode b = ''bra''" and "px_tokens b = [t]"
    and "trim (rewrite_named_regs ho (body_alias body) t) = name"
    and "\<forall>x \<in> set pre \<union> set front. is_code_line (snd x) \<longrightarrow> gives_inst f x"
  shows "code_count front < length (kt_insts k) \<and> px_opcode (kt_insts k ! code_count front) = ''bra'' \<and>
    px_tokens (kt_insts k ! code_count front) = [dec_string (code_count pre)] \<and>
    px_pred (kt_insts k ! code_count front) = px_pred b \<and>
    second_pass ho f (body_alias body) (body_labels body) pre = Inr (take (code_count pre) (kt_insts k)) \<and>
    second_pass ho f (body_alias body) (body_labels body) post = Inr (drop (code_count pre) (kt_insts k))"
proof -
  let ?pass = "second_pass ho f (body_alias body) (body_labels body)"
  from assms(1) obtain p where p: "first_pass body pass_one_init = Inr p"
    by (auto simp: parse_body_def e_bind_Inr_iff)
  then have names: "body_labels body = p1_labels p"
    "body_alias body = snd (fold assign_alias (p1_named p) (p1_counts p, []))"
    by (simp_all add: body_labels_def body_alias_def)
  have all: "?pass body = Inr (kt_insts k)"
    using assms(1) p by (auto simp: parse_body_def e_bind_Inr_iff names split: prod.splits)
  have "\<not> is_code_line l" using assms(3) by (auto simp: label_of_def is_code_line_def Let_def split: if_splits)
  then obtain xs ys where xs: "?pass pre = Inr xs" "?pass post = Inr ys" "kt_insts k = xs @ ys"
    using all unfolding assms(2) by (auto simp: second_pass_append second_pass_line_def e_bind_Inr_iff)
  have len: "length xs = code_count pre" using second_pass_length [OF xs(1)] assms(11) by simp
  have "map_of (body_labels body) name = Some (code_count pre)"
    using first_pass_label [OF p [unfolded assms(2)] assms(3,4)] names by simp
  note target = this [folded assms(10)]
  obtain us vs ws where us: "?pass front = Inr us" "second_pass_line ho f (body_alias body) (body_labels body) (bn, bl) = Inr vs"
    "?pass rest = Inr ws" "kt_insts k = us @ vs @ ws"
    using all unfolding assms(5) by (auto simp: second_pass_append e_bind_Inr_iff)
  have "length us = code_count front" using second_pass_length [OF us(1)] assms(11) by simp
  moreover obtain i where "vs = [i]" "px_opcode i = ''bra''" "px_tokens i = [dec_string (code_count pre)]" "px_pred i = px_pred b"
    using second_pass_branch [OF us(2) assms(6-9) target] by blast
  ultimately show ?thesis using us(4) xs len by (metis append_Cons append_eq_conv_conj length_append length_Cons
      less_add_same_cancel1 nth_append_length zero_less_Suc)
qed

definition demo_body :: "(int \<times> string) list" where
  "demo_body = [(5, ''mov.u32 a, 0;''), (6, ''L:''), (7, ''bra L;'')]"

lemma branch_goes_behind_label_witness:
  "\<exists>k. parse_body id ''k.ptx'' ''k'' [] demo_body = Inr k \<and> 1 < length (kt_insts k) \<and>
     px_opcode (kt_insts k ! 1) = ''bra'' \<and> px_tokens (kt_insts k ! 1) = [''1'']"
proof -
  have "case parse_body id ''k.ptx'' ''k'' [] demo_body of Inl _ \<Rightarrow> False | Inr k \<Rightarrow> True"
    by code_simp
  then obtain k where k: "parse_body id ''k.ptx'' ''k'' [] demo_body = Inr k" by (auto split: sum.splits)
  have body: "demo_body = [(5, ''mov.u32 a, 0;'')] @ (6, ''L:'') # [(7, ''bra L;'')]"
    "demo_body = [(5, ''mov.u32 a, 0;''), (6, ''L:'')] @ (7, ''bra L;'') # []"
    by (simp_all add: demo_body_def)
  have l: "label_of ''L:'' = Some ''L''" "label_of ''bra L;'' = None" by code_simp+
  have "case tokenize_inst_line (strip_comment ''bra L;'') ''k.ptx'' 7 of
      Inl _ \<Rightarrow> False | Inr b \<Rightarrow> px_opcode b = ''bra'' \<and> px_tokens b = [''L'']"
    by code_simp
  then obtain b where b: "tokenize_inst_line (strip_comment ''bra L;'') ''k.ptx'' 7 = Inr b" "px_opcode b = ''bra''"
    "px_tokens b = [''L'']" by (auto split: sum.splits)
  have t: "trim (rewrite_named_regs id (body_alias demo_body) ''L'') = ''L''" by code_simp
  have code: "is_code_line ''bra L;''" by code_simp
  have "list_all (\<lambda>x. is_code_line (snd x) \<longrightarrow> gives_inst ''k.ptx'' x) [(5, ''mov.u32 a, 0;''), (6, ''L:'')]" by code_simp
  then have gives: "\<forall>x \<in> set [(5, ''mov.u32 a, 0;'')] \<union> set [(5, ''mov.u32 a, 0;''), (6, ''L:'')].
      is_code_line (snd x) \<longrightarrow> gives_inst ''k.ptx'' x" by (auto simp: list_all_iff)
  have post: "\<forall>x \<in> set [(7 :: int, ''bra L;'')]. label_of (snd x) \<noteq> Some ''L''" using l(2) by simp
  have counts: "code_count [(5 :: int, ''mov.u32 a, 0;''), (6, ''L:'')] = 1" "code_count [(5 :: int, ''mov.u32 a, 0;'')] = 1"
    "dec_string 1 = ''1''" by code_simp+
  show ?thesis
    using branch_goes_behind_label [OF k body(1) l(1) post body(2) code b t gives] k unfolding counts by blast
qed

text \<open>
  A predicate that stands on a line of its own, which PTX allows, is lost: it counts as a
  line of code for the labels but gives no instruction.  The branch becomes unconditional and
  its target, the instruction itself at index 0, becomes 1, behind the last instruction.
\<close>

theorem guard_on_own_line_is_lost:
  "\<exists>k i. parse_ptx_text_tokens id
       (''.visible .entry k()\<newline>{\<newline>@'' @ [CHR 0x25] @ ''p1\<newline>L:\<newline>bra L;\<newline>}\<newline>'') ''k.ptx'' = Inr [k] \<and>
     kt_insts k = [i] \<and> px_opcode i = ''bra'' \<and> px_pred i = None \<and> px_tokens i = [''1'']"
proof -
  have "case parse_ptx_text_tokens id
       (''.visible .entry k()\<newline>{\<newline>@'' @ [CHR 0x25] @ ''p1\<newline>L:\<newline>bra L;\<newline>}\<newline>'') ''k.ptx'' of
      Inl _ \<Rightarrow> False
    | Inr ks \<Rightarrow> map (map (\<lambda>i. (px_opcode i, px_pred i, px_tokens i)) \<circ> kt_insts) ks = [[(''bra'', None, [''1''])]]"
    by code_simp
  then show ?thesis by (auto split: sum.splits simp: map_eq_Cons_conv)
qed

text \<open>
  The rewriting of named registers depends on the order of a hash map: with the aliases of
  \<open>SP\<close> and \<open>SPL\<close>, the token of \<open>SPL\<close> becomes its own alias when that one is replaced first, and
  the alias of \<open>SP\<close> followed by an \<open>L\<close> when the shorter name comes first.
\<close>

definition demo_alias :: "(string \<times> string) list" where
  "demo_alias =
     [([CHR 0x25] @ ''SP'', [CHR 0x25] @ ''rd4''), ([CHR 0x25] @ ''SPL'', [CHR 0x25] @ ''rd5'')]"

theorem named_registers_depend_on_hash_order:
  "rewrite_named_regs rev demo_alias ([CHR 0x25] @ ''SPL'') = [CHR 0x25] @ ''rd5'' \<and>
   rewrite_named_regs id demo_alias ([CHR 0x25] @ ''SPL'') = [CHR 0x25] @ ''rd4L''"
  by code_simp

end
