(* ===== verification/PtxIsa.thy ===== *)
theory PtxIsa
  imports PtxParser Instruction
begin

text \<open>
  The mapping of tokenized PTX to instructions (\<open>include/gpusim/ptx_isa.h\<close>,
  \<open>src/instruction/ptx_isa.cpp\<close>): the registry of instruction forms, the parsing of an operand by
  the kind a form asks for, and the choice of the one form that fits.  An operand parser gives
  an operand, or none with or without a diagnostic; a register number beyond 63 bits throws.
\<close>

record isa_entry =
  ie_ptx_opcode :: string
  ie_type_mod :: string
  ie_operand_kinds :: "string list"
  ie_ir_op :: string

definition f32_reg_id_bias :: int where
  "f32_reg_id_bias = 4096"

section \<open>Numbers\<close>

definition parse_i64_auto_base :: "string \<Rightarrow> int option" where
  "parse_i64_auto_base s =
     (case stoll 0 s of
        Inl _ \<Rightarrow> None
      | Inr (v, idx) \<Rightarrow> if idx = length s then Some v else None)"

definition parse_u64_dec :: "string \<Rightarrow> json_exn + int option" where
  "parse_u64_dec s =
     (if s = [] then Inr None
      else if \<not> all_digits s then Inr None
      else e_bind (stoll 10 s) (\<lambda>(v, _). Inr (Some v)))"

definition parse_u32_hex_exact :: "string \<Rightarrow> u32 option" where
  "parse_u32_hex_exact s =
     (if length s \<noteq> 8 then None
      else if \<not> list_all (digit_in 16) s then None
      else case stoul 16 s of Inl _ \<Rightarrow> None | Inr v \<Rightarrow> Some (ucast v))"

fun join_csv :: "string list \<Rightarrow> string" where
  "join_csv [] = []"
| "join_csv [x] = x"
| "join_csv (x # y # xs) = x @ CHR 0x2C # join_csv (y # xs)"

definition fmt_sig :: "isa_entry \<Rightarrow> string" where
  "fmt_sig e =
     ''('' @ join_csv (ie_operand_kinds e) @ '')'' @ '' -> '' @ ie_ir_op e @
     (if ie_type_mod e \<noteq> [] then CHR ''.'' # ie_type_mod e else ''.*'')"

section \<open>One operand\<close>

type_synonym op_result = "json_exn + operand option \<times> diagnostic option"

definition op_fail :: "source_location option \<Rightarrow> string \<Rightarrow> op_result" where
  "op_fail loc msg = Inr (None, Some ((mk_diag ''frontend'' ''OPERAND_PARSE_FAIL'' msg)\<lparr>d_location := loc\<rparr>))"

definition no_op :: op_result where
  "no_op = Inr (None, None)"

definition got :: "operand \<Rightarrow> op_result" where
  "got p = Inr (Some p, None)"

definition trim_token :: "string \<Rightarrow> string" where
  "trim_token tok0 =
     (let tok = trim tok0; tok = (if tok \<noteq> [] \<and> last tok = CHR 0x3B then butlast tok else tok)
      in trim tok)"

text \<open>A register of class \<open>cls\<close> whose number starts at position \<open>n\<close> of the token.\<close>

definition numbered_reg :: "source_location option \<Rightarrow> string \<Rightarrow> nat \<Rightarrow> string \<Rightarrow> value_type \<Rightarrow> int \<Rightarrow> op_result" where
  "numbered_reg loc tok n cls ty bias =
     e_bind (parse_u64_dec (drop n tok)) (\<lambda>r.
       (case r of
          None \<Rightarrow> op_fail loc (''invalid '' @ cls @ '' register: '' @ tok)
        | Some i \<Rightarrow> got (operand_default\<lparr>o_kind := KReg, o_type := ty, o_reg_id := bias + i\<rparr>)))"

definition widen_reg :: "string \<Rightarrow> operand \<Rightarrow> operand" where
  "widen_reg type_mod p =
     (if type_mod \<in> {''u64'', ''s64'', ''b64''} \<and> o_type p = U32 then p\<lparr>o_type := U64\<rparr> else p)"

definition pct :: char where "pct = CHR 0x25"

definition parse_reg :: "string \<Rightarrow> string \<Rightarrow> source_location option \<Rightarrow> op_result" where
  "parse_reg tok type_mod loc =
     e_bind
       (if starts_with tok (pct # ''rd'') then numbered_reg loc tok 3 (pct # ''rd'') U64 0
        else if starts_with tok (pct # ''f'') then numbered_reg loc tok 2 (pct # ''f'') F32 f32_reg_id_bias
        else if starts_with tok (pct # ''r'') then numbered_reg loc tok 2 (pct # ''r'') U32 0
        else no_op)
       (\<lambda>(p, d). Inr (map_option (widen_reg type_mod) p, d))"

definition parse_pred :: "string \<Rightarrow> source_location option \<Rightarrow> op_result" where
  "parse_pred tok loc =
     (if \<not> starts_with tok (pct # ''p'') then no_op
      else e_bind (parse_u64_dec (drop 2 tok)) (\<lambda>r.
        (case r of
           None \<Rightarrow> op_fail loc (''invalid '' @ pct # ''p predicate: '' @ tok)
         | Some i \<Rightarrow> got (operand_default\<lparr>o_kind := KPred, o_pred_id := i\<rparr>))))"

definition parse_imm :: "string \<Rightarrow> source_location option \<Rightarrow> op_result" where
  "parse_imm tok loc =
     (if length tok = 10 \<and> (starts_with tok ''0f'' \<or> starts_with tok ''0F'') then
        (case parse_u32_hex_exact (drop 2 tok) of
           None \<Rightarrow> op_fail loc (''invalid f32 immediate: '' @ tok)
         | Some bits \<Rightarrow> got (operand_default\<lparr>o_kind := KImm, o_type := F32, o_imm := uint bits\<rparr>))
      else
        (case parse_i64_auto_base tok of
           None \<Rightarrow> no_op
         | Some v \<Rightarrow> got (operand_default\<lparr>o_kind := KImm, o_imm := v\<rparr>)))"

text \<open>The start every kind shares: the token is trimmed and must not be empty.\<close>

definition with_token :: "string \<Rightarrow> source_location option \<Rightarrow> (string \<Rightarrow> op_result) \<Rightarrow> op_result" where
  "with_token tok loc f =
     (let tok = trim_token tok in if tok = [] then op_fail loc ''empty operand token'' else f tok)"

definition bracketed :: "string \<Rightarrow> bool" where
  "bracketed tok \<longleftrightarrow> length tok \<ge> 2 \<and> hd tok = CHR 0x5B \<and> last tok = CHR 0x5D"

definition inner_text :: "string \<Rightarrow> string" where
  "inner_text tok = trim (take (length tok - 2) (drop 1 tok))"

definition addr_base :: "string \<Rightarrow> int \<Rightarrow> source_location option \<Rightarrow> op_result" where
  "addr_base base off loc =
     e_bind (with_token base loc (\<lambda>t. parse_reg t ''u64'' loc)) (\<lambda>(b, _).
       (case b of
          None \<Rightarrow> no_op
        | Some b \<Rightarrow>
            if o_kind b \<noteq> KReg then no_op
            else got (operand_default\<lparr>o_kind := KAddr, o_type := U64, o_reg_id := o_reg_id b, o_imm := off\<rparr>)))"

definition parse_addr :: "string \<Rightarrow> source_location option \<Rightarrow> op_result" where
  "parse_addr tok loc =
     (if \<not> bracketed tok then no_op
      else let inner = inner_text tok
        in case find_sub ''+'' inner of
             None \<Rightarrow> addr_base inner 0 loc
           | Some pos \<Rightarrow>
               let off_s = trim (drop (pos + 1) inner)
               in case parse_i64_auto_base off_s of
                    None \<Rightarrow> op_fail loc (''invalid addr offset: '' @ off_s)
                  | Some off \<Rightarrow> addr_base (trim (take pos inner)) off loc)"

definition parse_symbol :: "string \<Rightarrow> source_location option \<Rightarrow> op_result" where
  "parse_symbol tok loc =
     (if tok \<noteq> [] \<and> hd tok = pct then no_op
      else if parse_i64_auto_base tok \<noteq> None then no_op
      else if bracketed tok \<and> inner_text tok \<noteq> [] \<and> hd (inner_text tok) = pct then no_op
      else let tok = (if bracketed tok then inner_text tok else tok)
        in if tok = [] then op_fail loc ''empty symbol''
           else got (operand_default\<lparr>o_kind := KSymbol, o_symbol := tok\<rparr>))"

definition special_names :: "string list" where
  "special_names =
     [''tid.x'', ''tid.y'', ''tid.z'', ''ntid.x'', ''ntid.y'', ''ntid.z'',
      ''ctaid.x'', ''ctaid.y'', ''ctaid.z'', ''nctaid.x'', ''nctaid.y'', ''nctaid.z'']"

definition parse_special :: "string \<Rightarrow> source_location option \<Rightarrow> op_result" where
  "parse_special tok loc =
     (let name = to_lower (drop 1 tok);
          special = got (operand_default\<lparr>o_kind := KSpecial, o_type := U32, o_special := name\<rparr>)
      in if tok = [] \<or> hd tok \<noteq> pct then no_op
         else if starts_with tok (pct # ''r'') \<or> starts_with tok (pct # ''rd'') \<or> starts_with tok (pct # ''p'') then no_op
         else if name = ''laneid'' \<or> name = ''warpid'' then special
         else if \<not> contains tok ''.'' then no_op
         else if name \<notin> set special_names then op_fail loc (''unknown special operand: '' @ tok)
         else special)"

definition parse_operand_by_kind :: "string \<Rightarrow> string \<Rightarrow> string \<Rightarrow> source_location option \<Rightarrow> op_result" where
  "parse_operand_by_kind kind tok type_mod loc =
     with_token tok loc (\<lambda>tok.
       if kind = ''reg'' then parse_reg tok type_mod loc
       else if kind = ''pred'' then parse_pred tok loc
       else if kind = ''imm'' then parse_imm tok loc
       else if kind = ''addr'' then parse_addr tok loc
       else if kind = ''symbol'' then parse_symbol tok loc
       else if kind = ''special'' then parse_special tok loc
       else op_fail loc (''unknown operand kind: '' @ kind))"

section \<open>The registry\<close>

definition load_isa_entry :: "'n json \<Rightarrow> json_exn + isa_entry" where
  "load_isa_entry iv =
     e_bind (as_object iv) (\<lambda>io.
     e_bind (e_bind (obj_at io ''ptx_opcode'') as_string) (\<lambda>opc.
     e_bind (e_bind (obj_at io ''type_mod'') as_string) (\<lambda>tm.
     e_bind (e_bind (e_bind (obj_at io ''operand_kinds'') as_array) (map_e as_string)) (\<lambda>kinds.
     e_bind (e_bind (obj_at io ''ir_op'') as_string) (\<lambda>ir.
     Inr \<lparr>ie_ptx_opcode = to_lower opc, ie_type_mod = to_lower tm, ie_operand_kinds = map to_lower kinds,
          ie_ir_op = ir\<rparr>)))))"

definition load_isa :: "'n json \<Rightarrow> json_exn + isa_entry list" where
  "load_isa root =
     e_bind (as_object root) (\<lambda>obj.
     e_bind (e_bind (obj_at obj ''insts'') as_array) (map_e load_isa_entry))"

definition isa_fits :: "string \<Rightarrow> string \<Rightarrow> nat \<Rightarrow> isa_entry \<Rightarrow> bool" where
  "isa_fits opc tm n e \<longleftrightarrow>
     ie_ptx_opcode e = opc \<and> length (ie_operand_kinds e) = n \<and> (ie_type_mod e = [] \<or> ie_type_mod e = tm)"

definition candidates :: "isa_entry list \<Rightarrow> string \<Rightarrow> string \<Rightarrow> nat \<Rightarrow> isa_entry list" where
  "candidates isa ptx_opcode type_mod operand_count =
     (let fit = filter (isa_fits (to_lower ptx_opcode) (to_lower type_mod) operand_count) isa
      in filter (\<lambda>e. ie_type_mod e \<noteq> []) fit @ filter (\<lambda>e. ie_type_mod e = []) fit)"

section \<open>One instruction\<close>

text \<open>The operands of one form, left to right, up to the first that does not fit.\<close>

fun match_kinds ::
  "string \<Rightarrow> source_location option \<Rightarrow> (string \<times> string) list \<Rightarrow> json_exn + operand list option \<times> diagnostic option"
where
  "match_kinds tm loc [] = Inr (Some [], None)"
| "match_kinds tm loc ((kind, tok) # kts) =
     e_bind (parse_operand_by_kind kind tok tm loc) (\<lambda>(p, d).
       (case p of
          None \<Rightarrow> Inr (None, d)
        | Some p \<Rightarrow> e_bind (match_kinds tm loc kts) (\<lambda>(ps, d'). Inr (map_option ((#) p) ps, d'))))"

fun match_all ::
  "ptx_inst \<Rightarrow> isa_entry list \<Rightarrow> diagnostic option \<Rightarrow>
   json_exn + (isa_entry \<times> operand list) list \<times> diagnostic option"
where
  "match_all inst [] last_diag = Inr ([], last_diag)"
| "match_all inst (e # es) last_diag =
     e_bind (match_kinds (m_type_mod (px_mods inst)) (px_dbg inst) (zip (ie_operand_kinds e) (px_tokens inst)))
       (\<lambda>(ps, d).
         e_bind (match_all inst es (case (ps, d) of (None, Some d) \<Rightarrow> Some d | _ \<Rightarrow> last_diag)) (\<lambda>(ms, ld).
           Inr ((case ps of Some ps \<Rightarrow> [(e, ps)] | None \<Rightarrow> []) @ ms, ld)))"

fun join_sigs :: "string list \<Rightarrow> string" where
  "join_sigs [] = []"
| "join_sigs [x] = x"
| "join_sigs (x # y # xs) = x @ ''; '' @ join_sigs (y # xs)"

definition map_diag :: "ptx_inst \<Rightarrow> string \<Rightarrow> string \<Rightarrow> diagnostic" where
  "map_diag inst code msg = (mk_diag ''instruction'' code msg)\<lparr>d_location := px_dbg inst\<rparr>"

definition map_one :: "isa_entry list \<Rightarrow> ptx_inst \<Rightarrow> json_exn + (diagnostic + inst_record)" where
  "map_one isa inst =
     (let tm = m_type_mod (px_mods inst);
          cands = candidates isa (px_opcode inst) tm (length (px_tokens inst))
      in if cands = [] then
           Inr (Inl (map_diag inst ''DESC_NOT_FOUND'' (''no PTX ISA map entry for '' @ px_opcode inst)))
         else e_bind (match_all inst cands None) (\<lambda>(ms, ld).
           (case ms of
              [] \<Rightarrow>
                Inr (Inl (case ld of
                   Some d \<Rightarrow> d
                 | None \<Rightarrow> map_diag inst ''OPERAND_FORM_MISMATCH''
                             (''operands do not match any PTX ISA form for '' @ px_opcode inst)))
            | [(e, ps)] \<Rightarrow>
                Inr (Inr \<lparr>i_opcode = ie_ir_op e, i_mods = px_mods inst, i_pred = px_pred inst, i_operands = ps,
                          i_dbg = px_dbg inst\<rparr>)
            | _ \<Rightarrow>
                Inr (Inl (map_diag inst ''DESC_AMBIGUOUS''
                  (''ambiguous PTX ISA mapping for '' @ px_opcode inst @
                   (if tm \<noteq> [] then CHR ''.'' # tm else []) @ '': '' @ join_sigs (map (fmt_sig \<circ> fst) ms)))))))"

fun map_from :: "isa_entry list \<Rightarrow> nat \<Rightarrow> ptx_inst list \<Rightarrow> json_exn + (diagnostic + inst_record list)" where
  "map_from isa i [] = Inr (Inr [])"
| "map_from isa i (p # ps) =
     e_bind (map_one isa p) (\<lambda>r.
       (case r of
          Inl d \<Rightarrow> Inr (Inl (d\<lparr>d_inst_index := Some (int i)\<rparr>))
        | Inr inst \<Rightarrow>
            e_bind (map_from isa (Suc i) ps) (\<lambda>rs.
              (case rs of Inl d \<Rightarrow> Inr (Inl d) | Inr insts \<Rightarrow> Inr (Inr (inst # insts))))))"

definition map_kernel :: "isa_entry list \<Rightarrow> ptx_inst list \<Rightarrow> json_exn + (diagnostic + inst_record list)" where
  "map_kernel isa insts = map_from isa 0 insts"

section \<open>Operands have the kind that was asked for\<close>

lemma op_result_simps [simp]:
  "op_fail loc msg \<noteq> Inr (Some p, d)" "no_op \<noteq> Inr (Some p, d)" "got q = Inr (Some p, d) \<longleftrightarrow> q = p \<and> d = None"
  by (auto simp: op_fail_def no_op_def got_def)

lemma widen_kind [simp]: "o_kind (widen_reg tm p) = o_kind p"
  by (simp add: widen_reg_def)

lemma numbered_reg_kind: "numbered_reg loc tok n cls ty bias = Inr (Some p, d) \<Longrightarrow> o_kind p = KReg \<and> d = None"
  by (auto simp: numbered_reg_def e_bind_Inr_iff split: option.splits)

lemma operand_kind_asked:
  assumes "parse_operand_by_kind kind tok tm loc = Inr (Some p, d)"
  shows "operand_kind_to_string (o_kind p) = kind \<and> d = None"
proof -
  define t where "t = trim_token tok"
  have reg: "o_kind p = KReg \<and> d = None" if "parse_reg t tm loc = Inr (Some p, d)" for t tm p d
    using that by (auto simp: parse_reg_def e_bind_Inr_iff dest: numbered_reg_kind split: if_splits)
  have others:
    "parse_pred t loc = Inr (Some p, d) \<Longrightarrow> o_kind p = KPred \<and> d = None"
    "parse_imm t loc = Inr (Some p, d) \<Longrightarrow> o_kind p = KImm \<and> d = None"
    "parse_symbol t loc = Inr (Some p, d) \<Longrightarrow> o_kind p = KSymbol \<and> d = None"
    "parse_special t loc = Inr (Some p, d) \<Longrightarrow> o_kind p = KSpecial \<and> d = None"
    by (auto simp: parse_pred_def parse_imm_def parse_symbol_def parse_special_def e_bind_Inr_iff Let_def
        split: if_splits option.splits)
  have base: "addr_base b i loc = Inr (Some p, d) \<Longrightarrow> o_kind p = KAddr \<and> d = None" for b i
    by (auto simp: addr_base_def e_bind_Inr_iff split: if_splits option.splits prod.splits)
  have addr: "parse_addr t loc = Inr (Some p, d) \<Longrightarrow> o_kind p = KAddr \<and> d = None"
    using base by (auto simp: parse_addr_def Let_def split: if_splits option.splits)
  show ?thesis using assms reg [of t tm p d] others addr
    by (auto simp: parse_operand_by_kind_def with_token_def t_def [symmetric] split: if_splits)
qed

section \<open>Matching\<close>

lemma dropWhile_id: "s \<noteq> [] \<Longrightarrow> \<not> p (hd s) \<Longrightarrow> dropWhile p s = s"
  by (cases s) auto

lemma trim_id: "s \<noteq> [] \<Longrightarrow> \<not> is_space (hd s) \<Longrightarrow> \<not> is_space (last s) \<Longrightarrow> trim s = s"
  by (simp add: trim_def drop_back_def dropWhile_id hd_rev)

text \<open>What a form asks for: as many operands as it has kinds, each of them of its kind.\<close>

definition form_matches :: "ptx_inst \<Rightarrow> isa_entry \<Rightarrow> bool" where
  "form_matches inst e \<longleftrightarrow>
     list_all2 (\<lambda>kind tok. \<exists>p. parse_operand_by_kind kind tok (m_type_mod (px_mods inst)) (px_dbg inst) = Inr (Some p, None))
       (ie_operand_kinds e) (px_tokens inst)"

lemma match_kinds_spec:
  assumes "match_kinds tm loc (zip ks ts) = Inr (r, d)" and "length ks = length ts"
  shows "(case r of
      Some ps \<Rightarrow> map (operand_kind_to_string \<circ> o_kind) ps = ks \<and>
        list_all2 (\<lambda>p (k, t). parse_operand_by_kind k t tm loc = Inr (Some p, None)) ps (zip ks ts)
    | None \<Rightarrow> \<not> list_all2 (\<lambda>k t. \<exists>p. parse_operand_by_kind k t tm loc = Inr (Some p, None)) ks ts)"
  using assms(2,1)
proof (induction ks ts arbitrary: r d rule: list_induct2)
  case Nil
  then show ?case by auto
next
  case (Cons k ks t ts)
  then obtain q d1 where q: "parse_operand_by_kind k t tm loc = Inr (q, d1)" by (auto simp: e_bind_Inr_iff)
  show ?case
  proof (cases q)
    case None
    then show ?thesis using Cons.prems q by simp
  next
    case (Some p)
    with Cons.prems q obtain r' d' where r: "match_kinds tm loc (zip ks ts) = Inr (r', d')" "r = map_option ((#) p) r'"
      by (auto simp: e_bind_Inr_iff)
    show ?thesis using Cons.IH [OF r(1)] r(2) operand_kind_asked [of k t tm loc p d1] q Some
      by (auto split: option.splits)
  qed
qed

lemma match_all_spec:
  assumes "match_all inst es ld = Inr (ms, ld')"
    and "\<forall>e \<in> set es. length (ie_operand_kinds e) = length (px_tokens inst)"
  shows "map fst ms = filter (form_matches inst) es \<and>
    (\<forall>(e, ps) \<in> set ms. map (operand_kind_to_string \<circ> o_kind) ps = ie_operand_kinds e \<and>
       list_all2 (\<lambda>p (k, t). parse_operand_by_kind k t (m_type_mod (px_mods inst)) (px_dbg inst) = Inr (Some p, None))
         ps (zip (ie_operand_kinds e) (px_tokens inst)))"
  using assms
proof (induction es arbitrary: ms ld)
  case (Cons e es)
  then obtain r d ms' where m:
    "match_kinds (m_type_mod (px_mods inst)) (px_dbg inst) (zip (ie_operand_kinds e) (px_tokens inst)) = Inr (r, d)"
    "match_all inst es (case (r, d) of (None, Some d) \<Rightarrow> Some d | _ \<Rightarrow> ld) = Inr (ms', ld')"
    "ms = (case r of Some ps \<Rightarrow> [(e, ps)] | None \<Rightarrow> []) @ ms'"
    by (auto simp: e_bind_Inr_iff)
  have "length (ie_operand_kinds e) = length (px_tokens inst)" using Cons.prems(2) by simp
  note k = match_kinds_spec [OF m(1) this]
  have IH: "map fst ms' = filter (form_matches inst) es \<and>
    (\<forall>(e, ps) \<in> set ms'. map (operand_kind_to_string \<circ> o_kind) ps = ie_operand_kinds e \<and>
       list_all2 (\<lambda>p (k, t). parse_operand_by_kind k t (m_type_mod (px_mods inst)) (px_dbg inst) = Inr (Some p, None))
         ps (zip (ie_operand_kinds e) (px_tokens inst)))"
    by (rule Cons.IH [OF m(2)]) (use Cons.prems(2) in simp)
  have "form_matches inst e" if "r = Some ps" for ps
    using k that \<open>length _ = _\<close> by (auto simp: form_matches_def list_all2_conv_all_nth)
  moreover have "\<not> form_matches inst e" if "r = None" using k that by (simp add: form_matches_def)
  ultimately show ?case using IH k m(3) by (cases r) (auto simp: comp_def)
qed simp

lemma candidates_fit:
  "set (candidates isa opc tm n) = {e \<in> set isa. isa_fits (to_lower opc) (to_lower tm) n e}"
  by (auto simp: candidates_def Let_def)

section \<open>Properties\<close>

text \<open>
  C32.  A tokenized instruction that is mapped fits exactly one of the candidate forms of the
  registry; it gets that form's operation, keeps its modifiers, predicate and place, and its
  operands are, one by one, the tokens read as the kinds the form asks for, so that the kinds of
  the operands spell the form.
\<close>

theorem mapped_instruction_has_one_form:
  assumes "map_one isa inst = Inr (Inr r)"
  shows "\<exists>e \<in> set isa.
    filter (form_matches inst) (candidates isa (px_opcode inst) (m_type_mod (px_mods inst)) (length (px_tokens inst))) = [e] \<and>
    isa_fits (to_lower (px_opcode inst)) (to_lower (m_type_mod (px_mods inst))) (length (px_tokens inst)) e \<and>
    i_opcode r = ie_ir_op e \<and> i_mods r = px_mods inst \<and> i_pred r = px_pred inst \<and> i_dbg r = px_dbg inst \<and>
    inst_operand_kinds r = ie_operand_kinds e \<and>
    list_all2 (\<lambda>p (k, t). parse_operand_by_kind k t (m_type_mod (px_mods inst)) (px_dbg inst) = Inr (Some p, None))
      (i_operands r) (zip (ie_operand_kinds e) (px_tokens inst))"
proof -
  let ?c = "candidates isa (px_opcode inst) (m_type_mod (px_mods inst)) (length (px_tokens inst))"
  from assms have "?c \<noteq> []" by (auto simp: map_one_def Let_def)
  with assms obtain ms ld where "match_all inst ?c None = Inr (ms, ld)" by (auto simp: map_one_def Let_def e_bind_Inr_iff)
  moreover from this assms \<open>?c \<noteq> []\<close> obtain e ps where "ms = [(e, ps)]"
    by (cases ms; cases "tl ms"; cases "hd ms") (auto simp: map_one_def Let_def)
  ultimately obtain e ps ld where m: "match_all inst ?c None = Inr ([(e, ps)], ld)"
    "r = \<lparr>i_opcode = ie_ir_op e, i_mods = px_mods inst, i_pred = px_pred inst, i_operands = ps, i_dbg = px_dbg inst\<rparr>"
    using assms \<open>?c \<noteq> []\<close> by (auto simp: map_one_def Let_def)
  have fit: "\<forall>e \<in> set ?c. length (ie_operand_kinds e) = length (px_tokens inst)"
    by (simp add: candidates_fit isa_fits_def)
  note s = match_all_spec [OF m(1) fit]
  then have one: "filter (form_matches inst) ?c = [e]" by simp
  have "e \<in> set (filter (form_matches inst) ?c)" unfolding one by simp
  then have "e \<in> set ?c" by simp
  then show ?thesis using s one m(2) by (intro bexI [of _ e]) (auto simp: candidates_fit inst_operand_kinds_def o_def)
qed

definition demo_isa :: "isa_entry list" where
  "demo_isa =
     [\<lparr>ie_ptx_opcode = ''mov'', ie_type_mod = ''u32'', ie_operand_kinds = [''reg'', ''imm''], ie_ir_op = ''mov''\<rparr>,
      \<lparr>ie_ptx_opcode = ''mov'', ie_type_mod = [], ie_operand_kinds = [''reg'', ''symbol''], ie_ir_op = ''mov_sym''\<rparr>]"

definition demo_mov :: ptx_inst where
  "demo_mov = (empty_inst ''k.ptx'' 1)\<lparr>px_opcode := ''mov'', px_mods := no_mods\<lparr>m_type_mod := ''u32''\<rparr>,
     px_tokens := [pct # ''r1'', ''0x10'']\<rparr>"

lemma mapped_instruction_has_one_form_witness:
  "\<exists>r e. map_one demo_isa demo_mov = Inr (Inr r) \<and> map o_imm (i_operands r) = [0, 16] \<and>
     filter (form_matches demo_mov) (candidates demo_isa ''mov'' ''u32'' 2) = [e] \<and> i_opcode r = ie_ir_op e"
proof -
  have "case map_one demo_isa demo_mov of
      Inr (Inr r) \<Rightarrow> map o_imm (i_operands r) = [0, 16] | _ \<Rightarrow> False"
    by code_simp
  then obtain r where r: "map_one demo_isa demo_mov = Inr (Inr r)" "map o_imm (i_operands r) = [0, 16]"
    by (auto split: sum.splits)
  have "px_opcode demo_mov = ''mov'' \<and> m_type_mod (px_mods demo_mov) = ''u32'' \<and> length (px_tokens demo_mov) = 2"
    by code_simp
  then show ?thesis using mapped_instruction_has_one_form [OF r(1)] r by auto
qed

text \<open>
  The number that replaces the label of a branch is read back as the immediate operand with
  that value.
\<close>

theorem branch_target_round_trip:
  assumes "pc < 2 ^ 63"
  shows "parse_operand_by_kind ''imm'' (dec_string pc) tm loc =
    Inr (Some (operand_default\<lparr>o_kind := KImm, o_imm := int pc\<rparr>), None)"
proof -
  let ?s = "dec_string pc"
  note d = dec_string_head [of pc]
  have digits: "digit_in 10 ch" if "ch \<in> set ?s" for ch
    using dec_string_digits [of pc] that by (simp add: list_all_iff)
  have no: "\<not> is_space ch \<and> ch \<noteq> CHR 0x3B \<and> ch \<noteq> CHR ''f'' \<and> ch \<noteq> CHR ''F''" if "digit_in 10 ch" for ch
    using that by (auto simp: digit_in_def digit_value_def is_space_def less_eq_char_simp split: if_splits)
  have ends: "\<not> is_space (hd ?s)" "\<not> is_space (last ?s)" "last ?s \<noteq> CHR 0x3B"
    using no digits d by auto
  then have trim: "trim ?s = ?s"
    using d by (simp add: trim_id)
  then have tok: "trim_token ?s = ?s" using ends d by (simp add: trim_token_def Let_def)
  have f32: "\<not> starts_with ?s ''0f'' \<and> \<not> starts_with ?s ''0F''"
  proof -
    have "?s ! 1 \<noteq> CHR ''f'' \<and> ?s ! 1 \<noteq> CHR ''F''" if "length ?s \<ge> 2"
      using no [OF digits [OF nth_mem [of 1 ?s]]] that by simp
    moreover have "length ?s \<ge> 2 \<and> ?s ! 1 = x ! 1" if "starts_with ?s x" "length x = 2" for x
    proof
      show "length ?s \<ge> 2" using that by (simp add: starts_with_def)
      have "take 2 ?s ! 1 = x ! 1" using that by (simp add: starts_with_def)
      then show "?s ! 1 = x ! 1" by simp
    qed
    from this [of "''0f''"] this [of "''0F''"]
    have "starts_with ?s ''0f'' \<Longrightarrow> length ?s \<ge> 2 \<and> ?s ! 1 = CHR ''f''"
      "starts_with ?s ''0F'' \<Longrightarrow> length ?s \<ge> 2 \<and> ?s ! 1 = CHR ''F''" by simp_all
    ultimately show ?thesis by blast
  qed
  have "parse_i64_auto_base ?s = Some (int pc)"
    using stoll_dec_string [OF assms, of 0] by (simp add: parse_i64_auto_base_def)
  then show ?thesis using d tok f32
    by (simp add: parse_operand_by_kind_def with_token_def parse_imm_def got_def)
qed

lemma branch_target_round_trip_witness:
  "parse_operand_by_kind ''imm'' (dec_string 17) [] None = Inr (Some (operand_default\<lparr>o_kind := KImm, o_imm := 17\<rparr>), None)"
  using branch_target_round_trip [of 17 "[]" None] by simp

text \<open>
  A register number that does not fit in 63 bits gives no diagnostic: the conversion throws,
  through the operand parser and through the mapping of the whole kernel.
\<close>

theorem large_register_number_throws:
  "map_kernel [\<lparr>ie_ptx_opcode = ''neg'', ie_type_mod = [], ie_operand_kinds = [''reg''], ie_ir_op = ''neg''\<rparr>]
     [(empty_inst ''k.ptx'' 1)\<lparr>px_opcode := ''neg'', px_tokens := [pct # ''r9223372036854775808'']\<rparr>]
   = Inl (RuntimeError ''stoll'')"
proof -
  have "stoll 10 ''9223372036854775808'' = Inl (RuntimeError ''stoll'')"
    by (simp add: stoll_def str_to_int_def Let_def is_space_def is_hex_prefix_def digit_in_def digit_value_def
        less_eq_char_simp digits_value_def)
  moreover have "drop 2 (pct # ''r9223372036854775808'') = ''9223372036854775808''" by simp
  ultimately have "parse_reg (pct # ''r9223372036854775808'') [] loc = Inl (RuntimeError ''stoll'')" for loc
    by (simp add: parse_reg_def numbered_reg_def parse_u64_dec_def all_digits_def is_digit_def less_eq_char_simp
        starts_with_def)
  moreover have "trim_token (pct # ''r9223372036854775808'') = pct # ''r9223372036854775808''" by code_simp
  moreover have "candidates [\<lparr>ie_ptx_opcode = ''neg'', ie_type_mod = [], ie_operand_kinds = [''reg''], ie_ir_op = ''neg''\<rparr>]
     ''neg'' [] 1 = [\<lparr>ie_ptx_opcode = ''neg'', ie_type_mod = [], ie_operand_kinds = [''reg''], ie_ir_op = ''neg''\<rparr>]"
    by code_simp
  ultimately show ?thesis
    by (simp add: map_kernel_def map_one_def empty_inst_def no_mods_def parse_operand_by_kind_def with_token_def)
qed

end
