(* ===== verification/Runtime.thy ===== *)
theory Runtime
  imports PtxIsa SimtRun
begin

text \<open>
  The runtime facade (\<open>include/gpusim/runtime.h\<close>, \<open>src/runtime/runtime.cpp\<close>): the JSON
  configuration, host buffers, copies between host and device, and the entry points that take
  PTX with its two JSON assets to a run of the simulator.  An operation gives the state it
  leaves and a value or an error; a run is optional, \<open>None\<close> being a run that never returns.
\<close>

section \<open>Configuration\<close>

record app_config =
  ac_sim :: sim_config
  ac_obs_enabled :: bool
  ac_trace_capacity :: u64

definition app_config_default :: app_config where
  "app_config_default = \<lparr>ac_sim = sim_config_default, ac_obs_enabled = True, ac_trace_capacity = 65536\<rparr>"

text \<open>\<open>if (o.find(key) != o.end())\<close> with the rest of the statement.\<close>

definition opt_field :: "(string \<times> 'n json) list \<Rightarrow> string \<Rightarrow> ('n json \<Rightarrow> 'c \<Rightarrow> json_exn + 'c) \<Rightarrow> 'c \<Rightarrow> json_exn + 'c" where
  "opt_field obj key f c = (case map_of obj key of None \<Rightarrow> Inr c | Some v \<Rightarrow> f v c)"

definition as_u64 :: "('n \<Rightarrow> u64) \<Rightarrow> 'n json \<Rightarrow> json_exn + u64" where
  "as_u64 to_u64 v = e_bind (as_number v) (\<lambda>n. Inr (to_u64 n))"

definition set_sim :: "(sim_config \<Rightarrow> sim_config) \<Rightarrow> app_config \<Rightarrow> app_config" where
  "set_sim f c = c\<lparr>ac_sim := f (ac_sim c)\<rparr>"

definition load_sim_section :: "('n \<Rightarrow> u64) \<Rightarrow> 'n json \<Rightarrow> app_config \<Rightarrow> json_exn + app_config" where
  "load_sim_section to_u64 sim c =
     e_bind (as_object sim) (\<lambda>so.
     e_bind (opt_field so ''warp_size'' (\<lambda>v c. e_bind (as_u64 to_u64 v) (\<lambda>n. Inr (set_sim (\<lambda>s. s\<lparr>cfg_warp_size := ucast n\<rparr>) c))) c) (\<lambda>c.
     e_bind (opt_field so ''max_steps'' (\<lambda>v c. e_bind (as_u64 to_u64 v) (\<lambda>n. Inr (set_sim (\<lambda>s. s\<lparr>cfg_max_steps := n\<rparr>) c))) c) (\<lambda>c.
     e_bind (opt_field so ''sm_count'' (\<lambda>v c. e_bind (as_u64 to_u64 v) (\<lambda>n. Inr (set_sim (\<lambda>s. s\<lparr>cfg_sm_count := ucast n\<rparr>) c))) c) (\<lambda>c.
     e_bind (opt_field so ''parallel'' (\<lambda>v c. e_bind (as_bool v) (\<lambda>b. Inr (set_sim (\<lambda>s. s\<lparr>cfg_parallel := b\<rparr>) c))) c) (\<lambda>c.
     e_bind (opt_field so ''deterministic'' (\<lambda>v c. e_bind (as_bool v) (\<lambda>b. Inr (set_sim (\<lambda>s. s\<lparr>cfg_deterministic := b\<rparr>) c))) c) (\<lambda>c.
     e_bind (opt_field so ''cta_scheduler'' (\<lambda>v c. e_bind (as_string v) (\<lambda>x. Inr (set_sim (\<lambda>s. s\<lparr>cfg_cta_scheduler := x\<rparr>) c))) c) (\<lambda>c.
     e_bind (opt_field so ''warp_scheduler'' (\<lambda>v c. e_bind (as_string v) (\<lambda>x. Inr (set_sim (\<lambda>s. s\<lparr>cfg_warp_scheduler := x\<rparr>) c))) c) (\<lambda>c.
     opt_field so ''allow_unknown_selectors'' (\<lambda>v c. e_bind (as_bool v) (\<lambda>b. Inr (set_sim (\<lambda>s. s\<lparr>cfg_allow_unknown := b\<rparr>) c))) c))))))))"

definition load_memory_section :: "'n json \<Rightarrow> app_config \<Rightarrow> json_exn + app_config" where
  "load_memory_section m c =
     e_bind (as_object m) (\<lambda>mo.
     opt_field mo ''model'' (\<lambda>v c. e_bind (as_string v) (\<lambda>x. Inr (set_sim (\<lambda>s. s\<lparr>cfg_memory_model := x\<rparr>) c))) c)"

definition apply_profile :: "string \<Rightarrow> sim_config \<Rightarrow> sim_config" where
  "apply_profile prof s =
     (let s = s\<lparr>cfg_profile := prof\<rparr>
      in if prof = ''baseline_no_cache''
         then s\<lparr>cfg_cta_scheduler := ''fifo'', cfg_warp_scheduler := ''in_order_run_to_completion'',
                cfg_memory_model := ''no_cache_addrspace''\<rparr>
         else s)"

definition load_components :: "'n json \<Rightarrow> app_config \<Rightarrow> json_exn + app_config" where
  "load_components comps c =
     e_bind (as_object comps) (\<lambda>co.
     e_bind (opt_field co ''cta_scheduler'' (\<lambda>v c. e_bind (as_string v) (\<lambda>x. Inr (set_sim (\<lambda>s. s\<lparr>cfg_cta_scheduler := x\<rparr>) c))) c) (\<lambda>c.
     e_bind (opt_field co ''warp_scheduler'' (\<lambda>v c. e_bind (as_string v) (\<lambda>x. Inr (set_sim (\<lambda>s. s\<lparr>cfg_warp_scheduler := x\<rparr>) c))) c) (\<lambda>c.
     opt_field co ''memory_model'' (\<lambda>v c. e_bind (as_string v) (\<lambda>x. Inr (set_sim (\<lambda>s. s\<lparr>cfg_memory_model := x\<rparr>) c))) c)))"

definition load_arch_section :: "'n json \<Rightarrow> app_config \<Rightarrow> json_exn + app_config" where
  "load_arch_section arch c =
     e_bind (as_object arch) (\<lambda>ao.
     e_bind (opt_field ao ''profile'' (\<lambda>v c. e_bind (as_string v) (\<lambda>p. Inr (set_sim (apply_profile p) c))) c) (\<lambda>c.
     opt_field ao ''components'' load_components c))"

definition load_obs_section :: "('n \<Rightarrow> u64) \<Rightarrow> 'n json \<Rightarrow> app_config \<Rightarrow> json_exn + app_config" where
  "load_obs_section to_u64 obs c =
     e_bind (as_object obs) (\<lambda>oo.
     e_bind (opt_field oo ''enabled'' (\<lambda>v c. e_bind (as_bool v) (\<lambda>b. Inr (c\<lparr>ac_obs_enabled := b\<rparr>))) c) (\<lambda>c.
     opt_field oo ''trace_capacity'' (\<lambda>v c. e_bind (as_u64 to_u64 v) (\<lambda>n. Inr (c\<lparr>ac_trace_capacity := n\<rparr>))) c))"

definition load_app_config :: "('n \<Rightarrow> u64) \<Rightarrow> 'n json \<Rightarrow> json_exn + app_config" where
  "load_app_config to_u64 root =
     e_bind (as_object root) (\<lambda>obj.
     e_bind (opt_field obj ''sim'' (load_sim_section to_u64) app_config_default) (\<lambda>c.
     e_bind (opt_field obj ''memory'' load_memory_section c) (\<lambda>c.
     e_bind (opt_field obj ''arch'' load_arch_section c) (\<lambda>c.
     opt_field obj ''observability'' (load_obs_section to_u64) c))))"

section \<open>What the runtime relies on\<close>

text \<open>
  The floating point operations and conversions of C++, the order of iteration of a hash map,
  the contents of files, and the run with one worker thread per SM, which the model leaves open.
\<close>

record 'n rt_env =
  en_fp :: f32_ops
  en_strtod :: "string \<Rightarrow> 'n option"
  en_to_int :: "'n \<Rightarrow> int"
  en_to_u64 :: "'n \<Rightarrow> u64"
  en_hash_order :: "(string \<times> string) list \<Rightarrow> (string \<times> string) list"
  en_file :: "string \<Rightarrow> string option"
  en_parallel_run :: "sim_config \<Rightarrow> descriptor_registry \<Rightarrow> mem_state \<Rightarrow> obs_control \<Rightarrow> kernel_image \<Rightarrow> launch_config
    \<Rightarrow> (sim_result \<times> mem_state \<times> obs_control) option"

text \<open>
  An error is an exception, or \<open>Undefined\<close>: an access outside a vector, which C++ leaves
  undefined.
\<close>

datatype rt_error = Throws json_exn | Undefined

definition json_text :: "'n rt_env \<Rightarrow> string \<Rightarrow> json_exn + 'n json" where
  "json_text env txt =
     (case parse (en_strtod env) txt of Some r \<Rightarrow> r | None \<Rightarrow> Inl (ParseError ''out of fuel''))"

definition slurp :: "'n rt_env \<Rightarrow> string \<Rightarrow> string \<Rightarrow> json_exn + string" where
  "slurp env who path = of_option (RuntimeError (who @ ''cannot open '' @ path)) (en_file env path)"

definition load_app_config_json_text :: "'n rt_env \<Rightarrow> string \<Rightarrow> json_exn + app_config" where
  "load_app_config_json_text env txt = e_bind (json_text env txt) (load_app_config (en_to_u64 env))"

definition load_app_config_json_file :: "'n rt_env \<Rightarrow> string \<Rightarrow> json_exn + app_config" where
  "load_app_config_json_file env path = e_bind (slurp env [] path) (load_app_config_json_text env)"

section \<open>Buffers and copies\<close>

record runtime =
  rt_cfg :: app_config
  rt_obs :: obs_control
  rt_mem :: addr_space_manager
  rt_next_host :: u64
  rt_host :: "u64 \<rightharpoonup> u8 list"

definition runtime_init :: "app_config \<Rightarrow> runtime" where
  "runtime_init cfg =
     \<lparr>rt_cfg = cfg, rt_obs = obs_init (ac_obs_enabled cfg) (ac_trace_capacity cfg), rt_mem = manager_init,
      rt_next_host = 1, rt_host = Map.empty\<rparr>"

text \<open>The largest vector of bytes; beyond it the library throws.\<close>

definition max_vector :: nat where
  "max_vector = 2 ^ 63 - 1"

definition host_alloc :: "u64 \<Rightarrow> runtime \<Rightarrow> runtime \<times> (rt_error + u64)" where
  "host_alloc bytes st =
     (let hid = rt_next_host st; st = st\<lparr>rt_next_host := hid + 1\<rparr>
      in if unat bytes > max_vector
         then (st, Inl (Throws (RuntimeError ''cannot create std::vector larger than max_size()'')))
         else (st\<lparr>rt_host := (rt_host st)(hid \<mapsto> replicate (unat bytes) 0)\<rparr>, Inr hid))"

text \<open>
  The check adds in 64 bits; when the sum wraps around it passes, and the first access is
  outside the buffer.
\<close>

definition host_write :: "u64 \<Rightarrow> u64 \<Rightarrow> u8 list \<Rightarrow> runtime \<Rightarrow> runtime \<times> (rt_error + unit)" where
  "host_write hid offset bytes st =
     (case rt_host st hid of
        None \<Rightarrow> (st, Inl (Throws (RuntimeError ''Runtime: host buffer not found'')))
      | Some buf \<Rightarrow>
          if offset + of_nat (length bytes) > of_nat (length buf)
          then (st, Inl (Throws (RuntimeError ''Runtime: host_write out of range'')))
          else if bytes \<noteq> [] \<and> unat offset + length bytes > length buf then (st, Inl Undefined)
          else
            (st\<lparr>rt_host := (rt_host st)(hid \<mapsto>
               take (unat offset) buf @ bytes @ drop (unat offset + length bytes) buf)\<rparr>, Inr ()))"

definition host_read :: "u64 \<Rightarrow> u64 \<Rightarrow> u64 \<Rightarrow> runtime \<Rightarrow> rt_error + u8 list option" where
  "host_read hid offset bytes st =
     (case rt_host st hid of
        None \<Rightarrow> Inr None
      | Some buf \<Rightarrow>
          if offset + bytes > of_nat (length buf) then Inr None
          else if unat bytes > max_vector then Inl (Throws (RuntimeError ''vector::reserve''))
          else if bytes \<noteq> 0 \<and> unat offset + unat bytes > length buf then Inl Undefined
          else Inr (Some (take (unat bytes) (drop (unat offset) buf))))"

definition device_malloc :: "u64 \<Rightarrow> u64 \<Rightarrow> runtime \<Rightarrow> runtime \<times> u64" where
  "device_malloc bytes align st =
     (case alloc_global (rt_mem st) bytes align of (m, p) \<Rightarrow> (st\<lparr>rt_mem := m\<rparr>, p))"

definition memcpy_h2d :: "u64 \<Rightarrow> u64 \<Rightarrow> u64 \<Rightarrow> u64 \<Rightarrow> runtime \<Rightarrow> runtime \<times> (rt_error + unit)" where
  "memcpy_h2d dst src src_offset bytes st =
     (case host_read src src_offset bytes st of
        Inl e \<Rightarrow> (st, Inl e)
      | Inr None \<Rightarrow> (st, Inl (Throws (RuntimeError ''Runtime: memcpy_h2d host_read failed'')))
      | Inr (Some data) \<Rightarrow>
          (case write_global (rt_mem st) dst data of
             (m, False) \<Rightarrow> (st, Inl (Throws (RuntimeError ''Runtime: memcpy_h2d write_global failed'')))
           | (m, True) \<Rightarrow> (st\<lparr>rt_mem := m\<rparr>, Inr ())))"

definition first_missing :: "addr_space_manager \<Rightarrow> u64 \<Rightarrow> u64 \<Rightarrow> nat" where
  "first_missing m src bytes =
     (case find (\<lambda>i. read_global m (src + of_nat i) 1 = None) [0..<unat bytes] of
        Some i \<Rightarrow> i | None \<Rightarrow> unat bytes)"

definition memcpy_d2h :: "u64 \<Rightarrow> u64 \<Rightarrow> u64 \<Rightarrow> u64 \<Rightarrow> runtime \<Rightarrow> runtime \<times> (rt_error + unit)" where
  "memcpy_d2h dst dst_offset src bytes st =
     (case read_global (rt_mem st) src bytes of
        None \<Rightarrow>
          (st, Inl (Throws (RuntimeError
            (''Runtime: memcpy_d2h read_global failed src='' @ dec_string (unat src) @ '' bytes='' @
             dec_string (unat bytes) @ '' first_missing='' @ dec_string (first_missing (rt_mem st) src bytes)))))
      | Some data \<Rightarrow> host_write dst dst_offset data st)"

section \<open>Runs\<close>

definition rt_diag :: "string \<Rightarrow> string \<Rightarrow> string option \<Rightarrow> diagnostic" where
  "rt_diag code msg fn = (mk_diag ''runtime'' code msg)\<lparr>d_function := fn\<rparr>"

definition validate_launch :: "launch_config \<Rightarrow> string \<Rightarrow> diagnostic option" where
  "validate_launch launch kernel_name =
     (let g = grid_dim launch; b = block_dim launch
      in if dim_x g = 0 \<or> dim_y g = 0 \<or> dim_z g = 0 \<or> dim_x b = 0 \<or> dim_y b = 0 \<or> dim_z b = 0
         then Some (rt_diag ''E_LAUNCH_DIM'' ''grid/block dims must be >= 1'' (Some kernel_name))
         else case threads_per_block b of
                None \<Rightarrow> Some (rt_diag ''E_LAUNCH_OVERFLOW'' ''threads_per_block overflow'' (Some kernel_name))
              | Some tpb \<Rightarrow>
                  if tpb = 0 then Some (rt_diag ''E_LAUNCH_OVERFLOW'' ''threads_per_block overflow'' (Some kernel_name))
                  else None)"

definition simt_run :: "'n rt_env \<Rightarrow> sim_config \<Rightarrow> descriptor_registry \<Rightarrow> mem_state \<Rightarrow> obs_control \<Rightarrow> kernel_image \<Rightarrow>
    launch_config \<Rightarrow> (sim_result \<times> mem_state \<times> obs_control) option" where
  "simt_run env cfg reg ms obs k launch =
     (if parallel_enabled cfg then en_parallel_run env cfg reg ms obs k launch
      else map_option (\<lambda>(res, ms, obs, _). (res, ms, obs)) (simt_run_serial (en_fp env) cfg reg ms obs k launch))"

type_synonym run_outcome = "(runtime \<times> (rt_error + sim_result)) option"

definition kernel_of_tokens :: "kernel_tokens \<Rightarrow> inst_record list \<Rightarrow> kernel_image" where
  "kernel_of_tokens kt insts =
     \<lparr>k_name = kt_name kt, k_reg_u32_count = kt_reg_u32_count kt, k_reg_u64_count = kt_reg_u64_count kt,
      k_params = kt_params kt, k_insts = insts\<rparr>"

definition with_params :: "param_desc list \<Rightarrow> kernel_args option \<Rightarrow> addr_space_manager \<Rightarrow> addr_space_manager" where
  "with_params ps args m =
     set_param_blob (set_param_layout m ps) (case args of Some a \<Rightarrow> ka_blob a | None \<Rightarrow> [])"

definition run_kernel_tokens_impl ::
  "'n rt_env \<Rightarrow> runtime \<Rightarrow> kernel_tokens \<Rightarrow> isa_entry list \<Rightarrow> descriptor_registry \<Rightarrow> kernel_args option \<Rightarrow>
   launch_config \<Rightarrow> run_outcome"
where
  "run_kernel_tokens_impl env st kt isa reg args launch =
     (case map_kernel isa (kt_insts kt) of
        Inl e \<Rightarrow> Some (st, Inl (Throws e))
      | Inr (Inl d) \<Rightarrow> Some (st, Inr (failed_launch d))
      | Inr (Inr insts) \<Rightarrow>
          (case validate_launch launch (kt_name kt) of
             Some d \<Rightarrow> Some (st, Inr (failed_launch d))
           | None \<Rightarrow>
               map_option (\<lambda>(res, ms, obs). (st\<lparr>rt_mem := ms_mgr ms, rt_obs := obs\<rparr>, Inr res))
                 (simt_run env (ac_sim (rt_cfg st)) reg
                    \<lparr>ms_mgr = with_params (kt_params kt) args (rt_mem st), ms_local = Map.empty\<rparr>
                    (rt_obs st) (kernel_of_tokens kt insts) launch)))"

text \<open>
  The entry points.  They differ in where the PTX and the assets come from, in the kernel that
  is bound (the first, or one by name), in the arguments and in the launch; all go through
  \<open>run_bound\<close>.
\<close>

definition load_isa_text :: "'n rt_env \<Rightarrow> string \<Rightarrow> json_exn + isa_entry list" where
  "load_isa_text env txt = e_bind (json_text env txt) load_isa"

definition load_desc_text :: "'n rt_env \<Rightarrow> string \<Rightarrow> json_exn + descriptor_registry" where
  "load_desc_text env txt = e_bind (json_text env txt) (load_registry (en_to_int env) False)"

definition load_isa_file :: "'n rt_env \<Rightarrow> string \<Rightarrow> json_exn + isa_entry list" where
  "load_isa_file env path = e_bind (slurp env ''PtxIsaRegistry: '' path) (load_isa_text env)"

definition load_desc_file :: "'n rt_env \<Rightarrow> string \<Rightarrow> json_exn + descriptor_registry" where
  "load_desc_file env path = e_bind (slurp env ''DescriptorRegistry: '' path) (load_desc_text env)"

definition parse_file_tokens :: "'n rt_env \<Rightarrow> string \<Rightarrow> json_exn + kernel_tokens list" where
  "parse_file_tokens env path =
     e_bind (slurp env ''Parser: '' path) (\<lambda>t. parse_ptx_text_tokens (en_hash_order env) t path)"

definition run_bound ::
  "'n rt_env \<Rightarrow> runtime \<Rightarrow> json_exn + kernel_tokens \<Rightarrow> json_exn + isa_entry list \<Rightarrow> json_exn + descriptor_registry \<Rightarrow>
   kernel_args option \<Rightarrow> launch_config \<Rightarrow> run_outcome"
where
  "run_bound env st kt isa reg args launch =
     (case e_bind kt (\<lambda>k. e_bind isa (\<lambda>i. e_bind reg (\<lambda>r. Inr (k, i, r)))) of
        Inl e \<Rightarrow> Some (st, Inl (Throws e))
      | Inr (k, i, r) \<Rightarrow> run_kernel_tokens_impl env st k i r args launch)"

definition run_entry ::
  "'n rt_env \<Rightarrow> runtime \<Rightarrow> json_exn + kernel_tokens list \<Rightarrow> string \<Rightarrow> json_exn + isa_entry list \<Rightarrow>
   json_exn + descriptor_registry \<Rightarrow> kernel_args option \<Rightarrow> launch_config \<Rightarrow> run_outcome"
where
  "run_entry env st toks entry isa reg args launch =
     (case toks of
        Inl e \<Rightarrow> Some (st, Inl (Throws e))
      | Inr m \<Rightarrow>
          (case bind_kernel_by_name m entry of
             Inl _ \<Rightarrow>
               Some (st, Inr (failed_launch
                 (rt_diag ''E_ENTRY_NOT_FOUND'' (''kernel entry not found: '' @ entry) (Some entry))))
           | Inr k \<Rightarrow> run_bound env st (Inr k) isa reg args launch))"

definition rt_default_launch :: "runtime \<Rightarrow> launch_config" where
  "rt_default_launch st = default_launch (ac_sim (rt_cfg st))"

definition run_ptx_kernel_launch where
  "run_ptx_kernel_launch env ptx isa desc launch st =
     run_bound env st (e_bind (parse_file_tokens env ptx) bind_first_kernel) (load_isa_file env isa)
       (load_desc_file env desc) None launch"

definition run_ptx_kernel where
  "run_ptx_kernel env ptx isa desc st = run_ptx_kernel_launch env ptx isa desc (rt_default_launch st) st"

definition run_ptx_kernel_with_args_launch where
  "run_ptx_kernel_with_args_launch env ptx isa desc args launch st =
     run_bound env st (e_bind (parse_file_tokens env ptx) bind_first_kernel) (load_isa_file env isa)
       (load_desc_file env desc) (Some args) launch"

definition run_ptx_kernel_with_args where
  "run_ptx_kernel_with_args env ptx isa desc args st =
     run_ptx_kernel_with_args_launch env ptx isa desc args (rt_default_launch st) st"

definition run_ptx_kernel_entry_launch where
  "run_ptx_kernel_entry_launch env ptx isa desc entry launch st =
     run_entry env st (parse_file_tokens env ptx) entry (load_isa_file env isa) (load_desc_file env desc) None launch"

definition run_ptx_kernel_with_args_entry_launch where
  "run_ptx_kernel_with_args_entry_launch env ptx isa desc entry args launch st =
     run_entry env st (parse_file_tokens env ptx) entry (load_isa_file env isa) (load_desc_file env desc)
       (Some args) launch"

definition parse_text_tokens :: "'n rt_env \<Rightarrow> string \<Rightarrow> json_exn + kernel_tokens list" where
  "parse_text_tokens env ptx = parse_ptx_text_tokens (en_hash_order env) ptx ''<ptx>''"

definition run_ptx_kernel_text_launch where
  "run_ptx_kernel_text_launch env ptx isa desc launch st =
     run_bound env st (e_bind (parse_text_tokens env ptx) bind_first_kernel) (load_isa_text env isa)
       (load_desc_text env desc) None launch"

definition run_ptx_kernel_text where
  "run_ptx_kernel_text env ptx isa desc st = run_ptx_kernel_text_launch env ptx isa desc (rt_default_launch st) st"

definition run_ptx_kernel_with_args_text_launch where
  "run_ptx_kernel_with_args_text_launch env ptx isa desc args launch st =
     run_bound env st (e_bind (parse_text_tokens env ptx) bind_first_kernel) (load_isa_text env isa)
       (load_desc_text env desc) (Some args) launch"

definition run_ptx_kernel_with_args_text where
  "run_ptx_kernel_with_args_text env ptx isa desc args st =
     run_ptx_kernel_with_args_text_launch env ptx isa desc args (rt_default_launch st) st"

definition run_ptx_kernel_text_entry_launch where
  "run_ptx_kernel_text_entry_launch env ptx isa desc entry launch st =
     run_entry env st (parse_text_tokens env ptx) entry (load_isa_text env isa) (load_desc_text env desc) None launch"

definition run_ptx_kernel_with_args_text_entry_launch where
  "run_ptx_kernel_with_args_text_entry_launch env ptx isa desc entry args launch st =
     run_entry env st (parse_text_tokens env ptx) entry (load_isa_text env isa) (load_desc_text env desc)
       (Some args) launch"

section \<open>Facts\<close>

lemma host_read_some:
  assumes "host_read h off n st = Inr (Some data)"
  shows "\<exists>buf. rt_host st h = Some buf \<and> unat off + unat n \<le> length buf \<and> data = take (unat n) (drop (unat off) buf)
    \<or> n = 0 \<and> data = []"
  using assms by (auto simp: host_read_def split: option.splits if_splits)

lemma host_write_ok:
  assumes "host_write h off bytes st = (st', Inr u)"
  shows "\<exists>buf. rt_host st h = Some buf \<and>
    rt_host st' h = Some (take (unat off) buf @ bytes @ drop (unat off + length bytes) buf) \<and>
    (bytes \<noteq> [] \<longrightarrow> unat off + length bytes \<le> length buf) \<and>
    rt_mem st' = rt_mem st \<and> (\<forall>h'. h' \<noteq> h \<longrightarrow> rt_host st' h' = rt_host st h')"
  using assms by (auto simp: host_write_def split: option.splits if_splits)

lemma read_written:
  assumes "write_global m addr bytes = (m', True)" and "length bytes < 2 ^ 64"
  shows "read_global m' addr (of_nat (length bytes)) = Some bytes"
proof -
  have "m' = m\<lparr>global_bytes := store_bytes (global_bytes m) addr bytes\<rparr>"
    "global_range_allocated m addr (of_nat (length bytes))"
    using assms(1) by (auto simp: write_global_def split: if_splits)
  moreover from this have "global_range_allocated m' addr n = global_range_allocated m addr n" for n
    by (intro global_range_allocated_allocs) simp
  ultimately show ?thesis using assms(2)
    by (simp add: read_global_def unat_of_nat_u64 load_store_same)
qed

lemma with_params_reset:
  "with_params ps args (set_param_blob (set_param_layout m l) b) = with_params ps args m"
  by (simp add: with_params_def set_param_blob_def set_param_layout_def)

lemma simt_run_total: "\<not> parallel_enabled cfg \<Longrightarrow> simt_run env cfg reg ms obs k launch \<noteq> None"
  using simt_run_serial_total [of "en_fp env" cfg reg ms obs k launch] by (auto simp: simt_run_def)

lemma run_impl_total:
  "\<not> parallel_enabled (ac_sim (rt_cfg st)) \<Longrightarrow> run_kernel_tokens_impl env st kt isa reg args launch \<noteq> None"
  using simt_run_total by (auto simp: run_kernel_tokens_impl_def split: sum.split option.split)

lemma run_bound_total:
  "\<not> parallel_enabled (ac_sim (rt_cfg st)) \<Longrightarrow> run_bound env st kt isa reg args launch \<noteq> None"
  using run_impl_total by (auto simp: run_bound_def split: sum.split prod.split)

lemma run_entry_total:
  "\<not> parallel_enabled (ac_sim (rt_cfg st)) \<Longrightarrow> run_entry env st toks entry isa reg args launch \<noteq> None"
  using run_bound_total by (auto simp: run_entry_def split: sum.split)

text \<open>What a run without diagnostic has done.\<close>

lemma run_bound_success:
  assumes "run_bound env rt kt isa reg args launch = Some r"
    and "snd r = Inr res" and "sr_diag res = None" and "\<not> parallel_enabled (ac_sim (rt_cfg rt))"
  shows "\<exists>k i insts rg ms obs ctas. kt = Inr k \<and> isa = Inr i \<and> reg = Inr rg \<and> map_kernel i (kt_insts k) = Inr (Inr insts) \<and>
    simt_run_serial (en_fp env) (ac_sim (rt_cfg rt)) rg
      \<lparr>ms_mgr = with_params (kt_params k) args (rt_mem rt), ms_local = Map.empty\<rparr> (rt_obs rt)
      (kernel_of_tokens k insts) launch = Some (res, ms, obs, ctas) \<and>
    fst r = rt\<lparr>rt_mem := ms_mgr ms, rt_obs := obs\<rparr>"
proof -
  obtain k i rg where loaded: "kt = Inr k" "isa = Inr i" "reg = Inr rg"
    and impl: "run_kernel_tokens_impl env rt k i rg args launch = Some r"
    using assms(1,2) by (auto simp: run_bound_def e_bind_Inr_iff split: sum.splits prod.splits)
  obtain insts where insts: "map_kernel i (kt_insts k) = Inr (Inr insts)"
    using impl assms(2,3) by (auto simp: run_kernel_tokens_impl_def failed_launch_def split: sum.splits)
  have "validate_launch launch (kt_name k) = None"
    using impl assms(2,3) insts by (auto simp: run_kernel_tokens_impl_def failed_launch_def split: option.splits)
  then obtain ms obs ctas where
    "simt_run_serial (en_fp env) (ac_sim (rt_cfg rt)) rg
      \<lparr>ms_mgr = with_params (kt_params k) args (rt_mem rt), ms_local = Map.empty\<rparr> (rt_obs rt)
      (kernel_of_tokens k insts) launch = Some (res, ms, obs, ctas)"
    "fst r = rt\<lparr>rt_mem := ms_mgr ms, rt_obs := obs\<rparr>"
    using impl assms(2,4) insts by (auto simp: run_kernel_tokens_impl_def simt_run_def)
  then show ?thesis using loaded insts by blast
qed

lemma run_entry_bound:
  assumes "run_entry env rt toks entry isa reg args launch = Some r" and "snd r = Inr res" and "sr_diag res = None"
  shows "run_bound env rt (e_bind toks (\<lambda>ks. bind_kernel_by_name ks entry)) isa reg args launch = Some r"
  using assms by (auto simp: run_entry_def failed_launch_def split: sum.splits)

section \<open>Selecting the components\<close>

text \<open>A string found by following keys from the root of the configuration.\<close>

fun json_path :: "'n json \<Rightarrow> string list \<Rightarrow> string option" where
  "json_path (JStr s) [] = Some s"
| "json_path v [] = None"
| "json_path v (k # ks) = (case json_get v k of None \<Rightarrow> None | Some w \<Rightarrow> json_path w ks)"

text \<open>
  Where a selector comes from: the components of the architecture, else the defaults of its
  profile, else the older section, else the built-in default.
\<close>

definition selected :: "'n json \<Rightarrow> string \<Rightarrow> string list \<Rightarrow> string \<Rightarrow> string" where
  "selected root sel old dflt =
     (case json_path root [''arch'', ''components'', sel] of
        Some s \<Rightarrow> s
      | None \<Rightarrow>
          if json_path root [''arch'', ''profile''] = Some ''baseline_no_cache'' then dflt
          else case json_path root old of Some s \<Rightarrow> s | None \<Rightarrow> dflt)"

lemma as_string_Inr [simp]: "as_string v = Inr s \<longleftrightarrow> v = JStr s"
  by (cases v) auto

lemma as_object_Inr [simp]: "as_object v = Inr kvs \<longleftrightarrow> v = JObj kvs"
  by (cases v) auto

lemma opt_sets:
  assumes "opt_field obj key (\<lambda>v c. e_bind (as_string v) (\<lambda>x. Inr (set_sim (g x) c))) c = Inr c'"
    and "\<And>x s. F (g x s) = x"
  shows "F (ac_sim c') = (case json_path (JObj obj) [key] of Some x \<Rightarrow> x | None \<Rightarrow> F (ac_sim c))"
  using assms by (auto simp: opt_field_def e_bind_Inr_iff set_sim_def split: option.splits)

lemma opt_keeps:
  assumes "opt_field obj key (\<lambda>v c. e_bind (P v) (\<lambda>x. Inr (set_sim (g x) c))) c = Inr c'"
    and "\<And>x s. F (g x s) = F s"
  shows "F (ac_sim c') = F (ac_sim c)"
  using assms by (auto simp: opt_field_def e_bind_Inr_iff set_sim_def split: option.splits)

lemma sim_section:
  assumes "load_sim_section to_u64 v c = Inr c'"
  shows "cfg_cta_scheduler (ac_sim c') =
      (case json_path v [''cta_scheduler''] of Some s \<Rightarrow> s | None \<Rightarrow> cfg_cta_scheduler (ac_sim c))"
    "cfg_warp_scheduler (ac_sim c') =
      (case json_path v [''warp_scheduler''] of Some s \<Rightarrow> s | None \<Rightarrow> cfg_warp_scheduler (ac_sim c))"
    "cfg_memory_model (ac_sim c') = cfg_memory_model (ac_sim c)"
proof -
  from assms [unfolded load_sim_section_def e_bind_Inr_iff] obtain so c1 c2 c3 c4 c5 c6 c7 where v: "v = JObj so" and s:
    "opt_field so ''warp_size'' (\<lambda>v c. e_bind (as_u64 to_u64 v) (\<lambda>n. Inr (set_sim (\<lambda>s. s\<lparr>cfg_warp_size := ucast n\<rparr>) c))) c = Inr c1"
    "opt_field so ''max_steps'' (\<lambda>v c. e_bind (as_u64 to_u64 v) (\<lambda>n. Inr (set_sim (\<lambda>s. s\<lparr>cfg_max_steps := n\<rparr>) c))) c1 = Inr c2"
    "opt_field so ''sm_count'' (\<lambda>v c. e_bind (as_u64 to_u64 v) (\<lambda>n. Inr (set_sim (\<lambda>s. s\<lparr>cfg_sm_count := ucast n\<rparr>) c))) c2 = Inr c3"
    "opt_field so ''parallel'' (\<lambda>v c. e_bind (as_bool v) (\<lambda>b. Inr (set_sim (\<lambda>s. s\<lparr>cfg_parallel := b\<rparr>) c))) c3 = Inr c4"
    "opt_field so ''deterministic'' (\<lambda>v c. e_bind (as_bool v) (\<lambda>b. Inr (set_sim (\<lambda>s. s\<lparr>cfg_deterministic := b\<rparr>) c))) c4 = Inr c5"
    "opt_field so ''cta_scheduler'' (\<lambda>v c. e_bind (as_string v) (\<lambda>x. Inr (set_sim (\<lambda>s. s\<lparr>cfg_cta_scheduler := x\<rparr>) c))) c5 = Inr c6"
    "opt_field so ''warp_scheduler'' (\<lambda>v c. e_bind (as_string v) (\<lambda>x. Inr (set_sim (\<lambda>s. s\<lparr>cfg_warp_scheduler := x\<rparr>) c))) c6 = Inr c7"
    "opt_field so ''allow_unknown_selectors'' (\<lambda>v c. e_bind (as_bool v) (\<lambda>b. Inr (set_sim (\<lambda>s. s\<lparr>cfg_allow_unknown := b\<rparr>) c))) c7 = Inr c'"
    by auto
  note keep = opt_keeps [OF s(1)] opt_keeps [OF s(2)] opt_keeps [OF s(3)] opt_keeps [OF s(4)] opt_keeps [OF s(5)]
    opt_keeps [OF s(6)] opt_keeps [OF s(7)] opt_keeps [OF s(8)]
  show "cfg_cta_scheduler (ac_sim c') =
      (case json_path v [''cta_scheduler''] of Some s \<Rightarrow> s | None \<Rightarrow> cfg_cta_scheduler (ac_sim c))"
    using opt_sets [OF s(6), where F = cfg_cta_scheduler] keep [where F = cfg_cta_scheduler] by (simp add: v cong: option.case_cong)
  show "cfg_warp_scheduler (ac_sim c') =
      (case json_path v [''warp_scheduler''] of Some s \<Rightarrow> s | None \<Rightarrow> cfg_warp_scheduler (ac_sim c))"
    using opt_sets [OF s(7), where F = cfg_warp_scheduler] keep [where F = cfg_warp_scheduler] by (simp add: v cong: option.case_cong)
  show "cfg_memory_model (ac_sim c') = cfg_memory_model (ac_sim c)"
    using keep [where F = cfg_memory_model] by simp
qed

lemma memory_section:
  assumes "load_memory_section v c = Inr c'"
  shows "cfg_memory_model (ac_sim c') =
      (case json_path v [''model''] of Some s \<Rightarrow> s | None \<Rightarrow> cfg_memory_model (ac_sim c))"
    "cfg_cta_scheduler (ac_sim c') = cfg_cta_scheduler (ac_sim c)"
    "cfg_warp_scheduler (ac_sim c') = cfg_warp_scheduler (ac_sim c)"
proof -
  from assms [unfolded load_memory_section_def e_bind_Inr_iff] obtain mo where v: "v = JObj mo" and s:
    "opt_field mo ''model'' (\<lambda>v c. e_bind (as_string v) (\<lambda>x. Inr (set_sim (\<lambda>s. s\<lparr>cfg_memory_model := x\<rparr>) c))) c = Inr c'"
    by auto
  show "cfg_memory_model (ac_sim c') =
      (case json_path v [''model''] of Some s \<Rightarrow> s | None \<Rightarrow> cfg_memory_model (ac_sim c))"
    using opt_sets [OF s, where F = cfg_memory_model] by (simp add: v)
  show "cfg_cta_scheduler (ac_sim c') = cfg_cta_scheduler (ac_sim c)"
    "cfg_warp_scheduler (ac_sim c') = cfg_warp_scheduler (ac_sim c)"
    using opt_keeps [OF s, where F = cfg_cta_scheduler] opt_keeps [OF s, where F = cfg_warp_scheduler] by simp_all
qed

lemma components_section:
  assumes "load_components v c = Inr c'"
  shows "cfg_cta_scheduler (ac_sim c') =
      (case json_path v [''cta_scheduler''] of Some s \<Rightarrow> s | None \<Rightarrow> cfg_cta_scheduler (ac_sim c))"
    "cfg_warp_scheduler (ac_sim c') =
      (case json_path v [''warp_scheduler''] of Some s \<Rightarrow> s | None \<Rightarrow> cfg_warp_scheduler (ac_sim c))"
    "cfg_memory_model (ac_sim c') =
      (case json_path v [''memory_model''] of Some s \<Rightarrow> s | None \<Rightarrow> cfg_memory_model (ac_sim c))"
proof -
  from assms [unfolded load_components_def e_bind_Inr_iff] obtain co c1 c2 where v: "v = JObj co" and s:
    "opt_field co ''cta_scheduler'' (\<lambda>v c. e_bind (as_string v) (\<lambda>x. Inr (set_sim (\<lambda>s. s\<lparr>cfg_cta_scheduler := x\<rparr>) c))) c = Inr c1"
    "opt_field co ''warp_scheduler'' (\<lambda>v c. e_bind (as_string v) (\<lambda>x. Inr (set_sim (\<lambda>s. s\<lparr>cfg_warp_scheduler := x\<rparr>) c))) c1 = Inr c2"
    "opt_field co ''memory_model'' (\<lambda>v c. e_bind (as_string v) (\<lambda>x. Inr (set_sim (\<lambda>s. s\<lparr>cfg_memory_model := x\<rparr>) c))) c2 = Inr c'"
    by auto
  note keep = opt_keeps [OF s(1)] opt_keeps [OF s(2)] opt_keeps [OF s(3)]
  show "cfg_cta_scheduler (ac_sim c') =
      (case json_path v [''cta_scheduler''] of Some s \<Rightarrow> s | None \<Rightarrow> cfg_cta_scheduler (ac_sim c))"
    using opt_sets [OF s(1), where F = cfg_cta_scheduler] keep [where F = cfg_cta_scheduler] by (simp add: v cong: option.case_cong)
  show "cfg_warp_scheduler (ac_sim c') =
      (case json_path v [''warp_scheduler''] of Some s \<Rightarrow> s | None \<Rightarrow> cfg_warp_scheduler (ac_sim c))"
    using opt_sets [OF s(2), where F = cfg_warp_scheduler] keep [where F = cfg_warp_scheduler] by (simp add: v cong: option.case_cong)
  show "cfg_memory_model (ac_sim c') =
      (case json_path v [''memory_model''] of Some s \<Rightarrow> s | None \<Rightarrow> cfg_memory_model (ac_sim c))"
    using opt_sets [OF s(3), where F = cfg_memory_model] keep [where F = cfg_memory_model] by (simp add: v cong: option.case_cong)
qed

lemma arch_section:
  assumes "load_arch_section v c = Inr c'" and "F = cfg_cta_scheduler \<and> sel = ''cta_scheduler'' \<and> dflt = ''fifo'' \<or>
    F = cfg_warp_scheduler \<and> sel = ''warp_scheduler'' \<and> dflt = ''in_order_run_to_completion'' \<or>
    F = cfg_memory_model \<and> sel = ''memory_model'' \<and> dflt = ''no_cache_addrspace''"
  shows "F (ac_sim c') =
    (case json_path v [''components'', sel] of
       Some s \<Rightarrow> s
     | None \<Rightarrow> if json_path v [''profile''] = Some ''baseline_no_cache'' then dflt else F (ac_sim c))"
proof -
  from assms(1) [unfolded load_arch_section_def e_bind_Inr_iff] obtain ao c1 where v: "v = JObj ao" and s:
    "opt_field ao ''profile'' (\<lambda>v c. e_bind (as_string v) (\<lambda>p. Inr (set_sim (apply_profile p) c))) c = Inr c1"
    "opt_field ao ''components'' load_components c1 = Inr c'"
    by auto
  have 1: "F (ac_sim c1) = (if json_path v [''profile''] = Some ''baseline_no_cache'' then dflt else F (ac_sim c))"
  proof (cases "map_of ao ''profile''")
    case None
    then show ?thesis using s(1) by (simp add: v opt_field_def)
  next
    case (Some w)
    with s(1) obtain p where "w = JStr p" "c1 = set_sim (apply_profile p) c"
      by (auto simp: opt_field_def e_bind_Inr_iff)
    then show ?thesis using Some assms(2)
      by (elim disjE) (simp_all add: v set_sim_def apply_profile_def Let_def)
  qed
  show ?thesis
  proof (cases "map_of ao ''components''")
    case None
    then show ?thesis using s(2) 1 by (simp add: v opt_field_def)
  next
    case (Some w)
    then have "load_components w c1 = Inr c'" using s(2) by (simp add: opt_field_def)
    from components_section [OF this]
    have "F (ac_sim c') = (case json_path w [sel] of Some s \<Rightarrow> s | None \<Rightarrow> F (ac_sim c1))"
      using assms(2) by (elim disjE) (simp_all cong: option.case_cong)
    then show ?thesis using Some 1 by (simp add: v cong: option.case_cong)
  qed
qed

lemma opt_section:
  assumes "opt_field obj key f c = Inr c'" and "\<And>v. map_of obj key = Some v \<Longrightarrow> f v c = Inr c' \<Longrightarrow> P (Some v) c'"
    and "map_of obj key = None \<Longrightarrow> P None c"
  shows "P (map_of obj key) c'"
  using assms by (auto simp: opt_field_def split: option.splits)

lemma obs_section: "load_obs_section to_u64 v c = Inr c' \<Longrightarrow> ac_sim c' = ac_sim c"
  by (auto simp: load_obs_section_def e_bind_Inr_iff opt_field_def split: option.splits)

lemma load_sections:
  assumes "load_app_config to_u64 root = Inr c"
    and "F = cfg_cta_scheduler \<and> sel = ''cta_scheduler'' \<and> dflt = ''fifo'' \<and> old = [''sim'', ''cta_scheduler''] \<or>
    F = cfg_warp_scheduler \<and> sel = ''warp_scheduler'' \<and> dflt = ''in_order_run_to_completion'' \<and> old = [''sim'', ''warp_scheduler''] \<or>
    F = cfg_memory_model \<and> sel = ''memory_model'' \<and> dflt = ''no_cache_addrspace'' \<and> old = [''memory'', ''model'']"
  shows "F (ac_sim c) = selected root sel old dflt"
proof -
  from assms(1) [unfolded load_app_config_def e_bind_Inr_iff] obtain obj c1 c2 c3 where root: "root = JObj obj" and s:
    "opt_field obj ''sim'' (load_sim_section to_u64) app_config_default = Inr c1"
    "opt_field obj ''memory'' load_memory_section c1 = Inr c2"
    "opt_field obj ''arch'' load_arch_section c2 = Inr c3"
    "opt_field obj ''observability'' (load_obs_section to_u64) c3 = Inr c"
    by auto
  have dflt: "F (ac_sim app_config_default) = dflt"
    using assms(2) by (auto simp: app_config_default_def sim_config_default_def)
  have one: "F (ac_sim c1) = (if hd old = ''sim'' then case json_path root old of Some x \<Rightarrow> x | None \<Rightarrow> dflt else dflt)"
  proof (cases "map_of obj ''sim''")
    case None
    then show ?thesis using s(1) dflt assms(2) by (auto simp: opt_field_def root)
  next
    case (Some w)
    then have "load_sim_section to_u64 w app_config_default = Inr c1" using s(1) by (simp add: opt_field_def)
    from sim_section [OF this] show ?thesis using Some dflt assms(2)
      by (elim disjE) (simp_all add: root cong: option.case_cong)
  qed
  have two: "F (ac_sim c2) = (case json_path root old of Some x \<Rightarrow> x | None \<Rightarrow> dflt)"
  proof (cases "map_of obj ''memory''")
    case None
    then show ?thesis using s(2) one assms(2) by (auto simp: opt_field_def root)
  next
    case (Some w)
    then have "load_memory_section w c1 = Inr c2" using s(2) by (simp add: opt_field_def)
    from memory_section [OF this] show ?thesis using Some one assms(2)
      by (elim disjE) (simp_all add: root cong: option.case_cong)
  qed
  have "F (ac_sim c3) = selected root sel old dflt"
  proof (cases "map_of obj ''arch''")
    case None
    then show ?thesis using s(3) two by (simp add: opt_field_def root selected_def)
  next
    case (Some w)
    then have w: "load_arch_section w c2 = Inr c3" using s(3) by (simp add: opt_field_def)
    have "F (ac_sim c3) = (case json_path w [''components'', sel] of
       Some s \<Rightarrow> s
     | None \<Rightarrow> if json_path w [''profile''] = Some ''baseline_no_cache'' then dflt else F (ac_sim c2))"
      by (rule arch_section [OF w]) (use assms(2) in blast)
    then show ?thesis using Some two by (simp add: root selected_def cong: option.case_cong if_cong)
  qed
  moreover have "ac_sim c = ac_sim c3"
    using s(4) obs_section by (auto simp: opt_field_def split: option.splits)
  ultimately show ?thesis by simp
qed

section \<open>Properties\<close>

text \<open>
  C39.  The configuration selects each component in a fixed order of precedence, whatever the
  order of the text: the components of the architecture, else the defaults of the baseline
  profile, else the older section of the file, else the built-in default.
\<close>

theorem config_precedence:
  assumes "load_app_config to_u64 root = Inr c"
  shows "cfg_cta_scheduler (ac_sim c) = selected root ''cta_scheduler'' [''sim'', ''cta_scheduler''] ''fifo'' \<and>
    cfg_warp_scheduler (ac_sim c) =
      selected root ''warp_scheduler'' [''sim'', ''warp_scheduler''] ''in_order_run_to_completion'' \<and>
    cfg_memory_model (ac_sim c) = selected root ''memory_model'' [''memory'', ''model''] ''no_cache_addrspace''"
  by (intro conjI; rule load_sections [OF assms]; blast)

definition demo_config :: "unit json" where
  "demo_config = JObj
     [(''arch'', JObj [(''components'', JObj [(''warp_scheduler'', JStr ''round_robin_interleave_step'')]),
                       (''profile'', JStr ''baseline_no_cache'')]),
      (''sim'', JObj [(''cta_scheduler'', JStr ''sm_round_robin'')])]"

lemma config_precedence_witness:
  "\<exists>c. load_app_config (\<lambda>_. 0) demo_config = Inr c \<and> cfg_cta_scheduler (ac_sim c) = ''fifo'' \<and>
     cfg_warp_scheduler (ac_sim c) = ''round_robin_interleave_step''"
proof -
  have "case load_app_config (\<lambda>_. 0) demo_config of Inr _ \<Rightarrow> True | Inl _ \<Rightarrow> False" by code_simp
  then obtain c where c: "load_app_config (\<lambda>_. 0) demo_config = Inr c" by (auto split: sum.splits)
  have "selected demo_config ''cta_scheduler'' [''sim'', ''cta_scheduler''] ''fifo'' = ''fifo''"
    "selected demo_config ''warp_scheduler'' [''sim'', ''warp_scheduler''] ''in_order_run_to_completion''
      = ''round_robin_interleave_step''"
    by code_simp+
  then show ?thesis using c config_precedence [OF c] by simp
qed

text \<open>
  C37.  What a host-to-device copy puts on the device, a device-to-host copy of the same range
  brings back: the bytes of the source buffer arrive at the target offset, the rest of the
  target buffer and its length stay, and no other host buffer changes.
\<close>

theorem host_device_round_trip:
  assumes "memcpy_h2d d src so n st = (st1, Inr u)" and "memcpy_d2h dst off d n st1 = (st2, Inr u')" and "n \<noteq> 0"
  shows "\<exists>a b. rt_host st src = Some a \<and> rt_host st dst = Some b \<and>
    unat so + unat n \<le> length a \<and> unat off + unat n \<le> length b \<and>
    rt_host st2 = (rt_host st)(dst \<mapsto>
      take (unat off) b @ take (unat n) (drop (unat so) a) @ drop (unat off + unat n) b)"
proof -
  obtain data where data: "host_read src so n st = Inr (Some data)" "write_global (rt_mem st) d data = (rt_mem st1, True)"
    "rt_host st1 = rt_host st"
    using assms(1) by (auto simp: memcpy_h2d_def split: sum.splits option.splits prod.splits bool.splits)
  from host_read_some [OF data(1)] assms(3) obtain a where a: "rt_host st src = Some a" "unat so + unat n \<le> length a"
    "data = take (unat n) (drop (unat so) a)" by auto
  then have len: "length data = unat n" "length data < 2 ^ 64" using unat_u64_less [of n] by simp_all
  then have "read_global (rt_mem st1) d n = Some data" using read_written [OF data(2)] by simp
  then have w: "host_write dst off data st1 = (st2, Inr u')" using assms(2) by (simp add: memcpy_d2h_def)
  have ne: "data \<noteq> []" using len(1) assms(3) by (auto simp: unat_eq_0)
  from host_write_ok [OF w] obtain b where b: "rt_host st1 dst = Some b"
    "rt_host st2 dst = Some (take (unat off) b @ data @ drop (unat off + length data) b)"
    "unat off + length data \<le> length b" "\<forall>h. h \<noteq> dst \<longrightarrow> rt_host st2 h = rt_host st1 h"
    using ne by auto
  have "rt_host st2 = (rt_host st)(dst \<mapsto> take (unat off) b @ take (unat n) (drop (unat so) a) @ drop (unat off + unat n) b)"
    using b(2,4) data(3) len(1) a(3) by (auto simp: fun_eq_iff)
  then show ?thesis using a b(1,3) data(3) len(1) by auto
qed

definition demo_runtime :: runtime where
  "demo_runtime = (runtime_init app_config_default)\<lparr>rt_host := [1 \<mapsto> [1, 2, 3, 4], 2 \<mapsto> [9, 9, 9, 9]]\<rparr>"

lemma host_device_round_trip_witness:
  "\<exists>st st1 st2. memcpy_h2d 0x1000 1 1 2 st = (st1, Inr ()) \<and> memcpy_d2h 2 0 0x1000 2 st1 = (st2, Inr ()) \<and>
     rt_host st2 2 = Some [2, 3, 9, 9]"
proof -
  define st where "st = fst (device_malloc 16 16 demo_runtime)"
  have st: "case memcpy_h2d 0x1000 1 1 2 st of
      (st1, Inr _) \<Rightarrow> (case memcpy_d2h 2 0 0x1000 2 st1 of (st2, Inr _) \<Rightarrow> True | _ \<Rightarrow> False)
    | _ \<Rightarrow> False"
    by (simp add: st_def device_malloc_def demo_runtime_def runtime_init_def memcpy_h2d_def memcpy_d2h_def
        host_read_def host_write_def max_vector_def read_global_def write_global_def global_range_allocated_def
        alloc_covers_def alloc_global_def align_up_def manager_init_def)
  obtain st1 r1 where h: "memcpy_h2d 0x1000 1 1 2 st = (st1, r1)" by fastforce
  obtain st2 r2 where d: "memcpy_d2h 2 0 0x1000 2 st1 = (st2, r2)" by fastforce
  have r: "r1 = Inr ()" "r2 = Inr ()" using st h d by (auto split: sum.splits)
  have host: "rt_host st = [1 \<mapsto> [1, 2, 3, 4], 2 \<mapsto> [9, 9, 9, 9]]"
    by (simp add: st_def device_malloc_def demo_runtime_def split: prod.split)
  have "rt_host st2 2 = Some [2, 3, 9, 9]"
    using host_device_round_trip [OF h [unfolded r] d [unfolded r]] by (auto simp: host)
  then show ?thesis using h d r by auto
qed

text \<open>
  Parameters never carry over: a run gives the same result and leaves the same state,
  whatever parameters an earlier run has left in the memory, and a run without arguments has an
  empty parameter block.
\<close>

theorem parameters_never_carry_over:
  fixes stale :: runtime
  assumes "run_kernel_tokens_impl env st kt isa reg args launch = Some (st', Inr res)"
    and "map_kernel isa (kt_insts kt) = Inr (Inr insts)" and "validate_launch launch (kt_name kt) = None"
  shows "run_kernel_tokens_impl env (st\<lparr>rt_mem := set_param_blob (set_param_layout (rt_mem st) l) b\<rparr>)
      kt isa reg args launch = Some (st', Inr res) \<and>
    param_blob (with_params (kt_params kt) None (rt_mem st)) = []"
proof -
  have "run_kernel_tokens_impl env (st\<lparr>rt_mem := set_param_blob (set_param_layout (rt_mem st) l) b\<rparr>)
      kt isa reg args launch = run_kernel_tokens_impl env st kt isa reg args launch"
    unfolding run_kernel_tokens_impl_def assms(2,3) by (simp add: with_params_reset)
  then show ?thesis using assms(1) by (simp add: with_params_def set_param_blob_def)
qed

definition demo_rt_env :: "unit rt_env" where
  "demo_rt_env =
     \<lparr>en_fp = f32_trivial, en_strtod = \<lambda>_. Some (), en_to_int = \<lambda>_. 0, en_to_u64 = \<lambda>_. 0, en_hash_order = rev,
      en_file = \<lambda>_. None, en_parallel_run = \<lambda>_ _ _ _ _ _. None\<rparr>"

definition demo_tokens :: kernel_tokens where
  "demo_tokens = \<lparr>kt_name = ''k'', kt_reg_u32_count = 0, kt_reg_u64_count = 0, kt_params = [], kt_insts = []\<rparr>"

lemma parameters_never_carry_over_witness:
  "\<exists>st' res. run_kernel_tokens_impl demo_rt_env
      (demo_runtime\<lparr>rt_mem := set_param_blob (set_param_layout (rt_mem demo_runtime) []) [7]\<rparr>)
      demo_tokens [] [] None (rt_default_launch demo_runtime) = Some (st', Inr res)"
proof -
  let ?l = "rt_default_launch demo_runtime"
  have m: "map_kernel [] (kt_insts demo_tokens) = Inr (Inr [])" by (simp add: map_kernel_def demo_tokens_def)
  have v: "validate_launch ?l (kt_name demo_tokens) = None" by code_simp
  have "\<not> parallel_enabled (ac_sim (rt_cfg demo_runtime))" by code_simp
  then obtain st' res where r: "run_kernel_tokens_impl demo_rt_env demo_runtime demo_tokens [] [] None ?l = Some (st', Inr res)"
    using run_impl_total [of demo_runtime demo_rt_env demo_tokens "[]" "[]" None ?l] m v
    by (auto simp: run_kernel_tokens_impl_def)
  show ?thesis using parameters_never_carry_over [OF r m v] by blast
qed

text \<open>
  Every kernel run returns, errors of the assets and of the kernel name included, unless the
  configuration asks for worker threads.
\<close>

theorem kernel_runs_return:
  assumes "\<not> parallel_enabled (ac_sim (rt_cfg st))"
  shows "run_ptx_kernel_launch env ptx isa desc launch st \<noteq> None \<and>
    run_ptx_kernel_with_args_launch env ptx isa desc args launch st \<noteq> None \<and>
    run_ptx_kernel_entry_launch env ptx isa desc entry launch st \<noteq> None \<and>
    run_ptx_kernel_with_args_entry_launch env ptx isa desc entry args launch st \<noteq> None \<and>
    run_ptx_kernel_text_launch env ptx isa desc launch st \<noteq> None \<and>
    run_ptx_kernel_with_args_text_launch env ptx isa desc args launch st \<noteq> None \<and>
    run_ptx_kernel_text_entry_launch env ptx isa desc entry launch st \<noteq> None \<and>
    run_ptx_kernel_with_args_text_entry_launch env ptx isa desc entry args launch st \<noteq> None"
  unfolding run_ptx_kernel_launch_def run_ptx_kernel_with_args_launch_def run_ptx_kernel_entry_launch_def
    run_ptx_kernel_with_args_entry_launch_def run_ptx_kernel_text_launch_def run_ptx_kernel_with_args_text_launch_def
    run_ptx_kernel_text_entry_launch_def run_ptx_kernel_with_args_text_entry_launch_def
  using run_bound_total [OF assms] run_entry_total [OF assms] by blast

lemma kernel_runs_return_witness:
  "run_ptx_kernel_text_launch demo_rt_env demo_ptx [] [] (rt_default_launch demo_runtime) demo_runtime \<noteq> None"
proof -
  have "\<not> parallel_enabled (ac_sim (rt_cfg demo_runtime))" by code_simp
  then show ?thesis using kernel_runs_return by blast
qed

text \<open>
  The bounds check of the host buffers adds in 64 bits and wraps: a write of two bytes at
  the offset \<open>2 ^ 64 - 1\<close> passes the check on any buffer and goes outside it.
\<close>

theorem host_bounds_check_wraps:
  assumes "rt_host st h = Some buf" and "0 < length buf" and "length buf < 2 ^ 63"
  shows "host_write h 0xFFFFFFFFFFFFFFFF [x, y] st = (st, Inl Undefined)"
proof -
  have "\<not> (0xFFFFFFFFFFFFFFFF + of_nat (length [x, y]) > (of_nat (length buf) :: u64))"
    using assms(2,3) by (simp add: word_less_nat_alt unat_of_nat_u64 not_less)
  then show ?thesis using assms by (simp add: host_write_def)
qed

lemma host_bounds_check_wraps_witness:
  "host_write 1 0xFFFFFFFFFFFFFFFF [5, 6] demo_runtime = (demo_runtime, Inl Undefined)"
  by (rule host_bounds_check_wraps [of _ _ "[1, 2, 3, 4]"]) (simp_all add: demo_runtime_def)

end
