(* ===== verification/Params.thy ===== *)
theory Params
  imports Runtime
begin

text \<open>
  Blocks of kernel parameters: what it means that a block of bytes holds a parameter, shared by
  the two parts of the program that pack arguments (\<open>src/runtime/workload.cpp\<close> and
  \<open>cuda/src/cudart_shim/kernel_args_pack.cpp\<close>).
\<close>

definition param_of :: "param_desc list \<Rightarrow> string \<Rightarrow> param_desc option" where
  "param_of layout name = find (\<lambda>p. pd_name p = name) layout"

definition param_slice :: "param_desc \<Rightarrow> u8 list \<Rightarrow> u8 list" where
  "param_slice p blob = take (unat (pd_size p)) (drop (unat (pd_offset p)) blob)"

definition apart :: "param_desc \<Rightarrow> param_desc \<Rightarrow> bool" where
  "apart p q \<longleftrightarrow> unat (pd_offset p) + unat (pd_size p) \<le> unat (pd_offset q) \<or>
     unat (pd_offset q) + unat (pd_size q) \<le> unat (pd_offset p)"

lemma layout_apart:
  assumes "layout_ok ps" and "p \<in> set ps" and "q \<in> set ps" and "p \<noteq> q"
  shows "apart p q"
proof -
  from assms(2,3) obtain i j where "i < length ps" "j < length ps" "p = ps ! i" "q = ps ! j"
    by (auto simp: in_set_conv_nth)
  moreover from this assms(4) have "i < j \<or> j < i" by (metis linorder_neqE_nat)
  ultimately show ?thesis using assms(1) by (auto simp: layout_ok_def apart_def sorted_wrt_iff_nth_less)
qed

definition blob_put :: "u32 \<Rightarrow> u8 list \<Rightarrow> u8 list \<Rightarrow> u8 list" where
  "blob_put off bytes blob = take (unat off) blob @ bytes @ drop (unat off + length bytes) blob"

lemma blob_put_slices:
  assumes "unat (pd_offset p) + unat (pd_size p) \<le> length blob" and "length bytes = unat (pd_size p)"
  shows "length (blob_put (pd_offset p) bytes blob) = length blob \<and>
    param_slice p (blob_put (pd_offset p) bytes blob) = bytes \<and>
    (\<forall>q. apart p q \<longrightarrow> param_slice q (blob_put (pd_offset p) bytes blob) = param_slice q blob)"
proof -
  let ?o = "unat (pd_offset p)" and ?n = "unat (pd_size p)" and ?b = "blob_put (pd_offset p) bytes blob"
  have "param_slice q ?b = param_slice q blob" if "apart p q" for q
  proof (cases "?o + ?n \<le> unat (pd_offset q)")
    case True
    then have "drop (unat (pd_offset q)) ?b = drop (unat (pd_offset q)) blob"
      using assms by (simp add: blob_put_def)
    then show ?thesis by (simp add: param_slice_def)
  next
    case False
    then have "unat (pd_offset q) + unat (pd_size q) \<le> ?o" using that by (auto simp: apart_def)
    then show ?thesis using assms(1) by (simp add: param_slice_def blob_put_def take_drop)
  qed
  then show ?thesis using assms by (simp add: blob_put_def param_slice_def)
qed

lemma param_of_mem: "param_of layout name = Some p \<Longrightarrow> p \<in> set layout \<and> pd_name p = name"
  by (auto simp: param_of_def find_Some_iff)

lemma fold_first:
  "fold (\<lambda>p l. if pd_name p \<in> dom l then l else l(pd_name p \<mapsto> p)) ps m name =
     (case m name of Some p \<Rightarrow> Some p | None \<Rightarrow> param_of ps name)"
  by (induction ps arbitrary: m) (auto simp: param_of_def split: option.split)

lemma read_param_slice:
  assumes "param_of (ka_layout ka) name = Some p"
    and "unat (pd_offset p) + unat (pd_size p) \<le> length (ka_blob ka)" and "length (ka_blob ka) < 2 ^ 32"
  shows "read_param_symbol (with_params (ka_layout ka) (Some ka) m) name (ucast (pd_size p)) =
    Some (param_slice p (ka_blob ka))"
proof -
  have add: "unat (ucast (pd_offset p) + of_nat i :: u64) = unat (pd_offset p) + i" if "i \<le> unat (pd_size p)" for i
  proof -
    have "unat (of_nat i :: u64) = i" using that assms(2,3) by (simp add: unat_of_nat_u64)
    then show ?thesis using that assms(2,3) unat_add_u64 [of "ucast (pd_offset p)" "of_nat i"] by simp
  qed
  have "unat (ucast (pd_offset p) + ucast (pd_size p) :: u64) = unat (pd_offset p) + unat (pd_size p)"
    using assms(2,3) unat_add_u64 [of "ucast (pd_offset p)" "ucast (pd_size p)"] by simp
  moreover have "map (\<lambda>i. ka_blob ka ! unat (ucast (pd_offset p) + of_nat i :: u64)) [0..<unat (pd_size p)] =
      param_slice p (ka_blob ka)"
    using assms(2) by (auto simp: param_slice_def add intro!: nth_equalityI)
  ultimately show ?thesis using assms(1,2)
    by (simp add: read_param_symbol_def with_params_def set_param_layout_def set_param_blob_def fold_first Let_def)
qed

end
