(* ===== verification/Queues.thy ===== *)
theory Queues
  imports Prelude "HOL-Library.Sublist"
begin

text \<open>
  Queues of commands that signal and wait: the abstract machine that the workload engine
  implements.  A state is a queue for each stream and the log of the commands that were run; a
  step runs the head of any queue that is ready, given the signals of the commands in the log.
  Nothing is said about the order in which streams are served.
\<close>

type_synonym ('k, 'c) queues = "('k \<Rightarrow> 'c list) \<times> ('k \<times> 'c) list"

definition signals_of :: "('c \<Rightarrow> 'e set) \<Rightarrow> ('k \<times> 'c) list \<Rightarrow> 'e set" where
  "signals_of sig log = (\<Union>x \<in> set log. sig (snd x))"

definition run_of :: "'k \<Rightarrow> ('k \<times> 'c) list \<Rightarrow> 'c list" where
  "run_of k log = map snd (filter (\<lambda>x. fst x = k) log)"

inductive queue_step ::
  "('e set \<Rightarrow> 'c \<Rightarrow> bool) \<Rightarrow> ('c \<Rightarrow> 'e set) \<Rightarrow> 'k set \<Rightarrow> ('k, 'c) queues \<Rightarrow> ('k, 'c) queues \<Rightarrow> bool"
  for ready :: "'e set \<Rightarrow> 'c \<Rightarrow> bool" and sig :: "'c \<Rightarrow> 'e set" and ks :: "'k set"
where
  run_head: "k \<in> ks \<Longrightarrow> q k = c # cs \<Longrightarrow> ready (signals_of sig log) c \<Longrightarrow>
    queue_step ready sig ks (q, log) (q(k := cs), log @ [(k, c)])"

inductive_cases queue_stepE [elim]: "queue_step ready sig ks s t"

abbreviation queue_reach where
  "queue_reach ready sig ks \<equiv> (queue_step ready sig ks)\<^sup>*\<^sup>*"

text \<open>No head is ready.\<close>

definition stuck :: "('e set \<Rightarrow> 'c \<Rightarrow> bool) \<Rightarrow> ('c \<Rightarrow> 'e set) \<Rightarrow> 'k set \<Rightarrow> ('k, 'c) queues \<Rightarrow> bool" where
  "stuck ready sig ks s \<longleftrightarrow>
     (\<forall>k \<in> ks. fst s k \<noteq> [] \<longrightarrow> \<not> ready (signals_of sig (snd s)) (hd (fst s k)))"

lemma signals_of_append [simp]: "signals_of sig (log @ log') = signals_of sig log \<union> signals_of sig log'"
  by (auto simp: signals_of_def)

lemma signals_of_simps [simp]: "signals_of sig [] = {}" "signals_of sig (x # log) = sig (snd x) \<union> signals_of sig log"
  by (auto simp: signals_of_def)

lemma run_of_append [simp]: "run_of k (log @ log') = run_of k log @ run_of k log'"
  by (simp add: run_of_def)

lemma run_of_simps [simp]: "run_of k [] = []" "run_of k (x # log) = (if fst x = k then [snd x] else []) @ run_of k log"
  by (simp_all add: run_of_def)

lemma run_of_signals: "c \<in> set (run_of k log) \<Longrightarrow> sig c \<subseteq> signals_of sig log"
  by (auto simp: run_of_def signals_of_def)

text \<open>Every queue is run from its head, in order, each command once.\<close>

lemma queue_fifo:
  assumes "queue_reach ready sig ks s t"
  shows "run_of k (snd t) @ fst t k = run_of k (snd s) @ fst s k"
  using assms
proof (induction rule: rtranclp_induct)
  case (step t u)
  from step.hyps(2) obtain q log k' c cs where "t = (q, log)" "u = (q(k' := cs), log @ [(k', c)])" "q k' = c # cs"
    by blast
  then show ?case using step.IH by auto
qed simp

text \<open>A step takes one command from the queues.\<close>

definition queued :: "'k set \<Rightarrow> ('k \<Rightarrow> 'c list) \<Rightarrow> nat" where
  "queued ks q = (\<Sum>k \<in> ks. length (q k))"

lemma queue_conserved:
  assumes "queue_reach ready sig ks s t" and "finite ks"
  shows "queued ks (fst t) + length (snd t) = queued ks (fst s) + length (snd s)"
  using assms(1)
proof (induction rule: rtranclp_induct)
  case (step t u)
  from step.hyps(2) obtain q log k c cs where u: "t = (q, log)" "u = (q(k := cs), log @ [(k, c)])" "q k = c # cs" "k \<in> ks"
    by blast
  have "queued ks q = length (q k) + (\<Sum>j \<in> ks - {k}. length (q j))"
    "queued ks (q(k := cs)) = length cs + (\<Sum>j \<in> ks - {k}. length (q j))"
    using u(4) assms(2) by (simp_all add: queued_def sum.remove [of ks k])
  then have "queued ks q = Suc (queued ks (q(k := cs)))" using u(3) by simp
  then show ?case using step.IH unfolding u by (simp del: fun_upd_apply)
qed simp

text \<open>Every command was ready when it was run.\<close>

lemma queue_ready:
  assumes "queue_reach ready sig ks s t"
    and "\<And>xs k c ys. snd s = xs @ (k, c) # ys \<Longrightarrow> ready (signals_of sig xs) c"
  shows "snd t = xs @ (k, c) # ys \<Longrightarrow> ready (signals_of sig xs) c"
  using assms(1)
proof (induction arbitrary: ys rule: rtranclp_induct)
  case base
  then show ?case using assms(2) by blast
next
  case (step t u)
  from step.hyps(2) obtain k' c' where u: "snd u = snd t @ [(k', c')]" "ready (signals_of sig (snd t)) c'"
    by auto
  show ?case
  proof (cases ys rule: rev_cases)
    case Nil
    then show ?thesis using u step.prems by simp
  next
    case (snoc zs z)
    then have "snd t = xs @ (k, c) # zs" using u(1) step.prems by simp
    then show ?thesis by (rule step.IH)
  qed
qed

text \<open>
  When more signals never make a command unready, the outcome does not depend on the order of
  the steps: no run gets further than a stuck state.
\<close>

locale monotone_queues =
  fixes ready :: "'e set \<Rightarrow> 'c \<Rightarrow> bool" and sig :: "'c \<Rightarrow> 'e set"
  assumes ready_mono: "ready S c \<Longrightarrow> S \<subseteq> T \<Longrightarrow> ready T c"
begin

lemma step_behind_stuck:
  assumes "stuck ready sig ks t" and "queue_step ready sig ks u v"
    and "\<And>k. suffix (fst t k) (fst u k)" and "signals_of sig (snd u) \<subseteq> signals_of sig (snd t)"
    and "\<And>k. run_of k (snd t) @ fst t k = run_of k (snd u) @ fst u k"
  shows "(\<forall>k. suffix (fst t k) (fst v k)) \<and> signals_of sig (snd v) \<subseteq> signals_of sig (snd t)"
proof -
  from assms(2) obtain q log k c cs where u: "u = (q, log)" "v = (q(k := cs), log @ [(k, c)])" "k \<in> ks" "q k = c # cs"
    "ready (signals_of sig log) c" by blast
  have ready: "ready (signals_of sig (snd t)) c" using ready_mono [OF u(5)] assms(4) u(1) by simp
  have "fst t k \<noteq> c # cs" using assms(1) u(3) ready by (auto simp: stuck_def)
  then have suf: "suffix (fst t k) cs" using assms(3) [of k] u(1,4) by (simp add: suffix_Cons)
  then obtain xs where xs: "cs = xs @ fst t k" by (auto simp: suffix_def)
  have "run_of k (snd t) = run_of k log @ c # xs" using assms(5) [of k] u(1,4) xs by simp
  then have "sig c \<subseteq> signals_of sig (snd t)" by (intro run_of_signals [of _ k]) simp
  then show ?thesis using assms(3,4) suf u(1,2) by simp
qed

lemma stuck_is_furthest:
  assumes "queue_reach ready sig ks (q, []) t" and "stuck ready sig ks t" and "queue_reach ready sig ks (q, []) u"
  shows "suffix (fst t k) (fst u k)"
proof -
  have fifo: "run_of k (snd t) @ fst t k = q k" for k using queue_fifo [OF assms(1), of k] by simp
  have "(\<forall>k. suffix (fst t k) (fst u k)) \<and> signals_of sig (snd u) \<subseteq> signals_of sig (snd t)"
    using assms(3)
  proof (induction rule: rtranclp_induct)
    case base
    show ?case using fifo by (auto simp: suffix_def) metis
  next
    case (step u v)
    have "run_of k (snd t) @ fst t k = run_of k (snd u) @ fst u k" for k
      using fifo queue_fifo [OF step.hyps(1), of k] by simp
    then show ?case using step_behind_stuck [OF assms(2) step.hyps(2)] step.IH by blast
  qed
  then show ?thesis by blast
qed

end

end
