(* ===== verification/WorkloadFile.thy ===== *)
theory WorkloadFile
  imports Params
begin

text \<open>
  The workload file (first half of \<open>src/runtime/workload.cpp\<close>): the declarations of buffers,
  modules and commands, their schema errors, and the packing of kernel arguments.  An error is
  a \<open>SchemaError\<close> with its diagnostic, or an error of the runtime.  The \<open>std::map\<close>s of the code
  are the sorted lists of the JSON objects they are filled from.
\<close>

datatype wl_error = SchemaError diagnostic | RtError rt_error

definition schema_fail :: "string \<Rightarrow> wl_error" where
  "schema_fail msg = SchemaError (rt_diag ''E_WORKLOAD_SCHEMA'' msg None)"

definition ref_fail :: "string \<Rightarrow> wl_error" where
  "ref_fail msg = SchemaError (rt_diag ''E_WORKLOAD_REF'' msg None)"

definition rethrow :: "json_exn + 'a \<Rightarrow> wl_error + 'a" where
  "rethrow r = (case r of Inl e \<Rightarrow> Inl (RtError (Throws e)) | Inr x \<Rightarrow> Inr x)"

definition check :: "bool \<Rightarrow> wl_error \<Rightarrow> wl_error + unit" where
  "check ok e = (if ok then Inr () else Inl e)"

definition require_field :: "(string \<times> 'n json) list \<Rightarrow> string \<Rightarrow> wl_error + 'n json" where
  "require_field obj key = of_option (schema_fail (''missing field: '' @ key)) (map_of obj key)"

definition require_string :: "'n json \<Rightarrow> string \<Rightarrow> wl_error + string" where
  "require_string v ctx =
     (case v of JStr s \<Rightarrow> Inr s | _ \<Rightarrow> Inl (schema_fail (ctx @ '': expected string'')))"

definition require_u64 :: "('n \<Rightarrow> u64) \<Rightarrow> 'n json \<Rightarrow> string \<Rightarrow> wl_error + u64" where
  "require_u64 to_u64 v ctx =
     (case v of JNum n \<Rightarrow> Inr (to_u64 n) | _ \<Rightarrow> Inl (schema_fail (ctx @ '': expected number'')))"

definition string_field :: "(string \<times> 'n json) list \<Rightarrow> string \<Rightarrow> string \<Rightarrow> wl_error + string" where
  "string_field obj key ctx = e_bind (require_field obj key) (\<lambda>v. require_string v ctx)"

definition u64_field :: "('n \<Rightarrow> u64) \<Rightarrow> (string \<times> 'n json) list \<Rightarrow> string \<Rightarrow> string \<Rightarrow> wl_error + u64" where
  "u64_field to_u64 obj key ctx = e_bind (require_field obj key) (\<lambda>v. require_u64 to_u64 v ctx)"

definition parse_dim3 :: "('n \<Rightarrow> u64) \<Rightarrow> 'n json \<Rightarrow> string \<Rightarrow> wl_error + dim3" where
  "parse_dim3 to_u64 v ctx =
     (case v of
        JObj obj \<Rightarrow>
          e_bind (u64_field to_u64 obj ''x'' ctx) (\<lambda>x.
          e_bind (u64_field to_u64 obj ''y'' ctx) (\<lambda>y.
          e_bind (u64_field to_u64 obj ''z'' ctx) (\<lambda>z.
          Inr \<lparr>dim_x = ucast x, dim_y = ucast y, dim_z = ucast z\<rparr>)))
      | JArr a \<Rightarrow>
          e_bind (check (length a = 3) (schema_fail (ctx @ '': expected [x,y,z]''))) (\<lambda>_.
          e_bind (rethrow (as_u64 to_u64 (a ! 0))) (\<lambda>x.
          e_bind (rethrow (as_u64 to_u64 (a ! 1))) (\<lambda>y.
          e_bind (rethrow (as_u64 to_u64 (a ! 2))) (\<lambda>z.
          Inr \<lparr>dim_x = ucast x, dim_y = ucast y, dim_z = ucast z\<rparr>))))
      | _ \<Rightarrow> Inl (schema_fail (ctx @ '': expected object {x,y,z} or [x,y,z]'')))"

record buf_ref =
  br_name :: string
  br_offset :: u64

definition parse_buf_ref :: "('n \<Rightarrow> u64) \<Rightarrow> 'n json \<Rightarrow> string \<Rightarrow> wl_error + buf_ref" where
  "parse_buf_ref to_u64 v ctx =
     (case v of
        JStr s \<Rightarrow> Inr \<lparr>br_name = s, br_offset = 0\<rparr>
      | JObj obj \<Rightarrow>
          e_bind (string_field obj ''buffer'' ctx) (\<lambda>name.
          (case json_get v ''offset'' of
             None \<Rightarrow> Inr \<lparr>br_name = name, br_offset = 0\<rparr>
           | Some off \<Rightarrow> e_bind (require_u64 to_u64 off ctx) (\<lambda>n. Inr \<lparr>br_name = name, br_offset = n\<rparr>)))
      | _ \<Rightarrow> Inl (schema_fail (ctx @ '': expected string buffer name or {buffer, offset?}'')))"

section \<open>Bytes in hexadecimal\<close>

definition hex_val :: "char \<Rightarrow> nat option" where
  "hex_val ch =
     (if CHR ''0'' \<le> ch \<and> ch \<le> CHR ''9'' then Some (of_char ch - 48)
      else if CHR ''a'' \<le> ch \<and> ch \<le> CHR ''f'' then Some (10 + (of_char ch - 97))
      else if CHR ''A'' \<le> ch \<and> ch \<le> CHR ''F'' then Some (10 + (of_char ch - 65))
      else None)"

fun hex_pairs :: "string \<Rightarrow> wl_error + u8 list" where
  "hex_pairs (a # b # s) =
     (case (hex_val a, hex_val b) of
        (Some hi, Some lo) \<Rightarrow> e_bind (hex_pairs s) (\<lambda>bs. Inr (of_nat (hi * 16 + lo) # bs))
      | _ \<Rightarrow> Inl (schema_fail ''invalid hex digit''))"
| "hex_pairs _ = Inr []"

definition parse_hex_bytes :: "string \<Rightarrow> wl_error + u8 list" where
  "parse_hex_bytes s =
     (let s = (if length s \<ge> 2 \<and> s ! 0 = CHR ''0'' \<and> (s ! 1 = CHR ''x'' \<or> s ! 1 = CHR ''X'') then drop 2 s else s);
          s = filter (\<lambda>ch. \<not> is_space ch) s
      in if length s mod 2 \<noteq> 0 then Inl (schema_fail ''hex string length must be even'') else hex_pairs s)"

section \<open>Declarations\<close>

datatype host_init = InitZeros | InitHex string | InitFile string

record host_buf_decl =
  hd_bytes :: u64
  hd_init :: host_init

record device_buf_decl =
  dd_bytes :: u64
  dd_align :: u64

record module_decl =
  md_ptx :: string
  md_ptx_isa :: string
  md_inst_desc :: string

definition parse_host_init :: "'n json \<Rightarrow> wl_error + host_init" where
  "parse_host_init v =
     (case v of
        JStr s \<Rightarrow> if s = ''zeros'' then Inr InitZeros else Inl (schema_fail (''unknown host init string: '' @ s))
      | JObj io \<Rightarrow>
          e_bind (check (length io = 1) (schema_fail ''init must be oneof {zeros,hex,file}'')) (\<lambda>_.
          let (k, pv) = hd io
          in if k = ''zeros'' then Inr InitZeros
             else if k = ''hex'' then e_bind (require_string pv ''init.hex'') (\<lambda>s. Inr (InitHex s))
             else if k = ''file'' then e_bind (require_string pv ''init.file'') (\<lambda>s. Inr (InitFile s))
             else Inl (schema_fail (''unknown init kind: '' @ k)))
      | _ \<Rightarrow> Inl (schema_fail ''init must be string or object''))"

definition object_or :: "'n json \<Rightarrow> string \<Rightarrow> wl_error + (string \<times> 'n json) list" where
  "object_or v msg = (case v of JObj obj \<Rightarrow> Inr obj | _ \<Rightarrow> Inl (schema_fail msg))"

definition parse_host_decl :: "('n \<Rightarrow> u64) \<Rightarrow> string \<times> 'n json \<Rightarrow> wl_error + string \<times> host_buf_decl" where
  "parse_host_decl to_u64 nv =
     e_bind (object_or (snd nv) (''buffers.host entry must be object: '' @ fst nv)) (\<lambda>ho.
     e_bind (u64_field to_u64 ho ''bytes'' ''buffers.host.bytes'') (\<lambda>bytes.
     e_bind (case json_get (snd nv) ''init'' of None \<Rightarrow> Inr InitZeros | Some v \<Rightarrow> parse_host_init v) (\<lambda>init.
     Inr (fst nv, \<lparr>hd_bytes = bytes, hd_init = init\<rparr>))))"

definition parse_device_decl :: "('n \<Rightarrow> u64) \<Rightarrow> string \<times> 'n json \<Rightarrow> wl_error + string \<times> device_buf_decl" where
  "parse_device_decl to_u64 nv =
     e_bind (object_or (snd nv) (''buffers.device entry must be object: '' @ fst nv)) (\<lambda>obj.
     e_bind (u64_field to_u64 obj ''bytes'' ''buffers.device.bytes'') (\<lambda>bytes.
     e_bind (case json_get (snd nv) ''align'' of
               None \<Rightarrow> Inr 16 | Some v \<Rightarrow> require_u64 to_u64 v ''buffers.device.align'') (\<lambda>align.
     Inr (fst nv, \<lparr>dd_bytes = bytes, dd_align = align\<rparr>))))"

definition parse_module_decl :: "string \<times> 'n json \<Rightarrow> wl_error + string \<times> module_decl" where
  "parse_module_decl nv =
     e_bind (object_or (snd nv) (''modules entry must be object: '' @ fst nv)) (\<lambda>mo.
     e_bind (string_field mo ''ptx'' ''modules.ptx'') (\<lambda>ptx.
     e_bind (string_field mo ''ptx_isa'' ''modules.ptx_isa'') (\<lambda>isa.
     e_bind (string_field mo ''inst_desc'' ''modules.inst_desc'') (\<lambda>desc.
     Inr (fst nv, \<lparr>md_ptx = ptx, md_ptx_isa = isa, md_inst_desc = desc\<rparr>)))))"

section \<open>Commands\<close>

datatype copy_kind = H2D | D2H | D2D | Memset

record copy_payload =
  cp_kind :: copy_kind
  cp_host :: u64
  cp_host_off :: u64
  cp_dev :: u64
  cp_dev_off :: u64
  cp_bytes :: u64

datatype arg_value = ArgU32 u64 | ArgU64 u64 | ArgPtrDevice string | ArgBytesHex string

record kernel_payload =
  kp_mod :: module_decl
  kp_module_name :: string
  kp_entry :: string
  kp_launch :: launch_config
  kp_args :: "(string \<times> arg_value) list"

record event_payload =
  ep_id :: u64
  ep_name :: string

datatype command_body =
  Copy copy_payload | Kernel kernel_payload | EventRecord event_payload | EventWait event_payload | Sync

record command =
  c_id :: u64
  c_stream :: u64
  c_body :: command_body

text \<open>The optional event identifier that the trace events of a command carry.\<close>

fun command_event :: "command_body \<Rightarrow> u64 option" where
  "command_event (EventRecord e) = Some (ep_id e)"
| "command_event (EventWait e) = Some (ep_id e)"
| "command_event _ = None"

definition parse_arg_value :: "('n \<Rightarrow> u64) \<Rightarrow> 'n json \<Rightarrow> string \<Rightarrow> wl_error + arg_value" where
  "parse_arg_value to_u64 v ctx =
     e_bind (object_or v (ctx @ '': arg value must be object oneof {u32,u64,ptr_device,bytes_hex}'')) (\<lambda>obj.
     e_bind (check (length obj = 1) (schema_fail (ctx @ '': arg value object must have exactly one key''))) (\<lambda>_.
     let (k, vv) = hd obj
     in if k = ''u32'' then e_bind (require_u64 to_u64 vv ctx) (\<lambda>n. Inr (ArgU32 n))
        else if k = ''u64'' then e_bind (require_u64 to_u64 vv ctx) (\<lambda>n. Inr (ArgU64 n))
        else if k = ''ptr_device'' then e_bind (require_string vv ctx) (\<lambda>s. Inr (ArgPtrDevice s))
        else if k = ''bytes_hex'' then e_bind (require_string vv ctx) (\<lambda>s. Inr (ArgBytesHex s))
        else Inl (schema_fail (ctx @ '': unknown arg kind: '' @ k))))"

text \<open>The names and addresses that commands refer to.\<close>

record resources =
  rs_host :: "(string \<times> u64 \<times> u64) list"
  rs_dev :: "(string \<times> u64 \<times> u64) list"
  rs_modules :: "(string \<times> module_decl) list"
  rs_streams :: "(string \<times> u64) list"
  rs_events :: "(string \<times> u64) list"

definition lookup_host :: "resources \<Rightarrow> string \<Rightarrow> wl_error + u64 \<times> u64" where
  "lookup_host rs name = of_option (ref_fail (''host buffer not found: '' @ name)) (map_of (rs_host rs) name)"

definition lookup_dev :: "resources \<Rightarrow> string \<Rightarrow> wl_error + u64 \<times> u64" where
  "lookup_dev rs name = of_option (ref_fail (''device buffer not found: '' @ name)) (map_of (rs_dev rs) name)"

definition parse_copy :: "('n \<Rightarrow> u64) \<Rightarrow> resources \<Rightarrow> 'n json \<Rightarrow> wl_error + command_body" where
  "parse_copy to_u64 rs cv =
     e_bind (object_or cv ''copy payload must be object'') (\<lambda>po.
     e_bind (string_field po ''kind'' ''copy.kind'') (\<lambda>kind.
     e_bind (e_bind (require_field po ''dst'') (\<lambda>v. parse_buf_ref to_u64 v ''copy.dst'')) (\<lambda>dst.
     e_bind (e_bind (require_field po ''src'') (\<lambda>v. parse_buf_ref to_u64 v ''copy.src'')) (\<lambda>src.
     e_bind (u64_field to_u64 po ''bytes'' ''copy.bytes'') (\<lambda>bytes.
     if kind = ''H2D'' then
       e_bind (lookup_host rs (br_name src)) (\<lambda>h.
       e_bind (lookup_dev rs (br_name dst)) (\<lambda>d.
       e_bind (check (\<not> br_offset src + bytes > snd h) (schema_fail (''H2D src out of range: '' @ br_name src))) (\<lambda>_.
       e_bind (check (\<not> br_offset dst + bytes > snd d) (schema_fail (''H2D dst out of range: '' @ br_name dst))) (\<lambda>_.
       Inr (Copy \<lparr>cp_kind = H2D, cp_host = fst h, cp_host_off = br_offset src, cp_dev = fst d,
                  cp_dev_off = br_offset dst, cp_bytes = bytes\<rparr>)))))
     else if kind = ''D2H'' then
       e_bind (lookup_dev rs (br_name src)) (\<lambda>d.
       e_bind (lookup_host rs (br_name dst)) (\<lambda>h.
       e_bind (check (\<not> br_offset src + bytes > snd d) (schema_fail (''D2H src out of range: '' @ br_name src))) (\<lambda>_.
       e_bind (check (\<not> br_offset dst + bytes > snd h) (schema_fail (''D2H dst out of range: '' @ br_name dst))) (\<lambda>_.
       Inr (Copy \<lparr>cp_kind = D2H, cp_host = fst h, cp_host_off = br_offset dst, cp_dev = fst d,
                  cp_dev_off = br_offset src, cp_bytes = bytes\<rparr>)))))
     else Inl (schema_fail (''unsupported copy kind (v0 supports H2D/D2H): '' @ kind)))))))"

definition parse_kernel :: "('n \<Rightarrow> u64) \<Rightarrow> u32 \<Rightarrow> resources \<Rightarrow> 'n json \<Rightarrow> wl_error + command_body" where
  "parse_kernel to_u64 warp_size rs cv =
     e_bind (object_or cv ''kernel payload must be object'') (\<lambda>ko.
     e_bind (string_field ko ''module'' ''kernel.module'') (\<lambda>module_name.
     e_bind (string_field ko ''entry'' ''kernel.entry'') (\<lambda>entry.
     e_bind (e_bind (require_field ko ''grid_dim'') (\<lambda>v. parse_dim3 to_u64 v ''kernel.grid_dim'')) (\<lambda>grid.
     e_bind (e_bind (require_field ko ''block_dim'') (\<lambda>v. parse_dim3 to_u64 v ''kernel.block_dim'')) (\<lambda>block.
     e_bind (of_option (ref_fail (''module not found: '' @ module_name)) (map_of (rs_modules rs) module_name)) (\<lambda>m.
     e_bind (case json_get cv ''args'' of
               None \<Rightarrow> Inl (schema_fail ''kernel.args missing'')
             | Some av \<Rightarrow> object_or av ''kernel.args must be object'') (\<lambda>args.
     e_bind (map_e (\<lambda>(name, v). e_bind (parse_arg_value to_u64 v ''kernel.args'') (\<lambda>a. Inr (name, a))) args) (\<lambda>avs.
     Inr (Kernel \<lparr>kp_mod = m, kp_module_name = module_name, kp_entry = entry,
        kp_launch = \<lparr>grid_dim = grid, block_dim = block, launch_warp_size = warp_size\<rparr>, kp_args = avs\<rparr>)))))))))"

definition parse_event :: "resources \<Rightarrow> string \<Rightarrow> 'n json \<Rightarrow> wl_error + event_payload" where
  "parse_event rs kind cv =
     e_bind (object_or cv (kind @ '' payload must be object'')) (\<lambda>eo.
     e_bind (string_field eo ''event'' (kind @ ''.event'')) (\<lambda>name.
     e_bind (of_option (ref_fail (''event not found: '' @ name)) (map_of (rs_events rs) name)) (\<lambda>eid.
     Inr \<lparr>ep_id = eid, ep_name = name\<rparr>)))"

definition parse_command_body :: "('n \<Rightarrow> u64) \<Rightarrow> u32 \<Rightarrow> resources \<Rightarrow> string \<times> 'n json \<Rightarrow> wl_error + command_body" where
  "parse_command_body to_u64 warp_size rs kv =
     (let (ck, cv) = kv
      in if ck = ''copy'' then parse_copy to_u64 rs cv
         else if ck = ''kernel'' then parse_kernel to_u64 warp_size rs cv
         else if ck = ''event_record'' then e_bind (parse_event rs ck cv) (\<lambda>e. Inr (EventRecord e))
         else if ck = ''event_wait'' then e_bind (parse_event rs ck cv) (\<lambda>e. Inr (EventWait e))
         else if ck = ''sync'' then Inr Sync
         else Inl (schema_fail (''unknown command kind: '' @ ck)))"

text \<open>The single entry of a command object, and the commands of a stream.\<close>

definition command_entry :: "'n json \<Rightarrow> wl_error + string \<times> 'n json" where
  "command_entry cmdv =
     e_bind (object_or cmdv ''command must be object'') (\<lambda>co.
     e_bind (check (length co = 1) (schema_fail ''command must be oneof {copy,kernel,event_record,event_wait,sync}'')) (\<lambda>_.
     Inr (hd co)))"

definition stream_commands :: "(string \<times> 'n json) list \<Rightarrow> wl_error + 'n json list" where
  "stream_commands so = e_bind (require_field so ''commands'') (\<lambda>v. rethrow (as_array v))"

definition event_of_entry :: "string \<times> 'n json \<Rightarrow> wl_error + string option" where
  "event_of_entry kv =
     (if fst kv = ''event_record'' \<or> fst kv = ''event_wait'' then
        e_bind (object_or (snd kv) ''event command payload must be object'') (\<lambda>eo.
        e_bind (string_field eo ''event'' ''event'') (\<lambda>n. Inr (Some n)))
      else Inr None)"

text \<open>The names of all events, in the order of a \<open>std::set\<close>.\<close>

definition add_event :: "string option \<Rightarrow> (string \<times> unit) list \<Rightarrow> (string \<times> unit) list" where
  "add_event n ns = (case n of None \<Rightarrow> ns | Some k \<Rightarrow> obj_emplace k () ns)"

definition stream_events :: "string \<times> 'n json \<Rightarrow> wl_error + string option list" where
  "stream_events nv =
     e_bind (object_or (snd nv) (''streams entry must be object: '' @ fst nv)) (\<lambda>so.
     e_bind (stream_commands so) (map_e (\<lambda>cmdv. e_bind (command_entry cmdv) event_of_entry)))"

definition collect_events :: "(string \<times> 'n json) list \<Rightarrow> wl_error + string list" where
  "collect_events streams =
     e_bind (map_e stream_events streams) (\<lambda>es. Inr (map fst (fold add_event (concat es) [])))"

definition number_from_one :: "string list \<Rightarrow> (string \<times> u64) list" where
  "number_from_one ns = zip ns (map of_nat [1..<Suc (length ns)])"

section \<open>Kernel arguments\<close>

definition arg_error :: "string \<Rightarrow> string \<Rightarrow> string \<Rightarrow> wl_error" where
  "arg_error code msg entry = SchemaError (rt_diag code msg (Some entry))"

definition put_bytes :: "u32 \<Rightarrow> u8 list \<Rightarrow> u8 list \<Rightarrow> wl_error + u8 list" where
  "put_bytes off bytes blob =
     (if unat off + length bytes > length blob then Inl (schema_fail ''param blob write out of range'')
      else Inr (blob_put off bytes blob))"

definition write_le :: "u32 \<Rightarrow> u64 \<Rightarrow> nat \<Rightarrow> u8 list \<Rightarrow> wl_error + u8 list" where
  "write_le off v sz blob = put_bytes off (pack_le v sz) blob"

definition pack_arg ::
  "string \<Rightarrow> (string \<times> u64 \<times> u64) list \<Rightarrow> param_desc list \<Rightarrow> string \<times> arg_value \<Rightarrow> u8 list \<Rightarrow> wl_error + u8 list"
where
  "pack_arg entry dev_bufs layout nv blob =
     (let (name, av) = nv
      in case find (\<lambda>p. pd_name p = name) layout of
           None \<Rightarrow> Inl (arg_error ''E_BAD_ARGS'' (''unknown kernel arg: '' @ name) entry)
         | Some p \<Rightarrow>
             (case av of
                ArgU32 n \<Rightarrow>
                  if pd_type p \<noteq> ParamU32 \<or> pd_size p \<noteq> 4
                  then Inl (arg_error ''E_BAD_ARGS'' (''arg type mismatch for '' @ name) entry)
                  else write_le (pd_offset p) n 4 blob
              | ArgU64 n \<Rightarrow>
                  if pd_type p \<noteq> ParamU64 \<or> pd_size p \<noteq> 8
                  then Inl (arg_error ''E_BAD_ARGS'' (''arg type mismatch for '' @ name) entry)
                  else write_le (pd_offset p) n 8 blob
              | ArgPtrDevice s \<Rightarrow>
                  if pd_type p \<noteq> ParamU64 \<or> pd_size p \<noteq> 8
                  then Inl (arg_error ''E_BAD_ARGS'' (''ptr_device expects u64 param for '' @ name) entry)
                  else (case map_of dev_bufs s of
                          None \<Rightarrow> Inl (arg_error ''E_WORKLOAD_REF'' (''device buffer not found: '' @ s) entry)
                        | Some d \<Rightarrow> write_le (pd_offset p) (fst d) 8 blob)
              | ArgBytesHex s \<Rightarrow>
                  e_bind (parse_hex_bytes s) (\<lambda>bytes.
                    if length bytes \<noteq> unat (pd_size p)
                    then Inl (arg_error ''E_BAD_ARGS'' (''bytes_hex size mismatch for '' @ name) entry)
                    else put_bytes (pd_offset p) bytes blob)))"

fun pack_all ::
  "string \<Rightarrow> (string \<times> u64 \<times> u64) list \<Rightarrow> param_desc list \<Rightarrow> (string \<times> arg_value) list \<Rightarrow> u8 list \<Rightarrow> wl_error + u8 list"
where
  "pack_all entry dev_bufs layout [] blob = Inr blob"
| "pack_all entry dev_bufs layout (nv # nvs) blob =
     e_bind (pack_arg entry dev_bufs layout nv blob) (pack_all entry dev_bufs layout nvs)"

definition pack_blob ::
  "string \<Rightarrow> (string \<times> u64 \<times> u64) list \<Rightarrow> param_desc list \<Rightarrow> (string \<times> arg_value) list \<Rightarrow> wl_error + kernel_args"
where
  "pack_blob entry dev_bufs layout args =
     e_bind (pack_all entry dev_bufs layout args (replicate (unat (params_end layout)) 0)) (\<lambda>blob.
       (case find (\<lambda>p. map_of args (pd_name p) = None) layout of
          Some p \<Rightarrow> Inl (arg_error ''E_BAD_ARGS'' (''missing kernel arg: '' @ pd_name p) entry)
        | None \<Rightarrow> Inr \<lparr>ka_layout = layout, ka_blob = blob\<rparr>))"

text \<open>
  \<open>pack_kernel_args\<close> reads the module's PTX again.  The arguments are in a hash map; \<open>order\<close> is
  its order of iteration.
\<close>

definition pack_kernel_args ::
  "'n rt_env \<Rightarrow> ((string \<times> arg_value) list \<Rightarrow> (string \<times> arg_value) list) \<Rightarrow> module_decl \<Rightarrow> string \<Rightarrow>
   (string \<times> arg_value) list \<Rightarrow> (string \<times> u64 \<times> u64) list \<Rightarrow> wl_error + kernel_args"
where
  "pack_kernel_args env order m entry args dev_bufs =
     e_bind (rethrow (parse_file_tokens env (md_ptx m))) (\<lambda>toks.
       (case bind_kernel_by_name toks entry of
          Inl _ \<Rightarrow> Inl (arg_error ''E_ENTRY_NOT_FOUND'' (''kernel entry not found: '' @ entry) entry)
        | Inr k \<Rightarrow> pack_blob entry dev_bufs (kt_params k) (order args)))"

section \<open>Packed arguments\<close>

text \<open>The bytes that an argument of the file stands for.\<close>

definition arg_bytes :: "(string \<times> u64 \<times> u64) list \<Rightarrow> arg_value \<Rightarrow> u8 list option" where
  "arg_bytes dev_bufs av =
     (case av of
        ArgU32 n \<Rightarrow> Some (pack_le n 4)
      | ArgU64 n \<Rightarrow> Some (pack_le n 8)
      | ArgPtrDevice s \<Rightarrow> map_option (\<lambda>d. pack_le (fst d) 8) (map_of dev_bufs s)
      | ArgBytesHex s \<Rightarrow> (case parse_hex_bytes s of Inl _ \<Rightarrow> None | Inr bytes \<Rightarrow> Some bytes))"

lemma put_bytes_slices:
  assumes "put_bytes (pd_offset p) bytes blob = Inr blob'" and "length bytes = unat (pd_size p)"
  shows "length blob' = length blob \<and> param_slice p blob' = bytes \<and>
    unat (pd_offset p) + unat (pd_size p) \<le> length blob \<and>
    (\<forall>q. apart p q \<longrightarrow> param_slice q blob' = param_slice q blob)"
  using assms blob_put_slices [of p blob bytes] by (auto simp: put_bytes_def split: if_splits)

lemma pack_arg_put:
  assumes "pack_arg entry devs layout (name, av) blob = Inr blob'"
  shows "\<exists>p bytes. param_of layout name = Some p \<and> arg_bytes devs av = Some bytes \<and> length bytes = unat (pd_size p) \<and>
    put_bytes (pd_offset p) bytes blob = Inr blob'"
  using assms
  by (auto simp: pack_arg_def param_of_def arg_bytes_def write_le_def e_bind_Inr_iff
      split: option.splits arg_value.splits if_splits)

lemma pack_all_slices:
  assumes "pack_all entry devs layout nvs blob = Inr blob'" and "layout_ok layout" and "distinct (map fst nvs)"
  shows "length blob' = length blob \<and>
    (\<forall>q \<in> set layout. pd_name q \<notin> fst ` set nvs \<longrightarrow> param_slice q blob' = param_slice q blob) \<and>
    (\<forall>(name, av) \<in> set nvs. \<exists>p. param_of layout name = Some p \<and> unat (pd_offset p) + unat (pd_size p) \<le> length blob \<and>
       arg_bytes devs av = Some (param_slice p blob'))"
  using assms(1,3)
proof (induction nvs arbitrary: blob)
  case (Cons nv nvs)
  obtain name av where nv: "nv = (name, av)" by fastforce
  from Cons.prems(1) obtain mid where mid: "pack_arg entry devs layout (name, av) blob = Inr mid"
    "pack_all entry devs layout nvs mid = Inr blob'" by (auto simp: e_bind_Inr_iff nv)
  from pack_arg_put [OF mid(1)] obtain p bytes where p: "param_of layout name = Some p" "arg_bytes devs av = Some bytes"
    "length bytes = unat (pd_size p)" "put_bytes (pd_offset p) bytes blob = Inr mid" by blast
  note put = put_bytes_slices [OF p(4,3)] and mem = param_of_mem [OF p(1)]
  note IH = Cons.IH [OF mid(2)]
  have fresh: "name \<notin> fst ` set nvs" "distinct (map fst nvs)" using Cons.prems(2) by (auto simp: nv)
  then have "param_slice p blob' = bytes" using IH mem put by simp
  moreover have "param_slice q blob' = param_slice q blob"
    if "q \<in> set layout" "pd_name q \<notin> fst ` set (nv # nvs)" for q
  proof -
    have "p \<noteq> q" using that(2) mem by (auto simp: nv)
    then have "apart p q" using layout_apart [OF assms(2)] mem that(1) by blast
    then show ?thesis using put IH fresh(2) that by simp
  qed
  ultimately show ?case using IH fresh(2) put p(1,2) by (auto simp: nv)
qed simp

lemma file_layout:
  assumes "parse_file_tokens env path = Inr ks" and "en_file env path = Some txt"
    and "length (text_lines txt) \<le> 2 ^ 28" and "bind_kernel_by_name ks entry = Inr k"
  shows "layout_ok (kt_params k)"
proof -
  obtain st where st: "token_lines (en_hash_order env) path (numbered (text_lines txt)) token_state_init = Inr st"
    "ks = ts_kernels st"
    using assms(1,2) by (auto simp: parse_file_tokens_def slurp_def of_option_def parse_ptx_text_tokens_def e_bind_Inr_iff)
  have "k \<in> set ks" using assms(4) by (induction ks) (auto split: if_splits)
  then show ?thesis
    using token_lines_layout [OF st(1)] assms(3) st(2) by (simp add: token_state_init_def layout_ok_def numbered_def)
qed

section \<open>Property\<close>

text \<open>
  C8.  The arguments of the workload file arrive at the kernel: after packing, in whatever order
  the hash map of the arguments is traversed, a load of a parameter by its name from the
  parameter memory of the run gives the bytes that the file has for this parameter.
\<close>

theorem kernel_arguments_arrive:
  assumes "pack_kernel_args env order m entry args devs = Inr ka"
    and "mset (order args) = mset args" and "distinct (map fst args)" and "(name, av) \<in> set args"
    and "en_file env (md_ptx m) = Some txt" and "length (text_lines txt) \<le> 2 ^ 28"
  shows "\<exists>p bytes. param_of (ka_layout ka) name = Some p \<and> arg_bytes devs av = Some bytes \<and>
    length bytes = unat (pd_size p) \<and>
    read_param_symbol (with_params (ka_layout ka) (Some ka) mem) name (ucast (pd_size p)) = Some bytes"
proof -
  from assms(1) obtain toks k where k: "parse_file_tokens env (md_ptx m) = Inr toks"
    "bind_kernel_by_name toks entry = Inr k" "pack_blob entry devs (kt_params k) (order args) = Inr ka"
    by (auto simp: pack_kernel_args_def rethrow_def e_bind_Inr_iff split: sum.splits)
  note ok = file_layout [OF k(1) assms(5,6) k(2)]
  from k(3) have ka: "ka_layout ka = kt_params k"
    "pack_all entry devs (kt_params k) (order args) (replicate (unat (params_end (kt_params k))) 0) = Inr (ka_blob ka)"
    by (auto simp: pack_blob_def e_bind_Inr_iff split: option.splits)
  have perm: "set (order args) = set args" "distinct (map fst (order args))"
    using assms(2,3) mset_eq_setD [OF assms(2)] by (metis mset_map mset_eq_imp_distinct_iff)+
  note slices = pack_all_slices [OF ka(2) ok perm(2)]
  then obtain p where p: "param_of (ka_layout ka) name = Some p" "arg_bytes devs av = Some (param_slice p (ka_blob ka))"
    "unat (pd_offset p) + unat (pd_size p) \<le> length (ka_blob ka)" and len: "length (ka_blob ka) < 2 ^ 32"
    using assms(4) perm(1) ka(1) unat_u32_less [of "params_end (kt_params k)"] by fastforce
  moreover have "length (param_slice p (ka_blob ka)) = unat (pd_size p)" using p(3) by (simp add: param_slice_def)
  ultimately show ?thesis using read_param_slice [OF p(1,3) len] by blast
qed

definition demo_file_env :: "unit rt_env" where
  "demo_file_env = demo_rt_env\<lparr>en_file := \<lambda>path. if path = ''k.ptx'' then Some demo_ptx else None\<rparr>"

definition demo_module :: module_decl where
  "demo_module = \<lparr>md_ptx = ''k.ptx'', md_ptx_isa = ''isa.json'', md_inst_desc = ''desc.json''\<rparr>"

definition demo_args :: "(string \<times> arg_value) list" where
  "demo_args = [(''n'', ArgU32 7), (''p'', ArgPtrDevice ''out'')]"

lemma kernel_arguments_arrive_witness:
  "\<exists>ka (p :: param_desc). pack_kernel_args demo_file_env rev demo_module ''k'' demo_args [(''out'', 0x1000, 16)] = Inr ka \<and>
     read_param_symbol (with_params (ka_layout ka) (Some ka) manager_init) ''p'' (ucast (pd_size p)) =
       Some (pack_le 0x1000 8)"
proof -
  let ?ps = "[\<lparr>pd_name = ''n'', pd_type = ParamU32, pd_size = 4, pd_align = 4, pd_offset = 0\<rparr>,
    \<lparr>pd_name = ''p'', pd_type = ParamU64, pd_size = 8, pd_align = 8, pd_offset = 8\<rparr>]"
  have "case parse_ptx_text_tokens rev demo_ptx ''k.ptx'' of
      Inl _ \<Rightarrow> False | Inr ks \<Rightarrow> map kt_name ks = [''k''] \<and> map kt_params ks = [?ps]"
    by code_simp
  then obtain k where k: "parse_ptx_text_tokens rev demo_ptx ''k.ptx'' = Inr [k]" "kt_name k = ''k''" "kt_params k = ?ps"
    by (auto split: sum.splits simp: map_eq_Cons_conv)
  have src: "en_file demo_file_env (md_ptx demo_module) = Some demo_ptx"
    by (simp add: demo_file_env_def demo_module_def)
  then have toks: "parse_file_tokens demo_file_env (md_ptx demo_module) = Inr [k]"
    using k(1) by (simp add: parse_file_tokens_def slurp_def of_option_def demo_module_def demo_file_env_def demo_rt_env_def)
  have "\<exists>ka. pack_kernel_args demo_file_env rev demo_module ''k'' demo_args [(''out'', 0x1000, 16)] = Inr ka"
    by (simp add: pack_kernel_args_def toks k rethrow_def pack_blob_def params_end_def pack_arg_def demo_args_def
        write_le_def put_bytes_def blob_put_def)
  then obtain ka where ka: "pack_kernel_args demo_file_env rev demo_module ''k'' demo_args [(''out'', 0x1000, 16)] = Inr ka"
    by blast
  have len: "length (text_lines demo_ptx) \<le> 10" by code_simp
  have arrive: "\<exists>p bytes. param_of (ka_layout ka) ''p'' = Some p \<and> arg_bytes [(''out'', 0x1000, 16)] (ArgPtrDevice ''out'') = Some bytes \<and>
    length bytes = unat (pd_size p) \<and>
    read_param_symbol (with_params (ka_layout ka) (Some ka) manager_init) ''p'' (ucast (pd_size p)) = Some bytes"
    by (rule kernel_arguments_arrive [OF ka _ _ _ src]) (use len in \<open>simp_all add: demo_args_def\<close>)
  then show ?thesis using ka by (auto simp: arg_bytes_def)
qed

end
