(* ===== verification/Workload.thy ===== *)
theory Workload
  imports WorkloadFile Queues
begin

text \<open>
  The workload engine (\<open>run_workload\<close> of \<open>src/runtime/workload.cpp\<close>): it makes the buffers,
  fills one queue of commands per stream and runs the queues, one command at a time, sweeping
  over the streams until all queues are empty or none of their heads is ready.  The state has a
  log of the commands that were completed, with their streams; the code keeps no such list (it
  emits an event for each of them).
\<close>

record wl_state =
  wl_rt :: runtime
  wl_queues :: "u64 \<Rightarrow> command list"
  wl_signaled :: "u64 \<Rightarrow> bool"
  wl_ts :: u64
  wl_steps :: u64
  wl_log :: "(u64 \<times> command) list"

section \<open>Resources\<close>

definition bytes_of_text :: "string \<Rightarrow> u8 list" where
  "bytes_of_text s = map of_char s"

definition init_data :: "'n rt_env \<Rightarrow> string \<Rightarrow> host_buf_decl \<Rightarrow> wl_error + u8 list option" where
  "init_data env name d =
     (case hd_init d of
        InitZeros \<Rightarrow> Inr None
      | InitHex s \<Rightarrow>
          e_bind (parse_hex_bytes s) (\<lambda>bytes.
          e_bind (check (\<not> length bytes > unat (hd_bytes d)) (schema_fail (''host init hex bigger than buffer: '' @ name))) (\<lambda>_.
          Inr (Some bytes)))
      | InitFile p \<Rightarrow>
          e_bind (rethrow (slurp env [] p)) (\<lambda>t.
          e_bind (check (\<not> length t > unat (hd_bytes d)) (schema_fail (''host init file bigger than buffer: '' @ name))) (\<lambda>_.
          Inr (Some (bytes_of_text t)))))"

fun make_hosts ::
  "'n rt_env \<Rightarrow> (string \<times> host_buf_decl) list \<Rightarrow> (string \<times> u64 \<times> u64) list \<Rightarrow> runtime \<Rightarrow>
   runtime \<times> (wl_error + (string \<times> u64 \<times> u64) list)"
where
  "make_hosts env [] acc st = (st, Inr acc)"
| "make_hosts env ((name, d) # ds) acc st =
     (case host_alloc (hd_bytes d) st of
        (st, Inl e) \<Rightarrow> (st, Inl (RtError e))
      | (st, Inr hid) \<Rightarrow>
          (case init_data env name d of
             Inl e \<Rightarrow> (st, Inl e)
           | Inr None \<Rightarrow> make_hosts env ds (acc @ [(name, hid, hd_bytes d)]) st
           | Inr (Some bytes) \<Rightarrow>
               (case host_write hid 0 bytes st of
                  (st, Inl e) \<Rightarrow> (st, Inl (RtError e))
                | (st, Inr _) \<Rightarrow> make_hosts env ds (acc @ [(name, hid, hd_bytes d)]) st)))"

fun make_devs ::
  "(string \<times> device_buf_decl) list \<Rightarrow> (string \<times> u64 \<times> u64) list \<Rightarrow> runtime \<Rightarrow>
   runtime \<times> (wl_error + (string \<times> u64 \<times> u64) list)"
where
  "make_devs [] acc st = (st, Inr acc)"
| "make_devs ((name, d) # ds) acc st =
     (if dd_bytes d = 0 then (st, Inl (schema_fail (''device buffer bytes must be >=1: '' @ name)))
      else case device_malloc (dd_bytes d) (dd_align d) st of
             (st, p) \<Rightarrow> make_devs ds (acc @ [(name, p, dd_bytes d)]) st)"

section \<open>Events and queues\<close>

definition make_stream_event :: "u64 \<Rightarrow> string \<Rightarrow> u64 \<Rightarrow> u64 \<Rightarrow> u64 option \<Rightarrow> event" where
  "make_stream_event ts action stream_id cmd_id event_id =
     event_default\<lparr>ev_ts := ts, ev_category := EvStream, ev_action := action, ev_stream_id := Some stream_id,
       ev_cmd_id := Some cmd_id, ev_event_id := event_id\<rparr>"

definition wl_emit :: "string \<Rightarrow> u64 \<Rightarrow> command \<Rightarrow> wl_state \<Rightarrow> wl_state" where
  "wl_emit action sid cmd ws =
     ws\<lparr>wl_ts := wl_ts ws + 1,
        wl_rt := (wl_rt ws)\<lparr>rt_obs :=
          obs_emit (make_stream_event (wl_ts ws) action sid (c_id cmd) (command_event (c_body cmd))) (rt_obs (wl_rt ws))\<rparr>\<rparr>"

definition enqueue :: "u64 \<Rightarrow> command \<Rightarrow> wl_state \<Rightarrow> wl_state" where
  "enqueue sid cmd ws = wl_emit ''cmd_enq'' sid cmd (ws\<lparr>wl_queues := (wl_queues ws)(sid := wl_queues ws sid @ [cmd])\<rparr>)"

fun enqueue_commands ::
  "('n \<Rightarrow> u64) \<Rightarrow> u32 \<Rightarrow> resources \<Rightarrow> u64 \<Rightarrow> 'n json list \<Rightarrow> u64 \<Rightarrow> wl_state \<Rightarrow> wl_state \<times> (wl_error + u64)"
where
  "enqueue_commands to_u64 warp_size rs sid [] cid ws = (ws, Inr cid)"
| "enqueue_commands to_u64 warp_size rs sid (v # vs) cid ws =
     (case e_bind (command_entry v) (parse_command_body to_u64 warp_size rs) of
        Inl e \<Rightarrow> (ws, Inl e)
      | Inr body \<Rightarrow>
          enqueue_commands to_u64 warp_size rs sid vs (cid + 1)
            (enqueue sid \<lparr>c_id = cid, c_stream = sid, c_body = body\<rparr> ws))"

fun enqueue_streams ::
  "('n \<Rightarrow> u64) \<Rightarrow> u32 \<Rightarrow> resources \<Rightarrow> (string \<times> 'n json) list \<Rightarrow> u64 \<Rightarrow> wl_state \<Rightarrow> wl_state \<times> (wl_error + u64)"
where
  "enqueue_streams to_u64 warp_size rs [] cid ws = (ws, Inr cid)"
| "enqueue_streams to_u64 warp_size rs ((sname, sv) # svs) cid ws =
     (case e_bind (of_option (ref_fail (''stream not found: '' @ sname)) (map_of (rs_streams rs) sname)) (\<lambda>sid.
             e_bind (rethrow (as_object sv)) (\<lambda>so. e_bind (stream_commands so) (\<lambda>cmds. Inr (sid, cmds)))) of
        Inl e \<Rightarrow> (ws, Inl e)
      | Inr (sid, cmds) \<Rightarrow>
          (case enqueue_commands to_u64 warp_size rs sid cmds cid ws of
             (ws, Inl e) \<Rightarrow> (ws, Inl e)
           | (ws, Inr cid) \<Rightarrow> enqueue_streams to_u64 warp_size rs svs cid ws))"

section \<open>Running the queues\<close>

text \<open>What a command does to the schedule: go on, end the workload with a result, or throw.\<close>

datatype outcome = Continue | Finish sim_result | Abort wl_error

definition with_rt :: "wl_state \<Rightarrow> runtime \<times> (rt_error + unit) \<Rightarrow> wl_state \<times> outcome" where
  "with_rt ws r =
     (ws\<lparr>wl_rt := fst r\<rparr>, case snd r of Inl e \<Rightarrow> Abort (RtError e) | Inr _ \<Rightarrow> Continue)"

definition exec_copy :: "copy_payload \<Rightarrow> wl_state \<Rightarrow> wl_state \<times> outcome" where
  "exec_copy cp ws =
     (case cp_kind cp of
        H2D \<Rightarrow> with_rt ws (memcpy_h2d (cp_dev cp + cp_dev_off cp) (cp_host cp) (cp_host_off cp) (cp_bytes cp) (wl_rt ws))
      | D2H \<Rightarrow> with_rt ws (memcpy_d2h (cp_host cp) (cp_host_off cp) (cp_dev cp + cp_dev_off cp) (cp_bytes cp) (wl_rt ws))
      | _ \<Rightarrow> (ws, Continue))"

definition after_run :: "wl_state \<Rightarrow> runtime \<times> (rt_error + sim_result) \<Rightarrow> wl_state \<times> outcome" where
  "after_run ws r =
     (case snd r of
        Inl e \<Rightarrow> (ws\<lparr>wl_rt := fst r\<rparr>, Abort (RtError e))
      | Inr res \<Rightarrow>
          (let ws = ws\<lparr>wl_rt := fst r, wl_steps := wl_steps ws + sr_steps res\<rparr>
           in (ws, if sr_diag res \<noteq> None then Finish res
                   else if \<not> sr_completed res then Finish (res\<lparr>sr_steps := wl_steps ws\<rparr>)
                   else Continue)))"

type_synonym arg_order = "(string \<times> arg_value) list \<Rightarrow> (string \<times> arg_value) list"

definition exec_kernel :: "'n rt_env \<Rightarrow> arg_order \<Rightarrow> resources \<Rightarrow> kernel_payload \<Rightarrow> wl_state \<Rightarrow> (wl_state \<times> outcome) option" where
  "exec_kernel env order rs kp ws =
     (case pack_kernel_args env order (kp_mod kp) (kp_entry kp) (kp_args kp) (rs_dev rs) of
        Inl e \<Rightarrow> Some (ws, Abort e)
      | Inr ka \<Rightarrow>
          map_option (after_run ws)
            (run_ptx_kernel_with_args_entry_launch env (md_ptx (kp_mod kp)) (md_ptx_isa (kp_mod kp))
               (md_inst_desc (kp_mod kp)) (kp_entry kp) ka (kp_launch kp) (wl_rt ws)))"

definition exec_command :: "'n rt_env \<Rightarrow> arg_order \<Rightarrow> resources \<Rightarrow> u64 \<Rightarrow> command \<Rightarrow> wl_state \<Rightarrow> (wl_state \<times> outcome) option" where
  "exec_command env order rs sid cmd ws =
     (case c_body cmd of
        Copy cp \<Rightarrow> Some (exec_copy cp ws)
      | Kernel kp \<Rightarrow> exec_kernel env order rs kp ws
      | EventRecord e \<Rightarrow>
          Some (wl_emit ''event_record'' sid cmd (ws\<lparr>wl_signaled := (wl_signaled ws)(ep_id e := True)\<rparr>), Continue)
      | EventWait e \<Rightarrow> Some (wl_emit ''event_wait_done'' sid cmd ws, Continue)
      | Sync \<Rightarrow> Some (ws, Continue))"

fun command_ready :: "wl_state \<Rightarrow> command_body \<Rightarrow> bool" where
  "command_ready ws (EventWait e) = wl_signaled ws (ep_id e)"
| "command_ready ws _ = True"

definition complete :: "u64 \<Rightarrow> command \<Rightarrow> wl_state \<Rightarrow> wl_state" where
  "complete sid cmd ws =
     (let ws = wl_emit ''cmd_complete'' sid cmd ws
      in ws\<lparr>wl_queues := (wl_queues ws)(sid := tl (wl_queues ws sid)), wl_log := wl_log ws @ [(sid, cmd)]\<rparr>)"

definition run_command :: "'n rt_env \<Rightarrow> arg_order \<Rightarrow> resources \<Rightarrow> u64 \<Rightarrow> command \<Rightarrow> wl_state \<Rightarrow> (wl_state \<times> outcome) option" where
  "run_command env order rs sid cmd ws =
     map_option (\<lambda>(ws, oc). (case oc of Continue \<Rightarrow> complete sid cmd ws | _ \<Rightarrow> ws, oc))
       (exec_command env order rs sid cmd (wl_emit ''cmd_submit'' sid cmd (wl_emit ''cmd_ready'' sid cmd ws)))"

text \<open>One sweep over the streams; the flags say whether a command is left and whether one was run.\<close>

fun sweep_streams ::
  "'n rt_env \<Rightarrow> arg_order \<Rightarrow> resources \<Rightarrow> u64 list \<Rightarrow> bool \<Rightarrow> bool \<Rightarrow> wl_state \<Rightarrow> (wl_state \<times> bool \<times> bool \<times> outcome) option"
where
  "sweep_streams env order rs [] remaining progressed ws = Some (ws, remaining, progressed, Continue)"
| "sweep_streams env order rs (sid # sids) remaining progressed ws =
     (case wl_queues ws sid of
        [] \<Rightarrow> sweep_streams env order rs sids remaining progressed ws
      | cmd # q \<Rightarrow>
          if \<not> command_ready ws (c_body cmd) then sweep_streams env order rs sids True progressed ws
          else (case run_command env order rs sid cmd ws of
                  None \<Rightarrow> None
                | Some (ws, Continue) \<Rightarrow> sweep_streams env order rs sids True True ws
                | Some (ws, oc) \<Rightarrow> Some (ws, True, progressed, oc)))"

definition deadlock_result :: "u64 \<Rightarrow> sim_result" where
  "deadlock_result steps =
     \<lparr>sr_completed = False,
      sr_diag = Some (rt_diag ''E_WORKLOAD_DEADLOCK'' ''no commands ready; possible missing event_record'' None),
      sr_steps = steps\<rparr>"

definition completed_result :: "u64 \<Rightarrow> sim_result" where
  "completed_result steps = \<lparr>sr_completed = True, sr_diag = None, sr_steps = steps\<rparr>"

partial_function (option) schedule ::
  "'n rt_env \<Rightarrow> arg_order \<Rightarrow> resources \<Rightarrow> wl_state \<Rightarrow> (wl_state \<times> (wl_error + sim_result)) option"
where
  "schedule env order rs ws =
     (case sweep_streams env order rs (map snd (rs_streams rs)) False False ws of
        None \<Rightarrow> None
      | Some (ws, remaining, progressed, oc) \<Rightarrow>
          (case oc of
             Finish r \<Rightarrow> Some (ws, Inr r)
           | Abort e \<Rightarrow> Some (ws, Inl e)
           | Continue \<Rightarrow>
               if \<not> remaining then Some (ws, Inr (completed_result (wl_steps ws)))
               else if \<not> progressed then Some (ws, Inr (deadlock_result (wl_steps ws)))
               else schedule env order rs ws))"

section \<open>The whole workload\<close>

record workload =
  wk_hosts :: "(string \<times> host_buf_decl) list"
  wk_devs :: "(string \<times> device_buf_decl) list"
  wk_modules :: "(string \<times> module_decl) list"
  wk_events :: "string list"

definition object_field :: "(string \<times> 'n json) list \<Rightarrow> string \<Rightarrow> wl_error + (string \<times> 'n json) list" where
  "object_field obj key = e_bind (require_field obj key) (\<lambda>v. rethrow (as_object v))"

definition load_workload :: "('n \<Rightarrow> u64) \<Rightarrow> 'n json \<Rightarrow> wl_error + workload \<times> (string \<times> 'n json) list" where
  "load_workload to_u64 root =
     e_bind (object_or root ''root must be object'') (\<lambda>obj.
     e_bind (object_field obj ''buffers'') (\<lambda>buffers.
     e_bind (object_field buffers ''host'') (\<lambda>host.
     e_bind (object_field buffers ''device'') (\<lambda>device.
     e_bind (map_e (parse_host_decl to_u64) host) (\<lambda>hosts.
     e_bind (map_e (parse_device_decl to_u64) device) (\<lambda>devs.
     e_bind (object_field obj ''modules'') (\<lambda>mods.
     e_bind (map_e parse_module_decl mods) (\<lambda>modules.
     e_bind (object_field obj ''streams'') (\<lambda>streams.
     e_bind (collect_events streams) (\<lambda>events.
     Inr (\<lparr>wk_hosts = hosts, wk_devs = devs, wk_modules = modules, wk_events = events\<rparr>, streams)))))))))))"

definition wl_start :: "runtime \<Rightarrow> wl_state" where
  "wl_start st =
     \<lparr>wl_rt = st, wl_queues = \<lambda>_. [], wl_signaled = \<lambda>_. False, wl_ts = 1, wl_steps = 0, wl_log = []\<rparr>"

text \<open>From the declarations to the filled queues.\<close>

definition prepare ::
  "'n rt_env \<Rightarrow> workload \<Rightarrow> (string \<times> 'n json) list \<Rightarrow> runtime \<Rightarrow> wl_state \<times> (wl_error + resources)"
where
  "prepare env wk streams st =
     (case make_hosts env (wk_hosts wk) [] st of
        (st, Inl e) \<Rightarrow> (wl_start st, Inl e)
      | (st, Inr hosts) \<Rightarrow>
          (case make_devs (wk_devs wk) [] st of
             (st, Inl e) \<Rightarrow> (wl_start st, Inl e)
           | (st, Inr devs) \<Rightarrow>
               let rs = \<lparr>rs_host = hosts, rs_dev = devs, rs_modules = wk_modules wk,
                         rs_streams = number_from_one (map fst streams), rs_events = number_from_one (wk_events wk)\<rparr>
               in case enqueue_streams (en_to_u64 env) (cfg_warp_size (ac_sim (rt_cfg st))) rs streams 1 (wl_start st) of
                    (ws, Inl e) \<Rightarrow> (ws, Inl e)
                  | (ws, Inr _) \<Rightarrow> (ws, Inr rs)))"

text \<open>The handlers of \<open>run_workload\<close>; an undefined access is not caught.\<close>

definition workload_failure :: "wl_error \<Rightarrow> rt_error + sim_result" where
  "workload_failure e =
     (case e of
        SchemaError d \<Rightarrow> Inr (failed_launch d)
      | RtError (Throws (ParseError m)) \<Rightarrow> Inr (failed_launch (rt_diag ''E_WORKLOAD_SCHEMA'' m None))
      | RtError (Throws x) \<Rightarrow> Inr (failed_launch (rt_diag ''E_WORKLOAD_FATAL'' (exn_what x) None))
      | RtError Undefined \<Rightarrow> Inl Undefined)"

definition run_workload ::
  "'n rt_env \<Rightarrow> arg_order \<Rightarrow> string \<Rightarrow> runtime \<Rightarrow> (runtime \<times> (rt_error + sim_result)) option"
where
  "run_workload env order path st =
     (case e_bind (rethrow (e_bind (slurp env [] path) (json_text env))) (load_workload (en_to_u64 env)) of
        Inl e \<Rightarrow> Some (st, workload_failure e)
      | Inr (wk, streams) \<Rightarrow>
          (case prepare env wk streams st of
             (ws, Inl e) \<Rightarrow> Some (wl_rt ws, workload_failure e)
           | (ws, Inr rs) \<Rightarrow>
               map_option (\<lambda>(ws, r). (wl_rt ws, case r of Inl e \<Rightarrow> workload_failure e | Inr res \<Rightarrow> Inr res))
                 (schedule env order rs ws)))"

section \<open>The queues as an abstract machine\<close>

text \<open>
  A command waits for the event of an \<open>EventWait\<close> and signals the event of an
  \<open>EventRecord\<close>.
\<close>

definition cmd_ready :: "u64 set \<Rightarrow> command \<Rightarrow> bool" where
  "cmd_ready S c = (case c_body c of EventWait e \<Rightarrow> ep_id e \<in> S | _ \<Rightarrow> True)"

definition cmd_signals :: "command \<Rightarrow> u64 set" where
  "cmd_signals c = (case c_body c of EventRecord e \<Rightarrow> {ep_id e} | _ \<Rightarrow> {})"

interpretation wl: monotone_queues cmd_ready cmd_signals
  by unfold_locales (auto simp: cmd_ready_def split: command_body.splits)

definition wl_abs :: "wl_state \<Rightarrow> (u64, command) queues" where
  "wl_abs ws = (wl_queues ws, wl_log ws)"

definition wl_signals_ok :: "wl_state \<Rightarrow> bool" where
  "wl_signals_ok ws \<longleftrightarrow> Collect (wl_signaled ws) = signals_of cmd_signals (wl_log ws)"

abbreviation wl_reach :: "u64 list \<Rightarrow> (u64, command) queues \<Rightarrow> (u64, command) queues \<Rightarrow> bool" where
  "wl_reach sids \<equiv> queue_reach cmd_ready cmd_signals (set sids)"

lemma wl_emit_fields [simp]:
  "wl_queues (wl_emit a sid c ws) = wl_queues ws" "wl_signaled (wl_emit a sid c ws) = wl_signaled ws"
  "wl_log (wl_emit a sid c ws) = wl_log ws" "rt_cfg (wl_rt (wl_emit a sid c ws)) = rt_cfg (wl_rt ws)"
  "wl_steps (wl_emit a sid c ws) = wl_steps ws"
  by (simp_all add: wl_emit_def)

lemma command_ready_abs: "wl_signals_ok ws \<Longrightarrow>
    command_ready ws (c_body c) \<longleftrightarrow> cmd_ready (signals_of cmd_signals (wl_log ws)) c"
  by (cases "c_body c") (auto simp: cmd_ready_def wl_signals_ok_def set_eq_iff)

lemma with_rt_fields [simp]:
  "wl_queues (fst (with_rt ws r)) = wl_queues ws" "wl_signaled (fst (with_rt ws r)) = wl_signaled ws"
  "wl_log (fst (with_rt ws r)) = wl_log ws" "wl_rt (fst (with_rt ws r)) = fst r"
  by (simp_all add: with_rt_def)

lemma exec_copy_fields [simp]:
  "wl_queues (fst (exec_copy cp ws)) = wl_queues ws" "wl_signaled (fst (exec_copy cp ws)) = wl_signaled ws"
  "wl_log (fst (exec_copy cp ws)) = wl_log ws"
  by (simp_all add: exec_copy_def split: copy_kind.split)

lemma after_run_fields [simp]:
  "wl_queues (fst (after_run ws r)) = wl_queues ws" "wl_signaled (fst (after_run ws r)) = wl_signaled ws"
  "wl_log (fst (after_run ws r)) = wl_log ws" "wl_rt (fst (after_run ws r)) = fst r"
  by (simp_all add: after_run_def Let_def split: sum.split)

lemma exec_kernel_fields:
  assumes "exec_kernel env order rs kp ws = Some (ws', oc)"
  shows "wl_queues ws' = wl_queues ws \<and> wl_signaled ws' = wl_signaled ws \<and> wl_log ws' = wl_log ws"
  using assms by (auto simp: exec_kernel_def split: sum.splits dest!: arg_cong [of _ _ fst])

lemma exec_copy_continue: "snd (exec_copy cp ws) \<noteq> Finish r"
  by (simp add: exec_copy_def with_rt_def split: copy_kind.split sum.split)

text \<open>What a command does to the queues, the events and the log.\<close>

lemma exec_command_fields:
  assumes "exec_command env order rs sid c ws = Some (ws', oc)"
  shows "wl_queues ws' = wl_queues ws \<and> wl_log ws' = wl_log ws \<and>
    (oc = Continue \<longrightarrow> Collect (wl_signaled ws') = Collect (wl_signaled ws) \<union> cmd_signals c) \<and>
    (oc \<noteq> Continue \<longrightarrow> wl_signaled ws' = wl_signaled ws)"
proof (cases "c_body c")
  case (Copy cp)
  then have "ws' = fst (exec_copy cp ws)" using assms by (simp add: exec_command_def prod_eq_iff)
  then show ?thesis using Copy by (simp add: cmd_signals_def)
qed (use assms in \<open>auto simp: exec_command_def cmd_signals_def dest!: exec_kernel_fields\<close>)

lemma after_run_finish: "after_run ws r = (w, Finish x) \<Longrightarrow> \<not> (sr_completed x \<and> sr_diag x = None)"
  by (auto simp: after_run_def Let_def split: sum.splits if_splits)

lemma exec_command_finish:
  assumes "exec_command env order rs sid c ws = Some (ws', Finish r)"
  shows "(\<exists>kp. c_body c = Kernel kp) \<and> \<not> (sr_completed r \<and> sr_diag r = None)"
proof (cases "c_body c")
  case (Copy cp)
  then have "snd (exec_copy cp ws) = Finish r" using assms by (simp add: exec_command_def prod_eq_iff)
  then show ?thesis using exec_copy_continue by blast
next
  case (Kernel kp)
  then show ?thesis using assms after_run_finish
    by (auto simp: exec_command_def exec_kernel_def split: sum.splits)
qed (use assms in \<open>simp_all add: exec_command_def\<close>)

lemma run_command_step:
  assumes "run_command env order rs sid c ws = Some (ws', oc)" and "wl_signals_ok ws"
  shows "wl_signals_ok ws' \<and>
    wl_abs ws' = (if oc = Continue then ((wl_queues ws)(sid := tl (wl_queues ws sid)), wl_log ws @ [(sid, c)]) else wl_abs ws)"
proof -
  from assms(1) obtain w where
    w: "exec_command env order rs sid c (wl_emit ''cmd_submit'' sid c (wl_emit ''cmd_ready'' sid c ws)) = Some (w, oc)"
    "ws' = (case oc of Continue \<Rightarrow> complete sid c w | _ \<Rightarrow> w)"
    by (auto simp: run_command_def)
  note f = exec_command_fields [OF w(1)]
  show ?thesis using assms(2) f w(2)
    by (cases oc) (auto simp: wl_signals_ok_def wl_abs_def complete_def Let_def)
qed

lemma run_command_finish:
  assumes "run_command env order rs sid c ws = Some (ws', Finish r)"
  shows "wl_queues ws' = wl_queues ws \<and> (\<exists>kp. c_body c = Kernel kp) \<and> \<not> (sr_completed r \<and> sr_diag r = None)"
proof -
  from assms obtain w where
    "exec_command env order rs sid c (wl_emit ''cmd_submit'' sid c (wl_emit ''cmd_ready'' sid c ws)) = Some (w, Finish r)"
    "ws' = w"
    by (auto simp: run_command_def split: outcome.splits)
  then show ?thesis using exec_command_fields exec_command_finish by fastforce
qed

section \<open>A sweep is a sequence of steps\<close>

lemma sweep_steps:
  assumes "sweep_streams env order rs sids rem prog ws = Some (ws', rem', prog', oc)"
    and "wl_signals_ok ws" and "set sids \<subseteq> set all"
  shows "wl_signals_ok ws' \<and> wl_reach all (wl_abs ws) (wl_abs ws')"
  using assms
proof (induction sids arbitrary: rem prog ws)
  case (Cons sid sids)
  show ?case
  proof (cases "wl_queues ws sid")
    case Nil
    then show ?thesis using Cons by simp
  next
    case (Cons c q)
    show ?thesis
    proof (cases "command_ready ws (c_body c)")
      case False
      then show ?thesis using Cons.prems Cons.IH \<open>wl_queues ws sid = c # q\<close> by simp
    next
      case True
      then obtain w oc1 where w: "run_command env order rs sid c ws = Some (w, oc1)"
        using Cons.prems(1) \<open>wl_queues ws sid = c # q\<close> by (auto split: option.splits)
      note step = run_command_step [OF w Cons.prems(2)]
      have "wl_reach all (wl_abs ws) (wl_abs w)"
      proof (cases "oc1 = Continue")
        case True
        have "queue_step cmd_ready cmd_signals (set all) (wl_abs ws) (wl_abs w)"
          unfolding wl_abs_def [of ws]
          using run_head [of sid "set all" "wl_queues ws" c q cmd_ready cmd_signals "wl_log ws"] step True
            Cons.prems(2,3) \<open>wl_queues ws sid = c # q\<close> \<open>command_ready ws (c_body c)\<close> command_ready_abs
          by simp
        then show ?thesis by blast
      qed (use step in simp)
      moreover have "wl_signals_ok ws' \<and> wl_reach all (wl_abs w) (wl_abs ws')"
        using Cons.prems(1,3) Cons.IH [of True True w] step True w \<open>wl_queues ws sid = c # q\<close>
        by (cases oc1) auto
      ultimately show ?thesis by (meson rtranclp_trans)
    qed
  qed
qed simp

text \<open>What the flags and the outcome of a sweep say.\<close>

definition failed_kernel :: "wl_state \<Rightarrow> sim_result \<Rightarrow> bool" where
  "failed_kernel ws r \<longleftrightarrow> \<not> (sr_completed r \<and> sr_diag r = None) \<and>
     (\<exists>sid c q kp. wl_queues ws sid = c # q \<and> c_body c = Kernel kp)"

lemma sweep_result:
  assumes "sweep_streams env order rs sids rem prog ws = Some (ws', rem', prog', oc)" and "wl_signals_ok ws"
  shows "case oc of
      Finish r \<Rightarrow> failed_kernel ws' r
    | Abort e \<Rightarrow> True
    | Continue \<Rightarrow>
        (rem \<longrightarrow> rem') \<and>
        (\<not> rem' \<longrightarrow> ws' = ws \<and> (\<forall>sid \<in> set sids. wl_queues ws sid = [])) \<and>
        (rem' \<and> \<not> rem \<and> \<not> prog' \<longrightarrow> (\<exists>sid \<in> set sids. wl_queues ws sid \<noteq> [])) \<and>
        (prog \<longrightarrow> prog') \<and>
        (\<not> prog' \<longrightarrow> ws' = ws \<and>
           (\<forall>sid \<in> set sids. wl_queues ws sid \<noteq> [] \<longrightarrow> \<not> command_ready ws (c_body (hd (wl_queues ws sid))))) \<and>
        length (wl_log ws) + (if prog' \<and> \<not> prog then 1 else 0) \<le> length (wl_log ws')"
  using assms
proof (induction sids arbitrary: rem prog ws)
  case (Cons sid sids)
  show ?case
  proof (cases "wl_queues ws sid")
    case Nil
    then show ?thesis using Cons.prems Cons.IH [of rem prog ws] by (cases oc) auto
  next
    case (Cons c q)
    show ?thesis
    proof (cases "command_ready ws (c_body c)")
      case False
      then show ?thesis using Cons.prems Cons.IH [of True prog ws] \<open>wl_queues ws sid = c # q\<close>
        by (cases oc; auto split: if_splits)
    next
      case True
      then obtain w oc1 where w: "run_command env order rs sid c ws = Some (w, oc1)"
        using Cons.prems(1) \<open>wl_queues ws sid = c # q\<close> by (auto split: option.splits)
      note step = run_command_step [OF w Cons.prems(2)]
      show ?thesis
      proof (cases oc1)
        case Continue
        then have "sweep_streams env order rs sids True True w = Some (ws', rem', prog', oc)" "wl_signals_ok w"
          "length (wl_log w) = length (wl_log ws) + 1"
          using Cons.prems(1) True w \<open>wl_queues ws sid = c # q\<close> step by (simp_all add: wl_abs_def)
        with Cons.IH [OF this(1,2)] show ?thesis by (simp split: outcome.splits)
      next
        case (Finish r)
        have "failed_kernel w r" unfolding failed_kernel_def
          using run_command_finish [OF w [unfolded Finish]] \<open>wl_queues ws sid = c # q\<close> by metis
        moreover have "w = ws' \<and> oc = Finish r"
          using Finish Cons.prems(1) True w \<open>wl_queues ws sid = c # q\<close> by simp
        ultimately show ?thesis by simp
      next
        case (Abort e)
        then have "oc = Abort e" using Cons.prems(1) True w \<open>wl_queues ws sid = c # q\<close> by simp
        then show ?thesis by simp
      qed
    qed
  qed
qed simp

section \<open>What a schedule ends with\<close>

abbreviation stream_list :: "resources \<Rightarrow> u64 list" where
  "stream_list rs \<equiv> map snd (rs_streams rs)"

definition schedule_end :: "resources \<Rightarrow> wl_state \<Rightarrow> sim_result \<Rightarrow> bool" where
  "schedule_end rs ws res \<longleftrightarrow>
     res = completed_result (wl_steps ws) \<and> (\<forall>sid \<in> set (stream_list rs). wl_queues ws sid = []) \<or>
     res = deadlock_result (wl_steps ws) \<and> stuck cmd_ready cmd_signals (set (stream_list rs)) (wl_abs ws) \<and>
       (\<exists>sid \<in> set (stream_list rs). wl_queues ws sid \<noteq> []) \<or>
     failed_kernel ws res"

lemma schedule_ends:
  assumes "schedule env order rs ws = Some (ws', r)"
  shows "wl_signals_ok ws \<longrightarrow> wl_reach (stream_list rs) (wl_abs ws) (wl_abs ws') \<and> wl_signals_ok ws' \<and>
    (\<forall>res. r = Inr res \<longrightarrow> schedule_end rs ws' res)"
proof -
  define y where "y = (ws', r)"
  have "wl_signals_ok ws \<longrightarrow> wl_reach (stream_list rs) (wl_abs ws) (wl_abs (fst y)) \<and> wl_signals_ok (fst y) \<and>
    (\<forall>res. snd y = Inr res \<longrightarrow> schedule_end rs (fst y) res)"
  proof (rule schedule.raw_induct [OF _ assms [folded y_def],
        where P = "\<lambda>env order rs ws y. wl_signals_ok ws \<longrightarrow> wl_reach (stream_list rs) (wl_abs ws) (wl_abs (fst y)) \<and>
          wl_signals_ok (fst y) \<and> (\<forall>res. snd y = Inr res \<longrightarrow> schedule_end rs (fst y) res)"])
    fix sched env order rs ws z
    assume sched: "\<And>env order rs ws y. sched env order rs ws = Some y \<Longrightarrow>
        wl_signals_ok ws \<longrightarrow> wl_reach (stream_list rs) (wl_abs ws) (wl_abs (fst y)) \<and>
          wl_signals_ok (fst y) \<and> (\<forall>res. snd y = Inr res \<longrightarrow> schedule_end rs (fst y) res)"
      and body: "(case sweep_streams env order rs (stream_list rs) False False ws of
        None \<Rightarrow> None
      | Some (ws, remaining, progressed, oc) \<Rightarrow>
          (case oc of
             Finish r \<Rightarrow> Some (ws, Inr r)
           | Abort e \<Rightarrow> Some (ws, Inl e)
           | Continue \<Rightarrow>
               if \<not> remaining then Some (ws, Inr (completed_result (wl_steps ws)))
               else if \<not> progressed then Some (ws, Inr (deadlock_result (wl_steps ws)))
               else sched env order rs ws)) = Some z"
    show "wl_signals_ok ws \<longrightarrow> wl_reach (stream_list rs) (wl_abs ws) (wl_abs (fst z)) \<and>
      wl_signals_ok (fst z) \<and> (\<forall>res. snd z = Inr res \<longrightarrow> schedule_end rs (fst z) res)"
    proof
      assume ok: "wl_signals_ok ws"
      from body obtain w rem prog oc where
        w: "sweep_streams env order rs (stream_list rs) False False ws = Some (w, rem, prog, oc)"
        by (auto split: option.splits)
      note steps = sweep_steps [OF w ok subset_refl] and res = sweep_result [OF w ok]
      consider (more) "oc = Continue" "rem" "prog" | (stop) "oc = Continue" "\<not> rem"
        | (dead) "oc = Continue" "rem" "\<not> prog" | (fail) r where "oc = Finish r" | (abort) e where "oc = Abort e"
        by (cases oc) auto
      then show "wl_reach (stream_list rs) (wl_abs ws) (wl_abs (fst z)) \<and> wl_signals_ok (fst z) \<and>
        (\<forall>res. snd z = Inr res \<longrightarrow> schedule_end rs (fst z) res)"
      proof cases
        case more
        then have "sched env order rs w = Some z" using body w by simp
        from sched [OF this] steps show ?thesis by (meson rtranclp_trans)
      next
        case stop
        then show ?thesis using body w steps res by (auto simp: schedule_end_def)
      next
        case dead
        then have "stuck cmd_ready cmd_signals (set (stream_list rs)) (wl_abs w)"
          using res ok command_ready_abs by (auto simp: stuck_def wl_abs_def)
        moreover have "\<exists>sid \<in> set (stream_list rs). wl_queues w sid \<noteq> []" using dead res by simp
        ultimately have "schedule_end rs w (deadlock_result (wl_steps w))" unfolding schedule_end_def by blast
        then show ?thesis using dead body w steps by auto
      next
        case fail
        then show ?thesis using body w steps res by (auto simp: schedule_end_def)
      next
        case abort
        then show ?thesis using body w steps by auto
      qed
    qed
  qed
  then show ?thesis by (simp add: y_def)
qed

section \<open>Every workload returns\<close>

lemma rt_cfg_frames [simp]:
  "rt_cfg (fst (host_alloc n st)) = rt_cfg st" "rt_cfg (fst (host_write h off bs st)) = rt_cfg st"
  "rt_cfg (fst (device_malloc n al st)) = rt_cfg st" "rt_cfg (fst (memcpy_h2d d s so n st)) = rt_cfg st"
  "rt_cfg (fst (memcpy_d2h d off s n st)) = rt_cfg st"
  by (simp_all add: host_alloc_def host_write_def device_malloc_def memcpy_h2d_def memcpy_d2h_def Let_def
      split: option.split prod.split sum.split bool.split)

lemma run_entry_cfg: "run_entry env st toks entry isa reg args launch = Some (st', r) \<Longrightarrow> rt_cfg st' = rt_cfg st"
  by (auto simp: run_entry_def run_bound_def run_kernel_tokens_impl_def split: sum.splits option.splits prod.splits)

lemma exec_command_cfg:
  assumes "exec_command env order rs sid c ws = Some (ws', oc)"
  shows "rt_cfg (wl_rt ws') = rt_cfg (wl_rt ws)"
proof (cases "c_body c")
  case (Copy cp)
  then have "ws' = fst (exec_copy cp ws)" using assms by (simp add: exec_command_def prod_eq_iff)
  then show ?thesis by (simp add: exec_copy_def split: copy_kind.split)
next
  case (Kernel kp)
  then show ?thesis using assms
    by (auto simp: exec_command_def exec_kernel_def run_ptx_kernel_with_args_entry_launch_def prod_eq_iff
        dest: run_entry_cfg split: sum.splits)
qed (use assms in \<open>auto simp: exec_command_def\<close>)

lemma exec_command_total:
  "\<not> parallel_enabled (ac_sim (rt_cfg (wl_rt ws))) \<Longrightarrow> exec_command env order rs sid c ws \<noteq> None"
  by (simp add: exec_command_def exec_kernel_def run_ptx_kernel_with_args_entry_launch_def run_entry_total
      del: not_None_eq split: command_body.split sum.split)

lemma run_command_total:
  assumes "\<not> parallel_enabled (ac_sim (rt_cfg (wl_rt ws)))"
  shows "\<exists>ws' oc. run_command env order rs sid c ws = Some (ws', oc) \<and> rt_cfg (wl_rt ws') = rt_cfg (wl_rt ws)"
proof -
  let ?ws = "wl_emit ''cmd_submit'' sid c (wl_emit ''cmd_ready'' sid c ws)"
  obtain w oc where w: "exec_command env order rs sid c ?ws = Some (w, oc)"
    using exec_command_total [of ?ws env order rs sid c] assms by auto
  from exec_command_cfg [OF w] show ?thesis
    by (cases oc) (simp_all add: run_command_def w complete_def Let_def)
qed

lemma sweep_total:
  assumes "\<not> parallel_enabled (ac_sim (rt_cfg (wl_rt ws)))"
  shows "\<exists>ws' rem' prog' oc. sweep_streams env order rs sids rem prog ws = Some (ws', rem', prog', oc) \<and>
    rt_cfg (wl_rt ws') = rt_cfg (wl_rt ws)"
  using assms
proof (induction sids arbitrary: rem prog ws)
  case (Cons sid sids)
  show ?case
  proof (cases "wl_queues ws sid")
    case (Cons c q)
    obtain w oc where w: "run_command env order rs sid c ws = Some (w, oc)" "rt_cfg (wl_rt w) = rt_cfg (wl_rt ws)"
      using run_command_total [OF Cons.prems] by blast
    then show ?thesis using Cons Cons.IH [OF Cons.prems] Cons.IH [of w] Cons.prems by (cases oc) auto
  qed (use Cons in simp)
qed simp

lemma schedule_total:
  assumes "\<not> parallel_enabled (ac_sim (rt_cfg (wl_rt ws)))" and "wl_signals_ok ws"
  shows "schedule env order rs ws \<noteq> None"
  using assms
proof (induction "queued (set (stream_list rs)) (wl_queues ws)" arbitrary: ws rule: less_induct)
  case less
  obtain w rem prog oc where w: "sweep_streams env order rs (stream_list rs) False False ws = Some (w, rem, prog, oc)"
    "rt_cfg (wl_rt w) = rt_cfg (wl_rt ws)"
    using sweep_total [OF less.prems(1)] by blast
  note steps = sweep_steps [OF w(1) less.prems(2) subset_refl] and res = sweep_result [OF w(1) less.prems(2)]
  have "schedule env order rs w \<noteq> None" if "oc = Continue" "prog"
  proof (rule less.hyps)
    have "queue_reach cmd_ready cmd_signals (set (stream_list rs)) (wl_abs ws) (wl_abs w)" using steps by simp
    from queue_conserved [OF this]
    have "queued (set (stream_list rs)) (wl_queues w) + length (wl_log w) =
        queued (set (stream_list rs)) (wl_queues ws) + length (wl_log ws)"
      by (simp add: wl_abs_def)
    moreover have "length (wl_log ws) < length (wl_log w)" using res that by simp
    ultimately show "queued (set (stream_list rs)) (wl_queues w) < queued (set (stream_list rs)) (wl_queues ws)"
      by linarith
  qed (use w(2) less.prems(1) steps in simp_all)
  then show ?case by (subst schedule.simps) (simp add: w(1) split: outcome.split)
qed

section \<open>Preparation\<close>

lemma make_hosts_cfg: "rt_cfg (fst (make_hosts env ds acc st)) = rt_cfg st"
proof (induction env ds acc st rule: make_hosts.induct)
  case (2 env name d ds acc st)
  then show ?case
    by (auto split: prod.split sum.split option.split dest!: arg_cong [of _ _ fst] arg_cong [of _ _ rt_cfg])
qed simp

lemma make_devs_cfg: "rt_cfg (fst (make_devs ds acc st)) = rt_cfg st"
  by (induction ds acc st rule: make_devs.induct)
    (auto split: prod.split dest!: arg_cong [of _ _ fst] arg_cong [of _ _ rt_cfg])

definition unstarted :: "app_config \<Rightarrow> wl_state \<Rightarrow> bool" where
  "unstarted cfg ws \<longleftrightarrow> wl_log ws = [] \<and> wl_signaled ws = (\<lambda>_. False) \<and> rt_cfg (wl_rt ws) = cfg"

lemma enqueue_commands_unstarted:
  "unstarted cfg ws \<Longrightarrow> unstarted cfg (fst (enqueue_commands to_u64 wsz rs sid vs cid ws))"
  by (induction to_u64 wsz rs sid vs cid ws rule: enqueue_commands.induct)
    (auto simp: enqueue_def unstarted_def split: sum.split)

lemma enqueue_streams_unstarted:
  "unstarted cfg ws \<Longrightarrow> unstarted cfg (fst (enqueue_streams to_u64 wsz rs svs cid ws))"
proof (induction to_u64 wsz rs svs cid ws rule: enqueue_streams.induct)
  case (2 to_u64 wsz rs sname sv svs cid ws)
  then show ?case
    using enqueue_commands_unstarted [of cfg ws to_u64 wsz rs]
    by (auto split: sum.split prod.split) (metis fst_conv)+
qed simp

lemma prepare_unstarted: "unstarted (rt_cfg st) (fst (prepare env wk streams st))"
proof -
  have start: "unstarted (rt_cfg s) (wl_start s)" for s by (simp add: unstarted_def wl_start_def)
  obtain s1 h where s1: "make_hosts env (wk_hosts wk) [] st = (s1, h)" by fastforce
  then have c1: "rt_cfg s1 = rt_cfg st" by (metis fst_conv make_hosts_cfg)
  obtain s2 d where s2: "make_devs (wk_devs wk) [] s1 = (s2, d)" by fastforce
  then have c2: "rt_cfg s2 = rt_cfg s1" by (metis fst_conv make_devs_cfg)
  have enq: "unstarted (rt_cfg s2) ws"
    if "enqueue_streams to_u64 wsz rs svs cid (wl_start s2) = (ws, r)" for to_u64 wsz rs svs cid ws r
    using enqueue_streams_unstarted [OF start [of s2], of to_u64 wsz rs svs cid] that by simp
  show ?thesis
    using start [of s1] start [of s2] c1 c2 enq
    by (auto simp: prepare_def s1 s2 Let_def split: sum.split prod.split)
qed

lemma unstarted_signals: "unstarted cfg ws \<Longrightarrow> wl_signals_ok ws"
  by (simp add: unstarted_def wl_signals_ok_def)

lemma run_workload_total:
  assumes "\<not> parallel_enabled (ac_sim (rt_cfg st))"
  shows "run_workload env order path st \<noteq> None"
proof -
  have "schedule env order rs ws \<noteq> None" if "prepare env wk streams st = (ws, Inr rs)" for wk streams ws rs
  proof -
    have "unstarted (rt_cfg st) ws" using prepare_unstarted [of st env wk streams] that by simp
    then show ?thesis using schedule_total [of ws] unstarted_signals assms by (auto simp: unstarted_def)
  qed
  then show ?thesis by (auto simp: run_workload_def split: sum.split prod.split)
qed

section \<open>Properties\<close>



text \<open>
  C7.  However a run of the queues ends, each stream has had its commands executed in their order,
  each exactly once, from the first one on, and a wait for an event is executed only after a
  command that records this event.
\<close>

theorem streams_run_in_order:
  assumes "prepare env wk streams st = (ws, Inr rs)" and "schedule env order rs ws = Some (ws', r)"
  shows "(\<forall>sid. run_of sid (wl_log ws') @ wl_queues ws' sid = wl_queues ws sid) \<and>
    (\<forall>done sid c e rest. wl_log ws' = done @ (sid, c) # rest \<longrightarrow> c_body c = EventWait e \<longrightarrow>
       (\<exists>x \<in> set done. \<exists>e'. c_body (snd x) = EventRecord e' \<and> ep_id e' = ep_id e))"
proof -
  have start: "unstarted (rt_cfg st) ws" using prepare_unstarted [of st env wk streams] assms(1) by simp
  then have reach: "wl_reach (stream_list rs) (wl_abs ws) (wl_abs ws')" and log: "wl_log ws = []"
    using schedule_ends [OF assms(2)] unstarted_signals by (auto simp: unstarted_def)
  have ready: "cmd_ready (signals_of cmd_signals done) c" if "wl_log ws' = done @ (sid, c) # rest" for "done" sid c rest
    using queue_ready [OF reach, of "done" sid c rest] log that by (simp add: wl_abs_def)
  have "\<exists>x \<in> set done. \<exists>e'. c_body (snd x) = EventRecord e' \<and> ep_id e' = ep_id e"
    if run: "wl_log ws' = done @ (sid, c) # rest" and wait: "c_body c = EventWait e" for "done" sid c e rest
  proof -
    from ready [OF run] obtain x where x: "x \<in> set done" "ep_id e \<in> cmd_signals (snd x)"
      by (auto simp: cmd_ready_def signals_of_def wait)
    then obtain e' where "c_body (snd x) = EventRecord e'" "ep_id e' = ep_id e"
      by (auto simp: cmd_signals_def split: command_body.splits)
    then show ?thesis using x(1) by blast
  qed
  then show ?thesis using queue_fifo [OF reach] log by (auto simp: wl_abs_def)
qed

text \<open>
  C6.  A run of the queues that ends with a result ends in one of three ways: all queues are
  empty and the result is the completion; or a deadlock is reported, and then no order of the
  commands whatsoever would have emptied the queues; or a kernel at the head of a queue has
  failed, and its result is given.
\<close>

theorem workload_outcome:
  assumes "prepare env wk streams st = (ws, Inr rs)" and "schedule env order rs ws = Some (ws', Inr res)"
  shows "res = completed_result (wl_steps ws') \<and> (\<forall>sid \<in> set (stream_list rs). wl_queues ws' sid = []) \<or>
    res = deadlock_result (wl_steps ws') \<and>
      (\<forall>q log. wl_reach (stream_list rs) (wl_queues ws, []) (q, log) \<longrightarrow>
         (\<exists>sid \<in> set (stream_list rs). q sid \<noteq> [])) \<or>
    failed_kernel ws' res"
proof -
  have start: "unstarted (rt_cfg st) ws" using prepare_unstarted [of st env wk streams] assms(1) by simp
  then have reach: "wl_reach (stream_list rs) (wl_queues ws, []) (wl_abs ws')" and fin: "schedule_end rs ws' res"
    using schedule_ends [OF assms(2)] unstarted_signals by (auto simp: unstarted_def wl_abs_def)
  have "\<exists>sid \<in> set (stream_list rs). q sid \<noteq> []"
    if "stuck cmd_ready cmd_signals (set (stream_list rs)) (wl_abs ws')" "sid \<in> set (stream_list rs)"
      "wl_queues ws' sid \<noteq> []" "wl_reach (stream_list rs) (wl_queues ws, []) (q, log)" for sid q log
  proof
    have "suffix (wl_queues ws' sid) (q sid)"
      using wl.stuck_is_furthest [OF reach that(1,4), of sid] by (simp add: wl_abs_def)
    then show "q sid \<noteq> []" using that(3) by (auto simp: suffix_def)
  qed (rule that(2))
  then show ?thesis using fin unfolding schedule_end_def by blast
qed

text \<open>Two streams: one waits for an event that the other records; and one that waits in vain.\<close>

definition demo_command :: "string \<Rightarrow> string \<Rightarrow> unit json" where
  "demo_command kind e = JObj [(kind, JObj [(''event'', JStr e)])]"

definition demo_streams :: "(string \<times> unit json) list" where
  "demo_streams =
     [(''a'', JObj [(''commands'', JArr [demo_command ''event_wait'' ''e'', JObj [(''sync'', JNull)]])]),
      (''b'', JObj [(''commands'', JArr [demo_command ''event_record'' ''e''])])]"

definition demo_deadlock :: "(string \<times> unit json) list" where
  "demo_deadlock = [(''a'', JObj [(''commands'', JArr [demo_command ''event_wait'' ''e''])])]"

definition demo_workload :: workload where
  "demo_workload = \<lparr>wk_hosts = [], wk_devs = [], wk_modules = [], wk_events = [''e'']\<rparr>"

lemmas demo_defs = prepare_def demo_workload_def demo_command_def number_from_one_def Let_def command_entry_def
  parse_command_body_def parse_event_def string_field_def require_field_def require_string_def object_or_def
  stream_commands_def check_def rethrow_def of_option_def enqueue_def wl_emit_def wl_start_def

lemma streams_run_in_order_witness:
  "\<exists>ws rs ws' r. prepare demo_rt_env demo_workload demo_streams demo_runtime = (ws, Inr rs) \<and>
     schedule demo_rt_env id rs ws = Some (ws', r) \<and> length (wl_queues ws 1) = 2 \<and>
     run_of 1 (wl_log ws') @ wl_queues ws' 1 = wl_queues ws 1"
proof -
  have "\<exists>ws rs. prepare demo_rt_env demo_workload demo_streams demo_runtime = (ws, Inr rs) \<and> length (wl_queues ws 1) = 2"
    by (simp add: demo_defs demo_streams_def)
  then obtain ws rs where p: "prepare demo_rt_env demo_workload demo_streams demo_runtime = (ws, Inr rs)"
    "length (wl_queues ws 1) = 2" by blast
  have u: "unstarted (rt_cfg demo_runtime) ws"
    using prepare_unstarted [of demo_runtime demo_rt_env demo_workload demo_streams] p(1) by simp
  have "\<not> parallel_enabled (ac_sim (rt_cfg demo_runtime))" by code_simp
  then have "schedule demo_rt_env id rs ws \<noteq> None"
    using u by (intro schedule_total unstarted_signals [OF u]) (simp add: unstarted_def)
  then obtain ws' r where s: "schedule demo_rt_env id rs ws = Some (ws', r)" by fastforce
  show ?thesis using p s streams_run_in_order [OF p(1) s] by blast
qed

lemma workload_outcome_witness:
  "\<exists>ws rs ws' res. prepare demo_rt_env demo_workload demo_deadlock demo_runtime = (ws, Inr rs) \<and>
     schedule demo_rt_env id rs ws = Some (ws', Inr res) \<and> res = deadlock_result (wl_steps ws') \<and>
     (\<forall>q log. wl_reach (stream_list rs) (wl_queues ws, []) (q, log) \<longrightarrow>
        (\<exists>sid \<in> set (stream_list rs). q sid \<noteq> []))"
proof -
  let ?c = "\<lparr>c_id = 1, c_stream = 1, c_body = EventWait \<lparr>ep_id = 1, ep_name = ''e''\<rparr>\<rparr>"
  have "\<exists>ws rs. prepare demo_rt_env demo_workload demo_deadlock demo_runtime = (ws, Inr rs) \<and>
      wl_queues ws = (\<lambda>_. [])(1 := [?c]) \<and> rs_streams rs = [(''a'', 1)]"
    by (simp add: demo_defs demo_deadlock_def)
  then obtain ws rs where p: "prepare demo_rt_env demo_workload demo_deadlock demo_runtime = (ws, Inr rs)"
    "wl_queues ws = (\<lambda>_. [])(1 := [?c])" "rs_streams rs = [(''a'', 1)]" by blast
  have "wl_signaled ws = (\<lambda>_. False)"
    using prepare_unstarted [of demo_runtime demo_rt_env demo_workload demo_deadlock] p(1) by (simp add: unstarted_def)
  then have s: "schedule demo_rt_env id rs ws = Some (ws, Inr (deadlock_result (wl_steps ws)))"
    using p(2,3) by (subst schedule.simps) simp
  have "\<not> failed_kernel ws (deadlock_result (wl_steps ws))" using p(2) by (auto simp: failed_kernel_def split: if_splits)
  then show ?thesis using p s workload_outcome [OF p(1) s] by (auto simp: deadlock_result_def completed_result_def)
qed

end
