(* ===== verification/CudaMem.thy ===== *)
theory CudaMem
  imports Params
begin

text \<open>
  The CUDA runtime shim, first part: error codes and the error state of a thread
  (\<open>cuda_abi_min.h\<close>, \<open>error_state.cpp\<close>), the table of device allocations with the copies
  (\<open>device_memory.cpp\<close>), and the packing of launch arguments (\<open>kernel_args_pack.cpp\<close>).

  Host pointers are addresses of a byte memory, which stands for the memory of the process that
  uses the shim; null is 0.  As in C, a host range that is passed to an operation is taken to be
  accessible, and pointers have 64 bits in little-endian order.
\<close>

section \<open>Errors\<close>

datatype cuda_error =
  CudaSuccess | InvalidValue | MemoryAllocation | InitializationError | InvalidDeviceFunction
  | InvalidDevicePointer | InvalidMemcpyDirection | InvalidPtx | NotSupported | CudaUnknown

datatype memcpy_kind = HostToHost | HostToDevice | DeviceToHost | DeviceToDevice | MemcpyDefault

record error_state =
  es_last :: cuda_error
  es_message :: string

definition es_init :: error_state where
  "es_init = \<lparr>es_last = CudaSuccess, es_message = []\<rparr>"

definition es_set :: "cuda_error \<Rightarrow> string \<Rightarrow> error_state \<Rightarrow> error_state" where
  "es_set err msg es = es\<lparr>es_last := err, es_message := msg\<rparr>"

definition es_get_and_clear :: "error_state \<Rightarrow> error_state \<times> cuda_error" where
  "es_get_and_clear es = (es\<lparr>es_last := CudaSuccess, es_message := []\<rparr>, es_last es)"

section \<open>Device allocations\<close>

record dm_alloc =
  da_base :: u64
  da_bytes :: u64
  da_align :: u64

text \<open>The \<open>std::map\<close> by base address: a list in ascending order.\<close>

fun dm_put :: "dm_alloc \<Rightarrow> dm_alloc list \<Rightarrow> dm_alloc list" where
  "dm_put a [] = [a]"
| "dm_put a (b # bs) =
     (if da_base a < da_base b then a # b # bs
      else if da_base a = da_base b then a # bs
      else b # dm_put a bs)"

definition find_allocation_containing :: "dm_alloc list \<Rightarrow> u64 \<Rightarrow> dm_alloc option" where
  "find_allocation_containing as ptr =
     (case rev (takeWhile (\<lambda>a. da_base a \<le> ptr) as) of
        [] \<Rightarrow> None
      | a # _ \<Rightarrow>
          if ptr < da_base a then None
          else if ptr - da_base a \<ge> da_bytes a then None
          else Some a)"

definition is_valid_device_range :: "dm_alloc list \<Rightarrow> u64 \<Rightarrow> u64 \<Rightarrow> bool" where
  "is_valid_device_range as ptr bytes =
     (case find_allocation_containing as ptr of
        None \<Rightarrow> False
      | Some a \<Rightarrow> ptr - da_base a + bytes \<le> da_bytes a)"

text \<open>
  The state that the operations work on: the runtime, the table, the memory of the process and
  the error state of the calling thread.  An operation gives an error code; \<open>None\<close> stands for
  undefined behaviour.
\<close>

record cuda_mem =
  cm_rt :: runtime
  cm_allocs :: "dm_alloc list"
  cm_host :: "u64 \<rightharpoonup> u8"
  cm_err :: error_state

type_synonym 's cuda_op = "'s \<Rightarrow> 's \<times> cuda_error option"

definition give :: "cuda_error \<Rightarrow> 's cuda_op" where
  "give err st = (st, Some err)"

text \<open>The handler around the calls of the runtime.\<close>

definition caught :: "cuda_error \<Rightarrow> rt_error \<Rightarrow> cuda_mem cuda_op" where
  "caught err e st =
     (case e of
        Throws x \<Rightarrow> (st\<lparr>cm_err := es_set err (exn_what x) (cm_err st)\<rparr>, Some err)
      | Undefined \<Rightarrow> (st, None))"

definition rt_do :: "(runtime \<Rightarrow> runtime \<times> (rt_error + 'a)) \<Rightarrow> ('a \<Rightarrow> cuda_mem cuda_op) \<Rightarrow> cuda_mem cuda_op" where
  "rt_do f k st =
     (case f (cm_rt st) of
        (rt, Inl e) \<Rightarrow> caught CudaUnknown e (st\<lparr>cm_rt := rt\<rparr>)
      | (rt, Inr x) \<Rightarrow> k x (st\<lparr>cm_rt := rt\<rparr>))"

definition dm_malloc :: "u64 \<Rightarrow> u64 \<Rightarrow> cuda_mem cuda_op" where
  "dm_malloc out bytes st =
     (if out = 0 then (st, Some InvalidValue)
      else if bytes = 0 then (st\<lparr>cm_host := store_bytes (cm_host st) out (pack_le 0 8)\<rparr>, Some CudaSuccess)
      else case device_malloc bytes 16 (cm_rt st) of
             (rt, p) \<Rightarrow>
               (st\<lparr>cm_rt := rt, cm_allocs := dm_put \<lparr>da_base = p, da_bytes = bytes, da_align = 16\<rparr> (cm_allocs st),
                   cm_host := store_bytes (cm_host st) out (pack_le p 8)\<rparr>, Some CudaSuccess))"

definition dm_free :: "u64 \<Rightarrow> cuda_mem cuda_op" where
  "dm_free ptr st =
     (if ptr = 0 then (st, Some CudaSuccess)
      else if \<not> list_ex (\<lambda>a. da_base a = ptr) (cm_allocs st) then (st, Some InvalidDevicePointer)
      else (st\<lparr>cm_allocs := filter (\<lambda>a. da_base a \<noteq> ptr) (cm_allocs st)\<rparr>, Some CudaSuccess))"

definition copy_h2d :: "u64 \<Rightarrow> u64 \<Rightarrow> u64 \<Rightarrow> cuda_mem cuda_op" where
  "copy_h2d dst src bytes st =
     (if \<not> is_valid_device_range (cm_allocs st) dst bytes then (st, Some InvalidDevicePointer)
      else rt_do (host_alloc bytes) (\<lambda>h.
           rt_do (host_write h 0 (load_bytes (cm_host st) src (unat bytes))) (\<lambda>_.
           rt_do (memcpy_h2d dst h 0 bytes) (\<lambda>_. give CudaSuccess))) st)"

definition copy_d2h :: "u64 \<Rightarrow> u64 \<Rightarrow> u64 \<Rightarrow> cuda_mem cuda_op" where
  "copy_d2h dst src bytes st =
     (if \<not> is_valid_device_range (cm_allocs st) src bytes then (st, Some InvalidDevicePointer)
      else rt_do (host_alloc bytes) (\<lambda>h.
           rt_do (memcpy_d2h h 0 src bytes) (\<lambda>_.
           rt_do (\<lambda>rt. (rt, host_read h 0 bytes rt)) (\<lambda>data st.
             (case data of
                None \<Rightarrow> (st, Some CudaUnknown)
              | Some d \<Rightarrow> (st\<lparr>cm_host := store_bytes (cm_host st) dst d\<rparr>, Some CudaSuccess))))) st)"

definition copy_d2d :: "u64 \<Rightarrow> u64 \<Rightarrow> u64 \<Rightarrow> cuda_mem cuda_op" where
  "copy_d2d dst src bytes st =
     (if \<not> is_valid_device_range (cm_allocs st) dst bytes then (st, Some InvalidDevicePointer)
      else if \<not> is_valid_device_range (cm_allocs st) src bytes then (st, Some InvalidDevicePointer)
      else rt_do (host_alloc bytes) (\<lambda>h.
           rt_do (memcpy_d2h h 0 src bytes) (\<lambda>_.
           rt_do (memcpy_h2d dst h 0 bytes) (\<lambda>_. give CudaSuccess))) st)"

definition dm_memcpy :: "u64 \<Rightarrow> u64 \<Rightarrow> u64 \<Rightarrow> memcpy_kind \<Rightarrow> cuda_mem cuda_op" where
  "dm_memcpy dst src bytes kind st =
     (if bytes = 0 then (st, Some CudaSuccess)
      else if dst = 0 \<or> src = 0 then (st, Some InvalidValue)
      else case kind of
             HostToDevice \<Rightarrow> copy_h2d dst src bytes st
           | DeviceToHost \<Rightarrow> copy_d2h dst src bytes st
           | DeviceToDevice \<Rightarrow> copy_d2d dst src bytes st
           | HostToHost \<Rightarrow>
               (st\<lparr>cm_host := store_bytes (cm_host st) dst (load_bytes (cm_host st) src (unat bytes))\<rparr>, Some CudaSuccess)
           | MemcpyDefault \<Rightarrow> (st, Some InvalidMemcpyDirection))"

section \<open>Launch arguments\<close>

definition host_u64 :: "(u64 \<rightharpoonup> u8) \<Rightarrow> u64 \<Rightarrow> u64" where
  "host_u64 host a = unpack_le (load_bytes host a 8)"

definition blob_size :: "param_desc list \<Rightarrow> u64" where
  "blob_size layout = fold (\<lambda>p e. max e (ucast (pd_offset p) + ucast (pd_size p))) layout 0"

definition pack_param ::
  "(u64 \<rightharpoonup> u8) \<Rightarrow> dm_alloc list \<Rightarrow> u64 \<Rightarrow> nat \<Rightarrow> param_desc \<Rightarrow> u8 list \<Rightarrow> (cuda_error \<times> string) + u8 list"
where
  "pack_param host as params i p blob =
     (let src = host_u64 host (params + 8 * of_nat i)
      in if src = 0 then Inl (InvalidValue, ''kernelParams['' @ dec_string i @ ''] is null'')
         else if unat (pd_offset p) + unat (pd_size p) > length blob
         then Inl (InvalidValue, ''param layout out of bounds'')
         else case pd_type p of
             ParamU32 \<Rightarrow>
               if pd_size p \<noteq> 4
               then Inl (NotSupported, ''unsupported u32 param size='' @ dec_string (unat (pd_size p)))
               else Inr (blob_put (pd_offset p) (load_bytes host src 4) blob)
           | ParamU64 \<Rightarrow>
               if pd_size p \<noteq> 8
               then Inl (NotSupported, ''unsupported u64 param size='' @ dec_string (unat (pd_size p)))
               else let v = host_u64 host src
                    in if v \<noteq> 0 \<and> \<not> is_valid_device_range as v 1
                       then Inl (InvalidDevicePointer,
                         ''invalid device pointer arg['' @ dec_string i @ '']='' @ dec_string (unat v))
                       else Inr (blob_put (pd_offset p) (load_bytes host src 8) blob))"

fun pack_params ::
  "(u64 \<rightharpoonup> u8) \<Rightarrow> dm_alloc list \<Rightarrow> u64 \<Rightarrow> nat \<Rightarrow> param_desc list \<Rightarrow> u8 list \<Rightarrow> (cuda_error \<times> string) + u8 list"
where
  "pack_params host as params i [] blob = Inr blob"
| "pack_params host as params i (p # ps) blob =
     e_bind (pack_param host as params i p blob) (pack_params host as params (Suc i) ps)"

definition pack_kernel_args_mvp ::
  "param_desc list \<Rightarrow> u64 \<Rightarrow> dm_alloc list \<Rightarrow> (u64 \<rightharpoonup> u8) \<Rightarrow> (cuda_error \<times> string) + kernel_args"
where
  "pack_kernel_args_mvp layout params as host =
     (if params = 0 \<and> layout \<noteq> [] then Inl (InvalidValue, ''kernelParams is null'')
      else e_bind (pack_params host as params 0 layout (replicate (unat (blob_size layout)) 0)) (\<lambda>blob.
             Inr \<lparr>ka_layout = layout, ka_blob = blob\<rparr>))"

section \<open>Call configurations\<close>

record call_config =
  cc_grid :: dim3
  cc_block :: dim3
  cc_shared :: u64
  cc_stream :: u64

definition stack_push :: "call_config \<Rightarrow> call_config list \<Rightarrow> call_config list" where
  "stack_push c s = s @ [c]"

definition stack_pop :: "call_config list \<Rightarrow> call_config list \<times> call_config option" where
  "stack_pop s = (if s = [] then (s, None) else (butlast s, Some (last s)))"

section \<open>The table of allocations\<close>

text \<open>
  The table agrees with the allocator of the device memory: its entries are non-empty
  allocations made there, in ascending order and apart from one another, none of them at null.
\<close>

definition da_end :: "dm_alloc \<Rightarrow> nat" where
  "da_end a = unat (da_base a) + unat (da_bytes a)"

definition cm_ok :: "cuda_mem \<Rightarrow> bool" where
  "cm_ok st \<longleftrightarrow>
     alloc_wf (rt_mem (cm_rt st)) \<and>
     0 < next_global_addr (rt_mem (cm_rt st)) \<and>
     sorted_wrt (\<lambda>a b. da_end a \<le> unat (da_base b)) (cm_allocs st) \<and>
     (\<forall>a \<in> set (cm_allocs st). 0 < da_bytes a \<and> 0 < da_base a \<and>
        \<lparr>al_base = da_base a, al_size = da_bytes a\<rparr> \<in> set (allocs (rt_mem (cm_rt st))))"

lemma cm_ok_cong:
  assumes "cm_ok st" and "cm_allocs st' = cm_allocs st" and "alloc_wf (rt_mem (cm_rt st'))"
    and "allocs (rt_mem (cm_rt st')) = allocs (rt_mem (cm_rt st))"
    and "next_global_addr (rt_mem (cm_rt st')) = next_global_addr (rt_mem (cm_rt st))"
  shows "cm_ok st'"
  using assms by (simp add: cm_ok_def)

lemma cm_alloc_end:
  assumes "cm_ok st" and "a \<in> set (cm_allocs st)"
  shows "da_end a \<le> unat (next_global_addr (rt_mem (cm_rt st))) \<and> da_end a < 2 ^ 64 \<and> unat (da_base a) < da_end a"
proof -
  have al: "\<lparr>al_base = da_base a, al_size = da_bytes a\<rparr> \<in> set (allocs (rt_mem (cm_rt st)))" "0 < da_bytes a"
    using assms by (auto simp: cm_ok_def)
  then have "alloc_end \<lparr>al_base = da_base a, al_size = da_bytes a\<rparr> \<le> unat (next_global_addr (rt_mem (cm_rt st)))"
    using assms(1) by (auto simp: cm_ok_def alloc_wf_def)
  then show ?thesis using al(2) unat_u64_less [of "next_global_addr (rt_mem (cm_rt st))"]
    by (simp add: alloc_end_def da_end_def word_less_nat_alt)
qed

text \<open>The last entry at or below an address is the only one that can contain it.\<close>

lemma containing_iff:
  assumes "cm_ok st"
  shows "find_allocation_containing (cm_allocs st) q = Some a \<longleftrightarrow>
    a \<in> set (cm_allocs st) \<and> da_base a \<le> q \<and> unat q < da_end a"
proof -
  let ?as = "cm_allocs st"
  have sorted: "sorted_wrt (\<lambda>a b. da_end a \<le> unat (da_base b)) ?as" using assms by (simp add: cm_ok_def)
  have off: "unat (q - da_base b) = unat q - unat (da_base b)" if "da_base b \<le> q" for b
    using that by (simp add: unat_sub)
  have inside: "da_bytes b \<le> q - da_base b \<longleftrightarrow> \<not> unat q < da_end b" if "da_base b \<le> q" for b
    using that off [OF that] by (auto simp: word_le_nat_alt da_end_def)
  have split: "?as = takeWhile (\<lambda>a. da_base a \<le> q) ?as @ dropWhile (\<lambda>a. da_base a \<le> q) ?as" by simp
  show ?thesis
  proof (cases "takeWhile (\<lambda>a. da_base a \<le> q) ?as" rule: rev_cases)
    case Nil
    have "\<not> da_base a \<le> q" if mem: "a \<in> set ?as" for a
    proof -
      obtain b bs where as: "?as = b # bs" "\<not> da_base b \<le> q" using Nil mem by (cases ?as) (auto split: if_splits)
      have "da_base b \<le> da_base a"
        using sorted as(1) mem by (auto simp: word_le_nat_alt da_end_def)
      then show ?thesis using as(2) by (meson order_trans)
    qed
    then show ?thesis using Nil by (auto simp: find_allocation_containing_def)
  next
    case (snoc ys b)
    have b: "b \<in> set ?as" "da_base b \<le> q" using snoc set_takeWhileD [of b] by (metis in_set_conv_decomp)+
    have uniq: "a = b" if "a \<in> set ?as" "da_base a \<le> q" "unat q < da_end a"
    proof -
      obtain zs where zs: "?as = ys @ b # zs" using split snoc by (metis append.assoc append_Cons append_Nil)
      have drop: "zs \<noteq> [] \<longrightarrow> \<not> da_base (hd zs) \<le> q"
        using snoc zs hd_dropWhile [of "\<lambda>a. da_base a \<le> q" ?as]
        by (metis append.assoc append_Cons append_Nil same_append_eq split)
      have "a \<notin> set ys" using sorted zs b(2) that(3)
        by (auto simp: sorted_wrt_append word_le_nat_alt)
      moreover have "a \<notin> set zs"
      proof
        assume a: "a \<in> set zs"
        then obtain z zs' where "zs = z # zs'" by (cases zs) auto
        then have "da_base z \<le> da_base a" "\<not> da_base z \<le> q"
          using sorted zs a drop by (auto simp: sorted_wrt_append word_le_nat_alt da_end_def)
        then show False using that(2) by (meson order_trans)
      qed
      ultimately show ?thesis using that(1) zs by simp
    qed
    have "find_allocation_containing ?as q = (if unat q < da_end b then Some b else None)"
      unfolding find_allocation_containing_def snoc using b(2) inside [OF b(2)] by (auto simp: not_less)
    then show ?thesis using uniq b by auto
  qed
qed

lemma cm_ok_free:
  assumes "cm_ok st" and "dm_free ptr st = (st', r)"
  shows "cm_ok st'"
  using assms by (auto simp: dm_free_def cm_ok_def sorted_wrt_filter split: if_splits)

lemma dm_put_last:
  assumes "\<forall>b \<in> set bs. da_base b < da_base a"
  shows "dm_put a bs = bs @ [a]"
  using assms
proof (induction bs)
  case (Cons b bs)
  then have "\<not> da_base a < da_base b" "da_base a \<noteq> da_base b" by auto
  then show ?case using Cons by simp
qed simp

lemma cm_ok_malloc:
  assumes "cm_ok st" and "alloc_room (rt_mem (cm_rt st)) bytes 16" and "dm_malloc out bytes st = (st', r)"
    and "out \<noteq> 0" and "bytes \<noteq> 0"
  shows "cm_ok st' \<and> (\<exists>p. cm_allocs st' = cm_allocs st @ [\<lparr>da_base = p, da_bytes = bytes, da_align = 16\<rparr>] \<and>
    p mod 16 = 0 \<and> cm_host st' = store_bytes (cm_host st) out (pack_le p 8))"
proof -
  let ?m = "rt_mem (cm_rt st)"
  obtain m' p where m: "alloc_global ?m bytes 16 = (m', p)" by fastforce
  have wf: "alloc_wf ?m" using assms(1) by (simp add: cm_ok_def)
  note facts = alloc_global_facts [OF assms(2) m] and wf' = alloc_wf_alloc [OF wf assms(2) m]
  have below: "da_base a < p \<and> da_end a \<le> unat p" if "a \<in> set (cm_allocs st)" for a
    using cm_alloc_end [OF assms(1) that] facts(1) by (simp add: word_less_nat_alt)
  have st': "st' = st\<lparr>cm_rt := (cm_rt st)\<lparr>rt_mem := m'\<rparr>,
      cm_allocs := cm_allocs st @ [\<lparr>da_base = p, da_bytes = bytes, da_align = 16\<rparr>],
      cm_host := store_bytes (cm_host st) out (pack_le p 8)\<rparr>"
    using assms(3-5) m below dm_put_last [of "cm_allocs st" "\<lparr>da_base = p, da_bytes = bytes, da_align = 16\<rparr>"]
    by (simp add: dm_malloc_def device_malloc_def)
  have "sorted_wrt (\<lambda>a b. da_end a \<le> unat (da_base b)) (cm_allocs st')"
    using assms(1) below by (simp add: st' cm_ok_def sorted_wrt_append)
  moreover have "0 < p" "0 < next_global_addr m'"
    using facts(1,2) assms(1) unat_u64_less [of "next_global_addr m'"] by (auto simp: cm_ok_def word_less_nat_alt)
  ultimately have "cm_ok st'"
    using assms(1,5) wf' facts(4) by (auto simp: cm_ok_def st' word_neq_0_conv)
  then show ?thesis using facts(3) by (auto simp: st')
qed

text \<open>A valid range is one that the memory of the device accepts.\<close>

lemma valid_range_allocated:
  assumes "cm_ok st" and "is_valid_device_range (cm_allocs st) q n" and "n \<noteq> 0" and "unat q + unat n < 2 ^ 64"
  shows "global_range_allocated (rt_mem (cm_rt st)) q n"
proof -
  from assms(2) obtain a where a: "find_allocation_containing (cm_allocs st) q = Some a" "q - da_base a + n \<le> da_bytes a"
    by (auto simp: is_valid_device_range_def split: option.splits)
  then have mem: "a \<in> set (cm_allocs st)" "da_base a \<le> q" "unat q < da_end a" using containing_iff [OF assms(1)] by blast+
  have off: "unat (q - da_base a) = unat q - unat (da_base a)" using mem(2) by (simp add: unat_sub)
  have le: "unat (da_base a) \<le> unat q" using mem(2) by (simp add: word_le_nat_alt)
  have "unat (q - da_base a + n) = unat q - unat (da_base a) + unat n"
    using unat_add_u64 [of "q - da_base a" n] off le assms(4) by simp
  then have stop: "unat q + unat n \<le> da_end a" using a(2) le by (simp add: word_le_nat_alt da_end_def)
  note bound = cm_alloc_end [OF assms(1) mem(1)]
  have qn: "unat (q + n) = unat q + unat n" using unat_add_u64 assms(4) by simp
  have aend: "unat (da_base a + da_bytes a) = da_end a" using unat_add_u64 [of "da_base a" "da_bytes a"] bound
    by (simp add: da_end_def)
  have "alloc_covers \<lparr>al_base = da_base a, al_size = da_bytes a\<rparr> q (q + n)"
    using mem(2) stop bound by (simp add: alloc_covers_def Let_def word_le_nat_alt word_less_nat_alt qn aend)
  moreover have "\<lparr>al_base = da_base a, al_size = da_bytes a\<rparr> \<in> set (allocs (rt_mem (cm_rt st)))"
    using assms(1) mem(1) by (simp add: cm_ok_def)
  moreover have "\<not> q + n < q" by (simp add: word_less_nat_alt qn)
  ultimately show ?thesis using assms(3) by (auto simp: global_range_allocated_def Let_def list_ex_iff)
qed

text \<open>Staging a host buffer in the runtime.\<close>

lemma host_alloc_small:
  assumes "unat n < 2 ^ 63"
  shows "host_alloc n rt = (rt\<lparr>rt_next_host := rt_next_host rt + 1,
      rt_host := (rt_host rt)(rt_next_host rt \<mapsto> replicate (unat n) 0)\<rparr>, Inr (rt_next_host rt))"
  using assms by (simp add: host_alloc_def max_vector_def Let_def)

lemma host_write_all:
  assumes "rt_host rt h = Some buf" and "length bs = length buf" and "length buf < 2 ^ 63"
  shows "host_write h 0 bs rt = (rt\<lparr>rt_host := (rt_host rt)(h \<mapsto> bs)\<rparr>, Inr ())"
  using assms by (simp add: host_write_def unat_of_nat_u64)

lemma host_read_all:
  assumes "rt_host rt h = Some buf" and "length buf = unat n" and "unat n < 2 ^ 63"
  shows "host_read h 0 n rt = Inr (Some buf)"
  using assms by (simp add: host_read_def max_vector_def)

text \<open>
  A copy always ends with an error code: the staging buffer has the size of the copy, so that no
  access of it is outside, and every exception is caught.
\<close>

lemma copies_defined:
  "snd (copy_h2d dst src n st) \<noteq> None" "snd (copy_d2h dst src n st) \<noteq> None" "snd (copy_d2d dst src n st) \<noteq> None"
proof -
  have "snd (copy_h2d dst src n st) \<noteq> None \<and> snd (copy_d2h dst src n st) \<noteq> None \<and> snd (copy_d2d dst src n st) \<noteq> None"
  proof (cases "unat n < 2 ^ 63")
    case True
    have len: "length bs = unat n" if "read_global m q n = Some bs" for m q bs
      using that by (auto simp: read_global_def split: if_splits)
    show ?thesis using True len
      by (auto simp: copy_h2d_def copy_d2h_def copy_d2d_def rt_do_def host_alloc_small host_write_all memcpy_h2d_def
          memcpy_d2h_def host_read_all give_def caught_def split: option.split prod.split bool.split)
  next
    case False
    then show ?thesis
      by (simp add: copy_h2d_def copy_d2h_def copy_d2d_def rt_do_def host_alloc_def max_vector_def caught_def Let_def)
  qed
  then show "snd (copy_h2d dst src n st) \<noteq> None" "snd (copy_d2h dst src n st) \<noteq> None" "snd (copy_d2d dst src n st) \<noteq> None"
    by blast+
qed

lemma dm_memcpy_defined: "snd (dm_memcpy dst src n kind st) \<noteq> None"
  using copies_defined by (simp add: dm_memcpy_def split: memcpy_kind.split del: not_None_eq)

text \<open>The runtime after a staged copy: only a host buffer more, and the memory of the device.\<close>

definition staged :: "u8 list \<Rightarrow> addr_space_manager \<Rightarrow> runtime \<Rightarrow> runtime" where
  "staged bs m rt = rt\<lparr>rt_mem := m, rt_next_host := rt_next_host rt + 1,
     rt_host := (rt_host rt)(rt_next_host rt \<mapsto> bs)\<rparr>"

lemma copy_h2d_succeeds:
  assumes "cm_ok st" and "is_valid_device_range (cm_allocs st) dst n" and "n \<noteq> 0"
    and "unat n < 2 ^ 63" and "unat dst + unat n < 2 ^ 64"
  shows "\<exists>m. write_global (rt_mem (cm_rt st)) dst (load_bytes (cm_host st) src (unat n)) = (m, True) \<and>
    copy_h2d dst src n st =
      (st\<lparr>cm_rt := staged (load_bytes (cm_host st) src (unat n)) m (cm_rt st)\<rparr>, Some CudaSuccess)"
proof -
  let ?bs = "load_bytes (cm_host st) src (unat n)"
  have "global_range_allocated (rt_mem (cm_rt st)) dst (of_nat (length ?bs))"
    using valid_range_allocated [OF assms(1,2,3,5)] by simp
  then obtain m where m: "write_global (rt_mem (cm_rt st)) dst ?bs = (m, True)" by (simp add: write_global_def)
  then show ?thesis using assms(2,4)
    by (simp add: copy_h2d_def rt_do_def host_alloc_small host_write_all memcpy_h2d_def host_read_all give_def staged_def)
qed

lemma copy_d2h_succeeds:
  assumes "cm_ok st" and "is_valid_device_range (cm_allocs st) src n" and "n \<noteq> 0"
    and "unat n < 2 ^ 63" and "unat src + unat n < 2 ^ 64"
  shows "\<exists>bs. read_global (rt_mem (cm_rt st)) src n = Some bs \<and>
    copy_d2h dst src n st =
      (st\<lparr>cm_rt := staged bs (rt_mem (cm_rt st)) (cm_rt st), cm_host := store_bytes (cm_host st) dst bs\<rparr>, Some CudaSuccess)"
proof -
  have "global_range_allocated (rt_mem (cm_rt st)) src n" using valid_range_allocated [OF assms(1,2,3,5)] .
  then obtain bs where bs: "read_global (rt_mem (cm_rt st)) src n = Some bs" "length bs = unat n"
    by (simp add: read_global_def)
  then show ?thesis using assms(2,4)
    by (simp add: copy_d2h_def rt_do_def host_alloc_small host_write_all memcpy_d2h_def host_read_all staged_def)
qed

lemma copy_d2d_succeeds:
  assumes "cm_ok st" and "is_valid_device_range (cm_allocs st) src n" and "is_valid_device_range (cm_allocs st) dst n"
    and "n \<noteq> 0" and "unat n < 2 ^ 63" and "unat src + unat n < 2 ^ 64" and "unat dst + unat n < 2 ^ 64"
  shows "\<exists>bs m. read_global (rt_mem (cm_rt st)) src n = Some bs \<and> write_global (rt_mem (cm_rt st)) dst bs = (m, True) \<and>
    copy_d2d dst src n st = (st\<lparr>cm_rt := staged bs m (cm_rt st)\<rparr>, Some CudaSuccess)"
proof -
  have "global_range_allocated (rt_mem (cm_rt st)) src n" using valid_range_allocated [OF assms(1,2,4,6)] .
  then obtain bs where bs: "read_global (rt_mem (cm_rt st)) src n = Some bs" "length bs = unat n"
    by (simp add: read_global_def)
  have "global_range_allocated (rt_mem (cm_rt st)) dst (of_nat (length bs))"
    using valid_range_allocated [OF assms(1,3,4,7)] bs(2) by simp
  then obtain m where "write_global (rt_mem (cm_rt st)) dst bs = (m, True)" by (simp add: write_global_def)
  then show ?thesis using assms(2,3,5) bs
    by (simp add: copy_d2d_def rt_do_def host_alloc_small host_write_all memcpy_d2h_def memcpy_h2d_def host_read_all
        give_def staged_def)
qed

lemma cm_ok_staged:
  assumes "cm_ok st" and "write_global (rt_mem (cm_rt st)) dst bs = (m, True)" and "length bs < 2 ^ 64"
  shows "cm_ok (st\<lparr>cm_rt := staged bs' m rt\<rparr>)"
proof (rule cm_ok_cong [OF assms(1)])
  have "alloc_wf (rt_mem (cm_rt st))" using assms(1) by (simp add: cm_ok_def)
  from alloc_wf_write [OF this assms(3), of dst] assms(2)
  show "alloc_wf (rt_mem (cm_rt (st\<lparr>cm_rt := staged bs' m rt\<rparr>)))" by (simp add: staged_def)
qed (use write_global_frame [of "rt_mem (cm_rt st)" dst bs] assms(2) in \<open>simp_all add: staged_def\<close>)

lemma cm_ok_staged_read:
  assumes "cm_ok st"
  shows "cm_ok (st\<lparr>cm_rt := staged bs (rt_mem (cm_rt st)) (cm_rt st), cm_host := h\<rparr>)"
  by (rule cm_ok_cong [OF assms]) (use assms in \<open>simp_all add: staged_def cm_ok_def\<close>)

lemma valid_not_null:
  assumes "cm_ok st" and "is_valid_device_range (cm_allocs st) q n"
  shows "q \<noteq> 0"
proof -
  obtain a where "a \<in> set (cm_allocs st)" "da_base a \<le> q"
    using assms(2) containing_iff [OF assms(1)] by (auto simp: is_valid_device_range_def split: option.splits)
  then show ?thesis using assms(1) by (auto simp: cm_ok_def)
qed

lemma valid_one_iff:
  assumes "cm_ok st"
  shows "is_valid_device_range (cm_allocs st) q 1 \<longleftrightarrow>
    (\<exists>a \<in> set (cm_allocs st). da_base a \<le> q \<and> unat q < da_end a)"
proof
  assume "\<exists>a \<in> set (cm_allocs st). da_base a \<le> q \<and> unat q < da_end a"
  then obtain a where a: "a \<in> set (cm_allocs st)" "da_base a \<le> q" "unat q < da_end a" by blast
  then have "find_allocation_containing (cm_allocs st) q = Some a" using containing_iff [OF assms] by blast
  moreover have "unat (q - da_base a + 1) = unat q - unat (da_base a) + 1"
  proof -
    have "unat (q - da_base a) = unat q - unat (da_base a)" "unat (da_base a) \<le> unat q"
      using a(2) by (simp_all add: unat_sub word_le_nat_alt)
    moreover from this have "unat (q - da_base a) + unat (1 :: u64) < 2 ^ 64"
      using a(3) cm_alloc_end [OF assms a(1)] diff_le_self [of "unat q" "unat (da_base a)"] by (simp, linarith)
    ultimately show ?thesis using unat_add_u64 [of "q - da_base a" 1] by simp
  qed
  moreover have "unat (da_base a) \<le> unat q" using a(2) by (simp add: word_le_nat_alt)
  ultimately show "is_valid_device_range (cm_allocs st) q 1"
    using a(3) by (simp add: is_valid_device_range_def word_le_nat_alt da_end_def)
next
  assume "is_valid_device_range (cm_allocs st) q 1"
  then show "\<exists>a \<in> set (cm_allocs st). da_base a \<le> q \<and> unat q < da_end a"
    using containing_iff [OF assms] by (auto simp: is_valid_device_range_def split: option.splits)
qed

section \<open>Properties of the device memory\<close>

text \<open>
  C9.  Copies between valid ranges always succeed and deliver: what is copied from the host to the
  device, from there to another range of the device (overlapping or not) and back, arrives in
  the host memory as it was; nothing else in the host memory changes, and the table of
  allocations stays consistent with the device.
\<close>

theorem cuda_copies_deliver:
  assumes "cm_ok st" and "is_valid_device_range (cm_allocs st) d n" and "is_valid_device_range (cm_allocs st) e n"
    and "n \<noteq> 0" and "unat n < 2 ^ 63" and "unat d + unat n < 2 ^ 64" and "unat e + unat n < 2 ^ 64"
    and "src \<noteq> 0" and "dst \<noteq> 0"
  shows "\<exists>st1 st2 st3. dm_memcpy d src n HostToDevice st = (st1, Some CudaSuccess) \<and>
    dm_memcpy e d n DeviceToDevice st1 = (st2, Some CudaSuccess) \<and>
    dm_memcpy dst e n DeviceToHost st2 = (st3, Some CudaSuccess) \<and>
    cm_host st3 = store_bytes (cm_host st) dst (load_bytes (cm_host st) src (unat n)) \<and>
    cm_allocs st3 = cm_allocs st \<and> cm_err st3 = cm_err st \<and> cm_ok st3"
proof -
  let ?bs = "load_bytes (cm_host st) src (unat n)"
  have small: "length ?bs < 2 ^ 64" and n: "of_nat (length ?bs) = n" using unat_u64_less [of n] by simp_all
  have nn: "d \<noteq> 0" "e \<noteq> 0" using valid_not_null [OF assms(1)] assms(2,3) by blast+
  obtain m1 where m1: "write_global (rt_mem (cm_rt st)) d ?bs = (m1, True)"
    "copy_h2d d src n st = (st\<lparr>cm_rt := staged ?bs m1 (cm_rt st)\<rparr>, Some CudaSuccess)"
    using copy_h2d_succeeds [OF assms(1,2,4,5,6), of src] by blast
  define st1 where "st1 = st\<lparr>cm_rt := staged ?bs m1 (cm_rt st)\<rparr>"
  have ok1: "cm_ok st1" unfolding st1_def by (rule cm_ok_staged [OF assms(1) m1(1) small])
  have mem1: "rt_mem (cm_rt st1) = m1" "cm_allocs st1 = cm_allocs st" by (simp_all add: st1_def staged_def)
  have rd: "read_global m1 d n = Some ?bs" using read_written [OF m1(1) small] n by simp
  obtain bs m2 where bs: "read_global (rt_mem (cm_rt st1)) d n = Some bs" and m2: "write_global (rt_mem (cm_rt st1)) e bs = (m2, True)"
    "copy_d2d e d n st1 = (st1\<lparr>cm_rt := staged bs m2 (cm_rt st1)\<rparr>, Some CudaSuccess)"
    using copy_d2d_succeeds [OF ok1, of d n e] assms(2-7) mem1 by auto
  have eq: "bs = ?bs" using bs rd mem1(1) by simp
  define st2 where "st2 = st1\<lparr>cm_rt := staged bs m2 (cm_rt st1)\<rparr>"
  have ok2: "cm_ok st2" unfolding st2_def by (rule cm_ok_staged [OF ok1 m2(1)]) (use small eq in simp)
  have mem2: "rt_mem (cm_rt st2) = m2" "cm_allocs st2 = cm_allocs st" using mem1 by (simp_all add: st2_def staged_def)
  have rd2: "read_global m2 e n = Some ?bs" using read_written [OF m2(1)] small n eq by simp
  obtain cs where cs: "read_global (rt_mem (cm_rt st2)) e n = Some cs"
    "copy_d2h dst e n st2 =
      (st2\<lparr>cm_rt := staged cs (rt_mem (cm_rt st2)) (cm_rt st2), cm_host := store_bytes (cm_host st2) dst cs\<rparr>, Some CudaSuccess)"
    using copy_d2h_succeeds [OF ok2, of e n dst] assms(3-7) mem2 by auto
  have "cs = ?bs" using cs(1) rd2 mem2(1) by simp
  then show ?thesis
    using m1(2) m2(2) cs(2) nn assms(4,8,9) cm_ok_staged_read [OF ok2]
    by (simp add: dm_memcpy_def st1_def st2_def)
qed

text \<open>
  C10.  Releasing an allocation takes exactly its addresses away: the call succeeds, the table stays
  consistent, and an address is valid afterwards if it was valid before and is not one of the
  allocation.
\<close>

theorem free_invalidates_exactly:
  assumes "cm_ok st" and "a \<in> set (cm_allocs st)" and "dm_free (da_base a) st = (st', r)"
  shows "r = Some CudaSuccess \<and> cm_ok st' \<and>
    (\<forall>q. is_valid_device_range (cm_allocs st') q 1 \<longleftrightarrow>
       is_valid_device_range (cm_allocs st) q 1 \<and> \<not> (da_base a \<le> q \<and> unat q < da_end a))"
proof -
  have "da_base a \<noteq> 0" using assms(1,2) by (auto simp: cm_ok_def)
  then have st': "st' = st\<lparr>cm_allocs := filter (\<lambda>b. da_base b \<noteq> da_base a) (cm_allocs st)\<rparr>" "r = Some CudaSuccess"
    using assms(2,3) by (auto simp: dm_free_def list_ex_iff split: if_splits)
  note ok' = cm_ok_free [OF assms(1,3)]
  have only: "b = a" if "b \<in> set (cm_allocs st)" "da_base b \<le> q" "unat q < da_end b" "da_base a \<le> q" "unat q < da_end a" for b q
    using that assms(2) containing_iff [OF assms(1), of q] by (metis option.inject)
  have same: "b = a" if "b \<in> set (cm_allocs st)" "da_base b = da_base a" for b
    using only [OF that(1), of "da_base a"] that(2) cm_alloc_end [OF assms(1) that(1)]
      cm_alloc_end [OF assms(1,2)] by simp
  have "is_valid_device_range (cm_allocs st') q 1 \<longleftrightarrow>
       is_valid_device_range (cm_allocs st) q 1 \<and> \<not> (da_base a \<le> q \<and> unat q < da_end a)" for q
    unfolding valid_one_iff [OF ok'] valid_one_iff [OF assms(1)]
    using only same by (auto simp: st'(1))
  then show ?thesis using st'(2) ok' by blast
qed

section \<open>Properties of the launch arguments\<close>

text \<open>The pointer to an argument, and when an argument is accepted.\<close>

definition arg_ptr :: "(u64 \<rightharpoonup> u8) \<Rightarrow> u64 \<Rightarrow> nat \<Rightarrow> u64" where
  "arg_ptr host params i = host_u64 host (params + 8 * of_nat i)"

definition typed_param :: "param_desc \<Rightarrow> bool" where
  "typed_param p \<longleftrightarrow> pd_size p = (case pd_type p of ParamU32 \<Rightarrow> 4 | ParamU64 \<Rightarrow> 8)"

definition arg_accepted :: "(u64 \<rightharpoonup> u8) \<Rightarrow> dm_alloc list \<Rightarrow> u64 \<Rightarrow> param_desc \<Rightarrow> bool" where
  "arg_accepted host as src p \<longleftrightarrow> src \<noteq> 0 \<and>
     (pd_type p = ParamU64 \<longrightarrow> host_u64 host src = 0 \<or> is_valid_device_range as (host_u64 host src) 1)"

lemma pack_param_cases:
  assumes "typed_param p" and "unat (pd_offset p) + unat (pd_size p) \<le> length blob"
  shows "if arg_accepted host as (arg_ptr host params i) p
    then pack_param host as params i p blob =
      Inr (blob_put (pd_offset p) (load_bytes host (arg_ptr host params i) (unat (pd_size p))) blob)
    else \<exists>e. pack_param host as params i p blob = Inl e"
  using assms
  by (cases "pd_type p") (auto simp: pack_param_def arg_ptr_def typed_param_def arg_accepted_def Let_def)

lemma pack_params_spec:
  assumes "sorted_wrt apart ps" and "\<forall>p \<in> set ps. typed_param p \<and> unat (pd_offset p) + unat (pd_size p) \<le> length blob"
  shows "if \<forall>j < length ps. arg_accepted host as (arg_ptr host params (i + j)) (ps ! j)
    then \<exists>b. pack_params host as params i ps blob = Inr b \<and> length b = length blob \<and>
      (\<forall>j < length ps. param_slice (ps ! j) b = load_bytes host (arg_ptr host params (i + j)) (unat (pd_size (ps ! j)))) \<and>
      (\<forall>q. (\<forall>p \<in> set ps. apart p q) \<longrightarrow> param_slice q b = param_slice q blob)
    else \<exists>e. pack_params host as params i ps blob = Inl e"
  using assms
proof (induction ps arbitrary: i blob)
  case (Cons p ps)
  let ?bs = "load_bytes host (arg_ptr host params i) (unat (pd_size p))"
  let ?mid = "blob_put (pd_offset p) ?bs blob"
  have bound: "unat (pd_offset p) + unat (pd_size p) \<le> length blob" and typed: "typed_param p" using Cons.prems(2) by simp_all
  have put: "length ?mid = length blob" "param_slice p ?mid = ?bs"
    "\<And>q. apart p q \<Longrightarrow> param_slice q ?mid = param_slice q blob"
    using blob_put_slices [OF bound, of ?bs] by simp_all
  have all: "(\<forall>j < length (p # ps). arg_accepted host as (arg_ptr host params (i + j)) ((p # ps) ! j)) \<longleftrightarrow>
    arg_accepted host as (arg_ptr host params i) p \<and>
    (\<forall>j < length ps. arg_accepted host as (arg_ptr host params (Suc i + j)) (ps ! j))"
    by (auto simp: less_Suc_eq_0_disj)
  have IH: "if \<forall>j < length ps. arg_accepted host as (arg_ptr host params (Suc i + j)) (ps ! j)
    then \<exists>b. pack_params host as params (Suc i) ps ?mid = Inr b \<and> length b = length ?mid \<and>
      (\<forall>j < length ps. param_slice (ps ! j) b = load_bytes host (arg_ptr host params (Suc i + j)) (unat (pd_size (ps ! j)))) \<and>
      (\<forall>q. (\<forall>p \<in> set ps. apart p q) \<longrightarrow> param_slice q b = param_slice q ?mid)
    else \<exists>e. pack_params host as params (Suc i) ps ?mid = Inl e"
    by (rule Cons.IH) (use Cons.prems put(1) in simp_all)
  note one = pack_param_cases [OF typed bound, of host as params i]
  show ?case
  proof (cases "arg_accepted host as (arg_ptr host params i) p \<and>
      (\<forall>j < length ps. arg_accepted host as (arg_ptr host params (Suc i + j)) (ps ! j))")
    case True
    then obtain b where b: "pack_params host as params (Suc i) ps ?mid = Inr b" "length b = length ?mid"
      "\<forall>j < length ps. param_slice (ps ! j) b = load_bytes host (arg_ptr host params (Suc i + j)) (unat (pd_size (ps ! j)))"
      "\<forall>q. (\<forall>p \<in> set ps. apart p q) \<longrightarrow> param_slice q b = param_slice q ?mid"
      using IH by auto
    have "param_slice p b = ?bs"
      using b(4) put(2) Cons.prems(1) by (auto simp: apart_def)
    then have "\<forall>j < length (p # ps). param_slice ((p # ps) ! j) b =
        load_bytes host (arg_ptr host params (i + j)) (unat (pd_size ((p # ps) ! j)))"
      using b(3) by (auto simp: less_Suc_eq_0_disj)
    moreover have "pack_params host as params i (p # ps) blob = Inr b" using one True b(1) by simp
    moreover have "\<forall>q. (\<forall>p \<in> set (p # ps). apart p q) \<longrightarrow> param_slice q b = param_slice q blob"
      using b(4) put(3) by simp
    ultimately show ?thesis using True b(2) put(1) unfolding all by auto
  next
    case False
    then have "\<exists>e. pack_params host as params i (p # ps) blob = Inl e" using one IH by (auto split: if_splits)
    then show ?thesis using False unfolding all by auto
  qed
qed simp

lemma blob_size_spec:
  assumes "\<forall>p \<in> set ps. unat (pd_offset p) + unat (pd_size p) \<le> b"
  shows "unat (blob_size ps) \<le> b \<and> (\<forall>p \<in> set ps. unat (pd_offset p) + unat (pd_size p) \<le> unat (blob_size ps))"
  using assms
proof (induction ps rule: rev_induct)
  case Nil
  then show ?case by (simp add: blob_size_def)
next
  case (snoc q qs)
  have "unat (ucast (pd_offset q) + ucast (pd_size q) :: u64) = unat (pd_offset q) + unat (pd_size q)"
    using unat_add_u64 [of "ucast (pd_offset q)" "ucast (pd_size q)"] unat_u32_less [of "pd_offset q"] unat_u32_less [of "pd_size q"]
    by simp
  moreover have "blob_size (qs @ [q]) = max (blob_size qs) (ucast (pd_offset q) + ucast (pd_size q))"
    by (simp add: blob_size_def)
  ultimately show ?case using snoc by (auto simp: unat_max)
qed

lemma layout_ok_apart: "layout_ok ps \<Longrightarrow> sorted_wrt apart ps"
  using sorted_wrt_mono_rel [of ps "\<lambda>p q. unat (pd_offset p) + unat (pd_size p) \<le> unat (pd_offset q)" apart]
  by (simp add: layout_ok_def apart_def)

text \<open>
  C11.  A launch packs its arguments exactly when every argument pointer is set and every 64-bit
  argument is null or points into a device allocation; then a load of a parameter by its name
  in the run gives the bytes that the host has behind the corresponding argument pointer.
\<close>

theorem launch_arguments_packed:
  assumes "layout_ok layout" and "length layout < 2 ^ 28" and "distinct (map pd_name layout)"
    and "\<forall>p \<in> set layout. typed_param p" and "params \<noteq> 0"
  shows "if \<forall>i < length layout. arg_accepted host as (arg_ptr host params i) (layout ! i)
    then \<exists>ka. pack_kernel_args_mvp layout params as host = Inr ka \<and>
      (\<forall>i < length layout.
         read_param_symbol (with_params (ka_layout ka) (Some ka) mem) (pd_name (layout ! i)) (ucast (pd_size (layout ! i))) =
           Some (load_bytes host (arg_ptr host params i) (unat (pd_size (layout ! i)))))
    else \<exists>err msg. pack_kernel_args_mvp layout params as host = Inl (err, msg)"
proof -
  have ends: "\<forall>p \<in> set layout. unat (pd_offset p) + unat (pd_size p) \<le> 8 * length layout"
    using assms(1) by (simp add: layout_ok_def list_all_iff)
  note size = blob_size_spec [OF ends]
  let ?z = "replicate (unat (blob_size layout)) (0 :: u8)"
  have typed: "\<forall>p \<in> set layout. typed_param p \<and> unat (pd_offset p) + unat (pd_size p) \<le> length ?z"
    using assms(4) size by simp
  note packed = pack_params_spec [OF layout_ok_apart [OF assms(1)] typed, of host as params 0]
  show ?thesis
  proof (cases "\<forall>i < length layout. arg_accepted host as (arg_ptr host params i) (layout ! i)")
    case True
    then obtain b where b: "pack_params host as params 0 layout ?z = Inr b" "length b = length ?z"
      "\<forall>i < length layout. param_slice (layout ! i) b = load_bytes host (arg_ptr host params i) (unat (pd_size (layout ! i)))"
      using packed unfolding add_0 if_P [OF True] by blast
    define ka where "ka = \<lparr>ka_layout = layout, ka_blob = b\<rparr>"
    have "read_param_symbol (with_params (ka_layout ka) (Some ka) mem) (pd_name (layout ! i)) (ucast (pd_size (layout ! i))) =
        Some (param_slice (layout ! i) (ka_blob ka))" if "i < length layout" for i
    proof (rule read_param_slice)
      show "param_of (ka_layout ka) (pd_name (layout ! i)) = Some (layout ! i)"
        unfolding param_of_def ka_def using that assms(3)
        by (auto simp: find_Some_iff distinct_conv_nth intro!: exI [of _ i])
    qed (use that size b(2) assms(2) in \<open>simp_all add: ka_def\<close>)
    moreover have "pack_kernel_args_mvp layout params as host = Inr ka"
      using b(1) assms(5) by (simp add: pack_kernel_args_mvp_def ka_def)
    ultimately show ?thesis unfolding if_P [OF True] using b(3) by (intro exI [of _ ka]) (simp add: ka_def)
  next
    case False
    have "\<exists>e. pack_params host as params 0 layout ?z = Inl e" using packed unfolding add_0 if_not_P [OF False] .
    then show ?thesis unfolding if_not_P [OF False] using assms(5) by (auto simp: pack_kernel_args_mvp_def)
  qed
qed

section \<open>An example state\<close>

definition demo_host :: "u64 \<rightharpoonup> u8" where
  "demo_host = store_bytes (store_bytes Map.empty 0x200 [7, 0, 0, 0]) 0x100 [0, 2, 0, 0, 0, 0, 0, 0]"

definition demo_cuda_start :: cuda_mem where
  "demo_cuda_start =
     \<lparr>cm_rt = runtime_init app_config_default, cm_allocs = [], cm_host = demo_host, cm_err = es_init\<rparr>"

definition demo_cuda :: cuda_mem where
  "demo_cuda = fst (dm_malloc 0x308 16 (fst (dm_malloc 0x300 16 demo_cuda_start)))"

lemma demo_cuda_eq:
  "cm_allocs demo_cuda = [\<lparr>da_base = 0x1000, da_bytes = 16, da_align = 16\<rparr>, \<lparr>da_base = 0x1010, da_bytes = 16, da_align = 16\<rparr>]"
  "cm_ok demo_cuda"
proof -
  have start: "cm_ok demo_cuda_start"
    using alloc_wf_init by (simp add: cm_ok_def demo_cuda_start_def runtime_init_def manager_init_def)
  obtain s1 r1 where s1: "dm_malloc 0x300 16 demo_cuda_start = (s1, r1)" by fastforce
  obtain s2 r2 where s2: "dm_malloc 0x308 16 s1 = (s2, r2)" by fastforce
  have m1: "rt_mem (cm_rt s1) = fst (alloc_global manager_init 16 16)"
    and a1: "cm_allocs s1 = [\<lparr>da_base = 0x1000, da_bytes = 16, da_align = 16\<rparr>]"
    using s1 by (auto simp: dm_malloc_def device_malloc_def demo_cuda_start_def runtime_init_def alloc_global_def align_up_def
        manager_init_def)
  have "alloc_room (rt_mem (cm_rt demo_cuda_start)) 16 16"
    by (simp add: alloc_room_def demo_cuda_start_def runtime_init_def manager_init_def)
  from cm_ok_malloc [OF start this s1] have ok1: "cm_ok s1" by simp
  have "alloc_room (rt_mem (cm_rt s1)) 16 16"
    by (simp add: alloc_room_def m1 alloc_global_def align_up_def manager_init_def)
  from cm_ok_malloc [OF ok1 this s2] have "cm_ok s2" by simp
  moreover have "s2 = demo_cuda" using s1 s2 by (simp add: demo_cuda_def)
  moreover have "cm_allocs s2 = [\<lparr>da_base = 0x1000, da_bytes = 16, da_align = 16\<rparr>, \<lparr>da_base = 0x1010, da_bytes = 16, da_align = 16\<rparr>]"
    using s2 a1 m1 by (auto simp: dm_malloc_def device_malloc_def alloc_global_def align_up_def manager_init_def)
  ultimately show "cm_ok demo_cuda"
    "cm_allocs demo_cuda = [\<lparr>da_base = 0x1000, da_bytes = 16, da_align = 16\<rparr>, \<lparr>da_base = 0x1010, da_bytes = 16, da_align = 16\<rparr>]"
    by simp_all
qed

lemma cuda_copies_deliver_witness:
  "\<exists>st1 st2 st3. dm_memcpy 0x1000 0x200 4 HostToDevice demo_cuda = (st1, Some CudaSuccess) \<and>
     dm_memcpy 0x1012 0x1000 4 DeviceToDevice st1 = (st2, Some CudaSuccess) \<and>
     dm_memcpy 0x400 0x1012 4 DeviceToHost st2 = (st3, Some CudaSuccess)"
proof -
  have "is_valid_device_range (cm_allocs demo_cuda) 0x1000 4" "is_valid_device_range (cm_allocs demo_cuda) 0x1012 4"
    by (simp_all add: demo_cuda_eq is_valid_device_range_def find_allocation_containing_def)
  from cuda_copies_deliver [OF demo_cuda_eq(2) this, where src = "0x200" and dst = "0x400"] show ?thesis by auto
qed

lemma free_invalidates_exactly_witness:
  "\<exists>st' r. dm_free 0x1000 demo_cuda = (st', r) \<and> r = Some CudaSuccess \<and>
     \<not> is_valid_device_range (cm_allocs st') 0x1008 1 \<and> is_valid_device_range (cm_allocs st') 0x1018 1"
proof -
  define a where "a = \<lparr>da_base = (0x1000 :: u64), da_bytes = 16, da_align = 16\<rparr>"
  have mem: "a \<in> set (cm_allocs demo_cuda)" by (simp add: demo_cuda_eq a_def)
  obtain st' r where f: "dm_free (da_base a) demo_cuda = (st', r)" by fastforce
  have "is_valid_device_range (cm_allocs demo_cuda) 0x1018 1"
    by (simp add: demo_cuda_eq is_valid_device_range_def find_allocation_containing_def)
  then show ?thesis using free_invalidates_exactly [OF demo_cuda_eq(2) mem f] f
    by (auto simp: a_def da_end_def)
qed

lemma launch_arguments_packed_witness:
  "\<exists>ka. pack_kernel_args_mvp [\<lparr>pd_name = ''n'', pd_type = ParamU32, pd_size = 4, pd_align = 4, pd_offset = 0\<rparr>] 0x100 [] demo_host
      = Inr ka \<and>
    read_param_symbol (with_params (ka_layout ka) (Some ka) manager_init) ''n'' 4 = Some [7, 0, 0, 0]"
proof -
  let ?p = "\<lparr>pd_name = ''n'', pd_type = ParamU32, pd_size = 4, pd_align = 4, pd_offset = 0\<rparr>"
  have ptr: "arg_ptr demo_host 0x100 0 = 0x200"
  proof -
    have "unpack_le [0, 2, 0, 0, 0, 0, 0, 0] = 0x200" by code_simp
    moreover have "load_bytes demo_host 0x100 8 = [0, 2, 0, 0, 0, 0, 0, 0]"
      by (simp add: demo_host_def load_bytes_def upt_rec)
    ultimately show ?thesis by (simp add: arg_ptr_def host_u64_def)
  qed
  have val: "load_bytes demo_host 0x200 4 = [7, 0, 0, 0]"
    by (simp add: demo_host_def load_bytes_def upt_rec)
  have ok: "layout_ok [?p]" by (simp add: layout_ok_def)
  show ?thesis
    using launch_arguments_packed [OF ok, where params = "0x100" and host = demo_host and as = "[]" and mem = manager_init] ptr val
    by (simp add: typed_param_def arg_accepted_def)
qed
end
