(* ===== verification/Fatbin.thy ===== *)
theory Fatbin
  imports PtxParser Bytes
begin

text \<open>
  The CUDA runtime shim, second part: how the PTX texts are taken out of a fatbin
  (\<open>cuda/src/cudart_shim/fatbin_registry.cpp\<close>), the registries of modules and kernels
  (\<open>kernel_registry.cpp\<close>), and the search for the entries of a text
  (\<open>ptx_entry_validate.cpp\<close>).

  The memory of the process is a map from addresses to bytes.  The system tells how many bytes
  are mapped from an address on (\<open>/proc/self/maps\<close>; a fixed cap where there is no such file);
  this, the override of the environment and the contents of files are parameters.
\<close>

section \<open>Cleaning the text of an entry\<close>

definition is_alnum :: "char \<Rightarrow> bool" where
  "is_alnum ch \<longleftrightarrow> is_digit ch \<or> (CHR ''A'' \<le> ch \<and> ch \<le> CHR ''Z'') \<or> (CHR ''a'' \<le> ch \<and> ch \<le> CHR ''z'')"

definition is_ptx_ident_char :: "char \<Rightarrow> bool" where
  "is_ptx_ident_char ch \<longleftrightarrow> is_alnum ch \<or> ch = CHR ''_'' \<or> ch = CHR 0x24 \<or> ch = CHR ''.''"

fun sanitize_chars :: "bool \<Rightarrow> string \<Rightarrow> string" where
  "sanitize_chars last_us [] = []"
| "sanitize_chars last_us (ch # s) =
     (if is_ptx_ident_char ch then ch # sanitize_chars False s
      else if last_us then sanitize_chars True s
      else CHR ''_'' # sanitize_chars True s)"

definition sanitize_identifier_token :: "string \<Rightarrow> string" where
  "sanitize_identifier_token tok = (let out = sanitize_chars False tok in if out = [] then ''_'' else out)"

definition byte_char :: "u8 \<Rightarrow> char" where
  "byte_char b = char_of (unat b)"

definition plain_char :: "u8 \<Rightarrow> char" where
  "plain_char b =
     (if b = 0x0A \<or> b = 0x0D \<or> b = 0x09 then byte_char b
      else if b \<ge> 0x20 \<and> b \<le> 0x7E then (if b = 0x22 then CHR 0x20 else byte_char b)
      else CHR 0x20)"

definition find_from :: "string \<Rightarrow> string \<Rightarrow> nat \<Rightarrow> nat option" where
  "find_from p s pos = (if pos > length s then None else map_option (\<lambda>i. pos + i) (find_sub p (drop pos s)))"

lemma find_from_bound: "find_from p s pos = Some i \<Longrightarrow> pos \<le> i \<and> i + length p \<le> length s"
  using find_sub_bound [of p "drop pos s"] by (auto simp: find_from_def split: if_splits)

lemma sanitize_chars_length: "length (sanitize_chars u s) \<le> length s"
  by (induction u s rule: sanitize_chars.induct) auto

lemma sanitize_length: "length (sanitize_identifier_token s) \<le> max 1 (length s)"
  using sanitize_chars_length [of False s] by (auto simp: sanitize_identifier_token_def Let_def)

text \<open>
  The loop over the brackets goes on behind the old position of the closing bracket, also when
  the text between the brackets has become shorter.
\<close>

function sanitize_brackets :: "nat \<Rightarrow> string \<Rightarrow> string" where
  "sanitize_brackets lb line =
     (case find_from ''['' line lb of
        None \<Rightarrow> line
      | Some l \<Rightarrow>
          (case find_from '']'' line (l + 1) of
             None \<Rightarrow> line
           | Some r \<Rightarrow>
               sanitize_brackets (r + 1)
                 (take (l + 1) line @ sanitize_identifier_token (take (r - (l + 1)) (drop (l + 1) line)) @ drop r line)))"
  by pat_completeness auto

termination sanitize_brackets
proof (relation "measure (\<lambda>(lb, line). length line - lb)")
  fix lb l r :: nat and line
  assume l: "find_from ''['' line lb = Some l" and r: "find_from '']'' line (l + 1) = Some r"
  note b = find_from_bound [OF l] find_from_bound [OF r]
  have "length (sanitize_identifier_token (take (r - (l + 1)) (drop (l + 1) line))) \<le> max 1 (r - (l + 1))"
    using sanitize_length [of "take (r - (l + 1)) (drop (l + 1) line)"] by (auto simp: max_def min_def split: if_splits)
  then show "((r + 1, take (l + 1) line @ sanitize_identifier_token (take (r - (l + 1)) (drop (l + 1) line)) @ drop r line),
      (lb, line)) \<in> measure (\<lambda>(lb, line). length line - lb)"
    using b by auto
qed simp

declare sanitize_brackets.simps [simp del]

definition fix_param_name :: "string \<Rightarrow> string" where
  "fix_param_name line =
     (case (case find_sub ''.u64'' line of Some i \<Rightarrow> Some i | None \<Rightarrow> find_sub ''.u32'' line) of
        None \<Rightarrow> line
      | Some tp \<Rightarrow>
          let j0 = tp + 4;
              j1 = j0 + length (takeWhile (\<lambda>ch. \<not> is_space ch) (drop j0 line));
              j = j1 + length (takeWhile is_space (drop j1 line));
              name = takeWhile is_ptx_ident_char (drop j line)
          in if name = [] then line
             else take j line @ sanitize_identifier_token name @ drop (j + length name) line)"

definition clean_line :: "string \<Rightarrow> string option" where
  "clean_line line =
     (let i = length (takeWhile is_space line); sv = drop i line
      in if starts_with sv ''.loc'' \<or> starts_with sv ''.loc '' \<or> starts_with sv ''.locI'' then None
         else
           let line = (if starts_with sv [CHR 0x24, CHR ''v'', CHR ''i'', CHR ''s'', CHR ''i'', CHR ''b'', CHR ''l'', CHR ''e'']
                       then take i line @ ''.visible'' @ drop (i + 8) line
                       else if starts_with sv ''visible'' then take i line @ ''.'' @ sv
                       else line);
               line = replace_all [CHR ''.'', CHR ''u'', CHR ''6'', CHR ''4'', CHR 0x25] ''.u64 '' line;
               line = replace_all [CHR ''.'', CHR ''u'', CHR ''3'', CHR ''2'', CHR 0x25] ''.u32 '' line
           in Some (if contains line ''.param'' then fix_param_name (sanitize_brackets 0 line) else line))"

definition deobfuscate_ptx_text_mvp :: "u8 list \<Rightarrow> string" where
  "deobfuscate_ptx_text_mvp data =
     concat (map (\<lambda>l. l @ [CHR 0x0A]) (List.map_filter clean_line (text_lines (map plain_char data))))"

definition looks_like_ptx_header :: "string \<Rightarrow> bool" where
  "looks_like_ptx_header s \<longleftrightarrow> contains s ''.version'' \<and> contains s ''.target'' \<and> contains s ''.entry''"

section \<open>The container\<close>

definition read_le :: "u8 list \<Rightarrow> nat \<Rightarrow> nat \<Rightarrow> u64" where
  "read_le bs off n = unpack_le (take n (drop off bs))"

function skip_pad :: "u64 \<Rightarrow> u64 \<Rightarrow> u64" where
  "skip_pad off safe = (if off < safe \<and> off mod 8 \<noteq> 0 then skip_pad (off + 1) safe else off)"
  by pat_completeness auto

termination skip_pad
proof (relation "measure (\<lambda>(off, safe). unat safe - unat off)")
  fix off safe :: u64
  assume "off < safe \<and> off mod 8 \<noteq> 0"
  then have "unat off < unat safe" by (simp add: word_less_nat_alt)
  moreover from this have "unat (off + 1) = unat off + 1"
    using unat_add_u64 [of off 1] unat_u64_less [of safe] by simp
  ultimately show "((off + 1, safe), (off, safe)) \<in> measure (\<lambda>(off, safe). unat safe - unat off)" by simp
qed simp

declare skip_pad.simps [simp del]

text \<open>
  The loop over the entries.  All sizes are 64-bit numbers, and the end of an entry is computed
  without a check for overflow.  \<open>None\<close> is a loop that never ends; reserving more than the
  largest string throws.
\<close>

definition max_string :: nat where
  "max_string = 2 ^ 63 - 1"

partial_function (option) fatbin_entries ::
  "u8 list \<Rightarrow> u64 \<Rightarrow> u64 \<Rightarrow> string list \<Rightarrow> (json_exn + string list) option"
where
  "fatbin_entries bs safe off acc =
     (if \<not> off + 16 \<le> safe then Some (Inr acc)
      else
        let kind = read_le bs (unat off) 2;
            header_size = read_le bs (unat off + 4) 4;
            data_size = read_le bs (unat off + 8) 8;
            data_off = off + header_size;
            data_end = data_off + data_size
        in if kind = 0 then Some (Inr acc)
           else if header_size < 16 then Some (Inr acc)
           else if data_end > safe then Some (Inr acc)
           else if kind = 1 \<and> unat data_size > max_string then Some (Inl (RuntimeError ''basic_string::reserve''))
           else
             let ptx = deobfuscate_ptx_text_mvp (take (unat data_size) (drop (unat data_off) bs))
             in fatbin_entries bs safe (skip_pad data_end safe)
                  (if kind = 1 \<and> looks_like_ptx_header ptx then acc @ [ptx] else acc))"

text \<open>The older heuristic: texts from \<open>.version\<close> to the next zero byte.\<close>

function scan_versions :: "string \<Rightarrow> string list" where
  "scan_versions s =
     (case find_sub ''.version'' s of
        None \<Rightarrow> []
      | Some i \<Rightarrow>
          (case find_sub [CHR 0x00] (drop i s) of
             None \<Rightarrow> []
           | Some n \<Rightarrow>
               (if 0 < n \<and> n < 16 * 1024 * 1024 \<and> contains (take n (drop i s)) ''.entry'' then [take n (drop i s)] else [])
               @ scan_versions (drop (i + n + 1) s)))"
  by pat_completeness auto

termination scan_versions
proof (relation "measure length")
  fix s i n
  assume "find_sub ''.version'' s = Some i" "find_sub [CHR 0x00] (drop i s) = Some n"
  then have "i + 8 \<le> length s" using find_sub_bound [of "''.version''" s i] by simp
  then show "(drop (i + n + 1) s, s) \<in> measure length" by simp
qed simp

declare scan_versions.simps [simp del]

definition dedupe_exact :: "string list \<Rightarrow> string list" where
  "dedupe_exact texts = foldl (\<lambda>seen t. if t \<in> set seen then seen else seen @ [t]) [] texts"

definition extract_payload :: "u8 list \<Rightarrow> (json_exn + string list) option" where
  "extract_payload bs =
     (if length bs < 16 then Some (Inr [])
      else if read_le bs 0 4 \<noteq> 0xBA55ED50 then Some (Inr (dedupe_exact (scan_versions (map byte_char bs))))
      else
        let header_size = read_le bs 6 2;
            safe = min (header_size + read_le bs 8 8) (of_nat (length bs))
        in map_option (\<lambda>r. e_bind r (\<lambda>texts. Inr (dedupe_exact texts))) (fatbin_entries bs safe header_size []))"

section \<open>The override\<close>

definition split_override_path_list :: "string \<Rightarrow> string list" where
  "split_override_path_list v = map trim (split v (CHR 0x3A))"

definition override_error :: "nat \<Rightarrow> string \<Rightarrow> string \<Rightarrow> string" where
  "override_error i path reason =
     ''GPUSIM_CUDART_SHIM_PTX_OVERRIDE invalid at index '' @ dec_string i @
     (if path \<noteq> [] then '' path='' @ [CHR 0x27] @ path @ [CHR 0x27] else []) @ '': '' @ reason"

fun load_override_ptx_texts :: "(string \<Rightarrow> string option) \<Rightarrow> nat \<Rightarrow> string list \<Rightarrow> string + string list" where
  "load_override_ptx_texts file i [] = Inr []"
| "load_override_ptx_texts file i (p # ps) =
     (if p = [] then Inl (override_error i [] ''empty path element'')
      else case file p of
             None \<Rightarrow> Inl (override_error i p ''cannot open file'')
           | Some txt \<Rightarrow>
               if txt = [] then Inl (override_error i p ''empty file'')
               else if \<not> looks_like_ptx_header txt then Inl (override_error i p ''file does not look like PTX text'')
               else e_bind (load_override_ptx_texts file (Suc i) ps) (\<lambda>ts. Inr (txt # ts)))"

record extracted =
  ex_texts :: "string list"
  ex_override :: bool
  ex_error :: string

text \<open>What the shim asks of the system.\<close>

record fatbin_env =
  fe_override :: "string option"
  fe_file :: "string \<Rightarrow> string option"
  fe_mapped :: "u64 \<Rightarrow> nat"

definition scan_pointer :: "(u64 \<rightharpoonup> u8) \<Rightarrow> u64 \<Rightarrow> u64" where
  "scan_pointer host fat =
     (let payload = unpack_le (load_bytes host (fat + 8) 8)
      in if unpack_le (load_bytes host fat 4) = 0x466243B1 \<and> payload \<noteq> 0 then payload else fat)"

definition extract_ptx_texts_mvp :: "fatbin_env \<Rightarrow> (u64 \<rightharpoonup> u8) \<Rightarrow> u64 \<Rightarrow> (json_exn + extracted) option" where
  "extract_ptx_texts_mvp fe host fat =
     (if fat = 0 then Some (Inr \<lparr>ex_texts = [], ex_override = False, ex_error = []\<rparr>)
      else case (case fe_override fe of Some v \<Rightarrow> if v \<noteq> [] then Some v else None | None \<Rightarrow> None) of
             Some v \<Rightarrow>
               Some (Inr (case load_override_ptx_texts (fe_file fe) 0 (split_override_path_list v) of
                  Inl msg \<Rightarrow> \<lparr>ex_texts = [], ex_override = True, ex_error = msg\<rparr>
                | Inr ts \<Rightarrow> \<lparr>ex_texts = dedupe_exact ts, ex_override = True, ex_error = []\<rparr>))
           | None \<Rightarrow>
               let p = scan_pointer host fat
               in map_option (\<lambda>r. e_bind r (\<lambda>ts. Inr \<lparr>ex_texts = ts, ex_override = False, ex_error = []\<rparr>))
                    (extract_payload (load_bytes host p (fe_mapped fe p))))"

section \<open>Registries\<close>

record fatbin_module =
  fm_id :: u64
  fm_texts :: "string list"
  fm_override :: bool
  fm_error :: string

record fatbin_registry =
  fb_next :: u64
  fb_modules :: "u64 \<rightharpoonup> fatbin_module"
  fb_handles :: "u64 \<rightharpoonup> u64"

definition fatbin_registry_init :: fatbin_registry where
  "fatbin_registry_init = \<lparr>fb_next = 1, fb_modules = Map.empty, fb_handles = Map.empty\<rparr>"

text \<open>The handle is the address of a new token, or null when there is no memory for one.\<close>

definition register_fatbin :: "u64 \<Rightarrow> extracted \<Rightarrow> fatbin_registry \<Rightarrow> fatbin_registry \<times> u64" where
  "register_fatbin token ex r =
     (let i = fb_next r
      in (r\<lparr>fb_next := i + 1,
            fb_modules := (if fb_modules r i = None
              then (fb_modules r)(i \<mapsto> \<lparr>fm_id = i, fm_texts = ex_texts ex, fm_override = ex_override ex, fm_error = ex_error ex\<rparr>)
              else fb_modules r),
            fb_handles := (fb_handles r)(token \<mapsto> i)\<rparr>, token))"

text \<open>
  The token behind the handle is deleted as well; for a handle that is not registered any more
  this is undefined, and the model leaves it out.
\<close>

definition unregister_fatbin :: "u64 \<Rightarrow> fatbin_registry \<Rightarrow> fatbin_registry" where
  "unregister_fatbin handle r =
     (if handle = 0 then r
      else case fb_handles r handle of
             None \<Rightarrow> r
           | Some i \<Rightarrow> r\<lparr>fb_modules := (fb_modules r)(i := None), fb_handles := (fb_handles r)(handle := None)\<rparr>)"

definition lookup_module :: "fatbin_registry \<Rightarrow> u64 \<Rightarrow> fatbin_module option" where
  "lookup_module r i = fb_modules r i"

definition lookup_by_handle :: "fatbin_registry \<Rightarrow> u64 \<Rightarrow> fatbin_module option" where
  "lookup_by_handle r handle =
     (if handle = 0 then None
      else case fb_handles r handle of None \<Rightarrow> None | Some i \<Rightarrow> lookup_module r i)"

record kernel_info =
  ki_module :: u64
  ki_name :: string

definition register_function :: "u64 \<Rightarrow> u64 \<Rightarrow> string option \<Rightarrow> (u64 \<rightharpoonup> kernel_info) \<Rightarrow> (u64 \<rightharpoonup> kernel_info)" where
  "register_function module_id host_fun device_name ks =
     (case device_name of
        None \<Rightarrow> ks
      | Some n \<Rightarrow> if host_fun = 0 then ks else ks(host_fun \<mapsto> \<lparr>ki_module = module_id, ki_name = n\<rparr>))"

definition unregister_module :: "u64 \<Rightarrow> (u64 \<rightharpoonup> kernel_info) \<Rightarrow> (u64 \<rightharpoonup> kernel_info)" where
  "unregister_module module_id ks =
     (\<lambda>f. case ks f of None \<Rightarrow> None | Some ki \<Rightarrow> if ki_module ki = module_id then None else Some ki)"

section \<open>The entries of a text\<close>

definition parse_entry_name_at :: "string \<Rightarrow> nat \<Rightarrow> string option" where
  "parse_entry_name_at s pos =
     (if \<not> starts_with (drop pos s) ''.entry'' then None
      else if pos > 0 \<and> is_ptx_ident_char (s ! (pos - 1)) then None
      else let name = takeWhile is_ptx_ident_char (dropWhile is_space (drop (pos + 6) s))
           in if name = [] then None else Some name)"

function entry_names :: "string \<Rightarrow> nat \<Rightarrow> string option list" where
  "entry_names s pos =
     (case find_from ''.entry'' s pos of
        None \<Rightarrow> []
      | Some p \<Rightarrow> parse_entry_name_at s p # entry_names s (p + 6))"
  by pat_completeness auto

termination entry_names
proof (relation "measure (\<lambda>(s, pos). length s - pos)")
  fix s pos p
  assume "find_from ''.entry'' s pos = Some p"
  from find_from_bound [OF this] show "((s, p + 6), (s, pos)) \<in> measure (\<lambda>(s, pos). length s - pos)" by auto
qed simp

declare entry_names.simps [simp del]

definition ptx_contains_entry_mvp :: "string \<Rightarrow> string \<Rightarrow> bool" where
  "ptx_contains_entry_mvp txt entry \<longleftrightarrow> entry \<noteq> [] \<and> Some entry \<in> set (entry_names txt 0)"

definition ptx_list_entry_names_mvp :: "string \<Rightarrow> nat \<Rightarrow> string list" where
  "ptx_list_entry_names_mvp txt max_entries = take max_entries (List.map_filter id (entry_names txt 0))"

section \<open>Names after a type are never changed\<close>

lemma sanitize_ident: "list_all is_ptx_ident_char s \<Longrightarrow> sanitize_chars u s = s"
  by (induction u s rule: sanitize_chars.induct) auto

text \<open>
  The test for \<open>.loc\<close> lines looks at a prefix only, so that declarations of local memory are
  dropped with them.
\<close>

lemma local_declarations_are_dropped: "clean_line (''.local'' @ rest) = None"
  by (simp add: clean_line_def starts_with_def is_space_def Let_def)

text \<open>A parameter name consists of characters that the sanitiser keeps.\<close>

lemma fix_param_name_id: "fix_param_name line = line"
proof -
  have "take j line @ sanitize_identifier_token name @ drop (j + length name) line = line"
    if "name = takeWhile is_ptx_ident_char (drop j line)" "name \<noteq> []" for j name
  proof -
    have "list_all is_ptx_ident_char name" using that(1) by (auto simp: list_all_iff dest: set_takeWhileD)
    then have "sanitize_identifier_token name = name" using that(2) by (simp add: sanitize_identifier_token_def sanitize_ident)
    moreover have "name @ drop (length name) (drop j line) = drop j line"
      using takeWhile_dropWhile_id [of is_ptx_ident_char "drop j line"] by (simp add: that(1) dropWhile_eq_drop)
    then have "name @ drop (j + length name) line = drop j line" by (simp add: add.commute)
    ultimately show ?thesis by simp
  qed
  then show ?thesis by (simp add: fix_param_name_def Let_def split: option.split)
qed

section \<open>Well-formed containers\<close>

text \<open>A container as a compiler writes it: a header, then the entries, each padded to eight bytes.\<close>

definition pad8 :: "nat \<Rightarrow> nat" where
  "pad8 n = (if n mod 8 = 0 then 0 else 8 - n mod 8)"

definition encode_entry :: "16 word \<times> u8 list \<Rightarrow> u8 list" where
  "encode_entry e =
     pack_le (ucast (fst e)) 2 @ [0, 0] @ pack_le 16 4 @ pack_le (of_nat (length (snd e))) 8 @ snd e
     @ replicate (pad8 (length (snd e))) 0"

definition encode_fatbin :: "(16 word \<times> u8 list) list \<Rightarrow> u8 list" where
  "encode_fatbin es =
     (let payload = concat (map encode_entry es)
      in pack_le 0xBA55ED50 4 @ pack_le 1 2 @ pack_le 16 2 @ pack_le (of_nat (length payload)) 8 @ payload)"

lemma read_le_at: "n \<le> 8 \<Longrightarrow> length pre = k \<Longrightarrow> read_le (pre @ pack_le v n @ post) k n = take_bit (8 * n) v"
  by (simp add: read_le_def unpack_pack_le)

lemma pad8_0: "pad8 a = 0 \<Longrightarrow> a mod 8 = 0"
  using mod_less_divisor [of 8 a] by (auto simp: pad8_def split: if_splits)

lemma pad8_Suc: "pad8 a = Suc k \<Longrightarrow> a mod 8 \<noteq> 0 \<and> pad8 (Suc a) = k"
  using mod_less_divisor [of 8 a] by (auto simp: pad8_def mod_Suc split: if_splits)

lemma skip_pad_nat:
  assumes "pad8 a = k" and "a + k \<le> b" and "b < 2 ^ 63"
  shows "skip_pad (of_nat a) (of_nat b) = of_nat (a + k)"
  using assms
proof (induction k arbitrary: a)
  case 0
  then have "a mod 8 = 0" by (simp add: pad8_0)
  moreover have "unat (of_nat a mod 8 :: u64) = a mod 8" using 0 by (simp add: unat_mod_distrib unat_of_nat_u64)
  ultimately have "(of_nat a :: u64) mod 8 = 0" by (metis unat_eq_0)
  then show ?case by (subst skip_pad.simps) simp
next
  case (Suc k)
  then have a: "a mod 8 \<noteq> 0" "pad8 (Suc a) = k" using pad8_Suc by blast+
  have "unat (of_nat a mod 8 :: u64) = a mod 8" using Suc by (simp add: unat_mod_distrib unat_of_nat_u64)
  then have "(of_nat a :: u64) mod 8 \<noteq> 0" using a(1) by (metis unat_0)
  moreover have "(of_nat a :: u64) < of_nat b" using Suc by (simp add: word_less_nat_alt unat_of_nat_u64)
  moreover have "skip_pad (of_nat (Suc a)) (of_nat b) = of_nat (Suc a + k)" by (rule Suc.IH) (use a(2) Suc.prems in simp_all)
  ultimately show ?case by (subst skip_pad.simps) (simp add: ac_simps)
qed

lemma length_encode_entry: "length (encode_entry e) = 16 + length (snd e) + pad8 (length (snd e))"
  by (simp add: encode_entry_def)

lemma encode_entry_aligned: "length (encode_entry e) mod 8 = 0"
proof -
  let ?n = "length (snd e)"
  have "?n mod 8 < 8" by simp
  then have "(?n + pad8 ?n) mod 8 = 0"
    using div_mult_mod_eq [of ?n 8] by (auto simp: pad8_def) presburger
  then show ?thesis unfolding length_encode_entry by presburger
qed

text \<open>The text that an entry gives, if any.\<close>

definition entry_text :: "16 word \<times> u8 list \<Rightarrow> string list" where
  "entry_text e =
     (let ptx = deobfuscate_ptx_text_mvp (snd e) in if fst e = 1 \<and> looks_like_ptx_header ptx then [ptx] else [])"

lemma fatbin_entry_step:
  assumes "bs = pre @ encode_entry e @ post" and "length pre mod 8 = 0" and "fst e \<noteq> 0"
    and "length pre + length (encode_entry e) \<le> b" and "b < 2 ^ 62"
  shows "fatbin_entries bs (of_nat b) (of_nat (length pre)) acc =
    fatbin_entries bs (of_nat b) (of_nat (length pre + length (encode_entry e))) (acc @ entry_text e)"
proof -
  obtain k d where e: "e = (k, d)" by fastforce
  let ?p = "length pre" and ?n = "length d"
  have len: "length (encode_entry e) = 16 + ?n + pad8 ?n" by (simp add: length_encode_entry e)
  have small: "?p + 16 + ?n + pad8 ?n < 2 ^ 62" using assms(4,5) len by simp
  have un: "unat (of_nat m :: u64) = m" if "m < 2 ^ 62" for m using that by (simp add: unat_of_nat_u64)
  have bs1: "bs = pre @ pack_le (ucast k) 2 @ ([0, 0] @ pack_le 16 4 @ pack_le (of_nat ?n) 8 @ d @ replicate (pad8 ?n) 0 @ post)"
    by (simp add: assms(1) encode_entry_def e)
  have bs2: "bs = (pre @ pack_le (ucast k) 2 @ [0, 0]) @ pack_le 16 4 @ (pack_le (of_nat ?n) 8 @ d @ replicate (pad8 ?n) 0 @ post)"
    by (simp add: bs1)
  have bs3: "bs = (pre @ pack_le (ucast k) 2 @ [0, 0] @ pack_le 16 4) @ pack_le (of_nat ?n) 8 @ (d @ replicate (pad8 ?n) 0 @ post)"
    by (simp add: bs1)
  have "read_le bs ?p 2 = take_bit 16 (ucast k)" unfolding bs1 by (subst read_le_at) simp_all
  also have "\<dots> = ucast k" by (simp add: unsigned_take_bit_eq [symmetric] take_bit_word_eq_self)
  finally have kind: "read_le bs ?p 2 = ucast k" .
  have hs: "read_le bs (?p + 4) 4 = 16" unfolding bs2 by (subst read_le_at) simp_all
  have ds: "read_le bs (?p + 8) 8 = of_nat ?n" unfolding bs3 by (subst read_le_at) (simp_all add: take_bit_word_eq_self)
  have data: "take ?n (drop (?p + 16) bs) = d" by (simp add: bs1)
  have pad: "pad8 (?p + 16 + ?n) = pad8 ?n"
  proof -
    obtain q where "?p = 8 * q" using assms(2) by (metis mod_0_imp_dvd dvdE)
    then have "(?p + 16 + ?n) mod 8 = (?n + 8 * (q + 2)) mod 8" by (simp add: algebra_simps)
    also have "\<dots> = ?n mod 8" by (rule mod_mult_self2)
    finally have "(?p + 16 + ?n) mod 8 = ?n mod 8" .
    then show ?thesis by (simp add: pad8_def)
  qed
  have skip: "skip_pad (of_nat (?p + 16 + ?n)) (of_nat b) = of_nat (?p + 16 + ?n + pad8 ?n)"
    by (rule skip_pad_nat [OF pad]) (use assms(4,5) len in simp_all)
  have stop: "of_nat ?p + 16 + of_nat ?n = (of_nat (?p + 16 + ?n) :: u64)" by simp
  have le: "of_nat ?p + 16 \<le> (of_nat b :: u64)" "(of_nat (?p + 16 + ?n) :: u64) \<le> of_nat b"
  proof -
    have "(of_nat ?p + 16 :: u64) = of_nat (?p + 16)" by simp
    then show "of_nat ?p + 16 \<le> (of_nat b :: u64)"
      using assms(4,5) len by (simp add: word_le_nat_alt un del: of_nat_add)
    show "(of_nat (?p + 16 + ?n) :: u64) \<le> of_nat b"
      using assms(4,5) len small by (simp add: word_le_nat_alt un del: of_nat_add)
  qed
  have kz: "(ucast k :: u64) = 0 \<longleftrightarrow> k = 0" "(ucast k :: u64) = 1 \<longleftrightarrow> k = 1"
  proof -
    have un16: "unat (ucast k :: u64) = unat k"
      using unsigned_less [of k, where 'a = nat] by (simp add: unsigned_ucast_eq take_bit_nat_eq_self_iff)
    show "(ucast k :: u64) = 0 \<longleftrightarrow> k = 0" using un16 by (metis unat_eq_0)
    show "(ucast k :: u64) = 1 \<longleftrightarrow> k = 1" using un16 by (metis unat_1 word_eq_iff_unsigned)
  qed
  have room: "\<not> of_nat (?p + 16 + ?n) > (of_nat b :: u64)" using le(2) by (simp add: not_less)
  have "unat (of_nat ?n :: u64) = ?n" "?n \<le> max_string" "unat (of_nat ?p :: u64) = ?p"
    "unat (of_nat ?p + 16 :: u64) = ?p + 16"
    using small un [of ?n] un [of ?p] un [of "?p + 16"] by (simp_all add: max_string_def)
  note nums = this
  define stop_at :: u64 where "stop_at = of_nat (?p + 16 + ?n)"
  have st: "of_nat ?p + 16 + of_nat ?n = stop_at" "\<not> of_nat b < stop_at"
    "skip_pad stop_at (of_nat b) = of_nat (?p + length (encode_entry e))"
    using stop room skip len by (simp_all add: stop_at_def add.assoc)
  show ?thesis
    using assms(3) le(1) st data nums
    by (subst fatbin_entries.simps) (simp add: e kind hs ds kz entry_text_def Let_def)
qed

lemma fatbin_entries_encoded:
  assumes "length pre mod 8 = 0" and "\<forall>e \<in> set es. fst e \<noteq> 0"
    and "length pre + length (concat (map encode_entry es)) < 2 ^ 62"
  shows "fatbin_entries (pre @ concat (map encode_entry es) @ post)
      (of_nat (length pre + length (concat (map encode_entry es)))) (of_nat (length pre)) acc =
    Some (Inr (acc @ concat (map entry_text es)))"
  using assms
proof (induction es arbitrary: pre acc)
  case Nil
  then have "unat (of_nat (length pre) + 16 :: u64) = length pre + 16"
    using unat_of_nat_u64 [of "length pre + 16"] by simp
  then have "\<not> of_nat (length pre) + 16 \<le> (of_nat (length pre) :: u64)"
    using Nil unat_of_nat_u64 [of "length pre"] by (simp add: word_le_nat_alt)
  then show ?case by (subst fatbin_entries.simps) simp
next
  case (Cons e es)
  let ?rest = "concat (map encode_entry es)" and ?b = "length pre + length (concat (map encode_entry (e # es)))"
  have "fatbin_entries (pre @ encode_entry e @ (?rest @ post)) (of_nat ?b) (of_nat (length pre)) acc =
      fatbin_entries (pre @ encode_entry e @ (?rest @ post)) (of_nat ?b)
        (of_nat (length pre + length (encode_entry e))) (acc @ entry_text e)"
    by (rule fatbin_entry_step [OF refl]) (use Cons.prems in simp_all)
  also have "\<dots> = Some (Inr ((acc @ entry_text e) @ concat (map entry_text es)))"
    using Cons.IH [of "pre @ encode_entry e" "acc @ entry_text e"] Cons.prems encode_entry_aligned [of e]
    by (simp add: add.assoc mod_add_eq [symmetric] del: of_nat_add)
  finally show ?case by simp
qed

section \<open>Properties\<close>

text \<open>
  C15.  The registry finds the texts of a well-formed container: out of the bytes that a compiler
  writes for a list of entries, whatever follows them in memory, it takes the cleaned texts of
  the PTX entries that look like PTX, in their order and each once, and skips all others.
\<close>

theorem fatbin_round_trip:
  assumes "\<forall>e \<in> set es. fst e \<noteq> 0" and "length (encode_fatbin es) + length rest < 2 ^ 62"
  shows "extract_payload (encode_fatbin es @ rest) = Some (Inr (dedupe_exact (concat (map entry_text es))))"
proof -
  let ?payload = "concat (map encode_entry es)" and ?bs = "encode_fatbin es @ rest"
  define head where "head = pack_le 0xBA55ED50 4 @ pack_le 1 2 @ pack_le 16 2 @ pack_le (of_nat (length ?payload)) 8"
  have bs: "?bs = head @ ?payload @ rest" and hl: "length head = 16"
    by (simp_all add: encode_fatbin_def head_def Let_def)
  have magic: "read_le ?bs 0 4 = 0xBA55ED50"
    using read_le_at [of 4 "[]" 0 "0xBA55ED50" "drop 4 ?bs"] by (simp add: encode_fatbin_def Let_def)
  have hs: "read_le ?bs 6 2 = 16"
    using read_le_at [of 2 "pack_le 0xBA55ED50 4 @ pack_le 1 2" 6 16 "drop 8 ?bs"] by (simp add: encode_fatbin_def Let_def)
  have fat: "read_le ?bs 8 8 = of_nat (length ?payload)"
    using read_le_at [of 8 "pack_le 0xBA55ED50 4 @ pack_le 1 2 @ pack_le 16 2" 8 "of_nat (length ?payload)" "drop 16 ?bs"]
    by (simp add: encode_fatbin_def Let_def take_bit_word_eq_self)
  have small: "16 + length ?payload + length rest < 2 ^ 62" using assms(2) by (simp add: encode_fatbin_def Let_def)
  have safe: "min (16 + of_nat (length ?payload)) (of_nat (length ?bs)) = (of_nat (length head + length ?payload) :: u64)"
  proof -
    have "(16 + of_nat (length ?payload) :: u64) = of_nat (16 + length ?payload)" by simp
    moreover have "(of_nat (16 + length ?payload) :: u64) \<le> of_nat (length ?bs)"
      using small hl unfolding bs by (simp add: word_le_nat_alt unat_of_nat_u64 del: of_nat_add)
    ultimately show ?thesis using hl by (simp add: min_def)
  qed
  have run: "fatbin_entries ?bs (of_nat (length head + length ?payload)) 16 [] =
      Some (Inr (concat (map entry_text es)))"
    unfolding bs using fatbin_entries_encoded [of head es rest "[]"] assms(1) small hl by simp
  have long: "\<not> length ?bs < 16" using hl unfolding bs by simp
  show ?thesis
    by (simp only: extract_payload_def long magic hs fat safe Let_def run if_False simp_thms option.map e_bind.simps)
qed

definition demo_fat_entries :: "(16 word \<times> u8 list) list" where
  "demo_fat_entries =
     [(2, [127, 69, 76, 70]), (1, map (\<lambda>ch. of_nat (of_char ch)) (''.version 7'' @ [CHR 0x0A] @ ''.target a'' @ [CHR 0x0A] @ ''.entry k''))]"

lemma fatbin_round_trip_witness:
  "extract_payload (encode_fatbin demo_fat_entries @ [9, 9]) =
     Some (Inr [''.version 7'' @ [CHR 0x0A] @ ''.target a'' @ [CHR 0x0A] @ ''.entry k'' @ [CHR 0x0A]])"
proof -
  have "dedupe_exact (concat (map entry_text demo_fat_entries)) =
      [''.version 7'' @ [CHR 0x0A] @ ''.target a'' @ [CHR 0x0A] @ ''.entry k'' @ [CHR 0x0A]]"
    by code_simp
  moreover have "length (encode_fatbin demo_fat_entries) \<le> 100"
    by (simp add: encode_fatbin_def Let_def length_encode_entry demo_fat_entries_def pad8_def)
  ultimately show ?thesis
    using fatbin_round_trip [of demo_fat_entries "[9, 9]"] by (simp add: demo_fat_entries_def)
qed

definition endless_fatbin :: "u8 list" where
  "endless_fatbin = [0x50, 0xED, 0x55, 0xBA, 1, 0, 16, 0, 16, 0, 0, 0, 0, 0, 0, 0,
     2, 0, 0, 0, 16, 0, 0, 0, 0xF0, 0xFF, 0xFF, 0xFF, 0xFF, 0xFF, 0xFF, 0xFF]"

text \<open>
  C40.  The size of an entry is not checked for overflow: a container of 32 bytes, whose only
  entry is not PTX and has the size \<open>2 ^ 64 - 16\<close>, sends the loop over the entries back to the
  same entry, and the registration of the container never returns.
\<close>

theorem malformed_fatbin_never_returns: "extract_payload endless_fatbin = None"
proof -
  have reads: "read_le endless_fatbin 0 4 = 0xBA55ED50" "read_le endless_fatbin 6 2 = 16" "read_le endless_fatbin 8 8 = 16"
    "read_le endless_fatbin 16 2 = 2" "read_le endless_fatbin 20 4 = 16" "read_le endless_fatbin 24 8 = - 16"
    by code_simp+
  have pad: "skip_pad 16 32 = 16" by (subst skip_pad.simps) simp
  have "\<not> (bs = endless_fatbin \<and> safe = 32 \<and> off = 16)" if "fatbin_entries bs safe off acc = Some r" for bs safe off acc r
  proof (rule fatbin_entries.raw_induct [OF _ that, where P = "\<lambda>bs safe off acc r. \<not> (bs = endless_fatbin \<and> safe = 32 \<and> off = 16)"],
      rule notI)
    fix loop bs safe off acc r
    assume again: "\<And>bs safe off acc r. loop bs safe off acc = Some r \<Longrightarrow> \<not> (bs = endless_fatbin \<and> safe = 32 \<and> off = 16)"
      and here: "bs = endless_fatbin \<and> safe = 32 \<and> off = 16"
      and "(if \<not> off + 16 \<le> safe then Some (Inr acc)
        else let kind = read_le bs (unat off) 2; header_size = read_le bs (unat off + 4) 4; data_size = read_le bs (unat off + 8) 8;
               data_off = off + header_size; data_end = data_off + data_size
             in if kind = 0 then Some (Inr acc)
                else if header_size < 16 then Some (Inr acc)
                else if data_end > safe then Some (Inr acc)
                else if kind = 1 \<and> unat data_size > max_string then Some (Inl (RuntimeError ''basic_string::reserve''))
                else let ptx = deobfuscate_ptx_text_mvp (take (unat data_size) (drop (unat data_off) bs))
                     in loop bs safe (skip_pad data_end safe)
                          (if kind = 1 \<and> looks_like_ptx_header ptx then acc @ [ptx] else acc)) = Some r"
    then have "loop endless_fatbin 32 16 acc = Some r" by (simp add: reads pad Let_def)
    then show False using again by blast
  qed
  then have "fatbin_entries endless_fatbin 32 16 [] = None" by fastforce
  then show ?thesis by (simp add: extract_payload_def reads Let_def) (simp add: endless_fatbin_def)
qed

end
