(* ===== verification/CudaShim.thy ===== *)
theory CudaShim
  imports CudaMem Fatbin
begin

text \<open>
  The CUDA runtime shim, third part: the assets and the context that is initialised once
  (\<open>assets_provider.cpp\<close>, \<open>runtime_context.cpp\<close>), the streams (\<open>stream_scheduler.cpp\<close>), and
  the exported functions (\<open>exports.cpp\<close>), as steps of one host thread on the state of the
  shim.  Pointers that the C++ library allocates are arguments of the operations that allocate;
  the embedded assets, the environment variables and the writing of trace files are parameters.
\<close>

section \<open>Assets and context\<close>

record assets =
  as_config :: string
  as_isa :: string
  as_desc :: string

record 'n shim_env =
  se_rt :: "'n rt_env"
  se_getenv :: "string \<Rightarrow> string option"
  se_embedded :: assets
  se_mapped :: "u64 \<Rightarrow> nat"
  se_export :: "string option \<Rightarrow> string option \<Rightarrow> runtime \<Rightarrow> string \<Rightarrow> bool \<Rightarrow> string option"

definition read_optional_path_env :: "'n shim_env \<Rightarrow> string \<Rightarrow> string option" where
  "read_optional_path_env env name =
     (case se_getenv env name of None \<Rightarrow> None | Some v \<Rightarrow> if v = [] then None else Some v)"

definition slurp_file :: "'n shim_env \<Rightarrow> string \<Rightarrow> string + string" where
  "slurp_file env path = of_option (''cannot open file: '' @ path) (en_file (se_rt env) path)"

definition load_asset :: "'n shim_env \<Rightarrow> string \<Rightarrow> string \<Rightarrow> string + string" where
  "load_asset env name embedded =
     (case read_optional_path_env env name of
        None \<Rightarrow> Inr embedded
      | Some path \<Rightarrow>
          (case slurp_file env path of Inl e \<Rightarrow> Inl (name @ '' set but '' @ e) | Inr t \<Rightarrow> Inr t))"

definition load_assets :: "'n shim_env \<Rightarrow> string + assets" where
  "load_assets env =
     e_bind (load_asset env ''GPUSIM_CONFIG'' (as_config (se_embedded env))) (\<lambda>c.
     e_bind (load_asset env ''GPUSIM_PTX_ISA'' (as_isa (se_embedded env))) (\<lambda>i.
     e_bind (load_asset env ''GPUSIM_INST_DESC'' (as_desc (se_embedded env))) (\<lambda>d.
     Inr \<lparr>as_config = c, as_isa = i, as_desc = d\<rparr>)))"

record shim_context =
  cx_initialized :: bool
  cx_fatal :: string
  cx_assets :: assets
  cx_rt :: "runtime option"
  cx_warp_size :: u32
  cx_profile :: string
  cx_deterministic :: bool

definition context_init :: shim_context where
  "context_init =
     \<lparr>cx_initialized = False, cx_fatal = [], cx_assets = \<lparr>as_config = [], as_isa = [], as_desc = []\<rparr>,
      cx_rt = None, cx_warp_size = 32, cx_profile = [], cx_deterministic = False\<rparr>"

definition with_config :: "app_config \<Rightarrow> shim_context \<Rightarrow> shim_context" where
  "with_config cfg cx =
     cx\<lparr>cx_warp_size := cfg_warp_size (ac_sim cfg), cx_profile := cfg_profile (ac_sim cfg),
        cx_deterministic := cfg_deterministic (ac_sim cfg)\<rparr>"

definition init_failed :: "json_exn \<Rightarrow> shim_context \<Rightarrow> shim_context" where
  "init_failed e cx = cx\<lparr>cx_fatal := ''RuntimeContext init failed: '' @ exn_what e\<rparr>"

definition initialize :: "'n shim_env \<Rightarrow> shim_context \<Rightarrow> shim_context" where
  "initialize env cx =
     (case load_assets env of
        Inl msg \<Rightarrow> cx\<lparr>cx_fatal := msg\<rparr>
      | Inr a \<Rightarrow>
          (case load_app_config_json_text (se_rt env) (as_config a) of
             Inl e \<Rightarrow> init_failed e cx
           | Inr cfg \<Rightarrow>
               (case e_bind (load_isa_text (se_rt env) (as_isa a)) (\<lambda>_. load_desc_text (se_rt env) (as_desc a)) of
                  Inl e \<Rightarrow> init_failed e (with_config cfg cx)
                | Inr _ \<Rightarrow>
                    (with_config cfg cx)\<lparr>cx_rt := Some (runtime_init cfg), cx_assets := a, cx_initialized := True\<rparr>)))"

text \<open>The context afterwards, and the error if there is one.\<close>

definition ensure_initialized :: "'n shim_env \<Rightarrow> shim_context \<Rightarrow> shim_context \<times> string option" where
  "ensure_initialized env cx =
     (if cx_fatal cx \<noteq> [] then (cx, Some (cx_fatal cx))
      else if cx_initialized cx then (cx, None)
      else let cx = initialize env cx in (cx, if cx_initialized cx then None else Some (cx_fatal cx)))"

section \<open>The state of the shim\<close>

record shim =
  sh_ctx :: shim_context
  sh_allocs :: "dm_alloc list"
  sh_host :: "u64 \<rightharpoonup> u8"
  sh_err :: error_state
  sh_fatbins :: fatbin_registry
  sh_kernels :: "u64 \<rightharpoonup> kernel_info"
  sh_calls :: "call_config list"

definition shim_init :: "(u64 \<rightharpoonup> u8) \<Rightarrow> shim" where
  "shim_init host =
     \<lparr>sh_ctx = context_init, sh_allocs = [], sh_host = host, sh_err = es_init, sh_fatbins = fatbin_registry_init,
      sh_kernels = Map.empty, sh_calls = []\<rparr>"

definition fail :: "cuda_error \<Rightarrow> string \<Rightarrow> shim cuda_op" where
  "fail err msg st = (st\<lparr>sh_err := es_set err msg (sh_err st)\<rparr>, Some err)"

definition succeed :: "shim cuda_op" where
  "succeed st = (st\<lparr>sh_err := es_set CudaSuccess [] (sh_err st)\<rparr>, Some CudaSuccess)"

text \<open>\<open>if (rc == cudaSuccess) set(cudaSuccess); return rc;\<close>\<close>

definition set_on_success :: "shim \<times> cuda_error option \<Rightarrow> shim \<times> cuda_error option" where
  "set_on_success r = (if snd r = Some CudaSuccess then succeed (fst r) else r)"

definition with_init :: "'n shim_env \<Rightarrow> shim cuda_op \<Rightarrow> shim cuda_op" where
  "with_init env k st =
     (case ensure_initialized env (sh_ctx st) of
        (cx, Some msg) \<Rightarrow> fail InitializationError msg (st\<lparr>sh_ctx := cx\<rparr>)
      | (cx, None) \<Rightarrow> k (st\<lparr>sh_ctx := cx\<rparr>))"

text \<open>An operation of the device memory, on the runtime of the context.\<close>

definition mem_part :: "shim \<Rightarrow> runtime \<Rightarrow> cuda_mem" where
  "mem_part st rt = \<lparr>cm_rt = rt, cm_allocs = sh_allocs st, cm_host = sh_host st, cm_err = sh_err st\<rparr>"

definition put_mem :: "shim \<Rightarrow> cuda_mem \<Rightarrow> shim" where
  "put_mem st m =
     st\<lparr>sh_ctx := (sh_ctx st)\<lparr>cx_rt := Some (cm_rt m)\<rparr>, sh_allocs := cm_allocs m, sh_host := cm_host m, sh_err := cm_err m\<rparr>"

definition on_mem :: "cuda_mem cuda_op \<Rightarrow> shim cuda_op" where
  "on_mem f st =
     (case cx_rt (sh_ctx st) of
        None \<Rightarrow> (st, None)
      | Some rt \<Rightarrow> (case f (mem_part st rt) of (m, r) \<Rightarrow> (put_mem st m, r)))"

text \<open>
  A stream runs its queue at once: the commands are taken out and executed in order, so that
  the queue is empty again.
\<close>

definition stream_submit :: "('s \<Rightarrow> 's) list \<Rightarrow> ('s \<Rightarrow> 's) \<Rightarrow> 's \<Rightarrow> ('s \<Rightarrow> 's) list \<times> 's" where
  "stream_submit q cmd st = (let to_run = q @ [cmd] in ([], fold (\<lambda>c. c) to_run st))"

section \<open>Exported functions: errors, memory, streams\<close>

definition cudaGetLastError :: "shim \<Rightarrow> shim \<times> cuda_error" where
  "cudaGetLastError st = (case es_get_and_clear (sh_err st) of (es, err) \<Rightarrow> (st\<lparr>sh_err := es\<rparr>, err))"

fun cudaGetErrorString :: "cuda_error \<Rightarrow> string" where
  "cudaGetErrorString CudaSuccess = ''cudaSuccess''"
| "cudaGetErrorString InvalidValue = ''cudaErrorInvalidValue''"
| "cudaGetErrorString MemoryAllocation = ''cudaErrorMemoryAllocation''"
| "cudaGetErrorString InitializationError = ''cudaErrorInitializationError''"
| "cudaGetErrorString InvalidDeviceFunction = ''cudaErrorInvalidDeviceFunction''"
| "cudaGetErrorString InvalidDevicePointer = ''cudaErrorInvalidDevicePointer''"
| "cudaGetErrorString InvalidMemcpyDirection = ''cudaErrorInvalidMemcpyDirection''"
| "cudaGetErrorString InvalidPtx = ''cudaErrorInvalidPtx''"
| "cudaGetErrorString NotSupported = ''cudaErrorNotSupported''"
| "cudaGetErrorString CudaUnknown = ''cudaErrorUnknown''"

definition dump_observability :: "'n shim_env \<Rightarrow> shim cuda_op" where
  "dump_observability env st =
     (let trace = read_optional_path_env env ''GPUSIM_TRACE''; stats = read_optional_path_env env ''GPUSIM_STATS''
      in if trace = None \<and> stats = None then (st, Some CudaSuccess)
         else case cx_rt (sh_ctx st) of
                None \<Rightarrow> (st, None)
              | Some rt \<Rightarrow>
                  (case se_export env trace stats rt (cx_profile (sh_ctx st)) (cx_deterministic (sh_ctx st)) of
                     None \<Rightarrow> (st, Some CudaSuccess)
                   | Some msg \<Rightarrow> fail CudaUnknown msg st))"

definition cudaDeviceSynchronize :: "'n shim_env \<Rightarrow> shim cuda_op" where
  "cudaDeviceSynchronize env = with_init env (\<lambda>st. set_on_success (dump_observability env st))"

definition cudaMalloc :: "'n shim_env \<Rightarrow> u64 \<Rightarrow> u64 \<Rightarrow> shim cuda_op" where
  "cudaMalloc env out sz = with_init env (\<lambda>st. set_on_success (on_mem (dm_malloc out sz) st))"

definition cudaFree :: "'n shim_env \<Rightarrow> u64 \<Rightarrow> shim cuda_op" where
  "cudaFree env ptr = with_init env (\<lambda>st. set_on_success (on_mem (dm_free ptr) st))"

definition cudaMemcpy :: "'n shim_env \<Rightarrow> u64 \<Rightarrow> u64 \<Rightarrow> u64 \<Rightarrow> memcpy_kind \<Rightarrow> shim cuda_op" where
  "cudaMemcpy env dst src n kind = with_init env (\<lambda>st. set_on_success (on_mem (dm_memcpy dst src n kind) st))"

definition cudaMemcpyAsync :: "'n shim_env \<Rightarrow> u64 \<Rightarrow> u64 \<Rightarrow> u64 \<Rightarrow> memcpy_kind \<Rightarrow> u64 \<Rightarrow> shim cuda_op" where
  "cudaMemcpyAsync env dst src n kind stream =
     with_init env (\<lambda>st. set_on_success
       (snd (stream_submit [] (\<lambda>(st, rc). on_mem (dm_memcpy dst src n kind) st) (st, Some CudaSuccess))))"

definition cudaStreamCreate :: "'n shim_env \<Rightarrow> u64 \<Rightarrow> u64 \<Rightarrow> shim cuda_op" where
  "cudaStreamCreate env token out st =
     (if out = 0 then fail InvalidValue ''cudaStreamCreate: pStream is null'' st
      else with_init env (\<lambda>st.
             if token = 0 then fail MemoryAllocation ''cudaStreamCreate: allocation failed'' st
             else succeed (st\<lparr>sh_host := store_bytes (sh_host st) out (pack_le token 8)\<rparr>)) st)"

definition cudaStreamDestroy :: "u64 \<Rightarrow> shim cuda_op" where
  "cudaStreamDestroy stream st =
     (if stream = 0 then fail InvalidValue ''cudaStreamDestroy: cannot destroy default/null stream'' st
      else succeed st)"

definition cudaStreamSynchronize :: "'n shim_env \<Rightarrow> shim cuda_op" where
  "cudaStreamSynchronize env = with_init env (\<lambda>st. set_on_success (dump_observability env st))"

definition cudaStreamQuery :: "'n shim_env \<Rightarrow> shim cuda_op" where
  "cudaStreamQuery env = with_init env succeed"

section \<open>Exported functions: launches\<close>

definition format_diag :: "diagnostic \<Rightarrow> string" where
  "format_diag d =
     d_module d @ ''/'' @ d_code d @ '': '' @ d_message d
     @ (case d_function d of Some f \<Rightarrow> '' (func='' @ f @ '')'' | None \<Rightarrow> [])
     @ (case d_inst_index d of Some pc \<Rightarrow> '' (pc='' @ dec_string_int pc @ '')'' | None \<Rightarrow> [])
     @ (case d_location d of Some l \<Rightarrow> '' ('' @ loc_file l @ '':'' @ dec_string_int (loc_line l) @ '')'' | None \<Rightarrow> [])"

fun gather_entries :: "string list \<Rightarrow> string list \<Rightarrow> string list" where
  "gather_entries [] found = found"
| "gather_entries (t # ts) found =
     (let found = found @ ptx_list_entry_names_mvp t 8
      in if length found \<ge> 16 then found else gather_entries ts found)"

fun list_found :: "nat \<Rightarrow> string list \<Rightarrow> string" where
  "list_found i [] = []"
| "list_found i (n # ns) = (if i = 0 then '' '' else '', '') @ n @ list_found (Suc i) ns"

definition no_ptx_message :: "fatbin_module option \<Rightarrow> string" where
  "no_ptx_message m =
     ''cudaLaunchKernel: no PTX extracted for module'' @
     (case m of
        None \<Rightarrow> []
      | Some m \<Rightarrow>
          if fm_override m
          then '' (source=GPUSIM_CUDART_SHIM_PTX_OVERRIDE'' @ (if fm_error m \<noteq> [] then ''; '' @ fm_error m else []) @ '')''
          else [])"

definition no_entry_message :: "string \<Rightarrow> fatbin_module \<Rightarrow> string" where
  "no_entry_message entry m =
     (let found = gather_entries (fm_texts m) []
      in ''cudaLaunchKernel: .entry '' @ [CHR 0x27] @ entry @ [CHR 0x27] @ '' not found in extracted PTX (ptx_count='' @
         dec_string (length (fm_texts m)) @ '')'' @
         (if fm_override m then '' (source=GPUSIM_CUDART_SHIM_PTX_OVERRIDE)'' else []) @
         (if found = [] then [] else ''; found entries:'' @ list_found 0 (take 16 found)))"

text \<open>From the registered function to the text that has its entry.\<close>

definition find_kernel :: "shim \<Rightarrow> u64 \<Rightarrow> (cuda_error \<times> string) + string \<times> string" where
  "find_kernel st func =
     (case sh_kernels st func of
        None \<Rightarrow> Inl (InvalidDeviceFunction, ''cudaLaunchKernel: kernel not registered'')
      | Some ki \<Rightarrow>
          if ki_module ki = 0 then Inl (InvalidDeviceFunction, ''cudaLaunchKernel: kernel module unknown'')
          else case lookup_module (sh_fatbins st) (ki_module ki) of
                 None \<Rightarrow> Inl (InvalidDeviceFunction, no_ptx_message None)
               | Some m \<Rightarrow>
                   if fm_texts m = [] then Inl (InvalidDeviceFunction, no_ptx_message (Some m))
                   else case find (\<lambda>ptx. ptx_contains_entry_mvp ptx (ki_name ki)) (fm_texts m) of
                          None \<Rightarrow> Inl (InvalidDeviceFunction, no_entry_message (ki_name ki) m)
                        | Some ptx \<Rightarrow> Inr (ptx, ki_name ki))"

text \<open>The parameter layout from the text, and the arguments; an exception is an unknown error.\<close>

definition launch_args :: "'n shim_env \<Rightarrow> shim \<Rightarrow> string \<Rightarrow> string \<Rightarrow> u64 \<Rightarrow> (cuda_error \<times> string) + kernel_args" where
  "launch_args env st ptx entry args =
     (case e_bind (parse_ptx_text_tokens (en_hash_order (se_rt env)) ptx ''<fatbin>'') (\<lambda>ks. bind_kernel_by_name ks entry) of
        Inl e \<Rightarrow> Inl (CudaUnknown, exn_what e)
      | Inr k \<Rightarrow>
          (case pack_kernel_args_mvp (kt_params k) args (sh_allocs st) (sh_host st) of
             Inl (err, msg) \<Rightarrow> Inl (err, ''cudaLaunchKernel: arg pack failed: '' @ msg)
           | Inr ka \<Rightarrow> Inr ka))"

definition launch_end :: "shim \<Rightarrow> runtime \<times> (rt_error + sim_result) \<Rightarrow> shim \<times> cuda_error option" where
  "launch_end st r =
     (let st = st\<lparr>sh_ctx := (sh_ctx st)\<lparr>cx_rt := Some (fst r)\<rparr>\<rparr>
      in case snd r of
           Inl (Throws e) \<Rightarrow> fail CudaUnknown (exn_what e) st
         | Inl Undefined \<Rightarrow> (st, None)
         | Inr res \<Rightarrow>
             (case sr_diag res of
                Some d \<Rightarrow> fail CudaUnknown (''cudaLaunchKernel: simulator error: '' @ format_diag d) st
              | None \<Rightarrow>
                  if \<not> sr_completed res then fail CudaUnknown ''cudaLaunchKernel: simulator did not complete'' st
                  else succeed st))"

definition effective_call :: "dim3 \<Rightarrow> dim3 \<Rightarrow> shim \<Rightarrow> shim \<times> dim3 \<times> dim3" where
  "effective_call grid block st =
     (if dim_x grid = 0 \<or> dim_x block = 0
      then case stack_pop (sh_calls st) of
             (s, None) \<Rightarrow> (st\<lparr>sh_calls := s\<rparr>, grid, block)
           | (s, Some c) \<Rightarrow> (st\<lparr>sh_calls := s\<rparr>, cc_grid c, cc_block c)
      else (st, grid, block))"

definition launch_kernel ::
  "'n shim_env \<Rightarrow> u64 \<Rightarrow> dim3 \<Rightarrow> dim3 \<Rightarrow> u64 \<Rightarrow> shim \<Rightarrow> (shim \<times> cuda_error option) option"
where
  "launch_kernel env func grid block args st =
     (if func = 0 then Some (fail InvalidDeviceFunction ''cudaLaunchKernel: func is null'' st)
      else if dim_x grid = 0 \<or> dim_y grid = 0 \<or> dim_z grid = 0
      then Some (fail InvalidValue ''cudaLaunchKernel: invalid gridDim'' st)
      else if dim_x block = 0 \<or> dim_y block = 0 \<or> dim_z block = 0
      then Some (fail InvalidValue ''cudaLaunchKernel: invalid blockDim'' st)
      else case e_bind (find_kernel st func) (\<lambda>(ptx, entry).
                  e_bind (launch_args env st ptx entry args) (\<lambda>ka. Inr (ptx, entry, ka))) of
             Inl (err, msg) \<Rightarrow> Some (fail err msg st)
           | Inr (ptx, entry, ka) \<Rightarrow>
               (case cx_rt (sh_ctx st) of
                  None \<Rightarrow> Some (st, None)
                | Some rt \<Rightarrow>
                    map_option (launch_end st)
                      (run_ptx_kernel_with_args_text_entry_launch (se_rt env) ptx (as_isa (cx_assets (sh_ctx st)))
                         (as_desc (cx_assets (sh_ctx st))) entry ka
                         \<lparr>grid_dim = grid, block_dim = block, launch_warp_size = cx_warp_size (sh_ctx st)\<rparr> rt)))"

definition cudaLaunchKernel ::
  "'n shim_env \<Rightarrow> u64 \<Rightarrow> dim3 \<Rightarrow> dim3 \<Rightarrow> u64 \<Rightarrow> shim \<Rightarrow> (shim \<times> cuda_error option) option"
where
  "cudaLaunchKernel env func grid block args st =
     (case ensure_initialized env (sh_ctx st) of
        (cx, Some msg) \<Rightarrow> Some (fail InitializationError msg (st\<lparr>sh_ctx := cx\<rparr>))
      | (cx, None) \<Rightarrow>
          (case effective_call grid block (st\<lparr>sh_ctx := cx\<rparr>) of
             (st, grid, block) \<Rightarrow> launch_kernel env func grid block args st))"

section \<open>Exported functions: registration and call configurations\<close>

text \<open>
  The registration of a container that is never read to its end does not return; an exception
  in it is not caught.
\<close>

definition cudaRegisterFatBinary :: "'n shim_env \<Rightarrow> u64 \<Rightarrow> u64 \<Rightarrow> shim \<Rightarrow> (json_exn + shim \<times> u64) option" where
  "cudaRegisterFatBinary env token fat st =
     map_option (\<lambda>r. e_bind r (\<lambda>ex. case register_fatbin token ex (sh_fatbins st) of (reg, h) \<Rightarrow> Inr (st\<lparr>sh_fatbins := reg\<rparr>, h)))
       (extract_ptx_texts_mvp
          \<lparr>fe_override = se_getenv env ''GPUSIM_CUDART_SHIM_PTX_OVERRIDE'', fe_file = en_file (se_rt env),
           fe_mapped = se_mapped env\<rparr> (sh_host st) fat)"

definition cudaUnregisterFatBinary :: "u64 \<Rightarrow> shim \<Rightarrow> shim" where
  "cudaUnregisterFatBinary handle st =
     (let ks = (case lookup_by_handle (sh_fatbins st) handle of
                  Some m \<Rightarrow> unregister_module (fm_id m) (sh_kernels st) | None \<Rightarrow> sh_kernels st)
      in st\<lparr>sh_kernels := ks, sh_fatbins := unregister_fatbin handle (sh_fatbins st)\<rparr>)"

definition cudaRegisterFunction :: "u64 \<Rightarrow> u64 \<Rightarrow> string option \<Rightarrow> shim \<Rightarrow> shim" where
  "cudaRegisterFunction handle host_fun device_name st =
     (let module_id = (case lookup_by_handle (sh_fatbins st) handle of Some m \<Rightarrow> fm_id m | None \<Rightarrow> 0)
      in st\<lparr>sh_kernels := register_function module_id host_fun device_name (sh_kernels st)\<rparr>)"

definition cudaPushCallConfiguration :: "dim3 \<Rightarrow> dim3 \<Rightarrow> u64 \<Rightarrow> u64 \<Rightarrow> shim \<Rightarrow> shim \<times> int" where
  "cudaPushCallConfiguration grid block shared stream st =
     (st\<lparr>sh_calls := stack_push \<lparr>cc_grid = grid, cc_block = block, cc_shared = shared, cc_stream = stream\<rparr> (sh_calls st)\<rparr>, 0)"

definition store_at :: "u64 \<Rightarrow> u8 list \<Rightarrow> (u64 \<rightharpoonup> u8) \<Rightarrow> (u64 \<rightharpoonup> u8)" where
  "store_at p bs host = (if p = 0 then host else store_bytes host p bs)"

definition dim3_bytes :: "dim3 \<Rightarrow> u8 list" where
  "dim3_bytes d = pack_le (ucast (dim_x d)) 4 @ pack_le (ucast (dim_y d)) 4 @ pack_le (ucast (dim_z d)) 4"

definition cudaPopCallConfiguration :: "u64 \<Rightarrow> u64 \<Rightarrow> u64 \<Rightarrow> u64 \<Rightarrow> shim \<Rightarrow> shim \<times> int" where
  "cudaPopCallConfiguration grid block shared stream st =
     (case stack_pop (sh_calls st) of
        (s, None) \<Rightarrow> (st\<lparr>sh_calls := s\<rparr>, 1)
      | (s, Some c) \<Rightarrow>
          (st\<lparr>sh_calls := s,
              sh_host := store_at stream (pack_le (cc_stream c) 8) (store_at shared (pack_le (cc_shared c) 8)
                (store_at block (dim3_bytes (cc_block c)) (store_at grid (dim3_bytes (cc_grid c)) (sh_host st))))\<rparr>, 0))"

section \<open>The registries stay consistent\<close>

text \<open>
  Modules are stored under their own number, below the next one; every handle but the null
  pointer stands for a loaded module, no two handles for the same one; and the module of a
  registered kernel, if it has one, is loaded.
\<close>

definition registry_ok :: "fatbin_registry \<Rightarrow> (u64 \<rightharpoonup> kernel_info) \<Rightarrow> bool" where
  "registry_ok r ks \<longleftrightarrow>
     0 < fb_next r \<and>
     (\<forall>i m. fb_modules r i = Some m \<longrightarrow> fm_id m = i \<and> i \<noteq> 0 \<and> i < fb_next r) \<and>
     (\<forall>h i. fb_handles r h = Some i \<longrightarrow> i < fb_next r \<and> (h \<noteq> 0 \<longrightarrow> fb_modules r i \<noteq> None)) \<and>
     (\<forall>h h' i. fb_handles r h = Some i \<and> fb_handles r h' = Some i \<longrightarrow> h = h') \<and>
     (\<forall>f ki. ks f = Some ki \<and> ki_module ki \<noteq> 0 \<longrightarrow> fb_modules r (ki_module ki) \<noteq> None)"

definition ctx_ok :: "shim_context \<Rightarrow> bool" where
  "ctx_ok cx \<longleftrightarrow> (cx_initialized cx \<longrightarrow> cx_rt cx \<noteq> None)"

definition shim_ok :: "shim \<Rightarrow> bool" where
  "shim_ok st \<longleftrightarrow> registry_ok (sh_fatbins st) (sh_kernels st) \<and> ctx_ok (sh_ctx st)"

lemma registry_ok_register:
  assumes "registry_ok r ks" and "fb_next r + 1 \<noteq> 0" and "register_fatbin token ex r = (r', h)"
  shows "registry_ok r' ks"
proof -
  let ?i = "fb_next r"
  have lt: "?i < ?i + 1" using unatSuc [of ?i] assms(2) by (simp add: word_less_nat_alt add.commute)
  have le: "j < ?i + 1" if "j < ?i" for j using lt that by (rule less_trans [rotated])
  have fresh: "fb_modules r ?i = None" "fb_handles r k \<noteq> Some ?i" for k
    using assms(1) unfolding registry_ok_def by (meson less_irrefl not_Some_eq)+
  have r': "fb_next r' = ?i + 1" "fb_handles r' = (fb_handles r)(token \<mapsto> ?i)"
    "fb_modules r' = (fb_modules r)(?i \<mapsto> \<lparr>fm_id = ?i, fm_texts = ex_texts ex, fm_override = ex_override ex, fm_error = ex_error ex\<rparr>)"
    using assms(3) fresh(1) by (auto simp: register_fatbin_def Let_def)
  show ?thesis
    using assms(1) lt le fresh unfolding registry_ok_def r'
    by (auto simp: word_gt_0 [symmetric] split: if_splits)
qed

lemma unregister_parts:
  assumes "registry_ok (sh_fatbins st) (sh_kernels st)" and "h \<noteq> 0" and "fb_handles (sh_fatbins st) h = Some i"
  shows "fb_modules (sh_fatbins (cudaUnregisterFatBinary h st)) = (fb_modules (sh_fatbins st))(i := None) \<and>
    fb_handles (sh_fatbins (cudaUnregisterFatBinary h st)) = (fb_handles (sh_fatbins st))(h := None) \<and>
    fb_next (sh_fatbins (cudaUnregisterFatBinary h st)) = fb_next (sh_fatbins st) \<and>
    sh_kernels (cudaUnregisterFatBinary h st) = unregister_module i (sh_kernels st) \<and>
    sh_ctx (cudaUnregisterFatBinary h st) = sh_ctx st"
proof -
  obtain m where "fb_modules (sh_fatbins st) i = Some m" "fm_id m = i"
    using assms by (fastforce simp: registry_ok_def)
  then show ?thesis using assms(2,3)
    by (simp add: cudaUnregisterFatBinary_def lookup_by_handle_def lookup_module_def unregister_fatbin_def Let_def)
qed

lemma unregister_unknown:
  assumes "h = 0 \<or> fb_handles (sh_fatbins st) h = None"
  shows "cudaUnregisterFatBinary h st = st"
  using assms by (auto simp: cudaUnregisterFatBinary_def lookup_by_handle_def unregister_fatbin_def Let_def)

lemma shim_ok_unregister:
  assumes "shim_ok st"
  shows "shim_ok (cudaUnregisterFatBinary h st)"
proof (cases "h = 0 \<or> fb_handles (sh_fatbins st) h = None")
  case True
  then show ?thesis using assms unregister_unknown by simp
next
  case False
  then obtain i where i: "h \<noteq> 0" "fb_handles (sh_fatbins st) h = Some i" by blast
  have ok: "registry_ok (sh_fatbins st) (sh_kernels st)" using assms by (simp add: shim_ok_def)
  note parts = unregister_parts [OF ok i]
  show ?thesis using assms ok i(2)
    unfolding shim_ok_def registry_ok_def
    by (auto simp: parts unregister_module_def split: if_splits option.splits)
qed

lemma shim_ok_register_function:
  assumes "shim_ok st"
  shows "shim_ok (cudaRegisterFunction h f name st)"
  using assms
  by (auto simp: shim_ok_def registry_ok_def cudaRegisterFunction_def lookup_by_handle_def lookup_module_def
      register_function_def Let_def split: option.splits if_splits)

text \<open>Operations that leave the registries alone and the context in order.\<close>

definition quiet :: "shim cuda_op \<Rightarrow> bool" where
  "quiet f \<longleftrightarrow> (\<forall>st. sh_fatbins (fst (f st)) = sh_fatbins st \<and> sh_kernels (fst (f st)) = sh_kernels st \<and>
     (ctx_ok (sh_ctx st) \<longrightarrow> ctx_ok (sh_ctx (fst (f st)))))"

lemma quiet_ok: "quiet f \<Longrightarrow> f st = (st', r) \<Longrightarrow> shim_ok st \<Longrightarrow> shim_ok st'"
  unfolding quiet_def shim_ok_def by (metis fst_conv)

lemma ensure_facts:
  assumes "ensure_initialized env cx = (cx', e)" and "ctx_ok cx"
  shows "ctx_ok cx' \<and> (e = None \<longrightarrow> cx_rt cx' \<noteq> None)"
  using assms by (auto simp: ensure_initialized_def initialize_def ctx_ok_def with_config_def init_failed_def Let_def
      split: if_splits sum.splits)

lemma quiet_fail [intro]: "quiet (fail err msg)"
  by (simp add: quiet_def fail_def)

lemma quiet_succeed [intro]: "quiet succeed"
  by (simp add: quiet_def succeed_def)

lemma quiet_on_mem [intro]: "quiet (on_mem f)"
  by (auto simp: quiet_def on_mem_def put_mem_def ctx_ok_def split: option.splits prod.splits)

lemma quiet_set_on_success [intro]: "quiet f \<Longrightarrow> quiet (\<lambda>st. set_on_success (f st))"
  by (auto simp: quiet_def set_on_success_def succeed_def)

lemma quiet_dump [intro]: "quiet (dump_observability env)"
  by (auto simp: quiet_def dump_observability_def fail_def Let_def split: option.splits)

lemma quiet_with_init [intro]: "quiet k \<Longrightarrow> quiet (with_init env k)"
  using ensure_facts by (fastforce simp: quiet_def with_init_def fail_def split: prod.splits option.splits)

lemma quiet_stream_create [intro]: "quiet (cudaStreamCreate env token out)"
proof -
  have "quiet (\<lambda>st. if token = 0 then fail MemoryAllocation ''cudaStreamCreate: allocation failed'' st
      else succeed (st\<lparr>sh_host := store_bytes (sh_host st) out (pack_le token 8)\<rparr>))"
    by (auto simp: quiet_def fail_def succeed_def)
  from quiet_with_init [OF this, of env] show ?thesis by (auto simp: quiet_def cudaStreamCreate_def fail_def)
qed

lemma quiet_exports [intro]:
  "quiet (cudaDeviceSynchronize env)" "quiet (cudaMalloc env p n)" "quiet (cudaFree env q)"
  "quiet (cudaMemcpy env dst src n kind)" "quiet (cudaMemcpyAsync env dst src n kind stream)"
  "quiet (cudaStreamDestroy stream)" "quiet (cudaStreamSynchronize env)" "quiet (cudaStreamQuery env)"
  unfolding cudaDeviceSynchronize_def cudaMalloc_def cudaFree_def cudaMemcpy_def cudaMemcpyAsync_def
    cudaStreamSynchronize_def cudaStreamQuery_def
  by (auto intro!: quiet_with_init quiet_set_on_success simp: stream_submit_def)
    (auto simp: quiet_def cudaStreamDestroy_def fail_def succeed_def)

lemma launch_end_parts:
  "sh_fatbins (fst (launch_end st r)) = sh_fatbins st \<and> sh_kernels (fst (launch_end st r)) = sh_kernels st \<and>
   sh_allocs (fst (launch_end st r)) = sh_allocs st \<and> ctx_ok (sh_ctx (fst (launch_end st r)))"
  by (auto simp: launch_end_def fail_def succeed_def ctx_ok_def Let_def split: sum.split rt_error.split option.split)

lemma launch_kernel_quiet:
  assumes "launch_kernel env func grid block args st = Some (st', r)" and "ctx_ok (sh_ctx st)"
  shows "sh_fatbins st' = sh_fatbins st \<and> sh_kernels st' = sh_kernels st \<and> ctx_ok (sh_ctx st')"
proof -
  have parts: "sh_fatbins st' = sh_fatbins st \<and> sh_kernels st' = sh_kernels st \<and> ctx_ok (sh_ctx st')"
    if "launch_end st x = (st', r)" for x
    using launch_end_parts [of st x] that by simp
  show ?thesis using assms parts
    unfolding launch_kernel_def
    by (auto simp: fail_def split: if_splits sum.splits prod.splits option.splits)
qed

lemma effective_call_parts:
  assumes "effective_call grid block st = (st', g, b)"
  shows "sh_fatbins st' = sh_fatbins st \<and> sh_kernels st' = sh_kernels st \<and> sh_ctx st' = sh_ctx st \<and>
    sh_allocs st' = sh_allocs st \<and> sh_host st' = sh_host st"
  using assms by (auto simp: effective_call_def split: if_splits prod.splits option.splits)

lemma shim_ok_launch:
  assumes "cudaLaunchKernel env func grid block args st = Some (st', r)" and "shim_ok st"
  shows "shim_ok st'"
proof -
  obtain cx e where e: "ensure_initialized env (sh_ctx st) = (cx, e)" by fastforce
  have ok: "ctx_ok cx" using ensure_facts [OF e] assms(2) by (simp add: shim_ok_def)
  show ?thesis
  proof (cases e)
    case None
    obtain st1 g b where c: "effective_call grid block (st\<lparr>sh_ctx := cx\<rparr>) = (st1, g, b)" by (metis prod_cases3)
    note parts = effective_call_parts [OF c]
    have "launch_kernel env func g b args st1 = Some (st', r)" using assms(1) e None c by (simp add: cudaLaunchKernel_def)
    from launch_kernel_quiet [OF this] show ?thesis using parts ok assms(2) by (simp add: shim_ok_def)
  next
    case (Some msg)
    then show ?thesis using assms e ok by (auto simp: cudaLaunchKernel_def fail_def shim_ok_def)
  qed
qed

section \<open>Reachable states\<close>

text \<open>
  What a program may do: call an exported function that returns, or write to its own memory.
  The environment (the variables, the files) may be another one of the set \<open>E\<close> at every call.
  Handles are unregistered once, and there are fewer than \<open>2 ^ 64\<close> registrations.
\<close>

inductive shim_step :: "'n shim_env set \<Rightarrow> shim \<Rightarrow> shim \<Rightarrow> bool" for E where
  host_writes: "shim_step E st (st\<lparr>sh_host := host\<rparr>)"
| get_last_error: "cudaGetLastError st = (st', err) \<Longrightarrow> shim_step E st st'"
| device_synchronize: "env \<in> E \<Longrightarrow> cudaDeviceSynchronize env st = (st', Some rc) \<Longrightarrow> shim_step E st st'"
| malloc: "env \<in> E \<Longrightarrow> cudaMalloc env p n st = (st', Some rc) \<Longrightarrow> shim_step E st st'"
| free: "env \<in> E \<Longrightarrow> cudaFree env q st = (st', Some rc) \<Longrightarrow> shim_step E st st'"
| memcpy: "env \<in> E \<Longrightarrow> cudaMemcpy env dst src n kind st = (st', Some rc) \<Longrightarrow> shim_step E st st'"
| memcpy_async:
    "env \<in> E \<Longrightarrow> cudaMemcpyAsync env dst src n kind stream st = (st', Some rc) \<Longrightarrow> shim_step E st st'"
| stream_create: "env \<in> E \<Longrightarrow> cudaStreamCreate env token p st = (st', Some rc) \<Longrightarrow> shim_step E st st'"
| stream_destroy: "cudaStreamDestroy stream st = (st', Some rc) \<Longrightarrow> shim_step E st st'"
| stream_synchronize: "env \<in> E \<Longrightarrow> cudaStreamSynchronize env st = (st', Some rc) \<Longrightarrow> shim_step E st st'"
| stream_query: "env \<in> E \<Longrightarrow> cudaStreamQuery env st = (st', Some rc) \<Longrightarrow> shim_step E st st'"
| launch: "env \<in> E \<Longrightarrow> cudaLaunchKernel env func grid block args st = Some (st', Some rc) \<Longrightarrow> shim_step E st st'"
| register_fat_binary:
    "env \<in> E \<Longrightarrow> cudaRegisterFatBinary env token fat st = Some (Inr (st', h)) \<Longrightarrow>
     fb_next (sh_fatbins st) + 1 \<noteq> 0 \<Longrightarrow> shim_step E st st'"
| unregister_fat_binary:
    "h = 0 \<or> fb_handles (sh_fatbins st) h \<noteq> None \<Longrightarrow> shim_step E st (cudaUnregisterFatBinary h st)"
| register_fun: "shim_step E st (cudaRegisterFunction h f name st)"
| push_call: "cudaPushCallConfiguration grid block shared stream st = (st', rc') \<Longrightarrow> shim_step E st st'"
| pop_call: "cudaPopCallConfiguration pg pb ps pst st = (st', rc') \<Longrightarrow> shim_step E st st'"

inductive shim_reach :: "'n shim_env set \<Rightarrow> (u64 \<rightharpoonup> u8) \<Rightarrow> shim \<Rightarrow> bool" for E host where
  start: "shim_reach E host (shim_init host)"
| step: "shim_reach E host st \<Longrightarrow> shim_step E st st' \<Longrightarrow> shim_reach E host st'"

text \<open>
  The calls that need the context, with what they give: \<open>None\<close> for a launch that does not return,
  otherwise the state and the code.  The other exports (\<open>cudaGetLastError\<close>, \<open>cudaStreamDestroy\<close>,
  \<open>cudaStreamCreate\<close> with a null pointer, the registrations and the call configurations) do not
  touch it.
\<close>

inductive initialising_call :: "'n shim_env \<Rightarrow> shim \<Rightarrow> (shim \<times> cuda_error option) option \<Rightarrow> bool" for env st where
  "initialising_call env st (Some (cudaDeviceSynchronize env st))"
| "initialising_call env st (Some (cudaMalloc env p n st))"
| "initialising_call env st (Some (cudaFree env q st))"
| "initialising_call env st (Some (cudaMemcpy env dst src n kind st))"
| "initialising_call env st (Some (cudaMemcpyAsync env dst src n kind stream st))"
| "out \<noteq> 0 \<Longrightarrow> initialising_call env st (Some (cudaStreamCreate env token out st))"
| "initialising_call env st (Some (cudaStreamSynchronize env st))"
| "initialising_call env st (Some (cudaStreamQuery env st))"
| "initialising_call env st (cudaLaunchKernel env func grid block args st)"

lemma shim_ok_register_fatbin:
  assumes "cudaRegisterFatBinary env token fat st = Some (Inr (st', h))" and "fb_next (sh_fatbins st) + 1 \<noteq> 0"
    and "shim_ok st"
  shows "shim_ok st'"
proof -
  from assms(1) obtain ex reg where reg: "register_fatbin token ex (sh_fatbins st) = (reg, h)"
      and st': "st' = st\<lparr>sh_fatbins := reg\<rparr>"
    by (auto simp: cudaRegisterFatBinary_def e_bind_Inr_iff split: prod.splits dest!: sym [of "Some _"]) (metis prod.exhaust)
  show ?thesis using registry_ok_register [OF _ assms(2) reg] assms(3) by (simp add: shim_ok_def st')
qed

lemma step_keeps_ok: "shim_step E st st' \<Longrightarrow> shim_ok st \<Longrightarrow> shim_ok st'"
proof (induction rule: shim_step.induct)
  case (get_last_error st st' err)
  then show ?case by (auto simp: cudaGetLastError_def es_get_and_clear_def shim_ok_def)
next
  case (push_call grid block shared stream st st' rc')
  then show ?case by (auto simp: cudaPushCallConfiguration_def shim_ok_def)
next
  case (pop_call pg pb ps pst st st' rc')
  then show ?case by (auto simp: cudaPopCallConfiguration_def shim_ok_def split: prod.splits option.splits)
qed (auto simp: shim_ok_def [of "_\<lparr>sh_host := _\<rparr>"] shim_ok_def [symmetric]
    intro: quiet_ok [OF quiet_exports(1)] quiet_ok [OF quiet_exports(2)] quiet_ok [OF quiet_exports(3)]
      quiet_ok [OF quiet_exports(4)] quiet_ok [OF quiet_exports(5)] quiet_ok [OF quiet_exports(6)]
      quiet_ok [OF quiet_exports(7)] quiet_ok [OF quiet_exports(8)] quiet_ok [OF quiet_stream_create]
      shim_ok_launch shim_ok_register_fatbin shim_ok_unregister shim_ok_register_function)

lemma reach_ok: "shim_reach E host st \<Longrightarrow> shim_ok st"
proof (induction rule: shim_reach.induct)
  case start
  show ?case
    by (simp add: shim_init_def shim_ok_def registry_ok_def fatbin_registry_init_def ctx_ok_def context_init_def)
next
  case (step st st')
  then show ?case using step_keeps_ok by blast
qed

section \<open>A launch that succeeds\<close>

lemma fail_success [simp]: "fail err msg st = (st', Some CudaSuccess) \<Longrightarrow> err = CudaSuccess"
  by (simp add: fail_def)

lemma pack_params_err: "pack_params host as ps i layout blob = Inl (err, msg) \<Longrightarrow> err \<noteq> CudaSuccess"
  by (induction layout arbitrary: i blob)
    (auto simp: pack_param_def e_bind_Inl_iff Let_def split: if_splits param_type.splits sum.splits)

lemma launch_args_err: "launch_args env st ptx entry args = Inl (err, msg) \<Longrightarrow> err \<noteq> CudaSuccess"
  by (auto simp: launch_args_def pack_kernel_args_mvp_def e_bind_Inl_iff dest: pack_params_err
      split: sum.splits prod.splits if_splits)

lemma find_kernel_err: "find_kernel st f = Inl (err, msg) \<Longrightarrow> err = InvalidDeviceFunction"
  by (auto simp: find_kernel_def split: option.splits if_splits)

lemma launch_kernel_success:
  assumes "launch_kernel env func grid block args st = Some (st', Some CudaSuccess)"
  shows "\<exists>ptx entry ka rt r. find_kernel st func = Inr (ptx, entry) \<and> launch_args env st ptx entry args = Inr ka \<and>
    cx_rt (sh_ctx st) = Some rt \<and>
    run_ptx_kernel_with_args_text_entry_launch (se_rt env) ptx (as_isa (cx_assets (sh_ctx st)))
      (as_desc (cx_assets (sh_ctx st))) entry ka
      \<lparr>grid_dim = grid, block_dim = block, launch_warp_size = cx_warp_size (sh_ctx st)\<rparr> rt = Some r \<and>
    launch_end st r = (st', Some CudaSuccess)"
proof -
  define found where
    "found = e_bind (find_kernel st func) (\<lambda>(ptx, entry).
       e_bind (launch_args env st ptx entry args) (\<lambda>ka. Inr (ptx, entry, ka)))"
  have "err \<noteq> CudaSuccess" if "found = Inl (err, msg)" for err msg
    using that unfolding found_def
    by (cases "find_kernel st func") (auto simp: e_bind_Inl_iff dest: find_kernel_err launch_args_err)
  then have "\<exists>x. found = Inr x"
    using assms unfolding launch_kernel_def found_def [symmetric]
    by (auto dest: fail_success split: if_splits sum.splits prod.splits)
  then obtain ptx entry ka where f: "found = Inr (ptx, entry, ka)" by (metis prod_cases3)
  then have "find_kernel st func = Inr (ptx, entry)" "launch_args env st ptx entry args = Inr ka"
    by (auto simp: found_def e_bind_Inr_iff)
  moreover have "\<exists>rt r. cx_rt (sh_ctx st) = Some rt \<and>
    run_ptx_kernel_with_args_text_entry_launch (se_rt env) ptx (as_isa (cx_assets (sh_ctx st)))
      (as_desc (cx_assets (sh_ctx st))) entry ka
      \<lparr>grid_dim = grid, block_dim = block, launch_warp_size = cx_warp_size (sh_ctx st)\<rparr> rt = Some r \<and>
    launch_end st r = (st', Some CudaSuccess)"
    using assms unfolding launch_kernel_def found_def [symmetric] f
    by (auto dest: fail_success split: if_splits option.splits)
  ultimately show ?thesis by blast
qed

lemma launch_end_success:
  assumes "launch_end st r = (st', Some CudaSuccess)"
  shows "\<exists>res. snd r = Inr res \<and> sr_diag res = None \<and> sr_completed res \<and>
    cx_rt (sh_ctx st') = Some (fst r) \<and> es_last (sh_err st') = CudaSuccess"
  using assms
  by (auto simp: launch_end_def succeed_def es_set_def Let_def dest: fail_success
      split: sum.splits rt_error.splits option.splits if_splits)

text \<open>The text is parsed twice, under two names; the names and parameters of the kernels are the same.\<close>

definition same_tokens :: "token_state \<Rightarrow> token_state \<Rightarrow> bool" where
  "same_tokens s t \<longleftrightarrow> s\<lparr>ts_kernels := []\<rparr> = t\<lparr>ts_kernels := []\<rparr> \<and>
     map (\<lambda>k. (kt_name k, kt_params k)) (ts_kernels s) = map (\<lambda>k. (kt_name k, kt_params k)) (ts_kernels t)"

lemma token_line_same:
  assumes "same_tokens s t" and "token_line h f nl s = Inr s'" and "token_line h g nl t = Inr t'"
  shows "same_tokens s' t'"
proof -
  obtain ent body name ps ls ks ks' where s: "s = \<lparr>ts_in_entry = ent, ts_in_body = body, ts_name = name,
      ts_params = ps, ts_lines = ls, ts_kernels = ks\<rparr>"
    and t: "t = \<lparr>ts_in_entry = ent, ts_in_body = body, ts_name = name, ts_params = ps, ts_lines = ls, ts_kernels = ks'\<rparr>"
    and ks: "map (\<lambda>k. (kt_name k, kt_params k)) ks = map (\<lambda>k. (kt_name k, kt_params k)) ks'"
    using assms(1) by (cases s; cases t) (simp add: same_tokens_def)
  show ?thesis using assms(2,3) ks
    by (auto simp: token_line_def Let_def s t same_tokens_def e_bind_Inr_iff dest!: parse_body_signature
        split: if_splits option.splits)
qed

lemma token_lines_same:
  assumes "same_tokens s t" and "token_lines h f ls s = Inr s'" and "token_lines h g ls t = Inr t'"
  shows "same_tokens s' t'"
  using assms
proof (induction ls arbitrary: s t)
  case (Cons nl ls)
  then show ?case using token_line_same by (fastforce simp: e_bind_Inr_iff)
qed simp

lemma bind_same:
  assumes "map (\<lambda>k. (kt_name k, kt_params k)) ks = map (\<lambda>k. (kt_name k, kt_params k)) ks'"
    and "bind_kernel_by_name ks entry = Inr k" and "bind_kernel_by_name ks' entry = Inr k'"
  shows "kt_params k = kt_params k'"
  using assms by (induction ks arbitrary: ks') (auto split: if_splits)

lemma parsed_twice:
  assumes "e_bind (parse_ptx_text_tokens h ptx f) (\<lambda>ks. bind_kernel_by_name ks entry) = Inr k"
    and "e_bind (parse_ptx_text_tokens h ptx g) (\<lambda>ks. bind_kernel_by_name ks entry) = Inr k'"
  shows "kt_params k = kt_params k'"
proof -
  obtain s t where s: "token_lines h f (numbered (text_lines ptx)) token_state_init = Inr s"
      "bind_kernel_by_name (ts_kernels s) entry = Inr k"
    and t: "token_lines h g (numbered (text_lines ptx)) token_state_init = Inr t"
      "bind_kernel_by_name (ts_kernels t) entry = Inr k'"
    using assms by (auto simp: parse_ptx_text_tokens_def e_bind_Inr_iff)
  have "same_tokens s t" by (rule token_lines_same [OF _ s(1) t(1)]) (simp add: same_tokens_def)
  then show ?thesis by (auto simp: same_tokens_def intro: bind_same [OF _ s(2) t(2)])
qed

lemma run_entry_success:
  assumes "run_ptx_kernel_with_args_text_entry_launch env ptx isa desc entry ka launch rt = Some r"
    and "snd r = Inr res" and "sr_diag res = None" and "\<not> parallel_enabled (ac_sim (rt_cfg rt))"
  shows "\<exists>k isa_reg insts reg ms obs ctas.
    e_bind (parse_ptx_text_tokens (en_hash_order env) ptx ''<ptx>'') (\<lambda>ks. bind_kernel_by_name ks entry) = Inr k \<and>
    load_isa_text env isa = Inr isa_reg \<and> load_desc_text env desc = Inr reg \<and>
    map_kernel isa_reg (kt_insts k) = Inr (Inr insts) \<and>
    simt_run_serial (en_fp env) (ac_sim (rt_cfg rt)) reg
      \<lparr>ms_mgr = with_params (kt_params k) (Some ka) (rt_mem rt), ms_local = Map.empty\<rparr> (rt_obs rt)
      (kernel_of_tokens k insts) launch = Some (res, ms, obs, ctas) \<and>
    fst r = rt\<lparr>rt_mem := ms_mgr ms, rt_obs := obs\<rparr>"
proof -
  let ?kt = "e_bind (parse_text_tokens env ptx) (\<lambda>ks. bind_kernel_by_name ks entry)"
  have "run_bound env rt ?kt (load_isa_text env isa) (load_desc_text env desc) (Some ka) launch = Some r"
    using run_entry_bound [OF assms(1) [unfolded run_ptx_kernel_with_args_text_entry_launch_def] assms(2,3)] .
  from run_bound_success [OF this assms(2-4)] show ?thesis unfolding parse_text_tokens_def by blast
qed

section \<open>Properties\<close>

text \<open>
  C3.  A launch that reports success has done what the program asked for: the function was
  registered with a module that is loaded, the text was one of that module and has the entry, the
  arguments were packed for the parameters of that kernel against the live allocations, the
  simulator ran the kernel on them over the requested grid to its end without a diagnostic, the
  memory of the device is what that run left, the error state is cleared; and unless the step
  limit stopped it, every thread of every CTA was executed to its exit.
\<close>

theorem launch_runs_whole_grid:
  assumes "cudaLaunchKernel env func grid block args st = Some (st', Some CudaSuccess)"
    and "ensure_initialized env (sh_ctx st) = (cx, None)" and "cx_rt cx = Some rt"
    and "effective_call grid block (st\<lparr>sh_ctx := cx\<rparr>) = (st1, g, b)"
    and "\<not> parallel_enabled (ac_sim (rt_cfg rt))"
  shows "\<exists>ki m ptx k ka isa_reg insts reg res ms obs ctas.
    sh_kernels st func = Some ki \<and> lookup_module (sh_fatbins st) (ki_module ki) = Some m \<and>
    ptx \<in> set (fm_texts m) \<and> ptx_contains_entry_mvp ptx (ki_name ki) \<and>
    e_bind (parse_ptx_text_tokens (en_hash_order (se_rt env)) ptx ''<ptx>'') (\<lambda>ks. bind_kernel_by_name ks (ki_name ki)) = Inr k \<and>
    load_isa_text (se_rt env) (as_isa (cx_assets cx)) = Inr isa_reg \<and>
    load_desc_text (se_rt env) (as_desc (cx_assets cx)) = Inr reg \<and>
    map_kernel isa_reg (kt_insts k) = Inr (Inr insts) \<and>
    pack_kernel_args_mvp (kt_params k) args (sh_allocs st) (sh_host st) = Inr ka \<and>
    simt_run_serial (en_fp (se_rt env)) (ac_sim (rt_cfg rt)) reg
      \<lparr>ms_mgr = with_params (kt_params k) (Some ka) (rt_mem rt), ms_local = Map.empty\<rparr> (rt_obs rt)
      (kernel_of_tokens k insts) \<lparr>grid_dim = g, block_dim = b, launch_warp_size = cx_warp_size cx\<rparr>
      = Some (res, ms, obs, ctas) \<and>
    sr_completed res \<and> sr_diag res = None \<and>
    cx_rt (sh_ctx st') = Some (rt\<lparr>rt_mem := ms_mgr ms, rt_obs := obs\<rparr>) \<and> es_last (sh_err st') = CudaSuccess \<and>
    (sr_steps res < cfg_max_steps (ac_sim (rt_cfg rt)) \<longrightarrow>
      (\<forall>tpb. threads_per_block b = Some tpb \<and> unat tpb \<le> 2 ^ 31 \<longrightarrow>
        list_all2 (cta_complete tpb (launch_warp_size_of (ac_sim (rt_cfg rt))
          \<lparr>grid_dim = g, block_dim = b, launch_warp_size = cx_warp_size cx\<rparr>)) (cta_items g) ctas))"
proof -
  let ?launch = "\<lparr>grid_dim = g, block_dim = b, launch_warp_size = cx_warp_size cx\<rparr>"
  note same = effective_call_parts [OF assms(4)]
  have "launch_kernel env func g b args st1 = Some (st', Some CudaSuccess)"
    using assms(1,2,4) by (simp add: cudaLaunchKernel_def)
  from launch_kernel_success [OF this] obtain ptx entry ka r where found: "find_kernel st1 func = Inr (ptx, entry)"
    and args: "launch_args env st1 ptx entry args = Inr ka"
    and run: "run_ptx_kernel_with_args_text_entry_launch (se_rt env) ptx (as_isa (cx_assets cx)) (as_desc (cx_assets cx))
      entry ka ?launch rt = Some r"
    and stop: "launch_end st1 r = (st', Some CudaSuccess)"
    using same assms(3) by auto
  from launch_end_success [OF stop] obtain res where res: "snd r = Inr res" "sr_diag res = None" "sr_completed res"
    and st': "cx_rt (sh_ctx st') = Some (fst r)" "es_last (sh_err st') = CudaSuccess" by blast
  from run_entry_success [OF run res(1,2) assms(5)] obtain k isa_reg insts reg ms obs ctas where
    k: "e_bind (parse_ptx_text_tokens (en_hash_order (se_rt env)) ptx ''<ptx>'') (\<lambda>ks. bind_kernel_by_name ks entry) = Inr k"
    and loaded: "load_isa_text (se_rt env) (as_isa (cx_assets cx)) = Inr isa_reg"
      "load_desc_text (se_rt env) (as_desc (cx_assets cx)) = Inr reg" "map_kernel isa_reg (kt_insts k) = Inr (Inr insts)"
    and sim: "simt_run_serial (en_fp (se_rt env)) (ac_sim (rt_cfg rt)) reg
      \<lparr>ms_mgr = with_params (kt_params k) (Some ka) (rt_mem rt), ms_local = Map.empty\<rparr> (rt_obs rt)
      (kernel_of_tokens k insts) ?launch = Some (res, ms, obs, ctas)"
    and rt': "fst r = rt\<lparr>rt_mem := ms_mgr ms, rt_obs := obs\<rparr>" by blast
  from args obtain k' where
    k': "e_bind (parse_ptx_text_tokens (en_hash_order (se_rt env)) ptx ''<fatbin>'') (\<lambda>ks. bind_kernel_by_name ks entry) = Inr k'"
    and pack: "pack_kernel_args_mvp (kt_params k') args (sh_allocs st1) (sh_host st1) = Inr ka"
    unfolding launch_args_def by (auto split: sum.splits prod.splits)
  have packed: "pack_kernel_args_mvp (kt_params k) args (sh_allocs st) (sh_host st) = Inr ka"
    using pack parsed_twice [OF k k'] same by simp
  from found obtain ki m where ki: "sh_kernels st func = Some ki" "lookup_module (sh_fatbins st) (ki_module ki) = Some m"
    "ptx \<in> set (fm_texts m)" "ptx_contains_entry_mvp ptx (ki_name ki)" "entry = ki_name ki"
    using same by (auto simp: find_kernel_def find_Some_iff split: option.splits if_splits)
  have whole: "list_all2 (cta_complete tpb (launch_warp_size_of (ac_sim (rt_cfg rt)) ?launch)) (cta_items g) ctas"
    if "sr_steps res < cfg_max_steps (ac_sim (rt_cfg rt))" "threads_per_block b = Some tpb" "unat tpb \<le> 2 ^ 31" for tpb
    using simt_run_complete [OF sim res(2) that(1) _ that(3)] that(2) by simp
  show ?thesis
    using whole
    by (intro exI conjI allI impI; (elim conjE)?)
      (rule ki(1-4) k [unfolded ki(5)] loaded packed sim res(2,3) st'(1) [unfolded rt'] st'(2) | assumption)+
qed

text \<open>A call that needs the context finds a runtime, and then ends with an error code.\<close>

lemma with_init_defined:
  assumes "ctx_ok (sh_ctx st)" and "\<And>s rt. cx_rt (sh_ctx s) = Some rt \<Longrightarrow> snd (k s) \<noteq> None"
  shows "snd (with_init env k st) \<noteq> None"
proof -
  obtain cx e where e: "ensure_initialized env (sh_ctx st) = (cx, e)" by fastforce
  have rt: "e = None \<longrightarrow> (\<exists>rt. cx_rt cx = Some rt)" using ensure_facts [OF e assms(1)] by auto
  show ?thesis
    using assms(2) [of "st\<lparr>sh_ctx := cx\<rparr>"] rt e by (auto simp: with_init_def fail_def split: option.splits)
qed

lemma set_on_success_defined: "snd r \<noteq> None \<Longrightarrow> snd (set_on_success r) \<noteq> None"
  by (simp add: set_on_success_def succeed_def)

lemma on_mem_defined:
  assumes "cx_rt (sh_ctx s) = Some rt" and "\<And>m. snd (f m) \<noteq> None"
  shows "snd (on_mem f s) \<noteq> None"
  using assms by (simp add: on_mem_def split: prod.split) (metis snd_conv not_None_eq)

lemma dump_defined: "cx_rt (sh_ctx s) = Some rt \<Longrightarrow> snd (dump_observability env s) \<noteq> None"
  by (simp add: dump_observability_def fail_def Let_def split: option.split)

lemma dm_alloc_defined: "snd (dm_malloc p n m) \<noteq> None" "snd (dm_free q m) \<noteq> None"
  by (simp_all add: dm_malloc_def dm_free_def split: prod.split)

lemma run_entry_defined:
  "run_entry env st toks entry isa reg args launch = Some (st', Inl e) \<Longrightarrow> e \<noteq> Undefined"
  by (auto simp: run_entry_def run_bound_def run_kernel_tokens_impl_def split: sum.splits option.splits prod.splits)

lemma launch_kernel_defined:
  assumes "cx_rt (sh_ctx st) = Some rt" and "launch_kernel env func grid block args st = Some (st', rc)"
  shows "rc \<noteq> None"
proof -
  have ended: "snd (launch_end st (rt', r)) \<noteq> None" if "r \<noteq> Inl Undefined" for rt' r
    using that by (auto simp: launch_end_def fail_def succeed_def Let_def split: sum.split rt_error.split option.split)
  have undef: "run_ptx_kernel_with_args_text_entry_launch e ptx isa desc entry ka l rt \<noteq> Some (rt', Inl Undefined)"
    for e ptx isa desc entry ka l rt rt'
    unfolding run_ptx_kernel_with_args_text_entry_launch_def using run_entry_defined by blast
  define found where
    "found = e_bind (find_kernel st func) (\<lambda>(ptx, entry).
       e_bind (launch_args env st ptx entry args) (\<lambda>ka. Inr (ptx, entry, ka)))"
  show ?thesis
  proof (cases "found")
    case (Inl p)
    then show ?thesis using assms(2) unfolding launch_kernel_def found_def [symmetric]
      by (auto simp: fail_def split: if_splits prod.splits)
  next
    case (Inr p)
    obtain ptx entry ka where p: "p = (ptx, entry, ka)" by (metis prod_cases3)
    let ?run = "run_ptx_kernel_with_args_text_entry_launch (se_rt env) ptx (as_isa (cx_assets (sh_ctx st)))
      (as_desc (cx_assets (sh_ctx st))) entry ka
      \<lparr>grid_dim = grid, block_dim = block, launch_warp_size = cx_warp_size (sh_ctx st)\<rparr> rt"
    have "launch_end st r = (st', rc) \<Longrightarrow> ?run = Some r \<Longrightarrow> rc \<noteq> None" for r
      using ended [of "snd r" "fst r"] undef by (metis prod.collapse snd_conv)
    then show ?thesis using assms Inr p unfolding launch_kernel_def found_def [symmetric]
      by (auto simp: fail_def split: if_splits)
  qed
qed

lemma launch_defined:
  assumes "ctx_ok (sh_ctx st)" and "cudaLaunchKernel env func grid block args st = Some (st', rc)"
  shows "rc \<noteq> None"
proof -
  obtain cx e where e: "ensure_initialized env (sh_ctx st) = (cx, e)" by fastforce
  show ?thesis
  proof (cases e)
    case None
    obtain st1 g b where c: "effective_call grid block (st\<lparr>sh_ctx := cx\<rparr>) = (st1, g, b)" by (metis prod_cases3)
    obtain rt where "cx_rt (sh_ctx st1) = Some rt"
      using ensure_facts [OF e assms(1)] None effective_call_parts [OF c] by auto
    moreover have "launch_kernel env func g b args st1 = Some (st', rc)"
      using assms(2) e None c by (simp add: cudaLaunchKernel_def)
    ultimately show ?thesis by (rule launch_kernel_defined)
  next
    case (Some msg)
    then show ?thesis using assms(2) e by (auto simp: cudaLaunchKernel_def fail_def)
  qed
qed

lemma initialising_call_defined:
  assumes "initialising_call env st (Some r)" and "ctx_ok (sh_ctx st)"
  shows "snd r \<noteq> None"
  using assms(1)
proof cases
  case (6 out token)
  have "snd (with_init env (\<lambda>st. if token = 0 then fail MemoryAllocation ''cudaStreamCreate: allocation failed'' st
      else succeed (st\<lparr>sh_host := store_bytes (sh_host st) out (pack_le token 8)\<rparr>)) st) \<noteq> None"
    by (rule with_init_defined [OF assms(2)]) (simp add: fail_def succeed_def)
  then show ?thesis using 6 by (simp add: cudaStreamCreate_def)
next
  case (8)
  have "snd (cudaStreamQuery env st) \<noteq> None"
    unfolding cudaStreamQuery_def by (rule with_init_defined [OF assms(2)]) (simp add: succeed_def)
  then show ?thesis using 8 by simp
next
  case (9 func grid block args)
  then show ?thesis using launch_defined [OF assms(2)] by (metis prod.collapse)
qed (simp_all only: cudaDeviceSynchronize_def cudaMalloc_def cudaFree_def cudaMemcpy_def cudaMemcpyAsync_def
    cudaStreamSynchronize_def stream_submit_def Let_def append_Nil fold_simps prod.case snd_conv id_apply option.inject,
  (rule with_init_defined [OF assms(2)] set_on_success_defined on_mem_defined dm_alloc_defined dm_memcpy_defined
    dump_defined | assumption)+)

text \<open>
  C12.  In every state that a program can reach, whatever the environment is from call to call,
  each registered kernel has no module or a loaded one, which carries its number; and every call
  that needs the context (synchronisations, allocation, freeing, copies in either form, creation
  of a stream, query of a stream, launch), if it returns, ends with an error code: it never works
  on a runtime that has not been created and never accesses a staging buffer outside its bounds.
\<close>

theorem reachable_states_are_safe:
  assumes "shim_reach E host st"
  shows "(\<forall>f ki. sh_kernels st f = Some ki \<and> ki_module ki \<noteq> 0 \<longrightarrow>
      (\<exists>m. lookup_module (sh_fatbins st) (ki_module ki) = Some m \<and> fm_id m = ki_module ki)) \<and>
    (\<forall>env r. initialising_call env st (Some r) \<longrightarrow> snd r \<noteq> None)"
proof -
  note ok = reach_ok [OF assms, unfolded shim_ok_def]
  have "\<exists>m. lookup_module (sh_fatbins st) (ki_module ki) = Some m \<and> fm_id m = ki_module ki"
    if "sh_kernels st f = Some ki" "ki_module ki \<noteq> 0" for f ki
  proof -
    from that ok obtain m where "fb_modules (sh_fatbins st) (ki_module ki) = Some m"
      unfolding registry_ok_def by blast
    then show ?thesis using ok unfolding registry_ok_def lookup_module_def by blast
  qed
  then show ?thesis using initialising_call_defined [OF _ ok [THEN conjunct2]] by blast
qed

text \<open>
  C13.  Unregistering a container withdraws exactly its kernels: its handle and its module are
  gone, no later launch of one of its kernels succeeds, and every other kernel is found as before.
\<close>

theorem unregistered_kernels_cannot_be_launched:
  assumes "shim_reach E host st" and "lookup_by_handle (sh_fatbins st) h = Some m"
    and "st' = cudaUnregisterFatBinary h st"
  shows "lookup_by_handle (sh_fatbins st') h = None \<and> lookup_module (sh_fatbins st') (fm_id m) = None \<and>
    (\<forall>f ki. sh_kernels st f = Some ki \<and> ki_module ki \<noteq> fm_id m \<longrightarrow> find_kernel st' f = find_kernel st f) \<and>
    (\<forall>f ki grid block args st2 rc. sh_kernels st f = Some ki \<and> ki_module ki = fm_id m \<and>
      cudaLaunchKernel env f grid block args st' = Some (st2, rc) \<longrightarrow> rc \<noteq> Some CudaSuccess)"
proof -
  note ok = reach_ok [OF assms(1), unfolded shim_ok_def, THEN conjunct1]
  obtain i where i: "h \<noteq> 0" "fb_handles (sh_fatbins st) h = Some i" "fb_modules (sh_fatbins st) i = Some m"
    using assms(2) by (auto simp: lookup_by_handle_def lookup_module_def split: if_splits option.splits)
  then have m: "fm_id m = i" using ok by (auto simp: registry_ok_def)
  note parts = unregister_parts [OF ok i(1,2), folded assms(3)]
  have "find_kernel st' f = find_kernel st f" if "sh_kernels st f = Some ki" "ki_module ki \<noteq> i" for f ki
    using that parts by (simp add: find_kernel_def unregister_module_def lookup_module_def)
  moreover have "rc \<noteq> Some CudaSuccess"
    if f: "sh_kernels st f = Some ki" "ki_module ki = i" and l: "cudaLaunchKernel env f grid block args st' = Some (st2, rc)"
    for f ki grid block args st2 rc
  proof
    assume "rc = Some CudaSuccess"
    with l obtain cx where e: "ensure_initialized env (sh_ctx st') = (cx, None)"
      by (auto simp: cudaLaunchKernel_def dest!: fail_success split: prod.splits option.splits)
    obtain st1 g b where c: "effective_call grid block (st'\<lparr>sh_ctx := cx\<rparr>) = (st1, g, b)" by (metis prod_cases3)
    have "launch_kernel env f g b args st1 = Some (st2, Some CudaSuccess)"
      using l e c \<open>rc = Some CudaSuccess\<close> by (simp add: cudaLaunchKernel_def)
    from launch_kernel_success [OF this] obtain x where "find_kernel st1 f = Inr x" by blast
    moreover have "sh_kernels st1 f = None"
      using effective_call_parts [OF c] parts f by (simp add: unregister_module_def)
    ultimately show False by (simp add: find_kernel_def)
  qed
  moreover have "lookup_by_handle (sh_fatbins st') h = None" "lookup_module (sh_fatbins st') (fm_id m) = None"
    using i m parts by (simp_all add: lookup_by_handle_def lookup_module_def)
  ultimately show ?thesis using m by blast
qed

text \<open>
  A call that refuses a device pointer returns its error but does not record it: the next
  \<open>cudaGetLastError\<close> reports the error state from before the call.
\<close>

theorem refused_pointers_are_not_recorded:
  assumes "ensure_initialized env (sh_ctx st) = (cx, None)" and "cx_rt cx = Some rt"
    and "q \<noteq> 0" and "\<forall>a \<in> set (sh_allocs st). da_base a \<noteq> q"
    and "src \<noteq> 0" and "n \<noteq> 0" and "\<not> is_valid_device_range (sh_allocs st) dst n" and "dst \<noteq> 0"
  shows "snd (cudaFree env q st) = Some InvalidDevicePointer \<and>
    snd (cudaGetLastError (fst (cudaFree env q st))) = es_last (sh_err st) \<and>
    snd (cudaMemcpy env dst src n HostToDevice st) = Some InvalidDevicePointer \<and>
    snd (cudaGetLastError (fst (cudaMemcpy env dst src n HostToDevice st))) = es_last (sh_err st)"
proof -
  have "\<not> list_ex (\<lambda>a. da_base a = q) (sh_allocs st)" using assms(4) by (auto simp: list_ex_iff)
  then show ?thesis using assms
    by (simp add: cudaFree_def cudaMemcpy_def with_init_def on_mem_def mem_part_def put_mem_def dm_free_def dm_memcpy_def
        copy_h2d_def set_on_success_def cudaGetLastError_def es_get_and_clear_def)
qed

lemma load_assets_message: "load_assets env = Inl msg \<Longrightarrow> msg \<noteq> []"
  by (auto simp: load_assets_def load_asset_def e_bind_Inl_iff split: option.splits sum.splits)

lemma initialize_outcome: "\<not> cx_initialized (initialize env cx) \<Longrightarrow> cx_fatal (initialize env cx) \<noteq> []"
  using load_assets_message [of env]
  by (auto simp: initialize_def init_failed_def with_config_def split: sum.splits)

lemma latched_message:
  assumes "ensure_initialized env cx = (cx', Some msg)"
  shows "cx_fatal cx' = msg \<and> msg \<noteq> []"
  using assms initialize_outcome [of env cx] by (auto simp: ensure_initialized_def Let_def split: if_splits)

text \<open>After a failure the calls that need the context report it, in every environment.\<close>

lemma latched_calls:
  assumes "ensure_initialized env (sh_ctx st) = (cx, Some msg)" and "initialising_call env st r"
  shows "r = Some (st\<lparr>sh_ctx := cx, sh_err := \<lparr>es_last = InitializationError, es_message = msg\<rparr>\<rparr>, Some InitializationError)"
  using assms(2,1)
  by cases
    (simp_all add: cudaDeviceSynchronize_def cudaMalloc_def cudaFree_def cudaMemcpy_def cudaMemcpyAsync_def
      cudaStreamCreate_def cudaStreamSynchronize_def cudaStreamQuery_def cudaLaunchKernel_def with_init_def fail_def es_set_def)

lemma register_fat_binary_ctx:
  assumes "cudaRegisterFatBinary env token fat st = Some (Inr (st', h))"
  shows "sh_ctx st' = sh_ctx st"
proof -
  obtain r where "e_bind r (\<lambda>ex. case register_fatbin token ex (sh_fatbins st) of (reg, h) \<Rightarrow> Inr (st\<lparr>sh_fatbins := reg\<rparr>, h)) =
      (Inr (st', h) :: json_exn + shim \<times> u64)"
    using assms by (auto simp: cudaRegisterFatBinary_def)
  then obtain ex where "(case register_fatbin token ex (sh_fatbins st) of (reg, h) \<Rightarrow> Inr (st\<lparr>sh_fatbins := reg\<rparr>, h)) =
      (Inr (st', h) :: json_exn + shim \<times> u64)"
    unfolding e_bind_Inr_iff by blast
  then show ?thesis by (cases "register_fatbin token ex (sh_fatbins st)") auto
qed

lemma latched_step:
  assumes "shim_step E st st'" and "cx_fatal (sh_ctx st) \<noteq> []"
  shows "sh_ctx st' = sh_ctx st"
proof -
  have e: "ensure_initialized env (sh_ctx st) = (sh_ctx st, Some (cx_fatal (sh_ctx st)))" for env :: "'a shim_env"
    using assms(2) by (simp add: ensure_initialized_def)
  have call: "sh_ctx st' = sh_ctx st" if "initialising_call env st (Some (st', rc))" for env :: "'a shim_env" and rc
    using latched_calls [OF e that] by simp
  show ?thesis using assms(1)
  proof cases
    case (device_synchronize env rc)
    then show ?thesis using call [of env] initialising_call.intros(1) [of env st] by simp
  next
    case (malloc env p n rc)
    then show ?thesis using call [of env] initialising_call.intros(2) [of env st p n] by simp
  next
    case (free env q rc)
    then show ?thesis using call [of env] initialising_call.intros(3) [of env st q] by simp
  next
    case (memcpy env dst src n kind rc)
    then show ?thesis using call [of env] initialising_call.intros(4) [of env st dst src n kind] by simp
  next
    case (memcpy_async env dst src n kind stream rc)
    then show ?thesis using call [of env] initialising_call.intros(5) [of env st dst src n kind stream] by simp
  next
    case (stream_create env token p rc)
    then show ?thesis
      using call [of env] initialising_call.intros(6) [of p env st token]
      by (cases "p = 0") (auto simp: cudaStreamCreate_def fail_def)
  next
    case (stream_synchronize env rc)
    then show ?thesis using call [of env] initialising_call.intros(7) [of env st] by simp
  next
    case (stream_query env rc)
    then show ?thesis using call [of env] initialising_call.intros(8) [of env st] by simp
  next
    case (launch env func grid block args rc)
    then show ?thesis using call [of env] initialising_call.intros(9) [of env st func grid block args] by simp
  next
    case (register_fat_binary env token fat h)
    then show ?thesis using register_fat_binary_ctx by blast
  next
    case (pop_call pg pb ps pst rc')
    then show ?thesis by (auto simp: cudaPopCallConfiguration_def split: prod.splits option.splits)
  qed (auto simp: cudaGetLastError_def es_get_and_clear_def cudaStreamDestroy_def fail_def succeed_def
      cudaUnregisterFatBinary_def cudaRegisterFunction_def cudaPushCallConfiguration_def Let_def split: if_splits)
qed

lemma latched_steps:
  assumes "(shim_step E)\<^sup>*\<^sup>* st st'" and "cx_fatal (sh_ctx st) \<noteq> []"
  shows "sh_ctx st' = sh_ctx st"
  using assms by (induction rule: rtranclp_induct) (simp_all add: latched_step)

text \<open>
  C14.  A failed initialisation is final.  The call that fails to initialise, and every later call
  that needs the context (synchronisations, allocation, freeing, copies, creation of a stream,
  query, launch), reports the initialisation error with the message of the first failure, and
  changes nothing but the error state.  This holds after any sequence of calls and writes of the
  program, even when the environment in which a later call runs would let it succeed.
\<close>

theorem failed_initialisation_is_final:
  assumes "ensure_initialized env (sh_ctx st) = (cx, Some msg)"
  shows "(\<forall>r. initialising_call env st r \<longrightarrow>
      r = Some (st\<lparr>sh_ctx := cx, sh_err := \<lparr>es_last = InitializationError, es_message = msg\<rparr>\<rparr>, Some InitializationError)) \<and>
    (\<forall>st2. (shim_step E)\<^sup>*\<^sup>* (st\<lparr>sh_ctx := cx, sh_err := \<lparr>es_last = InitializationError, es_message = msg\<rparr>\<rparr>) st2 \<longrightarrow>
      sh_ctx st2 = cx \<and>
      (\<forall>env' r. initialising_call env' st2 r \<longrightarrow>
        r = Some (st2\<lparr>sh_err := \<lparr>es_last = InitializationError, es_message = msg\<rparr>\<rparr>, Some InitializationError)))"
proof -
  note msg = latched_message [OF assms]
  have same: "sh_ctx st2 = cx"
    if "(shim_step E)\<^sup>*\<^sup>* (st\<lparr>sh_ctx := cx, sh_err := \<lparr>es_last = InitializationError, es_message = msg\<rparr>\<rparr>) st2" for st2
    using latched_steps [OF that] msg by simp
  have "r = Some (st2\<lparr>sh_err := \<lparr>es_last = InitializationError, es_message = msg\<rparr>\<rparr>, Some InitializationError)"
    if "sh_ctx st2 = cx" "initialising_call env' st2 r" for st2 env' r
  proof -
    have "ensure_initialized env' (sh_ctx st2) = (cx, Some msg)"
      using that(1) msg by (simp add: ensure_initialized_def)
    moreover have "st2\<lparr>sh_ctx := cx\<rparr> = st2" using that(1) by (cases st2) simp
    ultimately show ?thesis using latched_calls [OF _ that(2)] by metis
  qed
  then show ?thesis using latched_calls [OF assms] same by blast
qed

section \<open>An example program\<close>

text \<open>A program with one kernel that only returns; its text comes from the override.\<close>

definition quoted :: "string \<Rightarrow> string" where
  "quoted s = map (\<lambda>ch. if ch = CHR ''^'' then CHR 0x22 else ch) s"

definition demo_module :: string where
  "demo_module = ''.version 7\<newline>.target a\<newline>.visible .entry ret()\<newline>{\<newline>ret;\<newline>}\<newline>''"

definition demo_shim_env :: "unit shim_env" where
  "demo_shim_env =
     \<lparr>se_rt = demo_rt_env\<lparr>en_to_u64 := (\<lambda>_. 4), en_file := (\<lambda>p. if p = ''k.ptx'' then Some demo_module else None)\<rparr>,
      se_getenv = (\<lambda>n. if n = ''GPUSIM_CUDART_SHIM_PTX_OVERRIDE'' then Some ''k.ptx'' else None),
      se_embedded =
        \<lparr>as_config = quoted ''{^sim^:{^warp_size^:4},^observability^:{^enabled^:false,^trace_capacity^:4}}'',
         as_isa = quoted ''{^insts^:[{^ptx_opcode^:^ret^,^type_mod^:^^,^operand_kinds^:[],^ir_op^:^ret^}]}'',
         as_desc = quoted (''{^insts^:[{^opcode^:^ret^,^type_mod^:^^,^operand_kinds^:[],'' @
           ''^uops^:[{^kind^:^CTRL^,^op^:^RET^,^in^:[],^out^:[]}]}]}'')\<rparr>,
      se_mapped = \<lambda>_. 0, se_export = \<lambda>_ _ _ _ _. None\<rparr>"

definition demo_loaded :: shim where
  "demo_loaded = (shim_init Map.empty)\<lparr>sh_fatbins :=
     \<lparr>fb_next = 2, fb_modules = [1 \<mapsto> \<lparr>fm_id = 1, fm_texts = [demo_module], fm_override = True, fm_error = []\<rparr>],
      fb_handles = [0x500 \<mapsto> 1]\<rparr>, sh_kernels := [0x700 \<mapsto> \<lparr>ki_module = 1, ki_name = ''ret''\<rparr>]\<rparr>"

lemma demo_extract:
  "load_override_ptx_texts (\<lambda>p. if p = ''k.ptx'' then Some demo_module else None) 0 (split_override_path_list ''k.ptx'') =
     Inr [demo_module]"
  by code_simp

lemma demo_registered:
  "cudaRegisterFatBinary demo_shim_env 0x500 0x600 (shim_init Map.empty) =
     Some (Inr (demo_loaded\<lparr>sh_kernels := Map.empty\<rparr>, 0x500))"
  "cudaRegisterFunction 0x500 0x700 (Some ''ret'') (demo_loaded\<lparr>sh_kernels := Map.empty\<rparr>) = demo_loaded"
  by (simp_all add: cudaRegisterFatBinary_def cudaRegisterFunction_def demo_shim_env_def extract_ptx_texts_mvp_def
      demo_extract register_fatbin_def demo_loaded_def shim_init_def fatbin_registry_init_def lookup_by_handle_def
      lookup_module_def register_function_def dedupe_exact_def)

lemma demo_reach: "shim_reach {demo_shim_env} Map.empty demo_loaded"
proof -
  have "shim_reach {demo_shim_env} Map.empty (demo_loaded\<lparr>sh_kernels := Map.empty\<rparr>)"
    by (rule shim_reach.step [OF shim_reach.start shim_step.register_fat_binary [OF singletonI demo_registered(1)]])
      (simp add: shim_init_def fatbin_registry_init_def)
  from shim_reach.step [OF this shim_step.register_fun [where h = "0x500" and f = "0x700" and name = "Some ''ret''"]] show ?thesis
    by (simp add: demo_registered(2))
qed

lemma demo_parsed:
  "load_isa_text (se_rt demo_shim_env) (as_isa (se_embedded demo_shim_env)) =
     Inr [\<lparr>ie_ptx_opcode = ''ret'', ie_type_mod = [], ie_operand_kinds = [], ie_ir_op = ''ret''\<rparr>]"
  "load_desc_text (se_rt demo_shim_env) (as_desc (se_embedded demo_shim_env)) =
     Inr [\<lparr>d_opcode = ''ret'', d_type_mod = [], d_operand_kinds = [],
           d_uops = [\<lparr>t_kind = Control, t_op = Ret, t_in = [], t_out = []\<rparr>]\<rparr>]"
  "load_app_config_json_text (se_rt demo_shim_env) (as_config (se_embedded demo_shim_env)) =
     Inr (app_config_default\<lparr>ac_sim := sim_config_default\<lparr>cfg_warp_size := 4\<rparr>, ac_obs_enabled := False,
       ac_trace_capacity := 4\<rparr>)"
  by code_simp+

lemma demo_tokens_parsed:
  "parse_ptx_text_tokens rev demo_module f =
     Inr [\<lparr>kt_name = ''ret'', kt_reg_u32_count = 0, kt_reg_u64_count = 0, kt_params = [],
       kt_insts = [\<lparr>px_opcode = ''ret'', px_mods = \<lparr>m_type_mod = [], m_space = [], m_flags = []\<rparr>, px_pred = None,
         px_tokens = [], px_dbg = Some \<lparr>loc_file = f, loc_line = 5, loc_column = 1\<rparr>\<rparr>]\<rparr>]"
  by code_simp

definition demo_ret :: inst_record where
  "demo_ret = \<lparr>i_opcode = ''ret'', i_mods = \<lparr>m_type_mod = [], m_space = [], m_flags = []\<rparr>, i_pred = None,
     i_operands = [], i_dbg = Some \<lparr>loc_file = ''<ptx>'', loc_line = 5, loc_column = 1\<rparr>\<rparr>"

definition demo_ret_kernel :: kernel_image where
  "demo_ret_kernel = \<lparr>k_name = ''ret'', k_reg_u32_count = 0, k_reg_u64_count = 0, k_params = [], k_insts = [demo_ret]\<rparr>"

definition demo_ret_descs :: descriptor_registry where
  "demo_ret_descs = [\<lparr>d_opcode = ''ret'', d_type_mod = [], d_operand_kinds = [],
     d_uops = [\<lparr>t_kind = Control, t_op = Ret, t_in = [], t_out = []\<rparr>]\<rparr>]"

definition demo_ret_launch :: launch_config where
  "demo_ret_launch = \<lparr>grid_dim = \<lparr>dim_x = 2, dim_y = 1, dim_z = 1\<rparr>, block_dim = \<lparr>dim_x = 3, dim_y = 1, dim_z = 1\<rparr>,
     launch_warp_size = 4\<rparr>"

lemma demo_ret_sel:
  "k_name demo_ret_kernel = ''ret''" "k_reg_u32_count demo_ret_kernel = 0" "k_reg_u64_count demo_ret_kernel = 0"
  "k_insts demo_ret_kernel = [demo_ret]" "analyze_control_flow demo_ret_kernel demo_ret_descs 4 = Inr [None]"
  by (simp_all add: demo_ret_kernel_def) code_simp+

lemma demo_ret_lookup:
  "lookup_desc demo_ret_descs i = lookup_desc [\<lparr>d_opcode = ''ret'', d_type_mod = [], d_operand_kinds = [],
     d_uops = [\<lparr>t_kind = Control, t_op = Ret, t_in = [], t_out = []\<rparr>]\<rparr>] i"
  by (simp add: demo_ret_descs_def)

lemma demo_ret_run:
  "case simt_run_fuel 9 f32_trivial (sim_config_default\<lparr>cfg_warp_size := 4\<rparr>) demo_ret_descs demo_mem0 (obs_init False 4)
          demo_ret_kernel demo_ret_launch of
     None \<Rightarrow> False
   | Some (s, ctas) \<Rightarrow> ss_diag s = None \<and> ss_steps s = 2"
  by (simp add: sim_eval demo_ret_sel demo_ret_lookup demo_ret_launch_def demo_ret_def cong: eval_cong)

definition demo_ready :: shim_context where
  "demo_ready = \<lparr>cx_initialized = True, cx_fatal = [], cx_assets = se_embedded demo_shim_env,
     cx_rt = Some (runtime_init (app_config_default\<lparr>ac_sim := sim_config_default\<lparr>cfg_warp_size := 4\<rparr>,
       ac_obs_enabled := False, ac_trace_capacity := 4\<rparr>)),
     cx_warp_size = 4, cx_profile = [], cx_deterministic = False\<rparr>"

lemma demo_load_assets: "load_assets demo_shim_env = Inr (se_embedded demo_shim_env)"
  by (simp add: load_assets_def load_asset_def read_optional_path_env_def demo_shim_env_def)

lemma demo_initialized: "ensure_initialized demo_shim_env (sh_ctx demo_loaded) = (demo_ready, None)"
  by (simp add: ensure_initialized_def initialize_def demo_load_assets demo_parsed demo_loaded_def shim_init_def
      context_init_def with_config_def demo_ready_def sim_config_default_def)

lemma demo_runs:
  "\<exists>res ms obs ctas. simt_run_serial f32_trivial (sim_config_default\<lparr>cfg_warp_size := 4\<rparr>) demo_ret_descs demo_mem0
     (obs_init False 4) demo_ret_kernel demo_ret_launch = Some (res, ms, obs, ctas) \<and>
     sr_diag res = None \<and> sr_completed res \<and> sr_steps res = 2"
proof -
  obtain s ctas where fuel: "simt_run_fuel 9 f32_trivial (sim_config_default\<lparr>cfg_warp_size := 4\<rparr>) demo_ret_descs demo_mem0
        (obs_init False 4) demo_ret_kernel demo_ret_launch = Some (s, ctas)" and s: "ss_diag s = None" "ss_steps s = 2"
    using demo_ret_run by (auto split: option.splits)
  show ?thesis using simt_run_fuel_sound [OF fuel] s by auto
qed

lemma demo_found: "find_kernel (demo_loaded\<lparr>sh_ctx := cx\<rparr>) 0x700 = Inr (demo_module, ''ret'')"
proof -
  have "ptx_contains_entry_mvp demo_module ''ret''" by code_simp
  then show ?thesis by (simp add: find_kernel_def demo_loaded_def lookup_module_def)
qed

lemma demo_mapped:
  "map_kernel [\<lparr>ie_ptx_opcode = ''ret'', ie_type_mod = [], ie_operand_kinds = [], ie_ir_op = ''ret''\<rparr>]
     [\<lparr>px_opcode = ''ret'', px_mods = \<lparr>m_type_mod = [], m_space = [], m_flags = []\<rparr>, px_pred = None,
       px_tokens = [], px_dbg = Some \<lparr>loc_file = ''<ptx>'', loc_line = 5, loc_column = 1\<rparr>\<rparr>] = Inr (Inr [demo_ret])"
  "validate_launch demo_ret_launch ''ret'' = None"
  by code_simp+

lemma demo_launched:
  "\<exists>st'. cudaLaunchKernel demo_shim_env 0x700 \<lparr>dim_x = 2, dim_y = 1, dim_z = 1\<rparr> \<lparr>dim_x = 3, dim_y = 1, dim_z = 1\<rparr> 0
     demo_loaded = Some (st', Some CudaSuccess)"
proof -
  obtain res ms obs ctas where run: "simt_run_serial f32_trivial (sim_config_default\<lparr>cfg_warp_size := 4\<rparr>) demo_ret_descs
     demo_mem0 (obs_init False 4) demo_ret_kernel demo_ret_launch = Some (res, ms, obs, ctas)"
    "sr_diag res = None" "sr_completed res" using demo_runs by blast
  have hash: "en_hash_order (se_rt demo_shim_env) = rev" "en_fp (se_rt demo_shim_env) = f32_trivial"
    by (simp_all add: demo_shim_env_def demo_rt_env_def)
  have args: "launch_args demo_shim_env (demo_loaded\<lparr>sh_ctx := demo_ready\<rparr>) demo_module ''ret'' 0 =
      Inr \<lparr>ka_layout = [], ka_blob = []\<rparr>"
    by (simp add: launch_args_def hash demo_tokens_parsed pack_kernel_args_mvp_def blob_size_def)
  have mem: "\<lparr>ms_mgr = with_params [] (Some \<lparr>ka_layout = [], ka_blob = []\<rparr>) manager_init, ms_local = Map.empty\<rparr> = demo_mem0"
    by (simp add: with_params_def set_param_blob_def set_param_layout_def manager_init_def demo_mem0_def)
  have serial: "\<not> parallel_enabled (sim_config_default\<lparr>cfg_warp_size := 4\<rparr>)" by code_simp
  let ?rt = "runtime_init (app_config_default\<lparr>ac_sim := sim_config_default\<lparr>cfg_warp_size := 4\<rparr>,
       ac_obs_enabled := False, ac_trace_capacity := 4\<rparr>)"
  have rt: "rt_obs ?rt = obs_init False 4" "rt_mem ?rt = manager_init" "ac_sim (rt_cfg ?rt) = sim_config_default\<lparr>cfg_warp_size := 4\<rparr>"
    by (simp_all add: runtime_init_def)
  have ready: "cx_rt demo_ready = Some ?rt" "cx_assets demo_ready = se_embedded demo_shim_env" "cx_warp_size demo_ready = 4"
    by (simp_all add: demo_ready_def)
  have "run_ptx_kernel_with_args_text_entry_launch (se_rt demo_shim_env) demo_module (as_isa (se_embedded demo_shim_env))
      (as_desc (se_embedded demo_shim_env)) ''ret'' \<lparr>ka_layout = [], ka_blob = []\<rparr> demo_ret_launch ?rt =
    Some (?rt\<lparr>rt_mem := ms_mgr ms, rt_obs := obs\<rparr>, Inr res)"
    using run(1) serial
    by (simp add: run_ptx_kernel_with_args_text_entry_launch_def run_entry_def parse_text_tokens_def hash demo_tokens_parsed
        run_bound_def demo_parsed run_kernel_tokens_impl_def demo_mapped simt_run_def mem kernel_of_tokens_def rt
        demo_ret_kernel_def demo_ret_descs_def)
  then show ?thesis
    using run(2,3)
    by (simp add: cudaLaunchKernel_def demo_initialized effective_call_def launch_kernel_def demo_found args ready
        demo_ret_launch_def launch_end_def succeed_def)
qed

lemma launch_runs_whole_grid_witness:
  "\<exists>st' res ms obs ctas. cudaLaunchKernel demo_shim_env 0x700 \<lparr>dim_x = 2, dim_y = 1, dim_z = 1\<rparr>
      \<lparr>dim_x = 3, dim_y = 1, dim_z = 1\<rparr> 0 demo_loaded = Some (st', Some CudaSuccess) \<and>
    simt_run_serial f32_trivial (sim_config_default\<lparr>cfg_warp_size := 4\<rparr>) demo_ret_descs demo_mem0 (obs_init False 4)
      demo_ret_kernel demo_ret_launch = Some (res, ms, obs, ctas) \<and>
    sr_steps res = 2 \<and> list_all2 (cta_complete 3 4) (cta_items \<lparr>dim_x = 2, dim_y = 1, dim_z = 1\<rparr>) ctas"
proof -
  let ?g = "\<lparr>dim_x = 2, dim_y = 1, dim_z = 1\<rparr>" and ?b = "\<lparr>dim_x = 3, dim_y = 1, dim_z = 1\<rparr>"
  let ?rt = "runtime_init (app_config_default\<lparr>ac_sim := sim_config_default\<lparr>cfg_warp_size := 4\<rparr>,
       ac_obs_enabled := False, ac_trace_capacity := 4\<rparr>)"
  obtain st' where l: "cudaLaunchKernel demo_shim_env 0x700 ?g ?b 0 demo_loaded = Some (st', Some CudaSuccess)"
    using demo_launched by blast
  have ready: "cx_rt demo_ready = Some ?rt" "cx_assets demo_ready = se_embedded demo_shim_env" "cx_warp_size demo_ready = 4"
    by (simp_all add: demo_ready_def)
  have rt: "rt_obs ?rt = obs_init False 4" "rt_mem ?rt = manager_init" "ac_sim (rt_cfg ?rt) = sim_config_default\<lparr>cfg_warp_size := 4\<rparr>"
    by (simp_all add: runtime_init_def)
  have hash: "en_hash_order (se_rt demo_shim_env) = rev" "en_fp (se_rt demo_shim_env) = f32_trivial"
    by (simp_all add: demo_shim_env_def demo_rt_env_def)
  have serial: "\<not> parallel_enabled (ac_sim (rt_cfg ?rt))" unfolding rt by code_simp
  have call: "effective_call ?g ?b (demo_loaded\<lparr>sh_ctx := demo_ready\<rparr>) = (demo_loaded\<lparr>sh_ctx := demo_ready\<rparr>, ?g, ?b)"
    by (simp add: effective_call_def)
  have mem: "\<lparr>ms_mgr = with_params [] (Some \<lparr>ka_layout = [], ka_blob = []\<rparr>) manager_init, ms_local = Map.empty\<rparr> = demo_mem0"
    by (simp add: with_params_def set_param_blob_def set_param_layout_def manager_init_def demo_mem0_def)
  have tpb: "threads_per_block ?b = Some 3" by (simp add: threads_per_block_def mul_u64_overflow_def)
  from launch_runs_whole_grid [OF l demo_initialized ready(1) call serial] obtain ki m ptx k ka isa_reg insts reg res ms obs ctas where
    w: "sh_kernels demo_loaded 0x700 = Some ki" "lookup_module (sh_fatbins demo_loaded) (ki_module ki) = Some m"
      "ptx \<in> set (fm_texts m)"
      "e_bind (parse_ptx_text_tokens rev ptx ''<ptx>'') (\<lambda>ks. bind_kernel_by_name ks (ki_name ki)) = Inr k"
      "load_isa_text (se_rt demo_shim_env) (as_isa (se_embedded demo_shim_env)) = Inr isa_reg"
      "load_desc_text (se_rt demo_shim_env) (as_desc (se_embedded demo_shim_env)) = Inr reg"
      "map_kernel isa_reg (kt_insts k) = Inr (Inr insts)"
      "pack_kernel_args_mvp (kt_params k) 0 (sh_allocs demo_loaded) (sh_host demo_loaded) = Inr ka"
    and sim: "simt_run_serial f32_trivial (sim_config_default\<lparr>cfg_warp_size := 4\<rparr>) reg
      \<lparr>ms_mgr = with_params (kt_params k) (Some ka) manager_init, ms_local = Map.empty\<rparr> (obs_init False 4)
      (kernel_of_tokens k insts) \<lparr>grid_dim = ?g, block_dim = ?b, launch_warp_size = 4\<rparr> = Some (res, ms, obs, ctas)"
    and all: "sr_steps res < 100000 \<longrightarrow> list_all2 (cta_complete 3 (launch_warp_size_of (sim_config_default\<lparr>cfg_warp_size := 4\<rparr>)
      \<lparr>grid_dim = ?g, block_dim = ?b, launch_warp_size = 4\<rparr>)) (cta_items ?g) ctas"
    unfolding hash ready rt using tpb by (auto simp: sim_config_default_def)
  have "ptx = demo_module" "ki_name ki = ''ret''"
    using w(1-3) by (auto simp: demo_loaded_def lookup_module_def)
  then have "kernel_of_tokens k insts = demo_ret_kernel" "reg = demo_ret_descs" "kt_params k = []"
    using w(4-7) by (auto simp: demo_tokens_parsed demo_parsed demo_mapped kernel_of_tokens_def demo_ret_kernel_def demo_ret_descs_def)
  moreover from this have "ka = \<lparr>ka_layout = [], ka_blob = []\<rparr>"
    using w(8) by (auto simp: pack_kernel_args_mvp_def blob_size_def)
  ultimately have run: "simt_run_serial f32_trivial (sim_config_default\<lparr>cfg_warp_size := 4\<rparr>) demo_ret_descs demo_mem0
      (obs_init False 4) demo_ret_kernel demo_ret_launch = Some (res, ms, obs, ctas)"
    using sim by (simp add: mem demo_ret_launch_def)
  have "sr_steps res = 2" using demo_runs run by auto
  then show ?thesis using l run all by (auto simp: launch_warp_size_of_def)
qed

lemma reachable_states_are_safe_witness:
  "(\<exists>m. lookup_module (sh_fatbins demo_loaded) 1 = Some m \<and> fm_id m = 1) \<and>
   snd (cudaMemcpy demo_shim_env 0x100 0x200 8 HostToDevice demo_loaded) \<noteq> None"
proof -
  note safe = reachable_states_are_safe [OF demo_reach]
  have "\<exists>m. lookup_module (sh_fatbins demo_loaded) 1 = Some m \<and> fm_id m = 1"
    using safe [THEN conjunct1] by (fastforce simp: demo_loaded_def)
  then show ?thesis using safe initialising_call.intros(4) by blast
qed

lemma unregistered_kernels_cannot_be_launched_witness:
  "\<forall>grid block st2.
     cudaLaunchKernel demo_shim_env 0x700 grid block 0 (cudaUnregisterFatBinary 0x500 demo_loaded) \<noteq> Some (st2, Some CudaSuccess)"
proof -
  have "lookup_by_handle (sh_fatbins demo_loaded) 0x500 =
      Some \<lparr>fm_id = 1, fm_texts = [demo_module], fm_override = True, fm_error = []\<rparr>"
    by (simp add: lookup_by_handle_def lookup_module_def demo_loaded_def)
  from unregistered_kernels_cannot_be_launched [OF demo_reach this refl] show ?thesis
    by (fastforce simp: demo_loaded_def)
qed

lemma refused_pointers_are_not_recorded_witness:
  "snd (cudaFree demo_shim_env 0x1234 demo_loaded) = Some InvalidDevicePointer \<and>
   snd (cudaGetLastError (fst (cudaFree demo_shim_env 0x1234 demo_loaded))) = CudaSuccess"
proof -
  have "sh_allocs demo_loaded = []" "es_last (sh_err demo_loaded) = CudaSuccess"
    by (simp_all add: demo_loaded_def shim_init_def es_init_def)
  moreover have "cx_rt demo_ready \<noteq> None" by (simp add: demo_ready_def)
  ultimately show ?thesis
    using refused_pointers_are_not_recorded [OF demo_initialized, of _ "0x1234" 1 1 1]
    by (auto simp: is_valid_device_range_def find_allocation_containing_def)
qed

lemma failed_initialisation_is_final_witness:
  "snd (cudaMalloc demo_shim_env 0x100 16
     (fst (cudaMalloc (demo_shim_env\<lparr>se_getenv := (\<lambda>_. Some ''no.json'')\<rparr>) 0x100 16 demo_loaded))) =
   Some InitializationError"
proof -
  let ?env = "demo_shim_env\<lparr>se_getenv := (\<lambda>_. Some ''no.json'')\<rparr>"
  have e: "ensure_initialized ?env (sh_ctx demo_loaded) =
      ((sh_ctx demo_loaded)\<lparr>cx_fatal := ''GPUSIM_CONFIG set but cannot open file: no.json''\<rparr>,
       Some ''GPUSIM_CONFIG set but cannot open file: no.json'')"
    by (simp add: ensure_initialized_def initialize_def load_assets_def load_asset_def read_optional_path_env_def
        slurp_file_def demo_shim_env_def demo_loaded_def shim_init_def context_init_def of_option_def)
  note final = failed_initialisation_is_final [OF e, of "{}"]
  let ?st = "fst (cudaMalloc ?env 0x100 16 demo_loaded)"
  have "?st = demo_loaded\<lparr>sh_ctx := (sh_ctx demo_loaded)\<lparr>cx_fatal := ''GPUSIM_CONFIG set but cannot open file: no.json''\<rparr>,
      sh_err := \<lparr>es_last = InitializationError, es_message = ''GPUSIM_CONFIG set but cannot open file: no.json''\<rparr>\<rparr>"
    using final [THEN conjunct1, rule_format, OF initialising_call.intros(2)] by simp
  then have "Some (cudaMalloc demo_shim_env 0x100 16 ?st) =
      Some (?st\<lparr>sh_err := \<lparr>es_last = InitializationError, es_message = ''GPUSIM_CONFIG set but cannot open file: no.json''\<rparr>\<rparr>,
        Some InitializationError)"
    using final [THEN conjunct2, rule_format, OF rtranclp.rtrancl_refl, THEN conjunct2, rule_format,
        OF initialising_call.intros(2)] by simp
  then show ?thesis by simp
qed

end
