(* ===== verification/ImageParser.thy ===== *)
theory ImageParser
  imports PtxParser
begin

text \<open>
  The second parser of \<open>src/frontend/parser.cpp\<close>, from PTX text to kernel images with parsed
  operands (\<open>parse_operand\<close>, \<open>parse_inst_line\<close>, \<open>Parser::parse_ptx_text\<close>), with the binder for
  images, and how it relates to the parser to tokens that the runtime uses.
\<close>

section \<open>Operands\<close>

definition pop_back_if :: "char \<Rightarrow> string \<Rightarrow> string" where
  "pop_back_if ch s = (if s \<noteq> [] \<and> last s = ch then butlast s else s)"

definition clean_token :: "string \<Rightarrow> string" where
  "clean_token tok = trim (pop_back_if (CHR 0x2C) (pop_back_if (CHR 0x3B) (trim tok)))"

definition symbol_operand :: "string \<Rightarrow> operand" where
  "symbol_operand s = operand_default\<lparr>o_kind := KSymbol, o_symbol := s\<rparr>"

definition reg_operand :: "value_type \<Rightarrow> string \<Rightarrow> json_exn + operand" where
  "reg_operand ty num =
     e_bind (stoll 10 num) (\<lambda>(i, _). Inr (operand_default\<lparr>o_kind := KReg, o_type := ty, o_reg_id := i\<rparr>))"

definition reg_number :: "nat \<Rightarrow> string \<Rightarrow> string \<Rightarrow> bool" where
  "reg_number n cls tok \<longleftrightarrow> take n tok = CHR 0x25 # cls \<and> drop n tok \<noteq> [] \<and> all_digits (drop n tok)"

definition plain_operand :: "string \<Rightarrow> json_exn + operand" where
  "plain_operand tok =
     (if length tok \<ge> 2 \<and> tok ! 0 = CHR 0x25 \<and> tok ! 1 = CHR ''p'' then
        (if length tok > 2
         then e_bind (stoll 10 (drop 2 tok)) (\<lambda>(i, _). Inr (operand_default\<lparr>o_kind := KPred, o_pred_id := i\<rparr>))
         else Inr (operand_default\<lparr>o_kind := KPred\<rparr>))
      else if reg_number 3 ''rd'' tok then reg_operand U64 (drop 3 tok)
      else if reg_number 2 ''r'' tok then reg_operand U32 (drop 2 tok)
      else if reg_number 2 ''f'' tok then reg_operand F32 (drop 2 tok)
      else if tok ! 0 = CHR ''-'' \<or> is_digit (tok ! 0)
      then e_bind (stoll 10 tok) (\<lambda>(i, _). Inr (operand_default\<lparr>o_kind := KImm, o_imm := i\<rparr>))
      else Inr (symbol_operand tok))"

definition in_brackets :: "string \<Rightarrow> bool" where
  "in_brackets tok \<longleftrightarrow> length tok \<ge> 2 \<and> hd tok = CHR ''['' \<and> last tok = CHR '']''"

definition addr_operand :: "string \<Rightarrow> int \<Rightarrow> operand \<Rightarrow> operand" where
  "addr_operand inner off base =
     (if o_kind base = KReg
      then operand_default\<lparr>o_kind := KAddr, o_type := U64, o_reg_id := o_reg_id base, o_imm := off\<rparr>
      else symbol_operand inner)"

lemma trim_length: "length (trim s) \<le> length s"
  unfolding trim_def drop_back_def
  by (metis length_dropWhile_le length_rev order_trans)

lemma clean_token_length: "length (clean_token s) \<le> length s"
proof -
  have "length (pop_back_if ch t) \<le> length t" for ch t by (simp add: pop_back_if_def)
  then show ?thesis unfolding clean_token_def using trim_length by (meson order_trans)
qed

text \<open>An address holds an operand in its turn.\<close>

function parse_operand :: "string \<Rightarrow> json_exn + operand" where
  "parse_operand tok0 =
     (let tok = clean_token tok0; inner = trim (butlast (tl tok))
      in if tok = [] then Inr operand_default
         else if \<not> in_brackets tok then plain_operand tok
         else if inner = [] \<or> hd inner \<noteq> CHR 0x25 then Inr (symbol_operand inner)
         else case find_sub ''+'' inner of
                None \<Rightarrow> e_bind (parse_operand inner) (\<lambda>b. Inr (addr_operand inner 0 b))
              | Some at \<Rightarrow>
                  e_bind (stoll 10 (trim (drop (at + 1) inner))) (\<lambda>(off, _).
                  e_bind (parse_operand (trim (take at inner))) (\<lambda>b. Inr (addr_operand inner off b))))"
  by pat_completeness auto

lemma inner_shorter:
  assumes "in_brackets (clean_token tok)"
  shows "length (trim (butlast (tl (clean_token tok)))) < length tok"
proof -
  have "length (trim (butlast (tl (clean_token tok)))) \<le> length (clean_token tok) - 2"
    using trim_length [of "butlast (tl (clean_token tok))"] by simp
  then show ?thesis using assms clean_token_length [of tok] by (auto simp: in_brackets_def)
qed

termination parse_operand
proof (relation "measure length")
  fix tok0 tok inner :: string and x at
  assume "tok = clean_token tok0" "inner = trim (butlast (tl tok))" "\<not> \<not> in_brackets tok"
  then have short: "length inner < length tok0" using inner_shorter by simp
  then show "(inner, tok0) \<in> measure length" by simp
  have "length (trim (take at inner)) \<le> length inner" using trim_length [of "take at inner"] by simp
  then show "(trim (take at inner), tok0) \<in> measure length" using short by simp
qed simp

declare parse_operand.simps [simp del]

section \<open>One instruction line\<close>

definition widen_operand :: "string \<Rightarrow> operand \<Rightarrow> operand" where
  "widen_operand type_mod p =
     (if (type_mod = ''u64'' \<or> type_mod = ''s64'') \<and> o_kind p = KReg \<and> o_type p = U32 then p\<lparr>o_type := U64\<rparr> else p)"

definition parse_inst_line :: "string \<Rightarrow> int \<Rightarrow> json_exn + inst_record" where
  "parse_inst_line raw line_no =
     (let inst = \<lparr>i_opcode = [], i_mods = no_mods, i_pred = None, i_operands = [],
            i_dbg = Some \<lparr>loc_file = ''<ptx>'', loc_line = line_no, loc_column = 1\<rparr>\<rparr>;
          line = strip_comment raw
      in if line = [] then Inr inst
         else e_bind (parse_predicate line) (\<lambda>(pred, line).
           let inst = inst\<lparr>i_pred := pred\<rparr>; ws = split_ws line
           in if ws = [] then Inr inst
              else let opmods = opmods_of (ws ! 0)
                in if opmods = [] then Inr inst
                   else let parts = split opmods (CHR ''.''); mods = fold add_mod (tl parts) no_mods
                     in e_bind (map_e parse_operand (operand_texts (after_opcode line))) (\<lambda>ops.
                          Inr (inst\<lparr>i_opcode := hd parts, i_mods := mods,
                                    i_operands := map (widen_operand (m_type_mod mods)) ops\<rparr>))))"

section \<open>A module\<close>

definition empty_kernel :: kernel_image where
  "empty_kernel = \<lparr>k_name = [], k_reg_u32_count = 0, k_reg_u64_count = 0, k_params = [], k_insts = []\<rparr>"

record image_state =
  im_in_entry :: bool
  im_in_body :: bool
  im_cur :: kernel_image
  im_kernels :: "kernel_image list"

definition image_state_init :: image_state where
  "image_state_init = \<lparr>im_in_entry = False, im_in_body = False, im_cur = empty_kernel, im_kernels = []\<rparr>"

text \<open>A register declaration: a range sets the count, a name takes one more register.\<close>

definition image_reg_line :: "string \<Rightarrow> kernel_image \<Rightarrow> json_exn + kernel_image" where
  "image_reg_line t k =
     (let a = split_ws t
      in if length a < 3 then Inr k
         else let decl = decl_name (a ! 2); type = a ! 1
           in case reg_range decl of
                Some num \<Rightarrow>
                  e_bind (stoul 10 num) (\<lambda>n.
                    let c = count_regs decl (ucast n) (k_reg_u32_count k, k_reg_u64_count k)
                    in Inr (k\<lparr>k_reg_u32_count := fst c, k_reg_u64_count := snd c\<rparr>))
              | None \<Rightarrow>
                  Inr (if decl = [] \<or> hd decl \<noteq> CHR 0x25 then k
                       else if type = ''.b64'' \<or> type = ''.u64'' then k\<lparr>k_reg_u64_count := k_reg_u64_count k + 1\<rparr>
                       else if type = ''.b32'' \<or> type = ''.u32'' \<or> type = ''.f32''
                       then k\<lparr>k_reg_u32_count := k_reg_u32_count k + 1\<rparr>
                       else k))"

definition image_line :: "int \<times> string \<Rightarrow> image_state \<Rightarrow> json_exn + image_state" where
  "image_line nl st =
     (let t = trim (snd nl); k = im_cur st
      in if t = [] then Inr st
         else if is_entry_line t then
           Inr (st\<lparr>im_in_entry := True, im_in_body := contains (entry_rest t) [CHR 0x7B],
                   im_cur := empty_kernel\<lparr>k_name := entry_name t\<rparr>\<rparr>)
         else if im_in_entry st \<and> t = [CHR 0x7D] then
           Inr (st\<lparr>im_in_entry := False, im_in_body := False, im_kernels := im_kernels st @ [k]\<rparr>)
         else if \<not> im_in_entry st then Inr st
         else if \<not> im_in_body st then
           Inr (st\<lparr>im_cur := (case parse_param_decl t of Some p \<Rightarrow> k\<lparr>k_params := add_param (k_params k) p\<rparr> | None \<Rightarrow> k),
                   im_in_body := t ! 0 = CHR 0x7B\<rparr>)
         else if starts_with t ''.reg'' then e_bind (image_reg_line t k) (\<lambda>k. Inr (st\<lparr>im_cur := k\<rparr>))
         else if starts_dot_or_brace t then Inr st
         else e_bind (parse_inst_line t (fst nl)) (\<lambda>i.
           Inr (if i_opcode i \<noteq> [] then st\<lparr>im_cur := k\<lparr>k_insts := k_insts k @ [i]\<rparr>\<rparr> else st)))"

fun image_lines :: "(int \<times> string) list \<Rightarrow> image_state \<Rightarrow> json_exn + image_state" where
  "image_lines [] st = Inr st"
| "image_lines (nl # ls) st = e_bind (image_line nl st) (image_lines ls)"

definition parse_ptx_text :: "string \<Rightarrow> json_exn + kernel_image list" where
  "parse_ptx_text ptx_text =
     e_bind (image_lines (numbered (text_lines ptx_text)) image_state_init) (\<lambda>st. Inr (im_kernels st))"

definition parse_ptx_file :: "(string \<Rightarrow> string option) \<Rightarrow> string \<Rightarrow> json_exn + kernel_image list" where
  "parse_ptx_file file path =
     e_bind (of_option (RuntimeError (''Parser: cannot open '' @ path)) (file path)) parse_ptx_text"

definition bind_first_image :: "kernel_image list \<Rightarrow> json_exn + kernel_image" where
  "bind_first_image ks = (case ks of [] \<Rightarrow> Inl (RuntimeError ''Binder: no kernels found'') | k # _ \<Rightarrow> Inr k)"

fun bind_image_by_name :: "kernel_image list \<Rightarrow> string \<Rightarrow> json_exn + kernel_image" where
  "bind_image_by_name [] entry = Inl (RuntimeError (''Binder: kernel entry not found: '' @ entry))"
| "bind_image_by_name (k # ks) entry = (if k_name k = entry then Inr k else bind_image_by_name ks entry)"

section \<open>The two parsers\<close>

definition image_signature :: "kernel_image \<Rightarrow> string \<times> param_desc list" where
  "image_signature k = (k_name k, k_params k)"

definition token_signature :: "kernel_tokens \<Rightarrow> string \<times> param_desc list" where
  "token_signature k = (kt_name k, kt_params k)"

definition same_progress :: "token_state \<Rightarrow> image_state \<Rightarrow> bool" where
  "same_progress s t \<longleftrightarrow>
     ts_in_entry s = im_in_entry t \<and> ts_in_body s = im_in_body t \<and>
     (ts_in_entry s \<longrightarrow> (ts_name s, ts_params s) = image_signature (im_cur t)) \<and>
     map token_signature (ts_kernels s) = map image_signature (im_kernels t)"

lemma body_signature: "parse_body h f name params ls = Inr k \<Longrightarrow> token_signature k = (name, params)"
  using parse_body_signature by (simp add: token_signature_def)

lemma image_reg_line_signature: "image_reg_line t k = Inr k' \<Longrightarrow> image_signature k' = image_signature k"
  by (auto simp: image_reg_line_def image_signature_def e_bind_Inr_iff Let_def split: if_splits option.splits)

lemma line_same_progress:
  assumes "same_progress s t" and "token_line h f nl s = Inr s'" and "image_line nl t = Inr t'"
  shows "same_progress s' t'"
  using assms unfolding token_line_def image_line_def same_progress_def Let_def
  by (auto simp: e_bind_Inr_iff image_signature_def empty_kernel_def dest!: body_signature image_reg_line_signature
      split: if_splits option.splits)

lemma lines_same_progress:
  assumes "same_progress s t" and "token_lines h f ls s = Inr s'" and "image_lines ls t = Inr t'"
  shows "same_progress s' t'"
  using assms
proof (induction ls arbitrary: s t)
  case (Cons nl ls)
  then show ?case using line_same_progress by (fastforce simp: e_bind_Inr_iff)
qed simp

lemma bound_same_params:
  assumes "map image_signature ks = map token_signature kts"
    and "bind_image_by_name ks entry = Inr k" and "bind_kernel_by_name kts entry = Inr k'"
  shows "k_params k = kt_params k'"
  using assms
proof (induction ks arbitrary: kts)
  case (Cons x ks)
  then obtain y ys where "kts = y # ys" "image_signature x = token_signature y" "map image_signature ks = map token_signature ys"
    by (cases kts) auto
  then show ?case using Cons.IH [of ys] Cons.prems
    by (cases "k_name x = entry") (simp_all add: image_signature_def token_signature_def)
qed simp

definition inst_of_tokens :: "ptx_inst \<Rightarrow> operand list \<Rightarrow> inst_record" where
  "inst_of_tokens i ops =
     \<lparr>i_opcode = px_opcode i, i_mods = px_mods i, i_pred = px_pred i,
      i_operands = map (widen_operand (m_type_mod (px_mods i))) ops, i_dbg = px_dbg i\<rparr>"

lemma inst_line_by_tokens:
  "parse_inst_line raw n = e_bind (tokenize_inst_line raw ''<ptx>'' n) (\<lambda>i.
     e_bind (map_e parse_operand (px_tokens i)) (\<lambda>ops. Inr (inst_of_tokens i ops)))"
proof (cases "strip_comment raw = []")
  case True
  then show ?thesis by (simp add: parse_inst_line_def tokenize_inst_line_def empty_inst_def inst_of_tokens_def)
next
  case False
  show ?thesis
  proof (cases "parse_predicate (strip_comment raw)")
    case (Inl e)
    then show ?thesis using False by (simp add: parse_inst_line_def tokenize_inst_line_def)
  next
    case (Inr r)
    then show ?thesis using False
      by (cases r) (simp add: parse_inst_line_def tokenize_inst_line_def empty_inst_def inst_of_tokens_def Let_def)
  qed
qed

section \<open>Properties\<close>

text \<open>
  C35.  The two parsers of PTX agree: when both accept a text, they find the same kernels in the
  same order with the same parameter layouts, so that binding by name gives kernels with the same
  parameters; and an instruction line gives the image parser exactly the tokenised instruction
  with its operands parsed, errors included.
\<close>

theorem image_and_token_parsers_agree:
  assumes "parse_ptx_text txt = Inr ks" and "parse_ptx_text_tokens h txt f = Inr kts"
  shows "map (\<lambda>k. (k_name k, k_params k)) ks = map (\<lambda>k. (kt_name k, kt_params k)) kts \<and>
    (\<forall>entry k k'. bind_image_by_name ks entry = Inr k \<and> bind_kernel_by_name kts entry = Inr k' \<longrightarrow> k_params k = kt_params k') \<and>
    (\<forall>raw n. parse_inst_line raw n = e_bind (tokenize_inst_line raw ''<ptx>'' n) (\<lambda>i.
      e_bind (map_e parse_operand (px_tokens i)) (\<lambda>ops. Inr (inst_of_tokens i ops))))"
proof -
  obtain s where s: "token_lines h f (numbered (text_lines txt)) token_state_init = Inr s" "ts_kernels s = kts"
    using assms(2) by (auto simp: parse_ptx_text_tokens_def e_bind_Inr_iff)
  obtain t where t: "image_lines (numbered (text_lines txt)) image_state_init = Inr t" "im_kernels t = ks"
    using assms(1) by (auto simp: parse_ptx_text_def e_bind_Inr_iff)
  have "same_progress token_state_init image_state_init"
    by (simp add: same_progress_def token_state_init_def image_state_init_def)
  from lines_same_progress [OF this s(1) t(1)] have sig: "map image_signature ks = map token_signature kts"
    using s(2) t(2) by (simp add: same_progress_def)
  have "map (\<lambda>k. (k_name k, k_params k)) ks = map (\<lambda>k. (kt_name k, kt_params k)) kts"
    using sig unfolding image_signature_def token_signature_def .
  moreover have "\<forall>entry k k'. bind_image_by_name ks entry = Inr k \<and> bind_kernel_by_name kts entry = Inr k' \<longrightarrow>
      k_params k = kt_params k'"
    using bound_same_params [OF sig] by blast
  ultimately show ?thesis by (intro conjI) (assumption, assumption, intro allI inst_line_by_tokens)
qed

lemma image_and_token_parsers_agree_witness:
  "\<exists>ks kts. parse_ptx_text demo_ptx = Inr ks \<and> parse_ptx_text_tokens id demo_ptx ''k.ptx'' = Inr kts \<and>
     map k_name ks = [''k''] \<and> map k_params ks = map kt_params kts"
proof -
  have "case parse_ptx_text demo_ptx of Inl _ \<Rightarrow> False | Inr ks \<Rightarrow> map k_name ks = [''k'']" by code_simp
  then obtain ks where ks: "parse_ptx_text demo_ptx = Inr ks" "map k_name ks = [''k'']" by (auto split: sum.splits)
  have "case parse_ptx_text_tokens id demo_ptx ''k.ptx'' of Inl _ \<Rightarrow> False | Inr _ \<Rightarrow> True" by code_simp
  then obtain kts where kts: "parse_ptx_text_tokens id demo_ptx ''k.ptx'' = Inr kts" by (auto split: sum.splits)
  have "map snd (map (\<lambda>k. (k_name k, k_params k)) ks) = map snd (map (\<lambda>k. (kt_name k, kt_params k)) kts)"
    using image_and_token_parsers_agree [OF ks(1) kts] by argo
  then have "map k_params ks = map kt_params kts" by (simp add: comp_def)
  then show ?thesis using ks kts by (intro exI [of _ ks] exI [of _ kts] conjI)
qed

end
