(* ===== verification/TraceText.thy ===== *)
theory TraceText
  imports Observability JsonText Text
begin

text \<open>
  The files that a run leaves: the trace with a header line and one line for each event, and the
  statistics (\<open>event_to_json_line\<close>, \<open>trace_header_to_json_line\<close>, \<open>stats_to_json\<close> of
  \<open>src/observability/observability.cpp\<close>).  The conversions of integers to \<open>double\<close> and the
  printing of a \<open>double\<close> are parameters.
\<close>

record 'n num_fmt =
  nf_print :: "'n \<Rightarrow> string"
  nf_u64 :: "u64 \<Rightarrow> 'n"
  nf_int :: "int \<Rightarrow> 'n"

text \<open>\<open>if (v) o.emplace(k, v)\<close>.\<close>

definition set_opt :: "string \<Rightarrow> ('a \<Rightarrow> 'n json) \<Rightarrow> 'a option \<Rightarrow> (string \<times> 'n json) list \<Rightarrow> (string \<times> 'n json) list" where
  "set_opt k f v obj = (case v of None \<Rightarrow> obj | Some x \<Rightarrow> obj_emplace k (f x) obj)"

text \<open>The extra payload has been printed when the event was made.\<close>

definition extra_text :: "'n num_fmt \<Rightarrow> int json \<Rightarrow> string" where
  "extra_text nf v = stringify (nf_print nf) (map_num (nf_int nf) v)"

definition event_object :: "'n num_fmt \<Rightarrow> event \<Rightarrow> (string \<times> 'n json) list" where
  "event_object nf e =
     (let num = (\<lambda>n. JNum (nf_u64 nf n));
          obj = obj_emplace ''ts'' (num (ev_ts e)) [];
          obj = obj_emplace ''cat'' (JStr (category_to_string (ev_category e))) obj;
          obj = obj_emplace ''action'' (JStr (ev_action e)) obj;
          obj = set_opt ''kernel_id'' num (ev_kernel_id e) obj;
          obj = set_opt ''cta_id'' num (ev_cta_id e) obj;
          obj = set_opt ''warp_id'' num (ev_warp_id e) obj;
          obj = set_opt ''thread_id'' num (ev_thread_id e) obj;
          obj = set_opt ''sm_id'' num (ev_sm_id e) obj;
          obj = set_opt ''stream_id'' num (ev_stream_id e) obj;
          obj = set_opt ''cmd_id'' num (ev_cmd_id e) obj;
          obj = set_opt ''event_id'' num (ev_event_id e) obj;
          obj = set_opt ''pc'' (\<lambda>n. JNum (nf_int nf n)) (ev_pc e) obj;
          obj = set_opt ''lane_mask'' (\<lambda>m. JStr (lane_mask_to_hex m)) (ev_lane_mask e) obj;
          obj = set_opt ''opcode_or_uop'' JStr (ev_opcode_or_uop e) obj;
          obj = set_opt ''addr'' num (ev_addr e) obj;
          obj = set_opt ''size'' num (ev_size e) obj
      in set_opt ''extra'' (\<lambda>x. JStr (extra_text nf x)) (ev_extra e) obj)"

definition event_to_json_line :: "'n num_fmt \<Rightarrow> event \<Rightarrow> string" where
  "event_to_json_line nf e = stringify (nf_print nf) (JObj (event_object nf e)) @ [CHR 0x0A]"

record trace_header =
  th_format_version :: u32
  th_schema :: string
  th_profile :: string
  th_deterministic :: bool

definition trace_header_default :: trace_header where
  "trace_header_default =
     \<lparr>th_format_version = 1, th_schema = ''gpusim_trace_jsonl_v1'', th_profile = [], th_deterministic = False\<rparr>"

definition header_object :: "'n num_fmt \<Rightarrow> trace_header \<Rightarrow> (string \<times> 'n json) list" where
  "header_object nf h =
     obj_of [(''action'', JStr ''TRACE_HEADER''), (''format_version'', JNum (nf_u64 nf (ucast (th_format_version h)))),
       (''schema'', JStr (th_schema h)), (''profile'', JStr (th_profile h)), (''deterministic'', JBool (th_deterministic h))]"

definition trace_header_to_json_line :: "'n num_fmt \<Rightarrow> trace_header \<Rightarrow> string" where
  "trace_header_to_json_line nf h = stringify (nf_print nf) (JObj (header_object nf h)) @ [CHR 0x0A]"

record stats_meta =
  sm_format_version :: u32
  sm_schema :: string
  sm_profile :: string
  sm_deterministic :: bool

definition stats_meta_default :: stats_meta where
  "stats_meta_default =
     \<lparr>sm_format_version = 1, sm_schema = ''gpusim_stats_v1'', sm_profile = [], sm_deterministic = False\<rparr>"

definition counters_object :: "'n num_fmt \<Rightarrow> counters \<Rightarrow> (string \<times> 'n json) list" where
  "counters_object nf counters = obj_of (map (\<lambda>(k, v). (k, JNum (nf_u64 nf v))) counters)"

definition stats_object :: "'n num_fmt \<Rightarrow> counters \<Rightarrow> stats_meta \<Rightarrow> (string \<times> 'n json) list" where
  "stats_object nf counters meta =
     obj_of [(''format_version'', JNum (nf_u64 nf (ucast (sm_format_version meta)))), (''schema'', JStr (sm_schema meta)),
       (''profile'', JStr (sm_profile meta)), (''deterministic'', JBool (sm_deterministic meta)),
       (''counters'', JObj (counters_object nf counters))]"

definition stats_to_json :: "'n num_fmt \<Rightarrow> counters \<Rightarrow> stats_meta \<Rightarrow> string" where
  "stats_to_json nf counters meta = stringify (nf_print nf) (JObj (stats_object nf counters meta))"

text \<open>The trace file.\<close>

definition trace_text :: "'n num_fmt \<Rightarrow> trace_header \<Rightarrow> event list \<Rightarrow> string" where
  "trace_text nf h es = trace_header_to_json_line nf h @ concat (map (event_to_json_line nf) es)"

section \<open>Lines of the trace\<close>

definition line_free :: "string \<Rightarrow> bool" where
  "line_free s \<longleftrightarrow> CHR 0x0A \<notin> set s"

text \<open>What one step of the scanner has consumed.\<close>

definition consumed :: "cursor \<Rightarrow> cursor \<Rightarrow> bool" where
  "consumed c c' \<longleftrightarrow> (\<exists>p. snd c = p @ snd c' \<and> line_free p)"

lemma consumed_refl: "consumed c c"
  by (simp add: consumed_def line_free_def)

lemma consumed_trans: "consumed a b \<Longrightarrow> consumed b c \<Longrightarrow> consumed a c"
  unfolding consumed_def line_free_def by (metis Un_iff append.assoc set_append)

lemma consumed_digits: "consumed c (skip_digits c)"
proof (induction c rule: skip_digits.induct)
  case (2 i ch r)
  show ?case
  proof (cases "is_digit ch")
    case True
    then have "consumed (i, ch # r) (Suc i, r)"
      by (auto simp: consumed_def line_free_def is_digit_def intro!: exI [of _ "[ch]"])
    then show ?thesis using consumed_trans 2 True by fastforce
  qed (simp add: consumed_refl)
qed (simp add: consumed_refl)

lemma consumed_advance: "peek c \<noteq> CHR 0x0A \<Longrightarrow> consumed c (advance c)"
  by (cases c; cases "snd c") (auto simp: peek_def advance_def consumed_def line_free_def)

lemma consumed_opt: "consumed c c1 \<Longrightarrow> peek c1 \<noteq> CHR 0x0A \<Longrightarrow> consumed c (advance c1)"
  using consumed_trans consumed_advance by blast

lemma consumed_run: "consumed c c1 \<Longrightarrow> consumed c (skip_digits c1)"
  using consumed_trans consumed_digits by blast

lemma digit_line: "is_digit ch \<Longrightarrow> ch \<noteq> CHR 0x0A"
  by (auto simp: is_digit_def)

lemmas consumed_intros = consumed_refl consumed_opt consumed_run

lemma consumed_scan_int: "scan_int c = Inr c' \<Longrightarrow> consumed c c'"
  by (auto simp: scan_int_def Let_def cursor_fail_def intro!: consumed_intros dest: digit_line split: if_splits)

lemma consumed_scan_frac: "scan_frac c = Inr c' \<Longrightarrow> consumed c c'"
  by (auto simp: scan_frac_def Let_def cursor_fail_def intro!: consumed_intros dest: digit_line split: if_splits)

lemma consumed_scan_exp: "scan_exp c = Inr c' \<Longrightarrow> consumed c c'"
  by (auto simp: scan_exp_def Let_def cursor_fail_def intro!: consumed_intros dest: digit_line split: if_splits)

lemma num_line_free: "num_read fmt strtod x y \<Longrightarrow> line_free (fmt x)"
proof -
  assume "num_read fmt strtod x y"
  then obtain a b where "scan_int (0, fmt x) = Inr a" "scan_frac a = Inr b" "scan_exp b = Inr (length (fmt x), [])"
    by (auto simp: num_read_def scan_number_def e_bind_Inr_iff)
  then have "consumed (0, fmt x) (length (fmt x), [])"
    using consumed_scan_int consumed_scan_frac consumed_scan_exp consumed_trans by blast
  then show ?thesis by (simp add: consumed_def)
qed

lemma string_line_free: "line_free (stringify_string s)"
  by (auto simp: line_free_def stringify_string_def escaped_def split: if_splits)

lemma comma_line_free: "list_all line_free xs \<Longrightarrow> line_free (comma_sep xs)"
  by (induction xs rule: comma_sep.induct) (auto simp: line_free_def)

lemma stringify_line_free: "\<forall>x \<in> set (nums v). num_read fmt strtod x (rd x) \<Longrightarrow> line_free (stringify fmt v)"
proof (induction v)
  case (JArr vs)
  then have "list_all line_free (map (stringify fmt) vs)" by (auto simp: list_all_iff)
  then show ?case using comma_line_free by (auto simp: line_free_def)
next
  case (JObj kvs)
  then have "line_free (stringify_string k @ CHR 0x3A # stringify fmt v)" if "(k, v) \<in> set kvs" for k v
    using string_line_free [of k] that by (fastforce simp: line_free_def)
  then have "list_all line_free (map (\<lambda>(k, v). stringify_string k @ CHR 0x3A # stringify fmt v) kvs)"
    by (auto simp: list_all_iff)
  then show ?case using comma_line_free by (auto simp: line_free_def)
next
  case (JNum x)
  then show ?case using num_line_free by auto
qed (use string_line_free in \<open>auto simp: line_free_def\<close>)

lemma split_by_line:
  "line_free s \<Longrightarrow> split_by (\<lambda>ch. ch = CHR 0x0A) cur (s @ CHR 0x0A # r) = (cur @ s) # split_by (\<lambda>ch. ch = CHR 0x0A) [] r"
  by (induction s arbitrary: cur) (auto simp: line_free_def)

lemma split_lines:
  assumes "list_all line_free ls"
  shows "split (concat (map (\<lambda>l. l @ [CHR 0x0A]) ls)) (CHR 0x0A) = ls @ [[]]"
  using assms by (induction ls) (simp_all add: split_def split_by_line)

lemma text_lines_of:
  assumes "list_all line_free ls"
  shows "text_lines (concat (map (\<lambda>l. l @ [CHR 0x0A]) ls)) = ls"
  using split_lines [OF assms] by (simp add: text_lines_def)

section \<open>The fields of a line\<close>

text \<open>What a line holds of an event, in the order of the code.\<close>

definition event_fields :: "'n num_fmt \<Rightarrow> event \<Rightarrow> (string \<times> 'n json option) list" where
  "event_fields nf e =
     (let num = map_option (\<lambda>n. JNum (nf_u64 nf n))
      in [(''ts'', num (Some (ev_ts e))), (''cat'', Some (JStr (category_to_string (ev_category e)))),
          (''action'', Some (JStr (ev_action e))), (''kernel_id'', num (ev_kernel_id e)), (''cta_id'', num (ev_cta_id e)),
          (''warp_id'', num (ev_warp_id e)), (''thread_id'', num (ev_thread_id e)), (''sm_id'', num (ev_sm_id e)),
          (''stream_id'', num (ev_stream_id e)), (''cmd_id'', num (ev_cmd_id e)), (''event_id'', num (ev_event_id e)),
          (''pc'', map_option (\<lambda>n. JNum (nf_int nf n)) (ev_pc e)),
          (''lane_mask'', map_option (\<lambda>m. JStr (lane_mask_to_hex m)) (ev_lane_mask e)),
          (''opcode_or_uop'', map_option JStr (ev_opcode_or_uop e)), (''addr'', num (ev_addr e)),
          (''size'', num (ev_size e)), (''extra'', map_option (\<lambda>x. JStr (extra_text nf x)) (ev_extra e))])"

definition put_field :: "string \<times> 'n json option \<Rightarrow> (string \<times> 'n json) list \<Rightarrow> (string \<times> 'n json) list" where
  "put_field f obj = set_opt (fst f) (\<lambda>v. v) (snd f) obj"

lemma put_field_simps [simp]:
  "put_field (k, Some v) obj = obj_emplace k v obj" "put_field (k, None) obj = obj"
  "put_field (k, map_option f x) obj = set_opt k f x obj"
  by (simp_all add: put_field_def set_opt_def split: option.split)

lemma event_object_fields: "event_object nf e = fold put_field (event_fields nf e) []"
  by (simp add: event_object_def event_fields_def Let_def)

lemma put_fields:
  assumes "obj_wf obj" and "distinct (map fst fs)" and "fst ` set fs \<inter> fst ` set obj = {}"
    and "list_all (\<lambda>(k, v). json_wf v) obj" and "\<forall>(k, v) \<in> set fs. \<forall>w. v = Some w \<longrightarrow> json_wf w"
  shows "obj_wf (fold put_field fs obj) \<and> list_all (\<lambda>(k, v). json_wf v) (fold put_field fs obj) \<and>
    (\<forall>k. map_of (fold put_field fs obj) k = (case map_of fs k of Some v \<Rightarrow> v | None \<Rightarrow> map_of obj k))"
  using assms
proof (induction fs arbitrary: obj)
  case (Cons f fs)
  obtain k v where f: "f = (k, v)" by fastforce
  show ?case
  proof (cases v)
    case None
    then have "map_of obj k = None" using Cons.prems(3) by (auto simp: f map_of_eq_None_iff)
    moreover have "map_of fs k = None" using Cons.prems(2) by (auto simp: f map_of_eq_None_iff)
    ultimately show ?thesis using Cons.IH [of obj] Cons.prems None by (auto simp: f split: option.splits)
  next
    case (Some w)
    have wf: "obj_wf (obj_emplace k w obj)" by (rule obj_emplace_wf) (rule Cons.prems(1))
    have all: "list_all (\<lambda>(k, v). json_wf v) (obj_emplace k w obj)"
      using Cons.prems(4,5) set_obj_emplace [of k w obj] Some by (fastforce simp: f list_all_iff)
    have "fst ` set fs \<inter> fst ` set (obj_emplace k w obj) = {}"
      using Cons.prems(2,3) by (auto simp: keys_obj_emplace f)
    from Cons.IH [OF wf _ this all] Cons.prems(2,5)
    have IH: "obj_wf (fold put_field fs (obj_emplace k w obj))"
      "list_all (\<lambda>(k, v). json_wf v) (fold put_field fs (obj_emplace k w obj))"
      "\<forall>j. map_of (fold put_field fs (obj_emplace k w obj)) j =
        (case map_of fs j of Some v \<Rightarrow> v | None \<Rightarrow> map_of (obj_emplace k w obj) j)"
      by (auto simp: f)
    have "map_of fs k = None" using Cons.prems(2) by (auto simp: f map_of_eq_None_iff)
    moreover have "map_of (obj_emplace k w obj) = (map_of obj)(k \<mapsto> w)"
      using obj_emplace_lookup [OF Cons.prems(1), of k w] Cons.prems(3) by (auto simp: f)
    ultimately show ?thesis using IH Some by (auto simp: f split: option.splits)
  qed
qed (simp add: option.case_eq_if)

lemma event_object_spec:
  "obj_wf (event_object nf e) \<and> list_all (\<lambda>(k, v). json_wf v) (event_object nf e) \<and>
   (\<forall>k. map_of (event_object nf e) k = (case map_of (event_fields nf e) k of Some v \<Rightarrow> v | None \<Rightarrow> None))"
proof -
  have "distinct (map fst (event_fields nf e))" by (simp add: event_fields_def Let_def)
  moreover have "\<forall>(k, v) \<in> set (event_fields nf e). \<forall>w. v = Some w \<longrightarrow> json_wf w"
    by (auto simp: event_fields_def Let_def)
  ultimately show ?thesis
    using put_fields [of "[]" "event_fields nf e"] by (simp add: event_object_fields obj_wf_def cong: option.case_cong)
qed

lemma fold_put_some: "fold put_field (map (\<lambda>(k, v). (k, Some v)) kvs) obj = fold (\<lambda>(k, v). obj_emplace k v) kvs obj"
  by (induction kvs arbitrary: obj) auto

lemma obj_of_fields: "obj_of kvs = fold put_field (map (\<lambda>(k, v). (k, Some v)) kvs) []"
  by (simp add: obj_of_def fold_put_some)

lemma keys_kept: "map fst (map (\<lambda>(k, v). (k, f v)) kvs) = map fst kvs"
  by auto

lemma obj_of_spec:
  assumes "distinct (map fst kvs)" and "list_all (\<lambda>(k, v). json_wf v) kvs"
  shows "json_wf (JObj (obj_of kvs)) \<and> map_of (obj_of kvs) = map_of kvs"
proof -
  let ?fs = "map (\<lambda>(k, v). (k, Some v)) kvs"
  have "distinct (map fst ?fs)" unfolding keys_kept by (rule assms(1))
  moreover have "\<forall>(k, v) \<in> set ?fs. \<forall>w. v = Some w \<longrightarrow> json_wf w" using assms(2) by (auto simp: list_all_iff)
  moreover have "map_of ?fs = map_option Some \<circ> map_of kvs" by (simp add: map_of_map)
  ultimately show ?thesis
    using put_fields [of "[]" ?fs] by (auto simp: obj_of_fields obj_wf_def fun_eq_iff split: option.splits)
qed


section \<open>Properties\<close>

text \<open>
  C30.  The files of a run can be read back, whatever characters the strings hold: the trace is one
  JSON object per line, the header and the events in their order, each with exactly the fields that
  are set; and the statistics hold each counter.  Every number comes back as \<open>rd\<close> of the one that was
  printed, where \<open>rd x\<close> is what the printed form of \<open>x\<close> is read as: the printing with six digits
  rounds (\<open>src/common/json.cpp\<close>), so that large counters and time stamps come back rounded.
\<close>

theorem run_files_read_back:
  assumes "\<forall>v \<in> set (JObj (header_object nf h) # JObj (stats_object nf cs meta) # map (\<lambda>e. JObj (event_object nf e)) es).
      \<forall>x \<in> set (nums v). num_read (nf_print nf) strtod x (rd x)"
    and "distinct (map fst cs)"
  shows "map (parse strtod) (text_lines (trace_text nf h es)) =
      Some (Inr (map_num rd (JObj (header_object nf h)))) # map (\<lambda>e. Some (Inr (map_num rd (JObj (event_object nf e))))) es \<and>
    (\<forall>e k. json_get (map_num rd (JObj (event_object nf e))) k =
      (case map_of (event_fields nf e) k of Some v \<Rightarrow> map_option (map_num rd) v | None \<Rightarrow> None)) \<and>
    (\<exists>stats counters. parse strtod (stats_to_json nf cs meta) = Some (Inr stats) \<and>
      stats = map_num rd (JObj (stats_object nf cs meta)) \<and> json_get stats ''counters'' = Some counters \<and>
      (\<forall>k. json_get counters k = map_option (\<lambda>v. JNum (rd (nf_u64 nf v))) (map_of cs k)))"
proof -
  have hwf: "json_wf (JObj (header_object nf h))" unfolding header_object_def
    by (rule obj_of_spec [THEN conjunct1]) simp_all
  have cnt: "json_wf (JObj (counters_object nf cs)) \<and>
      map_of (counters_object nf cs) = map_option (\<lambda>v. JNum (nf_u64 nf v)) \<circ> map_of cs"
  proof -
    have "list_all (\<lambda>(k, v). json_wf v) (map (\<lambda>(k, v). (k, JNum (nf_u64 nf v))) cs)" by (auto simp: list_all_iff)
    from obj_of_spec [OF _ this, unfolded keys_kept, OF assms(2)] show ?thesis
      unfolding counters_object_def map_of_map by blast
  qed
  have st: "json_wf (JObj (stats_object nf cs meta)) \<and> map_of (stats_object nf cs meta) ''counters'' = Some (JObj (counters_object nf cs))"
    using obj_of_spec [of "[(''format_version'', JNum (nf_u64 nf (ucast (sm_format_version meta)))),
       (''schema'', JStr (sm_schema meta)), (''profile'', JStr (sm_profile meta)),
       (''deterministic'', JBool (sm_deterministic meta)), (''counters'', JObj (counters_object nf cs))]"] cnt
    by (simp add: stats_object_def)
  have ewf: "json_wf (JObj (event_object nf e))" for e using event_object_spec [of nf e] by simp
  let ?vs = "JObj (header_object nf h) # map (\<lambda>e. JObj (event_object nf e)) es"
  have ok: "\<forall>x \<in> set (nums v). num_read (nf_print nf) strtod x (rd x)" if "v \<in> set ?vs" for v
    using assms(1) that by (simp del: nums.simps) blast
  have wf: "json_wf v" if "v \<in> set ?vs" for v using that hwf ewf by auto
  have stok: "\<forall>x \<in> set (nums (JObj (stats_object nf cs meta))). num_read (nf_print nf) strtod x (rd x)"
    using assms(1) by (simp del: nums.simps)
  have ev: "event_to_json_line nf = (\<lambda>e. stringify (nf_print nf) (JObj (event_object nf e)) @ [CHR 0x0A])"
    by (simp add: fun_eq_iff event_to_json_line_def del: stringify.simps)
  have "trace_text nf h es = concat (map (\<lambda>l. l @ [CHR 0x0A]) (map (stringify (nf_print nf)) ?vs))"
    by (simp add: trace_text_def trace_header_to_json_line_def ev comp_def del: stringify.simps)
  moreover have "list_all line_free (map (stringify (nf_print nf)) ?vs)"
    unfolding list_all_iff set_map using stringify_line_free [OF ok] by blast
  ultimately have "text_lines (trace_text nf h es) = map (stringify (nf_print nf)) ?vs"
    using text_lines_of by metis
  moreover have "parse strtod (stringify (nf_print nf) v) = Some (Inr (map_num rd v))" if "v \<in> set ?vs" for v
    using parse_printed [OF wf ok] that by blast
  ultimately have lines: "map (parse strtod) (text_lines (trace_text nf h es)) = map (\<lambda>v. Some (Inr (map_num rd v))) ?vs"
    by (simp del: stringify.simps map_num.simps)
  have stats: "parse strtod (stats_to_json nf cs meta) = Some (Inr (map_num rd (JObj (stats_object nf cs meta))))"
    unfolding stats_to_json_def by (rule parse_printed [OF st [THEN conjunct1] stok])
  have fields: "json_get (map_num rd (JObj (event_object nf e))) k =
      (case map_of (event_fields nf e) k of Some v \<Rightarrow> map_option (map_num rd) v | None \<Rightarrow> None)" for e k
    using event_object_spec [of nf e] unfolding json_get_map_num by (simp split: option.split)
  have "json_get (map_num rd (JObj (stats_object nf cs meta))) ''counters'' = Some (map_num rd (JObj (counters_object nf cs)))"
    unfolding json_get_map_num using st by simp
  moreover have "json_get (map_num rd (JObj (counters_object nf cs))) k = map_option (\<lambda>v. JNum (rd (nf_u64 nf v))) (map_of cs k)" for k
    unfolding json_get_map_num using cnt by (simp add: option.map_comp comp_def)
  moreover have "map (\<lambda>v. Some (Inr (map_num rd v))) ?vs =
      Some (Inr (map_num rd (JObj (header_object nf h)))) # map (\<lambda>e. Some (Inr (map_num rd (JObj (event_object nf e))))) es"
    by (simp del: map_num.simps)
  ultimately show ?thesis using lines stats fields by metis
qed

text \<open>
  Integers, printed with six digits: from a million on the lower digits are zeros.  A time stamp
  and a counter above a million come back rounded, the other numbers as they were.
\<close>

function six_digits :: "int \<Rightarrow> int" where
  "six_digits n = (if n < 1000000 then n else 10 * six_digits (n div 10))"
  by pat_completeness auto
termination
  by (relation "measure nat") auto

declare six_digits.simps [simp del]

function print_digits :: "int \<Rightarrow> string" where
  "print_digits n = (if n < 10 then [char_of (48 + nat n)] else print_digits (n div 10) @ [char_of (48 + nat (n mod 10))])"
  by pat_completeness auto
termination
  by (relation "measure nat") auto

declare print_digits.simps [simp del]

definition read_digits :: "string \<Rightarrow> int option" where
  "read_digits s =
     (if s \<noteq> [] \<and> list_all is_digit s then Some (fold (\<lambda>ch n. 10 * n + (int (of_char ch) - 48)) s 0) else None)"

definition demo_num_fmt :: "int num_fmt" where
  "demo_num_fmt = \<lparr>nf_print = (\<lambda>n. print_digits (six_digits n)), nf_u64 = uint, nf_int = (\<lambda>n. n)\<rparr>"

definition demo_event :: event where
  "demo_event = event_default\<lparr>ev_ts := 1234567, ev_action := [CHR 0x0A, CHR 0x22], ev_pc := Some 12\<rparr>"

definition demo_counters :: counters where
  "demo_counters = [(''uop'', 7654321)]"

lemma run_files_read_back_witness:
  "map (parse read_digits) (text_lines (trace_text demo_num_fmt trace_header_default [demo_event])) =
     [Some (Inr (map_num six_digits (JObj (header_object demo_num_fmt trace_header_default)))),
      Some (Inr (map_num six_digits (JObj (event_object demo_num_fmt demo_event))))] \<and>
   json_get (map_num six_digits (JObj (event_object demo_num_fmt demo_event))) ''ts'' = Some (JNum 1234560) \<and>
   (\<exists>stats counters. parse read_digits (stats_to_json demo_num_fmt demo_counters stats_meta_default) = Some (Inr stats) \<and>
     json_get stats ''counters'' = Some counters \<and> json_get counters ''uop'' = Some (JNum 7654320))"
proof -
  have "list_all (\<lambda>v. list_all (\<lambda>x. scan_number (0, nf_print demo_num_fmt x) = Inr (length (nf_print demo_num_fmt x), []) \<and>
        read_digits (nf_print demo_num_fmt x) = Some (six_digits x)) (nums v))
      (JObj (header_object demo_num_fmt trace_header_default)
       # JObj (stats_object demo_num_fmt demo_counters stats_meta_default)
       # map (\<lambda>e. JObj (event_object demo_num_fmt e)) [demo_event])"
    by code_simp
  then have all: "\<forall>v \<in> set (JObj (header_object demo_num_fmt trace_header_default)
       # JObj (stats_object demo_num_fmt demo_counters stats_meta_default)
       # map (\<lambda>e. JObj (event_object demo_num_fmt e)) [demo_event]).
      \<forall>x \<in> set (nums v). num_read (nf_print demo_num_fmt) read_digits x (six_digits x)"
    unfolding list_all_iff num_read_def .
  have "distinct (map fst demo_counters)" by (simp add: demo_counters_def)
  note r = run_files_read_back [OF all this]
  have "map_of (event_fields demo_num_fmt demo_event) ''ts'' = Some (Some (JNum 1234567))"
    "six_digits 1234567 = 1234560" "map_of demo_counters ''uop'' = Some 7654321" "nf_u64 demo_num_fmt 7654321 = 7654321"
    "six_digits 7654321 = 7654320"
    by code_simp+
  note vals = this
  have ts: "json_get (map_num six_digits (JObj (event_object demo_num_fmt demo_event))) ''ts'' = Some (JNum 1234560)"
    using r [THEN conjunct2, THEN conjunct1, rule_format, of demo_event "''ts''"] vals by (simp del: map_num.simps(6))
  obtain stats counters where st: "parse read_digits (stats_to_json demo_num_fmt demo_counters stats_meta_default) = Some (Inr stats)"
    "json_get stats ''counters'' = Some counters"
    "\<forall>k. json_get counters k = map_option (\<lambda>v. JNum (six_digits (nf_u64 demo_num_fmt v))) (map_of demo_counters k)"
    using r by blast
  have "json_get counters ''uop'' = Some (JNum 7654320)" using st(3) vals by simp
  then show ?thesis using r [THEN conjunct1] ts st(1,2) by (simp del: map_num.simps)
qed

end
