(* ===== verification/Cli.thy ===== *)
theory Cli
  imports Workload TraceText CudaShim
begin

text \<open>
  The command line (\<open>src/apps/cli/main.cpp\<close>): the arguments, the three modes of a run, the
  trace and statistics files and the exit code.
\<close>

section \<open>Arguments\<close>

record args =
  ar_ptx :: string
  ar_ptx_isa :: string
  ar_inst_desc :: string
  ar_config :: string
  ar_trace_out :: string
  ar_stats_out :: string
  ar_io_demo :: bool
  ar_workload :: "string option"
  ar_entry :: "string option"
  ar_grid :: "dim3 option"
  ar_block :: "dim3 option"

definition args_default :: args where
  "args_default =
     \<lparr>ar_ptx = ''assets/ptx/demo_kernel.ptx'', ar_ptx_isa = ''assets/ptx_isa/demo_ptx64.json'',
      ar_inst_desc = ''assets/inst_desc/demo_desc.json'', ar_config = ''assets/configs/demo_config.json'',
      ar_trace_out = ''out/trace.jsonl'', ar_stats_out = ''out/stats.json'', ar_io_demo = False,
      ar_workload = None, ar_entry = None, ar_grid = None, ar_block = None\<rparr>"

text \<open>
  \<open>operator>>\<close> for an unsigned integer and for a character: blanks are skipped, a sign is
  accepted and a negative number wraps around, a number of more than 64 bits fails.
\<close>

definition extract_u64 :: "string \<Rightarrow> (u64 \<times> string) option" where
  "extract_u64 s =
     (case str_to_int 10 s of
        None \<Rightarrow> None
      | Some (v, n) \<Rightarrow> if \<bar>v\<bar> \<ge> 2 ^ 64 then None else Some (of_int v, drop n s))"

definition extract_char :: "string \<Rightarrow> (char \<times> string) option" where
  "extract_char s = (case dropWhile is_space s of [] \<Rightarrow> None | ch # r \<Rightarrow> Some (ch, r))"

definition extract_dim3 :: "string \<Rightarrow> (u64 \<times> char \<times> u64 \<times> char \<times> u64) option" where
  "extract_dim3 s =
     Option.bind (extract_u64 s) (\<lambda>(x, s).
     Option.bind (extract_char s) (\<lambda>(c1, s).
     Option.bind (extract_u64 s) (\<lambda>(y, s).
     Option.bind (extract_char s) (\<lambda>(c2, s).
     Option.bind (extract_u64 s) (\<lambda>(z, _). Some (x, c1, y, c2, z))))))"

definition parse_dim3_csv :: "string \<Rightarrow> json_exn + dim3" where
  "parse_dim3_csv s =
     (case extract_dim3 s of
        None \<Rightarrow> Inl (RuntimeError (''invalid dim3, expected x,y,z: '' @ s))
      | Some (x, c1, y, c2, z) \<Rightarrow>
          if c1 \<noteq> CHR 0x2C \<or> c2 \<noteq> CHR 0x2C
          then Inl (RuntimeError (''invalid dim3, expected x,y,z: '' @ s))
          else Inr \<lparr>dim_x = ucast x, dim_y = ucast y, dim_z = ucast z\<rparr>)"

text \<open>\<open>check_mode_compat\<close>: the new value of \<open>used_single_kernel_mode_flag\<close>.\<close>

definition check_mode_compat :: "string \<Rightarrow> bool \<Rightarrow> args \<Rightarrow> bool \<Rightarrow> json_exn + bool" where
  "check_mode_compat flag is_workload_flag a used =
     (if is_workload_flag then
        if used then Inl (RuntimeError ''--workload cannot be combined with single-kernel flags'') else Inr used
      else if ar_workload a \<noteq> None then Inl (RuntimeError (flag @ '' cannot be combined with --workload''))
      else Inr True)"

definition single_kernel_flags :: "string list" where
  "single_kernel_flags =
     [''--ptx'', ''--entry'', ''--ptx-isa'', ''--inst-desc'', ''--desc'', ''--io-demo'', ''--grid'', ''--block'']"

definition mode_check :: "string \<Rightarrow> args \<Rightarrow> bool \<Rightarrow> json_exn + bool" where
  "mode_check k a used =
     (if k = ''--workload'' then check_mode_compat k True a used
      else if k \<in> set single_kernel_flags then check_mode_compat k False a used
      else Inr used)"

text \<open>The flags that take a value, with what they do with it.\<close>

definition value_flag :: "string \<Rightarrow> (string \<Rightarrow> args \<Rightarrow> json_exn + args) option" where
  "value_flag k =
     (if k = ''--workload'' then Some (\<lambda>v a. Inr (a\<lparr>ar_workload := Some v\<rparr>))
      else if k = ''--ptx'' then Some (\<lambda>v a. Inr (a\<lparr>ar_ptx := v\<rparr>))
      else if k = ''--entry'' then Some (\<lambda>v a. Inr (a\<lparr>ar_entry := Some v\<rparr>))
      else if k = ''--ptx-isa'' then Some (\<lambda>v a. Inr (a\<lparr>ar_ptx_isa := v\<rparr>))
      else if k = ''--inst-desc'' \<or> k = ''--desc'' then Some (\<lambda>v a. Inr (a\<lparr>ar_inst_desc := v\<rparr>))
      else if k = ''--config'' then Some (\<lambda>v a. Inr (a\<lparr>ar_config := v\<rparr>))
      else if k = ''--trace'' then Some (\<lambda>v a. Inr (a\<lparr>ar_trace_out := v\<rparr>))
      else if k = ''--stats'' then Some (\<lambda>v a. Inr (a\<lparr>ar_stats_out := v\<rparr>))
      else if k = ''--grid'' then Some (\<lambda>v a. e_bind (parse_dim3_csv v) (\<lambda>d. Inr (a\<lparr>ar_grid := Some d\<rparr>)))
      else if k = ''--block'' then Some (\<lambda>v a. e_bind (parse_dim3_csv v) (\<lambda>d. Inr (a\<lparr>ar_block := Some d\<rparr>)))
      else None)"

text \<open>
  The arguments from left to right; \<open>Inr None\<close> is \<open>--nohelp\<close>, which ends the program.  An unknown
  argument is passed over.
\<close>

fun parse_flags :: "string list \<Rightarrow> bool \<Rightarrow> args \<Rightarrow> json_exn + args option" where
  "parse_flags [] used a = Inr (Some a)"
| "parse_flags (k # ks) used a =
     (if k = ''--help'' \<or> k = ''-h'' then Inr None
      else e_bind (mode_check k a used) (\<lambda>used.
        if k = ''--io-demo'' then parse_flags ks used (a\<lparr>ar_io_demo := True\<rparr>)
        else case value_flag k of
               None \<Rightarrow> parse_flags ks used a
             | Some put \<Rightarrow>
                 (case ks of
                    [] \<Rightarrow> Inl (RuntimeError (''missing value for '' @ k))
                  | v # rest \<Rightarrow> e_bind (put v a) (\<lambda>a. parse_flags rest used a))))"

definition parse_args :: "string list \<Rightarrow> json_exn + args option" where
  "parse_args argv = parse_flags argv False args_default"

section \<open>The program\<close>

text \<open>
  What a run of the program leaves: the two output streams, the files in the order written.
  Beside what the runtime relies on, the program creates the directory of a file and opens it
  for writing.
\<close>

record cli_io =
  io_out :: string
  io_err :: string
  io_files :: "(string \<times> string) list"

record 'n cli_env =
  ce_rt :: "'n rt_env"
  ce_order :: arg_order
  ce_fmt :: "'n num_fmt"
  ce_make_parent :: "string \<Rightarrow> json_exn + unit"
  ce_can_write :: "string \<Rightarrow> bool"

abbreviation newline :: string where
  "newline \<equiv> [CHR 0x0A]"

definition usage :: string where
  "usage =
     ''gpu-sim-cli --config <file> --trace <file> --stats <file> [--workload <file>]'' @ newline @
     ''  (single-kernel mode) --ptx <file> --ptx-isa <file> --inst-desc <file> [--entry <name>] [--grid x,y,z] [--block x,y,z] [--io-demo]'' @
     newline"

definition diag_text :: "diagnostic \<Rightarrow> string" where
  "diag_text d =
     ''Simulation error: '' @ d_module d @ '':'' @ d_code d @ '' '' @ d_message d @ newline @
     (case d_location d of
        None \<Rightarrow> []
      | Some l \<Rightarrow> ''  at '' @ loc_file l @ '':'' @ dec_string_int (loc_line l) @ '':'' @ dec_string_int (loc_column l) @ newline) @
     (case d_inst_index d of None \<Rightarrow> [] | Some i \<Rightarrow> ''  inst_index='' @ dec_string_int i @ newline) @
     (if d_code d = ''E_PARAM_MISS'' then
        ''Hint: ld.param needs a param blob. Single-kernel mode does not automatically supply kernel args.'' @ newline @
        ''  Use --workload <file> (recommended) to allocate buffers, do H2D/D2H copies, and pass args,'' @ newline @
        ''  or use --io-demo for the built-in one-arg demo kernel.'' @ newline
      else [])"

definition cli_launch :: "args \<Rightarrow> app_config \<Rightarrow> launch_config" where
  "cli_launch a cfg =
     \<lparr>grid_dim = (case ar_grid a of Some d \<Rightarrow> d | None \<Rightarrow> \<lparr>dim_x = 1, dim_y = 1, dim_z = 1\<rparr>),
      block_dim = (case ar_block a of Some d \<Rightarrow> d | None \<Rightarrow> \<lparr>dim_x = cfg_warp_size (ac_sim cfg), dim_y = 1, dim_z = 1\<rparr>),
      launch_warp_size = cfg_warp_size (ac_sim cfg)\<rparr>"

text \<open>
  The run with a buffer of four bytes as the only argument.  Its result is printed when the run
  has no diagnostic.
\<close>

definition show_io_demo :: "u64 \<Rightarrow> u64 \<Rightarrow> runtime \<Rightarrow> runtime \<times> (rt_error + string)" where
  "show_io_demo host_out dev_out st =
     (case memcpy_d2h host_out 0 dev_out 4 st of
        (st, Inl e) \<Rightarrow> (st, Inl e)
      | (st, Inr _) \<Rightarrow>
          (st, e_bind (host_read host_out 0 4 st) (\<lambda>bytes.
             case bytes of
               None \<Rightarrow> Inr []
             | Some bs \<Rightarrow>
                 Inr (if length bs = 4
                      then ''io-demo u32 result: '' @ dec_string (unat (ucast (unpack_le bs) :: u32)) @ newline else []))))"

definition run_io_demo :: "'n cli_env \<Rightarrow> args \<Rightarrow> app_config \<Rightarrow> runtime \<Rightarrow> (runtime \<times> (rt_error + sim_result \<times> string)) option" where
  "run_io_demo env a cfg st =
     (case device_malloc 4 4 st of (st, dev_out) \<Rightarrow>
      case host_alloc 4 st of
        (st, Inl e) \<Rightarrow> Some (st, Inl e)
      | (st, Inr host_out) \<Rightarrow>
          map_option
            (\<lambda>(st, r). case r of
               Inl e \<Rightarrow> (st, Inl e)
             | Inr res \<Rightarrow>
                 if sr_diag res \<noteq> None then (st, Inr (res, []))
                 else case show_io_demo host_out dev_out st of
                        (st, Inl e) \<Rightarrow> (st, Inl e)
                      | (st, Inr out) \<Rightarrow> (st, Inr (res, out)))
            (run_ptx_kernel_with_args_launch (ce_rt env) (ar_ptx a) (ar_ptx_isa a) (ar_inst_desc a)
               \<lparr>ka_layout = [], ka_blob = pack_le dev_out 8\<rparr> (cli_launch a cfg) st))"

text \<open>The run of the mode that the arguments select, with what it prints.\<close>

definition run_mode :: "'n cli_env \<Rightarrow> args \<Rightarrow> app_config \<Rightarrow> runtime \<Rightarrow> (runtime \<times> (rt_error + sim_result \<times> string)) option" where
  "run_mode env a cfg st =
     (let quiet = map_option (\<lambda>(st, r). (st, e_bind r (\<lambda>res. Inr (res, []))))
      in case ar_workload a of
           Some w \<Rightarrow> quiet (run_workload (ce_rt env) (ce_order env) w st)
         | None \<Rightarrow>
             if ar_io_demo a then run_io_demo env a cfg st
             else quiet (case ar_entry a of
                    Some e \<Rightarrow> run_ptx_kernel_entry_launch (ce_rt env) (ar_ptx a) (ar_ptx_isa a) (ar_inst_desc a) e (cli_launch a cfg) st
                  | None \<Rightarrow> run_ptx_kernel_launch (ce_rt env) (ar_ptx a) (ar_ptx_isa a) (ar_inst_desc a) (cli_launch a cfg) st))"

definition run_trace :: "'n cli_env \<Rightarrow> app_config \<Rightarrow> obs_control \<Rightarrow> string" where
  "run_trace env cfg obs =
     trace_text (ce_fmt env)
       (trace_header_default\<lparr>th_profile := cfg_profile (ac_sim cfg), th_deterministic := cfg_deterministic (ac_sim cfg)\<rparr>)
       (obs_trace_snapshot obs)"

definition run_stats :: "'n cli_env \<Rightarrow> app_config \<Rightarrow> obs_control \<Rightarrow> string" where
  "run_stats env cfg obs =
     stats_to_json (ce_fmt env) (obs_counters obs)
       (stats_meta_default\<lparr>sm_profile := cfg_profile (ac_sim cfg), sm_deterministic := cfg_deterministic (ac_sim cfg)\<rparr>)"

definition write_file :: "'n cli_env \<Rightarrow> string \<Rightarrow> string \<Rightarrow> cli_io \<Rightarrow> cli_io" where
  "write_file env path content io = (if ce_can_write env path then io\<lparr>io_files := io_files io @ [(path, content)]\<rparr> else io)"

definition write_outputs :: "'n cli_env \<Rightarrow> args \<Rightarrow> app_config \<Rightarrow> obs_control \<Rightarrow> cli_io \<Rightarrow> json_exn + cli_io" where
  "write_outputs env a cfg obs io =
     e_bind (ce_make_parent env (ar_trace_out a)) (\<lambda>_.
     e_bind (ce_make_parent env (ar_stats_out a)) (\<lambda>_.
     Inr (write_file env (ar_stats_out a) (run_stats env cfg obs) (write_file env (ar_trace_out a) (run_trace env cfg obs) io))))"

definition fatal :: "json_exn \<Rightarrow> cli_io \<Rightarrow> cli_io \<times> int" where
  "fatal e io = (io\<lparr>io_err := io_err io @ ''Fatal: '' @ exn_what e @ newline\<rparr>, 3)"

definition report :: "sim_result \<Rightarrow> cli_io \<Rightarrow> cli_io \<times> int" where
  "report res io =
     (case sr_diag res of
        Some d \<Rightarrow> (io\<lparr>io_err := io_err io @ diag_text d\<rparr>, 2)
      | None \<Rightarrow>
          (io\<lparr>io_out := io_out io @ ''Simulation completed in '' @ dec_string (unat (sr_steps res)) @ '' steps'' @ newline\<rparr>,
           if sr_completed res then 0 else 1))"

text \<open>After the run: an io-demo that failed ends at once, without files.\<close>

definition finish_run :: "'n cli_env \<Rightarrow> args \<Rightarrow> app_config \<Rightarrow> runtime \<times> (rt_error + sim_result \<times> string) \<Rightarrow> cli_io \<Rightarrow> (cli_io \<times> int) option" where
  "finish_run env a cfg o_run io =
     (case o_run of
        (st, Inl Undefined) \<Rightarrow> None
      | (st, Inl (Throws e)) \<Rightarrow> Some (fatal e io)
      | (st, Inr (res, out)) \<Rightarrow>
          let io = io\<lparr>io_out := io_out io @ out\<rparr>
          in if ar_workload a = None \<and> ar_io_demo a \<and> sr_diag res \<noteq> None then Some (report res io)
             else case write_outputs env a cfg (rt_obs st) io of
                    Inl e \<Rightarrow> Some (fatal e io)
                  | Inr io \<Rightarrow> Some (report res io))"

definition run_args :: "'n cli_env \<Rightarrow> args \<Rightarrow> cli_io \<Rightarrow> (cli_io \<times> int) option" where
  "run_args env a io =
     (case load_app_config_json_file (ce_rt env) (ar_config a) of
        Inl e \<Rightarrow> Some (fatal e io)
      | Inr cfg \<Rightarrow> Option.bind (run_mode env a cfg (runtime_init cfg)) (\<lambda>r. finish_run env a cfg r io))"

text \<open>
  The exit code with the output; \<open>None\<close> when the program does not return or the behaviour is
  undefined.
\<close>

definition cli_main :: "'n cli_env \<Rightarrow> string list \<Rightarrow> (cli_io \<times> int) option" where
  "cli_main env argv =
     (let io = \<lparr>io_out = [], io_err = [], io_files = []\<rparr>
      in case parse_args argv of
           Inl e \<Rightarrow> Some (fatal e io)
         | Inr None \<Rightarrow> Some (io\<lparr>io_out := usage\<rparr>, 0)
         | Inr (Some a) \<Rightarrow> run_args env a io)"

section \<open>Numbers in the arguments\<close>

lemma comma_ends_number: "\<not> digit_in 10 (CHR 0x2C)"
  by code_simp

lemma str_to_int_dec:
  assumes "rest = [] \<or> \<not> digit_in 10 (hd rest)"
  shows "str_to_int 10 (dec_string n @ rest) = Some (int n, length (dec_string n))"
proof -
  let ?s = "dec_string n"
  note h = dec_string_head [of n]
  have ns: "\<not> is_space (hd ?s)" "hd ?s \<notin> {CHR ''+'', CHR ''-''}"
    using h by (auto simp: is_digit_def is_space_def less_eq_char_simp)
  then have "dropWhile is_space (?s @ rest) = ?s @ rest" using h by (cases ?s) auto
  moreover have "takeWhile (digit_in 10) (?s @ rest) = ?s"
    using dec_string_digits [of n] assms
    by (cases rest) (simp_all add: takeWhile_append2 list_all_iff)
  ultimately show ?thesis using h ns dec_string_digits [of n] by (simp add: str_to_int_def Let_def)
qed

lemma extract_u64_dec:
  assumes "rest = [] \<or> \<not> digit_in 10 (hd rest)"
  shows "extract_u64 (dec_string n @ rest) = (if n < 2 ^ 64 then Some (of_nat n, rest) else None)"
  by (simp add: extract_u64_def str_to_int_dec [OF assms])

section \<open>Modes\<close>

definition modes_apart :: "bool \<Rightarrow> args \<Rightarrow> bool" where
  "modes_apart used a \<longleftrightarrow>
     (ar_workload a \<noteq> None \<longrightarrow> \<not> used) \<and>
     (\<not> used \<longrightarrow> a = args_default\<lparr>ar_config := ar_config a, ar_trace_out := ar_trace_out a,
        ar_stats_out := ar_stats_out a, ar_workload := ar_workload a\<rparr>)"

lemma modes_apart_used: "modes_apart True a \<longleftrightarrow> ar_workload a = None"
  by (simp add: modes_apart_def)

lemma mode_check_apart: "mode_check k a used = Inr used' \<Longrightarrow> modes_apart used a \<Longrightarrow> modes_apart used' a"
  by (auto simp: mode_check_def check_mode_compat_def modes_apart_def split: if_splits)

lemma value_flag_workload:
  assumes "value_flag k = Some put" and "put v a = Inr a'"
  shows "ar_workload a' = (if k = ''--workload'' then Some v else ar_workload a)"
proof (cases "k = ''--workload''")
  case False
  then have "put \<in> {\<lambda>v a. Inr (a\<lparr>ar_ptx := v\<rparr>), \<lambda>v a. Inr (a\<lparr>ar_entry := Some v\<rparr>), \<lambda>v a. Inr (a\<lparr>ar_ptx_isa := v\<rparr>),
      \<lambda>v a. Inr (a\<lparr>ar_inst_desc := v\<rparr>), \<lambda>v a. Inr (a\<lparr>ar_config := v\<rparr>), \<lambda>v a. Inr (a\<lparr>ar_trace_out := v\<rparr>),
      \<lambda>v a. Inr (a\<lparr>ar_stats_out := v\<rparr>), \<lambda>v a. e_bind (parse_dim3_csv v) (\<lambda>d. Inr (a\<lparr>ar_grid := Some d\<rparr>)),
      \<lambda>v a. e_bind (parse_dim3_csv v) (\<lambda>d. Inr (a\<lparr>ar_block := Some d\<rparr>))}"
    using assms(1) unfolding value_flag_def by (simp split: if_split_asm)
  then show ?thesis using assms(2) False by (auto simp: e_bind_Inr_iff)
qed (use assms in \<open>auto simp: value_flag_def\<close>)

lemma value_flag_common:
  assumes "value_flag k = Some put" and "put v a = Inr a'" and "k \<notin> set single_kernel_flags"
  shows "a' = a\<lparr>ar_config := ar_config a', ar_trace_out := ar_trace_out a', ar_stats_out := ar_stats_out a', ar_workload := ar_workload a'\<rparr>"
proof -
  have "k \<noteq> f" if "f \<in> set single_kernel_flags" for f using assms(3) that by blast
  then have "put \<in> {\<lambda>v a. Inr (a\<lparr>ar_workload := Some v\<rparr>), \<lambda>v a. Inr (a\<lparr>ar_config := v\<rparr>),
      \<lambda>v a. Inr (a\<lparr>ar_trace_out := v\<rparr>), \<lambda>v a. Inr (a\<lparr>ar_stats_out := v\<rparr>)}"
    using assms(1) unfolding value_flag_def by (auto simp: single_kernel_flags_def split: if_split_asm)
  then show ?thesis using assms(2) by (cases a) auto
qed

lemma value_flag_apart:
  assumes "mode_check k a used = Inr used'" and "value_flag k = Some put" and "put v a = Inr a'" and "modes_apart used a"
  shows "modes_apart used' a'"
proof (cases "k \<in> set single_kernel_flags")
  case True
  moreover from this have "k \<noteq> ''--workload''" by (auto simp: single_kernel_flags_def)
  ultimately show ?thesis using assms(1) value_flag_workload [OF assms(2,3)]
    by (auto simp: modes_apart_used mode_check_def check_mode_compat_def split: if_splits)
next
  case False
  have wl: "k = ''--workload'' \<Longrightarrow> \<not> used" and same: "used' = used"
    using assms(1) False by (auto simp: mode_check_def check_mode_compat_def split: if_splits)
  note v = value_flag_workload [OF assms(2,3)] value_flag_common [OF assms(2,3) False]
  show ?thesis
  proof (cases used)
    case True
    then show ?thesis using wl same v(1) assms(4) by (auto simp: modes_apart_used)
  next
    case unused: False
    then have a: "a = args_default\<lparr>ar_config := ar_config a, ar_trace_out := ar_trace_out a,
        ar_stats_out := ar_stats_out a, ar_workload := ar_workload a\<rparr>"
      using assms(4) by (simp add: modes_apart_def)
    have "a' = args_default\<lparr>ar_config := ar_config a', ar_trace_out := ar_trace_out a',
        ar_stats_out := ar_stats_out a', ar_workload := ar_workload a'\<rparr>"
      by (subst v(2), subst a) simp
    then show ?thesis using unused same unfolding modes_apart_def by blast
  qed
qed

lemma parse_flags_apart: "parse_flags ks used a = Inr (Some a') \<Longrightarrow> modes_apart used a \<Longrightarrow> \<exists>u. modes_apart u a'"
proof (induction ks used a rule: parse_flags.induct)
  case (2 k ks used a)
  have nohelp: "\<not> (k = ''--help'' \<or> k = ''-h'')" using "2.prems"(1) by (cases "k = ''--help'' \<or> k = ''-h''") simp_all
  then obtain u where u: "mode_check k a used = Inr u" using "2.prems"(1) by (cases "mode_check k a used") simp_all
  note apart = mode_check_apart [OF u "2.prems"(2)]
  show ?case
  proof (cases "k = ''--io-demo''")
    case True
    then have "u" using u by (auto simp: mode_check_def check_mode_compat_def single_kernel_flags_def split: if_splits)
    then have "modes_apart u (a\<lparr>ar_io_demo := True\<rparr>)" using apart by (simp add: modes_apart_used)
    then show ?thesis using "2.IH"(1) [OF nohelp u True] "2.prems"(1) nohelp u True by simp
  next
    case io: False
    show ?thesis
    proof (cases "value_flag k")
      case None
      then show ?thesis using "2.IH"(2) [OF nohelp u io None] "2.prems"(1) nohelp u io apart by simp
    next
      case (Some put)
      have "ks \<noteq> []" using "2.prems"(1) nohelp u io Some by auto
      then obtain v tail where ks: "ks = v # tail" by (cases ks) auto
      then obtain a1 where put: "put v a = Inr a1" using "2.prems"(1) nohelp u io Some by (cases "put v a") auto
      have "parse_flags tail u a1 = Inr (Some a')" using "2.prems"(1) nohelp u io Some ks put by simp
      then show ?thesis using "2.IH"(3) [OF nohelp u io Some ks put] value_flag_apart [OF u Some put "2.prems"(2)] by simp
    qed
  qed
qed auto

section \<open>Runs of one kernel\<close>

text \<open>The kernel that the arguments name: by its entry, else the first; an io-demo takes the first.\<close>

definition cli_kernel :: "'n cli_env \<Rightarrow> args \<Rightarrow> json_exn + kernel_tokens" where
  "cli_kernel env a =
     e_bind (parse_file_tokens (ce_rt env) (ar_ptx a)) (\<lambda>ks.
       case (if ar_io_demo a then None else ar_entry a) of
         None \<Rightarrow> bind_first_kernel ks
       | Some e \<Rightarrow> bind_kernel_by_name ks e)"

lemma memcpy_d2h_keeps: "memcpy_d2h h off p n st = (st', r) \<Longrightarrow> rt_obs st' = rt_obs st"
  by (auto simp: memcpy_d2h_def host_write_def split: option.splits if_splits)

lemma show_io_demo_keeps: "show_io_demo h p st = (st', r) \<Longrightarrow> rt_obs st' = rt_obs st"
  using memcpy_d2h_keeps by (auto simp: show_io_demo_def split: prod.splits sum.splits)

lemma run_mode_bound:
  assumes "run_mode env a cfg rt = Some (st, Inr (res, out))" and "ar_workload a = None" and "sr_diag res = None"
  shows "\<exists>rt1 ka r. run_bound (ce_rt env) rt1 (cli_kernel env a) (load_isa_file (ce_rt env) (ar_ptx_isa a))
      (load_desc_file (ce_rt env) (ar_inst_desc a)) ka (cli_launch a cfg) = Some r \<and>
    snd r = Inr res \<and> rt_obs st = rt_obs (fst r) \<and> rt_cfg rt1 = rt_cfg rt \<and> rt_obs rt1 = rt_obs rt"
proof (cases "ar_io_demo a")
  case True
  obtain rt1 dev where dev: "device_malloc 4 4 rt = (rt1, dev)" by fastforce
  obtain rt2 h where h: "host_alloc 4 rt1 = (rt2, Inr h)" by (simp add: host_alloc_def max_vector_def Let_def)
  have kept: "rt_cfg rt2 = rt_cfg rt" "rt_obs rt2 = rt_obs rt"
    using dev h by (auto simp: device_malloc_def host_alloc_def Let_def split: prod.splits if_splits)
  have "run_io_demo env a cfg rt = Some (st, Inr (res, out))" using assms(1,2) True by (simp add: run_mode_def Let_def)
  then obtain r where r: "run_ptx_kernel_with_args_launch (ce_rt env) (ar_ptx a) (ar_ptx_isa a) (ar_inst_desc a)
      \<lparr>ka_layout = [], ka_blob = pack_le dev 8\<rparr> (cli_launch a cfg) rt2 = Some r"
    and demo: "(case r of (st, Inl e) \<Rightarrow> (st, Inl e)
       | (st, Inr res) \<Rightarrow> if sr_diag res \<noteq> None then (st, Inr (res, []))
           else (case show_io_demo h dev st of (st, Inl e) \<Rightarrow> (st, Inl e) | (st, Inr out) \<Rightarrow> (st, Inr (res, out)))) =
        (st, Inr (res, out))"
    by (auto simp: run_io_demo_def dev h simp del: not_None_eq)
  from demo have "snd r = Inr res" "rt_obs st = rt_obs (fst r)"
    using assms(3) show_io_demo_keeps [of h dev "fst r"] by (auto split: prod.splits sum.splits if_splits)
  then show ?thesis
    using r kept True unfolding run_ptx_kernel_with_args_launch_def cli_kernel_def
    by (intro exI [of _ rt2] exI [of _ "Some \<lparr>ka_layout = [], ka_blob = pack_le dev 8\<rparr>"] exI [of _ r]) simp
next
  case False
  show ?thesis
  proof (cases "ar_entry a")
    case None
    then obtain r where "run_ptx_kernel_launch (ce_rt env) (ar_ptx a) (ar_ptx_isa a) (ar_inst_desc a) (cli_launch a cfg) rt = Some r"
      "fst r = st" "snd r = Inr res"
      using assms(1,2) False by (auto simp: run_mode_def Let_def e_bind_Inr_iff)
    then show ?thesis using False None unfolding run_ptx_kernel_launch_def cli_kernel_def
      by (intro exI [of _ rt] exI [of _ None] exI [of _ r]) simp
  next
    case (Some e)
    then obtain r where r: "run_ptx_kernel_entry_launch (ce_rt env) (ar_ptx a) (ar_ptx_isa a) (ar_inst_desc a) e (cli_launch a cfg) rt = Some r"
      "fst r = st" "snd r = Inr res"
      using assms(1,2) False by (auto simp: run_mode_def Let_def e_bind_Inr_iff)
    from run_entry_bound [OF r(1) [unfolded run_ptx_kernel_entry_launch_def] r(3) assms(3)] r(2,3) show ?thesis
      using False Some unfolding cli_kernel_def
      by (intro exI [of _ rt] exI [of _ None] exI [of _ r]) simp
  qed
qed

lemma report_zero: "report res io = (io', 0) \<Longrightarrow> sr_completed res \<and> sr_diag res = None \<and> io_files io' = io_files io"
  by (auto simp: report_def split: option.splits if_splits)

lemma finish_run_zero:
  assumes "finish_run env a cfg r io = Some (io', 0)"
  shows "\<exists>st res out. r = (st, Inr (res, out)) \<and> sr_completed res \<and> sr_diag res = None \<and>
    (ce_can_write env (ar_trace_out a) \<and> ce_can_write env (ar_stats_out a) \<longrightarrow>
      io_files io' = io_files io @ [(ar_trace_out a, run_trace env cfg (rt_obs st)), (ar_stats_out a, run_stats env cfg (rt_obs st))])"
  using assms report_zero
  by (fastforce simp: finish_run_def fatal_def Let_def write_outputs_def write_file_def e_bind_Inr_iff
      split: prod.splits sum.splits rt_error.splits if_splits)

section \<open>Properties\<close>

text \<open>
  C4.  Exit code 0 of a run of one kernel means that the program did what it was asked: the kernel
  that the arguments name was parsed, mapped and run over the grid of the arguments to its end
  without a diagnostic; unless the step limit stopped it, every thread of every CTA was executed to
  its exit; and the two files, where they can be written, hold the events and the counters of
  exactly this run.
\<close>

theorem exit_zero_means_grid_ran:
  assumes "cli_main env argv = Some (io, 0)" and "parse_args argv = Inr (Some a)" and "ar_workload a = None"
    and "load_app_config_json_file (ce_rt env) (ar_config a) = Inr cfg" and "\<not> parallel_enabled (ac_sim cfg)"
  shows "\<exists>k isa_reg insts reg mem0 ms obs res ctas.
    cli_kernel env a = Inr k \<and> load_isa_file (ce_rt env) (ar_ptx_isa a) = Inr isa_reg \<and>
    load_desc_file (ce_rt env) (ar_inst_desc a) = Inr reg \<and> map_kernel isa_reg (kt_insts k) = Inr (Inr insts) \<and>
    simt_run_serial (en_fp (ce_rt env)) (ac_sim cfg) reg mem0 (obs_init (ac_obs_enabled cfg) (ac_trace_capacity cfg))
      (kernel_of_tokens k insts) (cli_launch a cfg) = Some (res, ms, obs, ctas) \<and>
    sr_completed res \<and> sr_diag res = None \<and>
    (sr_steps res < cfg_max_steps (ac_sim cfg) \<longrightarrow>
      (\<forall>tpb. threads_per_block (block_dim (cli_launch a cfg)) = Some tpb \<and> unat tpb \<le> 2 ^ 31 \<longrightarrow>
        list_all2 (cta_complete tpb (launch_warp_size_of (ac_sim cfg) (cli_launch a cfg)))
          (cta_items (grid_dim (cli_launch a cfg))) ctas)) \<and>
    (ce_can_write env (ar_trace_out a) \<and> ce_can_write env (ar_stats_out a) \<longrightarrow>
      io_files io = [(ar_trace_out a, run_trace env cfg obs), (ar_stats_out a, run_stats env cfg obs)])"
proof -
  have "run_args env a \<lparr>io_out = [], io_err = [], io_files = []\<rparr> = Some (io, 0)"
    using assms(1,2) by (simp add: cli_main_def Let_def)
  then obtain r where mode: "run_mode env a cfg (runtime_init cfg) = Some r"
    and fin: "finish_run env a cfg r \<lparr>io_out = [], io_err = [], io_files = []\<rparr> = Some (io, 0)"
    using assms(4) by (auto simp: run_args_def Option.bind_eq_Some_conv)
  from finish_run_zero [OF fin] obtain st res out where r: "r = (st, Inr (res, out))" "sr_completed res" "sr_diag res = None"
    and files: "ce_can_write env (ar_trace_out a) \<and> ce_can_write env (ar_stats_out a) \<Longrightarrow>
      io_files io = [(ar_trace_out a, run_trace env cfg (rt_obs st)), (ar_stats_out a, run_stats env cfg (rt_obs st))]"
    by auto
  from run_mode_bound [OF mode [unfolded r(1)] assms(3) r(3)] obtain rt1 ka q where
    q: "run_bound (ce_rt env) rt1 (cli_kernel env a) (load_isa_file (ce_rt env) (ar_ptx_isa a))
      (load_desc_file (ce_rt env) (ar_inst_desc a)) ka (cli_launch a cfg) = Some q" "snd q = Inr res"
    and kept: "rt_obs st = rt_obs (fst q)" "rt_cfg rt1 = cfg" "rt_obs rt1 = obs_init (ac_obs_enabled cfg) (ac_trace_capacity cfg)"
    by (auto simp: runtime_init_def)
  from run_bound_success [OF q r(3)] assms(5) kept(2) obtain k i insts rg ms obs ctas where
    loaded: "cli_kernel env a = Inr k" "load_isa_file (ce_rt env) (ar_ptx_isa a) = Inr i"
      "load_desc_file (ce_rt env) (ar_inst_desc a) = Inr rg" "map_kernel i (kt_insts k) = Inr (Inr insts)"
    and run: "simt_run_serial (en_fp (ce_rt env)) (ac_sim (rt_cfg rt1)) rg
      \<lparr>ms_mgr = with_params (kt_params k) ka (rt_mem rt1), ms_local = Map.empty\<rparr> (rt_obs rt1)
      (kernel_of_tokens k insts) (cli_launch a cfg) = Some (res, ms, obs, ctas)"
    and left: "fst q = rt1\<lparr>rt_mem := ms_mgr ms, rt_obs := obs\<rparr>"
    by auto
  note run = run [unfolded kept(2,3)]
  have obs: "rt_obs st = obs" using kept(1) left by simp
  show ?thesis
    using simt_run_complete [OF run r(3)]
    by (intro exI conjI allI impI; (elim conjE)?)
      (rule loaded run r(2,3) files [unfolded obs] conjunct2 [OF simt_run_complete [OF run r(3)]] conjI | assumption)+
qed

text \<open>
  The two modes of the program are never mixed: arguments that are accepted and name a
  workload have set nothing of the single-kernel mode, in whatever order they came.
\<close>

theorem modes_never_mixed:
  assumes "parse_args argv = Inr (Some a)" and "ar_workload a \<noteq> None"
  shows "a = args_default\<lparr>ar_config := ar_config a, ar_trace_out := ar_trace_out a,
    ar_stats_out := ar_stats_out a, ar_workload := ar_workload a\<rparr>"
proof -
  have "modes_apart False args_default" by (simp add: modes_apart_def args_default_def)
  from parse_flags_apart [OF assms(1) [unfolded parse_args_def] this] obtain u where "modes_apart u a" by blast
  then show ?thesis using assms(2) unfolding modes_apart_def by blast
qed

lemma modes_never_mixed_witness:
  "\<exists>a. parse_args [''--trace'', ''t'', ''--workload'', ''w.json''] = Inr (Some a) \<and> ar_workload a = Some ''w.json'' \<and> ar_io_demo a = False"
proof -
  have "case parse_args [''--trace'', ''t'', ''--workload'', ''w.json''] of
      Inr (Some a) \<Rightarrow> ar_workload a = Some ''w.json'' | _ \<Rightarrow> False" by code_simp
  then obtain a where a: "parse_args [''--trace'', ''t'', ''--workload'', ''w.json''] = Inr (Some a)" "ar_workload a = Some ''w.json''"
    by (auto split: sum.splits option.splits)
  have "ar_io_demo (a\<lparr>ar_config := c, ar_trace_out := t, ar_stats_out := s, ar_workload := w\<rparr>) = ar_io_demo a" for c t s w
    by simp
  moreover have "ar_io_demo a = ar_io_demo (args_default\<lparr>ar_config := ar_config a, ar_trace_out := ar_trace_out a,
      ar_stats_out := ar_stats_out a, ar_workload := ar_workload a\<rparr>)"
    using modes_never_mixed [OF a(1)] a(2) by (metis option.distinct(1))
  ultimately show ?thesis using a by (simp add: args_default_def)
qed

text \<open>
  C36.  The dimensions of a launch are read as they are written, up to the width of the numbers:
  three numbers below \<open>2 ^ 64\<close> give the dimensions modulo \<open>2 ^ 32\<close>, without a complaint when they
  do not fit, and a larger number is refused.
\<close>

theorem dim3_read_back:
  "parse_dim3_csv (dec_string x @ '','' @ dec_string y @ '','' @ dec_string z) =
     (if x < 2 ^ 64 \<and> y < 2 ^ 64 \<and> z < 2 ^ 64
      then Inr \<lparr>dim_x = of_nat (x mod 2 ^ 32), dim_y = of_nat (y mod 2 ^ 32), dim_z = of_nat (z mod 2 ^ 32)\<rparr>
      else Inl (RuntimeError (''invalid dim3, expected x,y,z: '' @ dec_string x @ '','' @ dec_string y @ '','' @ dec_string z)))"
proof -
  have comma: "extract_char (CHR 0x2C # s) = Some (CHR 0x2C, s)" for s by (simp add: extract_char_def is_space_def)
  have num: "extract_u64 (dec_string n @ CHR 0x2C # s) = (if n < 2 ^ 64 then Some (of_nat n, CHR 0x2C # s) else None)" for n s
    by (rule extract_u64_dec) (simp add: comma_ends_number)
  have last: "extract_u64 (dec_string n) = (if n < 2 ^ 64 then Some (of_nat n, []) else None)" for n
    using extract_u64_dec [of "[]" n] by simp
  have cast: "ucast (of_nat n :: u64) = (of_nat (n mod 2 ^ 32) :: u32)" for n
    unfolding word_unat_eq_iff by (simp add: unsigned_ucast_eq unsigned_of_nat take_bit_eq_mod mod_mod_cancel)
  show ?thesis by (simp add: parse_dim3_csv_def extract_dim3_def num comma last cast)
qed

section \<open>An example run\<close>

text \<open>The example program of theory CudaShim, from files and by its entry.\<close>

definition demo_cli_env :: "unit cli_env" where
  "demo_cli_env =
     \<lparr>ce_rt = (se_rt demo_shim_env)\<lparr>en_file := (\<lambda>p.
        if p = ''<ptx>'' then Some demo_module
        else if p = ''i.json'' then Some (as_isa (se_embedded demo_shim_env))
        else if p = ''d.json'' then Some (as_desc (se_embedded demo_shim_env))
        else if p = ''c.json'' then Some (as_config (se_embedded demo_shim_env)) else None)\<rparr>,
      ce_order = id, ce_fmt = \<lparr>nf_print = \<lambda>_. ''4'', nf_u64 = \<lambda>_. (), nf_int = \<lambda>_. ()\<rparr>,
      ce_make_parent = \<lambda>_. Inr (), ce_can_write = \<lambda>_. True\<rparr>"

definition demo_argv :: "string list" where
  "demo_argv = [''--ptx'', ''<ptx>'', ''--ptx-isa'', ''i.json'', ''--inst-desc'', ''d.json'', ''--config'', ''c.json'',
     ''--entry'', ''ret'', ''--grid'', ''2,1,1'', ''--block'', ''3,1,1'', ''--unknown'']"

definition demo_cli_args :: args where
  "demo_cli_args = args_default\<lparr>ar_ptx := ''<ptx>'', ar_ptx_isa := ''i.json'', ar_inst_desc := ''d.json'', ar_config := ''c.json'',
     ar_entry := Some ''ret'', ar_grid := Some \<lparr>dim_x = 2, dim_y = 1, dim_z = 1\<rparr>,
     ar_block := Some \<lparr>dim_x = 3, dim_y = 1, dim_z = 1\<rparr>\<rparr>"

lemma demo_argv_parsed: "parse_args demo_argv = Inr (Some demo_cli_args)"
  by code_simp

definition demo_cli_config :: app_config where
  "demo_cli_config = app_config_default\<lparr>ac_sim := sim_config_default\<lparr>cfg_warp_size := 4\<rparr>, ac_obs_enabled := False,
     ac_trace_capacity := 4\<rparr>"

lemma texts_without_files:
  "load_isa_text (env\<lparr>en_file := f\<rparr>) = load_isa_text env" "load_desc_text (env\<lparr>en_file := f\<rparr>) = load_desc_text env"
  "load_app_config_json_text (env\<lparr>en_file := f\<rparr>) = load_app_config_json_text env"
  by (simp_all add: fun_eq_iff load_isa_text_def load_desc_text_def load_app_config_json_text_def json_text_def)

lemma demo_files:
  "load_app_config_json_file (ce_rt demo_cli_env) ''c.json'' = Inr demo_cli_config"
  "load_isa_file (ce_rt demo_cli_env) ''i.json'' =
     Inr [\<lparr>ie_ptx_opcode = ''ret'', ie_type_mod = [], ie_operand_kinds = [], ie_ir_op = ''ret''\<rparr>]"
  "load_desc_file (ce_rt demo_cli_env) ''d.json'' = Inr demo_ret_descs"
  by (simp_all add: demo_cli_env_def load_app_config_json_file_def load_isa_file_def load_desc_file_def slurp_def
      of_option_def texts_without_files demo_parsed demo_cli_config_def demo_ret_descs_def)

lemma demo_file_tokens:
  "parse_file_tokens (ce_rt demo_cli_env) ''<ptx>'' =
     Inr [\<lparr>kt_name = ''ret'', kt_reg_u32_count = 0, kt_reg_u64_count = 0, kt_params = [],
       kt_insts = [\<lparr>px_opcode = ''ret'', px_mods = \<lparr>m_type_mod = [], m_space = [], m_flags = []\<rparr>, px_pred = None,
         px_tokens = [], px_dbg = Some \<lparr>loc_file = ''<ptx>'', loc_line = 5, loc_column = 1\<rparr>\<rparr>]\<rparr>]"
proof -
  have "en_hash_order (ce_rt demo_cli_env) = rev" "slurp (ce_rt demo_cli_env) ''Parser: '' ''<ptx>'' = Inr demo_module"
    by (simp_all add: demo_cli_env_def slurp_def of_option_def demo_shim_env_def demo_rt_env_def)
  then show ?thesis by (simp add: parse_file_tokens_def demo_tokens_parsed)
qed

lemma demo_exits_zero: "\<exists>io. cli_main demo_cli_env demo_argv = Some (io, 0)"
proof -
  let ?rt = "runtime_init demo_cli_config"
  obtain res ms obs ctas where run: "simt_run_serial f32_trivial (sim_config_default\<lparr>cfg_warp_size := 4\<rparr>) demo_ret_descs
     demo_mem0 (obs_init False 4) demo_ret_kernel demo_ret_launch = Some (res, ms, obs, ctas)"
    "sr_diag res = None" "sr_completed res" using demo_runs by blast
  have launch: "cli_launch demo_cli_args demo_cli_config = demo_ret_launch"
    by (simp add: cli_launch_def demo_cli_args_def demo_cli_config_def demo_ret_launch_def)
  have mem: "\<lparr>ms_mgr = with_params [] None manager_init, ms_local = Map.empty\<rparr> = demo_mem0"
    by (simp add: with_params_def set_param_blob_def set_param_layout_def manager_init_def demo_mem0_def)
  have serial: "\<not> parallel_enabled (sim_config_default\<lparr>cfg_warp_size := 4\<rparr>)" by code_simp
  have rt: "rt_obs ?rt = obs_init False 4" "rt_mem ?rt = manager_init" "ac_sim (rt_cfg ?rt) = sim_config_default\<lparr>cfg_warp_size := 4\<rparr>"
    by (simp_all add: runtime_init_def demo_cli_config_def)
  have fp: "en_fp (ce_rt demo_cli_env) = f32_trivial" by (simp add: demo_cli_env_def demo_shim_env_def demo_rt_env_def)
  have "run_ptx_kernel_entry_launch (ce_rt demo_cli_env) ''<ptx>'' ''i.json'' ''d.json'' ''ret'' demo_ret_launch ?rt =
    Some (?rt\<lparr>rt_mem := ms_mgr ms, rt_obs := obs\<rparr>, Inr res)"
    using run(1) serial
    by (simp add: run_ptx_kernel_entry_launch_def run_entry_def demo_file_tokens run_bound_def demo_files
        run_kernel_tokens_impl_def demo_mapped simt_run_def mem kernel_of_tokens_def rt fp demo_ret_kernel_def)
  then have mode: "run_mode demo_cli_env demo_cli_args demo_cli_config ?rt = Some (?rt\<lparr>rt_mem := ms_mgr ms, rt_obs := obs\<rparr>, Inr (res, []))"
    using launch by (simp add: run_mode_def demo_cli_args_def args_default_def)
  have "write_outputs demo_cli_env demo_cli_args demo_cli_config obs io =
      Inr (io\<lparr>io_files := io_files io @ [(ar_trace_out demo_cli_args, run_trace demo_cli_env demo_cli_config obs),
        (ar_stats_out demo_cli_args, run_stats demo_cli_env demo_cli_config obs)]\<rparr>)" for io
    by (simp add: write_outputs_def write_file_def demo_cli_env_def)
  moreover have "ar_config demo_cli_args = ''c.json''" "ar_io_demo demo_cli_args = False" "ar_workload demo_cli_args = None"
    by (simp_all add: demo_cli_args_def args_default_def)
  ultimately show ?thesis
    using run(2,3) mode
    by (simp add: cli_main_def demo_argv_parsed run_args_def demo_files finish_run_def report_def Let_def)
qed

lemma exit_zero_means_grid_ran_witness:
  "\<exists>io res mem0 ms obs ctas. cli_main demo_cli_env demo_argv = Some (io, 0) \<and>
    simt_run_serial f32_trivial (sim_config_default\<lparr>cfg_warp_size := 4\<rparr>) demo_ret_descs mem0 (obs_init False 4)
      demo_ret_kernel demo_ret_launch = Some (res, ms, obs, ctas) \<and> sr_completed res \<and>
    map fst (io_files io) = [''out/trace.jsonl'', ''out/stats.json'']"
proof -
  obtain io where m: "cli_main demo_cli_env demo_argv = Some (io, 0)" using demo_exits_zero by blast
  have a: "ar_workload demo_cli_args = None" "ar_io_demo demo_cli_args = False" "ar_entry demo_cli_args = Some ''ret''" "ar_ptx demo_cli_args = ''<ptx>''"
    "ar_ptx_isa demo_cli_args = ''i.json''" "ar_inst_desc demo_cli_args = ''d.json''" "ar_config demo_cli_args = ''c.json''"
    "ar_trace_out demo_cli_args = ''out/trace.jsonl''" "ar_stats_out demo_cli_args = ''out/stats.json''"
    by (simp_all add: demo_cli_args_def args_default_def)
  have cfg: "ac_sim demo_cli_config = sim_config_default\<lparr>cfg_warp_size := 4\<rparr>" "ac_obs_enabled demo_cli_config = False"
    "ac_trace_capacity demo_cli_config = 4" by (simp_all add: demo_cli_config_def)
  have serial: "\<not> parallel_enabled (ac_sim demo_cli_config)" unfolding cfg by code_simp
  have launch: "cli_launch demo_cli_args demo_cli_config = demo_ret_launch"
    by (simp add: cli_launch_def demo_cli_args_def demo_cli_config_def demo_ret_launch_def)
  have env: "en_fp (ce_rt demo_cli_env) = f32_trivial" "ce_can_write demo_cli_env p" for p
    by (simp_all add: demo_cli_env_def demo_shim_env_def demo_rt_env_def)
  from exit_zero_means_grid_ran [OF m demo_argv_parsed a(1) demo_files(1) [folded a(7)] serial]
  obtain k i insts reg mem0 ms obs res ctas where
    k: "cli_kernel demo_cli_env demo_cli_args = Inr k" "load_isa_file (ce_rt demo_cli_env) ''i.json'' = Inr i"
      "load_desc_file (ce_rt demo_cli_env) ''d.json'' = Inr reg" "map_kernel i (kt_insts k) = Inr (Inr insts)"
    and run: "simt_run_serial f32_trivial (sim_config_default\<lparr>cfg_warp_size := 4\<rparr>) reg mem0 (obs_init False 4)
      (kernel_of_tokens k insts) demo_ret_launch = Some (res, ms, obs, ctas)" "sr_completed res"
    and files: "io_files io = [(''out/trace.jsonl'', run_trace demo_cli_env demo_cli_config obs),
      (''out/stats.json'', run_stats demo_cli_env demo_cli_config obs)]"
    unfolding a cfg launch env by (auto simp: env)
  have "kernel_of_tokens k insts = demo_ret_kernel" "reg = demo_ret_descs"
    using k demo_mapped(1) by (auto simp: cli_kernel_def a demo_file_tokens demo_files kernel_of_tokens_def demo_ret_kernel_def)
  then show ?thesis using m run files
    by (intro exI [of _ io] exI [of _ res] exI [of _ mem0] exI [of _ ms] exI [of _ obs] exI [of _ ctas]) simp
qed

end
