(* ===== verification/Spec2Isabelle.thy ===== *)
theory Spec2Isabelle
  imports Contracts Bytes Memory Json Observability Warp ExecCore MemUnit ControlUnit Instruction
    WarpSched CtaSched ControlFlow SimtStack Simt SimtRun Reconvergence JsonText Text PtxParser PtxIsa Runtime Params Queues WorkloadFile Workload
    CudaMem Fatbin CudaShim ImageParser TraceText Cli
begin

text \<open>
  Verification of ProtoGPU, a functional simulator of a GPU that runs PTX.

  The program.  PTX text goes through a parser to tokens and a mapping to instructions (driven by
  the JSON file of the PTX instruction set) to a kernel image; a second JSON file describes what
  each instruction does as micro-operations.  The SIMT executor runs the kernel over a grid: CTAs
  are handed out by a CTA scheduler, their warps are picked by a warp scheduler, and a warp
  executes one instruction at a time under a SIMT stack that splits it at divergent branches and
  merges it at the reconvergence points found by a control-flow analysis.  The micro-operations go
  to three units that share the registers of the warp and the memory.  Around the executor are the
  runtime facade with host and device buffers, the workload engine with streams and events, the
  shim of the CUDA runtime and the command line; trace events and counters are collected on the
  way and written as JSON.

  Theories and code (paths under \<open>src/\<close> of the repository; a definition has the name of the
  function, or of the function with the step of it that it models).

  Prelude, Bytes, Params: shared ground.  Machine integers are words of their width (\<open>u8\<close> to
  \<open>u64\<close>), loops over lanes are \<open>loop_e\<close> (threading the state, stopping at an error), exceptions
  are the left side of a sum (\<open>e_bind\<close>, \<open>map_e\<close>); little-endian packing and ranges of addresses;
  blocks of kernel parameters.

  Contracts: \<open>include/gpusim/contracts.h\<close> and \<open>abi.h\<close>, the records and enumerations that all
  modules share, and the lane masks.

  Json, JsonText: \<open>json.h\<close>, \<open>src/common/json.cpp\<close>.  Values, accessors, reader and writer.

  Memory: \<open>src/memory/memory.cpp\<close>, the state \<open>addr_space_manager\<close> with the bump allocator of
  global memory, its bytes, and the parameter block.

  Observability, TraceText: \<open>src/observability/observability.cpp\<close>, the trace ring, the counters,
  and the text of both.

  Warp, ExecCore, MemUnit, ControlUnit: \<open>units.h\<close> and \<open>src/units/\<close>, the state of a warp with its
  registers, and the three units, one definition per micro-operation, each taking the warp (and
  the memory) and giving the new state with a \<open>step_result\<close>.

  Instruction: \<open>src/instruction/descriptor_registry.cpp\<close> and \<open>expander.cpp\<close>.

  WarpSched, CtaSched: \<open>src/simt/warp_scheduler.cpp\<close>, \<open>src/runtime/cta_scheduler.cpp\<close>.

  ControlFlow, SimtStack, Simt, SimtRun, Reconvergence: \<open>src/simt/control_flow_analysis.cpp\<close> and
  \<open>src/simt/simt.cpp\<close>.  Bit sets, post-dominators and the reconvergence table; \<open>normalize_stack\<close>; one instruction of a warp (\<open>issue\<close>) and the loops over
  warps and CTAs (\<open>cta_round\<close>, \<open>cta_loop\<close>, \<open>run_one_cta\<close>, \<open>serial_loop\<close>,
  \<open>simt_run_serial\<close>); what a whole run guarantees; the join frames of a run and the step limit.

  Text, PtxParser, ImageParser, PtxIsa: \<open>src/frontend/parser.cpp\<close>, \<open>binder.cpp\<close>,
  \<open>src/instruction/ptx_isa.cpp\<close>.  The parser to tokens, the parser to images, and the mapping.

  Runtime: \<open>src/runtime/runtime.cpp\<close>.  The record \<open>runtime\<close> has the configuration, the
  observability control, the memory and the host buffers; all entry points that run a kernel.

  WorkloadFile, Workload, Queues: \<open>src/runtime/workload.cpp\<close>.  The declarations and commands of a
  workload file, the queues of the streams with the events that were signalled, and the abstract
  machine of queues that the engine implements.

  CudaMem, Fatbin, CudaShim: \<open>cuda/src/cudart_shim/\<close>.  Error state, table of device allocations,
  call configurations and packing of arguments; extraction of PTX from fatbins, registries of
  modules and kernels; assets, context and the exported functions as steps on the record \<open>shim\<close>.

  Cli: \<open>src/apps/cli/main.cpp\<close>.  Arguments, modes, files, exit codes.

  What is shown.

  Executor: a run without diagnostic that ends below the step limit has executed every thread of
  every CTA (C1); each instruction keeps the partition of the lanes into frames and exited lanes
  (C2); the reconvergence table is the table of immediate post-dominators by paths (C5); the
  lanes of a diverging warp always find the join frame of their branch (C28); a run that the step
  limit stops is reported as completed (C27).  An inner join frame at the reconvergence point of
  the enclosing branch is executed instead of merged (\<open>nested_divergence_splits_the_warp\<close>).  The
  micro-operations compute their scalar functions in the lanes of the mask and change nothing
  else (C19, C21), with products and shifts as those of integers; shuffles deliver the value of the
  source lane in its segment, except for \<open>.idx\<close> in place (C20); stores are read back (C22); inside
  the window of 4096 bytes that each thread has, local memory is private (C23).  The schedulers
  are safe and fair (C24, C25), no CTA is handed out twice (C26).

  Memory and data: allocation and global memory (C16, C17), the trace ring (C18), JSON text
  (C29, C31), the files of a run, whose numbers come back as their printed, possibly
  rounded, form is read (C30).

  Front end: the targets of the branches of a kernel (C33), parameter layout (C34), the agreement
  of the two parsers (C35), the mapping of an instruction (C32), the origin of each configuration
  value (C39).

  Whole programs: a launch through the CUDA shim that reports success (C3) and a run of the
  command line that exits with 0 (C4) have run the named kernel over the whole grid; a workload
  ends completed, with the failed kernel, or in a deadlock that no other order would have avoided
  (C6), keeps the order of each stream (C7), passes the arguments on (C8) and always returns
  (C38).  In every reachable state of the shim, whatever the environment of each call, the tables are
  consistent and no call that needs the context works without a runtime (C12); unregistering
  withdraws exactly the kernels of a container (C13); a failed initialisation is final for all
  calls that need the context (C14).  The shim copies and
  packs arguments faithfully (C9 to C11) and gets the PTX out of a container (C15); a malformed
  container makes it loop for ever (C40).  Host buffers (C37) and dimensions on the command
  line (C36).

  Interfaces.  A locale stands where one part relies on another, and each is interpreted on the
  model's own operations: \<open>byte_memory\<close> (global memory as \<open>glob\<close>, sparse local memory as
  \<open>loc\<close>), \<open>bounded_log\<close> (the trace ring as \<open>ring\<close>), \<open>warp_scheduler\<close> (both schedulers as
  \<open>in_order\<close> and \<open>round_robin\<close>, and the selected one as \<open>sched\<close>, on which the executor rests),
  \<open>work_distributor\<close> (the selected CTA scheduler as \<open>cta\<close>), \<open>monotone_queues\<close> (the workload
  engine as \<open>wl\<close>).

  Bounds and fuel.  The JSON reader takes as fuel the length of the text and one more, which
  bounds the nesting, and \<open>parse_returns\<close> shows that it is always enough.  The fixed point of
  the post-dominators is iterated until nothing changes, with the limit of sweeps that the code
  has; \<open>postdom_loop_converges\<close> shows that it is not reached.  The loop over the rounds of a CTA is
  total, since every round uses up a step below the step limit of the configuration or ends a
  warp; the loop over the CTAs and the loop over the queues of a workload are
  \<open>partial_function (option)\<close>, where \<open>None\<close> is a run that never ends, and
  \<open>simt_run_serial_total\<close> and \<open>run_workload_total\<close> show that there is none.  \<open>simt_run_fuel\<close> evaluates concrete
  runs in the witnesses and is sound for \<open>simt_run_serial\<close> (\<open>simt_run_fuel_sound\<close>).  The loop
  over the entries of a fatbin is also partial, and there \<open>None\<close> does occur (C40).  Theorems on
  blocks of threads ask for at most \<open>2 ^ 31\<close> threads in a block, beyond which the 32-bit number of
  warps could wrap around.

  Parameters.  The arithmetic of \<open>float\<close> (record \<open>f32_ops\<close>, on bit patterns); the reading and
  printing of \<open>double\<close> and its conversions to and from integers; the iteration order of hash
  maps; the contents of files, environment variables and embedded assets; the extent of a mapped
  region of memory; the pointers that the C++ allocator returns; creating directories and opening
  files; the run with worker threads (below).  They are arguments or fields of \<open>rt_env\<close>,
  \<open>shim_env\<close>, \<open>num_fmt\<close> and \<open>cli_env\<close>, and a theorem that needs more of them says so in its
  hypotheses (\<open>num_ok\<close>: the printed form of a number is read as that number; \<open>num_read\<close>: it is
  read as the given one).

  Not modelled.  The mode with one worker thread per SM of \<open>simt.cpp\<close>, whose outcome depends on
  the scheduling of the host and which is the parameter \<open>en_parallel_run\<close>; theorems on runs ask
  for the single-threaded mode.  Mutexes: each guarded operation is one step.  One host thread
  calls the CUDA shim.  Exhaustion of memory.  The logs and dumps that environment variables turn
  on, \<open>__cudaRegisterFatBinaryEnd\<close> (which only logs), the writing of the trace by the shim (a
  parameter).  The generated file of embedded assets, the translation units without code
  (\<open>deps.cpp\<close>, \<open>engines.cpp\<close>), tests, demonstrations and scripts.
\<close>

end
